(* ===== verification/Prelude.thy ===== *)
theory Prelude
  imports Main "HOL-Library.Word"
begin

text \<open>
  Shared vocabulary of the development: the error values of the program, the
  sequencing operator for fallible computations, and generic lemmas on lists that
  several components use.

  Arrow functions return \<open>arrow::Status\<close> or \<open>arrow::Result\<close>; the macros
  \<open>ARROW_ASSIGN_OR_RAISE\<close> and \<open>ARROW_RETURN_NOT_OK\<close> return from the
  enclosing function at the first error. Such a function is modelled by a value of
  \<open>status + 'a\<close>, \<open>Inl\<close> being the error, and the macros by \<open>rbind\<close>. A C++
  exception is a value of \<open>cpp_exn\<close>, carried in the same way. The texts of the
  messages, which only reach the log, are not kept, except where they are sent to
  the peer (see the option parsers).
\<close>

text \<open>\<open>UndefinedBehaviour\<close> is not a status of the code: it marks the executions to
  which the C++ standard gives no meaning (a cast out of range, a null dereference, a read
  beyond the end), \<open>NoReturn\<close> a call that never returns, \<open>ThrownOutOfRange\<close> a \<open>std::out_of_range\<close> that leaves
  a function with a status as its result, so that the theorems can exclude or
  exhibit them.\<close>

datatype status =
    KeyError
  | TypeError
  | Invalid
  | IndexError
  | NotImplemented
  | ExecutionError
  | ThrownOutOfRange
  | UndefinedBehaviour
  | NoReturn

datatype cpp_exn =
    OutOfRange
  | EOFException
  | VarintTooLarge
  | VarintTooManyBytes
  | GroupParserException
  | GraphiteParserException
  | RegexError
  | RuntimeError
  | ComputeException
  | NullDereference
  | LengthError

type_synonym byte = "8 word"
type_synonym bytes = "8 word list"

section \<open>Sequencing of fallible computations\<close>

definition rbind :: "'e + 'a \<Rightarrow> ('a \<Rightarrow> 'e + 'b) \<Rightarrow> 'e + 'b" where
  "rbind m f = (case m of Inl e \<Rightarrow> Inl e | Inr x \<Rightarrow> f x)"

lemma rbind_simps [simp]:
  "rbind (Inl e) f = Inl e"
  "rbind (Inr x) f = f x"
  by (simp_all add: rbind_def)

lemma rbind_cong [fundef_cong]:
  assumes "m = m'" and "\<And>x. m' = Inr x \<Longrightarrow> f x = f' x"
  shows "rbind m f = rbind m' f'"
  using assms by (cases m') (simp_all add: rbind_def)

lemma rbind_eq_Inr_iff: "rbind m f = Inr y \<longleftrightarrow> (\<exists>x. m = Inr x \<and> f x = Inr y)"
  by (cases m) auto

lemma rbind_eq_Inl_iff: "rbind m f = Inl e \<longleftrightarrow> m = Inl e \<or> (\<exists>x. m = Inr x \<and> f x = Inl e)"
  by (cases m) auto

lemma rbind_assoc: "rbind (rbind m f) g = rbind m (\<lambda>x. rbind (f x) g)"
  by (cases m) auto

lemma rbind_Inr_right [simp]: "rbind m Inr = m"
  by (cases m) auto

lemma rbind_split:
  "P (rbind m f) \<longleftrightarrow> (\<forall>e. m = Inl e \<longrightarrow> P (Inl e)) \<and> (\<forall>x. m = Inr x \<longrightarrow> P (f x))"
  by (cases m) auto

text \<open>A range-based \<open>for\<close> loop whose body may return early: the results of the body
  in order, or the first error.\<close>

fun rmap :: "('a \<Rightarrow> 'e + 'b) \<Rightarrow> 'a list \<Rightarrow> 'e + 'b list" where
  "rmap f [] = Inr []"
| "rmap f (x # xs) = rbind (f x) (\<lambda>y. rbind (rmap f xs) (\<lambda>ys. Inr (y # ys)))"

text \<open>The same with a state threaded through the loop.\<close>

fun rfold :: "('a \<Rightarrow> 's \<Rightarrow> 'e + 's) \<Rightarrow> 'a list \<Rightarrow> 's \<Rightarrow> 'e + 's" where
  "rfold f [] s = Inr s"
| "rfold f (x # xs) s = rbind (f x s) (rfold f xs)"

lemma rmap_Inr_length: "rmap f xs = Inr ys \<Longrightarrow> length ys = length xs"
  by (induction xs arbitrary: ys) (auto simp: rbind_eq_Inr_iff)

lemma rmap_all_Inr:
  "(\<And>x. x \<in> set xs \<Longrightarrow> f x = Inr (g x)) \<Longrightarrow> rmap f xs = Inr (map g xs)"
  by (induction xs) auto

lemma rmap_nth:
  "rmap f xs = Inr ys \<Longrightarrow> i < length xs \<Longrightarrow> f (xs ! i) = Inr (ys ! i)"
  by (induction xs arbitrary: ys i) (auto simp: rbind_eq_Inr_iff less_Suc_eq_0_disj)

lemma rfold_append: "rfold f (xs @ ys) s = rbind (rfold f xs s) (rfold f ys)"
  by (induction xs arbitrary: s) (auto simp: rbind_assoc [symmetric] rbind_def split: sum.splits)

lemma rfold_Inr:
  "(\<And>x s. x \<in> set xs \<Longrightarrow> f x s = Inr (g x s)) \<Longrightarrow> rfold f xs s = Inr (fold g xs s)"
  by (induction xs arbitrary: s) auto

lemma rfold_cong:
  "(\<And>x s. x \<in> set xs \<Longrightarrow> f x s = g x s) \<Longrightarrow> rfold f xs s = rfold g xs s"
  by (induction xs arbitrary: s) (auto intro: rbind_cong)

lemma rfold_map: "rfold f (map g xs) s = rfold (\<lambda>x. f (g x)) xs s"
  by (induction xs arbitrary: s) (auto intro: rbind_cong)

lemma rfold_const: "(\<And>x. f x s = Inr s) \<Longrightarrow> rfold f xs s = Inr s"
  by (induction xs) simp_all

lemma fold_nth_upt: "fold (\<lambda>i. f (xs ! i)) [0..<length xs] s = fold f xs s"
proof -
  have "fold f (map ((!) xs) [0..<length xs]) s = fold f xs s" by (simp only: map_nth)
  then show ?thesis by (simp add: fold_map comp_def)
qed

lemma rfold_invariant:
  assumes "\<And>x s s'. I s \<Longrightarrow> f x s = Inr s' \<Longrightarrow> I s'"
    and "I s" and "rfold f xs s = Inr s'"
  shows "I s'"
  using assms(2,3) by (induction xs arbitrary: s) (auto simp: rbind_eq_Inr_iff dest: assms(1))

text \<open>A loop that may run for ever is a \<open>partial_function\<close> into \<open>option\<close>; not returning is its
  value \<open>None\<close>, and \<open>NoReturn\<close> for its caller.\<close>

definition returned :: "(status + 'a) option \<Rightarrow> status + 'a" where
  "returned r = (case r of None \<Rightarrow> Inl NoReturn | Some x \<Rightarrow> x)"

lemma returned_simps [simp]: "returned None = Inl NoReturn" "returned (Some x) = x"
  by (simp_all add: returned_def)

section \<open>Lists\<close>

lemma take_eq_append_iff_length:
  "n \<le> length xs \<Longrightarrow> take n (xs @ ys) = take n xs"
  by simp

lemma takeWhile_drop_Suc:
  "takeWhile P xs \<noteq> xs \<Longrightarrow>
   xs = takeWhile P xs @ (xs ! length (takeWhile P xs)) # drop (Suc (length (takeWhile P xs))) xs"
  by (metis Cons_nth_drop_Suc append_take_drop_id length_takeWhile_le
      nat_less_le takeWhile_eq_take take_all_iff)

end
