(* ===== verification/Uvarint.thy ===== *)
theory Uvarint
  imports Prelude
begin

unbundle bit_operations_syntax

text \<open>
  \<open>src/src/utils/uvarint_utils.cpp\<close>: the variable-length encoding of a
  \<open>uint32_t\<close> that frames the messages exchanged with Kapacitor. The output stream is
  the list of bytes written, the input stream the list of bytes still to be read; the
  decoder returns what is left of it. Bytes are \<open>8 word\<close>, values \<open>32 word\<close>, the shift
  counter is the \<open>uint8_t\<close> of the code.
\<close>

definition VARINT_MORE_MASK :: byte where "VARINT_MORE_MASK = push_bit 7 1"
definition VARINT_MASK :: byte where "VARINT_MASK = VARINT_MORE_MASK - 1"
definition UINT32_MASK :: "32 word" where "UINT32_MASK = - 1"
definition SHIFT_SIZE :: byte where "SHIFT_SIZE = 7"
definition PREVENT_MAX_SHIFT :: "32 word" where "PREVENT_MAX_SHIFT = 28"
definition MAX_SHIFT_FOR_UINT32 :: "32 word" where "MAX_SHIFT_FOR_UINT32 = 32"

text \<open>\<open>value & VARINT_MASK\<close>, narrowed to a byte.\<close>

definition low_bits :: "32 word \<Rightarrow> byte" where
  "low_bits value = ucast (value AND ucast VARINT_MASK)"

function encode_loop :: "byte \<Rightarrow> 32 word \<Rightarrow> bytes" where
  "encode_loop bits value =
     (if value > 0
      then (VARINT_MORE_MASK OR bits)
             # encode_loop (low_bits value) (drop_bit (unat SHIFT_SIZE) value)
      else [bits])"
  by pat_completeness auto
termination
proof (relation "measure (\<lambda>(bits, value). unat value)", goal_cases)
  case 1
  show ?case by simp
next
  case (2 bits v)
  have "unat (drop_bit 7 v) = unat v div 128"
    by (simp add: drop_bit_eq_div unat_div)
  moreover have "0 < unat v" using 2 by (simp add: word_greater_zero_iff unat_gt_0)
  ultimately show ?case by (simp add: SHIFT_SIZE_def)
qed

declare encode_loop.simps [simp del]

definition encode :: "32 word \<Rightarrow> bytes" where
  "encode value = encode_loop (low_bits value) (drop_bit (unat SHIFT_SIZE) value)"

fun decode_loop :: "bytes \<Rightarrow> 32 word \<Rightarrow> byte \<Rightarrow> (cpp_exn + 32 word) \<times> bytes" where
  "decode_loop [] result shift = (Inl EOFException, [])"
| "decode_loop (b # rest) result shift =
     (if PREVENT_MAX_SHIFT \<le> ucast shift \<and> drop_bit 4 (b AND VARINT_MASK) \<noteq> 0
      then (Inl VarintTooLarge, rest)
      else
        (let result = result OR push_bit (unat shift) (ucast (b AND VARINT_MASK)) in
         if b AND VARINT_MORE_MASK = 0 then (Inr (result AND UINT32_MASK), rest)
         else
           (let shift = shift + SHIFT_SIZE in
            if MAX_SHIFT_FOR_UINT32 \<le> ucast shift then (Inl VarintTooManyBytes, rest)
            else decode_loop rest result shift)))"

definition decode :: "bytes \<Rightarrow> (cpp_exn + 32 word) \<times> bytes" where
  "decode reader = decode_loop reader 0 0"

lemmas uvarint_consts =
  VARINT_MORE_MASK_def VARINT_MASK_def UINT32_MASK_def SHIFT_SIZE_def
  PREVENT_MAX_SHIFT_def MAX_SHIFT_FOR_UINT32_def

lemmas encode_eval = encode_def encode_loop.simps low_bits_def uvarint_consts

section \<open>Round trip\<close>

lemma bit_VARINT_MASK [simp]: "bit VARINT_MASK n \<longleftrightarrow> n < 7"
proof -
  have eq: "VARINT_MASK = mask 7" by (simp add: uvarint_consts mask_eq_exp_minus_1)
  show ?thesis unfolding eq bit_mask_iff by auto
qed

lemma bit_VARINT_MORE_MASK [simp]: "bit VARINT_MORE_MASK n \<longleftrightarrow> n = 7"
proof -
  have eq: "VARINT_MORE_MASK = 2 ^ 7" by (simp add: uvarint_consts)
  show ?thesis unfolding eq bit_exp_iff by auto
qed

lemma VARINT_MORE_MASK_nonzero [simp]: "VARINT_MORE_MASK \<noteq> 0"
  by (simp add: VARINT_MORE_MASK_def)

lemma unat_SHIFT_SIZE [simp]: "unat SHIFT_SIZE = 7"
  by (simp add: SHIFT_SIZE_def)

lemma bit_low_bits [simp]: "bit (low_bits w) n \<longleftrightarrow> n < 7 \<and> bit w n"
  by (auto simp: low_bits_def bit_simps)

lemma more_byte_low: "(VARINT_MORE_MASK OR low_bits w) AND VARINT_MASK = low_bits w"
  by (rule bit_word_eqI) (auto simp: bit_simps)

lemma low_bits_mask: "low_bits w AND VARINT_MASK = low_bits w"
  by (rule bit_word_eqI) (auto simp: bit_simps)

lemma low_bits_more: "low_bits w AND VARINT_MORE_MASK = 0"
  by (rule bit_word_eqI) (auto simp: bit_simps)

lemma more_byte_more: "(VARINT_MORE_MASK OR b) AND VARINT_MORE_MASK \<noteq> 0"
proof
  assume "(VARINT_MORE_MASK OR b) AND VARINT_MORE_MASK = 0"
  then have "\<not> bit ((VARINT_MORE_MASK OR b) AND VARINT_MORE_MASK) 7" by simp
  then show False by (simp add: bit_simps)
qed

text \<open>After \<open>s\<close> bits have been read, the accumulator holds the low \<open>s\<close> bits of the
  value and the remaining bytes are the encoding of the others.\<close>

lemma accumulate:
  fixes w :: "32 word"
  shows "take_bit s w OR push_bit s (ucast (low_bits (drop_bit s w))) = take_bit (s + 7) w"
  by (rule bit_word_eqI) (auto simp: bit_simps)

lemma take_bit_ge_len: "32 \<le> s \<Longrightarrow> take_bit s (w :: 32 word) = w"
  by (rule bit_word_eqI) (auto simp: bit_simps)

lemma high_bits_fit:
  "28 \<le> s \<Longrightarrow> drop_bit 4 (low_bits (drop_bit s (w :: 32 word)) AND VARINT_MASK) = 0"
  by (rule bit_word_eqI) (auto simp: bit_simps dest: bit_imp_le_length)

lemma drop_bit_zero_take_bit:
  assumes "drop_bit s (w :: 32 word) = 0"
  shows "take_bit s w = w"
proof (rule bit_word_eqI)
  fix n
  have "\<not> bit w n" if "s \<le> n"
    using assms that bit_drop_bit_eq [of s w] by (metis bit_0_eq bot_apply comp_apply le_add_diff_inverse bot_bool_def)
  then show "bit (take_bit s w) n = bit w n" by (cases "s \<le> n") (auto simp: bit_simps)
qed

text \<open>The shift counter at the \<open>k\<close>-th byte.\<close>

definition shift_at :: "nat \<Rightarrow> byte" where "shift_at k = of_nat (7 * k)"

lemma shift_at_facts:
  assumes "k \<le> 4"
  shows "unat (shift_at k) = 7 * k"
    and "PREVENT_MAX_SHIFT \<le> ucast (shift_at k) \<longleftrightarrow> k = 4"
    and "shift_at k + SHIFT_SIZE = shift_at (Suc k)"
    and "MAX_SHIFT_FOR_UINT32 \<le> ucast (shift_at (Suc k)) \<longleftrightarrow> k = 4"
proof -
  have "k = 0 \<or> k = 1 \<or> k = 2 \<or> k = 3 \<or> k = 4" using assms by arith
  then show "unat (shift_at k) = 7 * k"
    and "PREVENT_MAX_SHIFT \<le> ucast (shift_at k) \<longleftrightarrow> k = 4"
    and "shift_at k + SHIFT_SIZE = shift_at (Suc k)"
    and "MAX_SHIFT_FOR_UINT32 \<le> ucast (shift_at (Suc k)) \<longleftrightarrow> k = 4"
    by (elim disjE; simp add: shift_at_def uvarint_consts)+
qed

lemma decode_last_byte:
  assumes "k \<le> 4" and "drop_bit (7 * Suc k) w = 0"
  shows "decode_loop (low_bits (drop_bit (7 * k) w) # rest) (take_bit (7 * k) w) (shift_at k)
         = (Inr w, rest)"
proof -
  have "take_bit (7 * k + 7) w = w"
    using assms(2) drop_bit_zero_take_bit [of "7 * Suc k" w] by (simp add: add.commute)
  then show ?thesis
    using assms(1) high_bits_fit [of "7 * k" w]
    by (auto simp: shift_at_facts low_bits_mask low_bits_more accumulate UINT32_MASK_def)
qed

lemma decode_more_byte:
  assumes "k < 4"
  shows "decode_loop ((VARINT_MORE_MASK OR low_bits (drop_bit (7 * k) w)) # rest)
           (take_bit (7 * k) w) (shift_at k)
         = decode_loop rest (take_bit (7 * Suc k) w) (shift_at (Suc k))"
proof -
  have "7 * Suc k = 7 * k + 7" by simp
  then show ?thesis
    using assms accumulate [of "7 * k" w]
    by (simp only:) (simp add: shift_at_facts more_byte_low more_byte_more Let_def)
qed

lemma drop_bit_7_at: "drop_bit (unat SHIFT_SIZE) (drop_bit (7 * k) (w :: 32 word)) = drop_bit (7 * Suc k) w"
  by (simp add: add.commute)

lemma decode_encode_at:
  assumes "k \<le> 4"
  shows "decode_loop (encode_loop (low_bits (drop_bit (7 * k) w)) (drop_bit (7 * Suc k) w) @ rest)
           (take_bit (7 * k) w) (shift_at k) = (Inr w, rest)"
  using assms
proof (induction k rule: inc_induct)
  case base
  have "drop_bit (7 * Suc 4) w = 0" by (rule bit_word_eqI) (auto simp: bit_simps dest: bit_imp_le_length)
  then show ?case
    using decode_last_byte [of 4 w] by (subst encode_loop.simps) simp
next
  case (step k)
  show ?case
  proof (cases "drop_bit (7 * Suc k) w = 0")
    case True
    with step show ?thesis
      using decode_last_byte [of k w] by (subst encode_loop.simps) simp
  next
    case False
    with step.hyps have "encode_loop (low_bits (drop_bit (7 * k) w)) (drop_bit (7 * Suc k) w) =
        (VARINT_MORE_MASK OR low_bits (drop_bit (7 * k) w))
        # encode_loop (low_bits (drop_bit (7 * Suc k) w)) (drop_bit (7 * Suc (Suc k)) w)"
      by (subst encode_loop.simps) (simp only: drop_bit_7_at word_greater_zero_iff if_True simp_thms)
    with step show ?thesis by (simp only: append_Cons decode_more_byte)
  qed
qed

lemma decode_encode: "decode (encode w @ rest) = (Inr w, rest)"
  using decode_encode_at [of 0 w rest]
  by (simp add: decode_def encode_def shift_at_def)

section \<open>Shape of the code words, failures\<close>

lemma encode_loop_not_Nil [simp]: "encode_loop b v \<noteq> []"
  by (subst encode_loop.simps) simp

lemma encode_not_Nil [simp]: "encode v \<noteq> []"
  by (simp add: encode_def)

lemma encode_loop_length:
  "drop_bit (7 * n) v = 0 \<Longrightarrow> length (encode_loop b v) \<le> Suc n"
proof (induction n arbitrary: b v)
  case 0
  then show ?case by (subst encode_loop.simps) simp
next
  case (Suc n)
  have "drop_bit (7 * n) (drop_bit (unat SHIFT_SIZE) v) = 0"
    using Suc.prems by (simp add: add.commute)
  then have "length (encode_loop (low_bits v) (drop_bit (unat SHIFT_SIZE) v)) \<le> Suc n"
    by (rule Suc.IH)
  then show ?case by (subst encode_loop.simps) simp
qed

lemma encode_length: "1 \<le> length (encode v) \<and> length (encode v) \<le> 5"
proof -
  have "drop_bit (7 * 4) (drop_bit (unat SHIFT_SIZE) v) = 0"
    by (rule bit_word_eqI) (auto simp: bit_simps dest: bit_imp_le_length)
  then have "length (encode v) \<le> Suc 4"
    unfolding encode_def by (rule encode_loop_length)
  then show ?thesis by (cases "encode v") auto
qed

text \<open>All bytes but the last carry the continuation bit, the last does not.\<close>

definition continues :: "byte \<Rightarrow> bool" where
  "continues b \<longleftrightarrow> b AND VARINT_MORE_MASK \<noteq> 0"

lemma more_continues [simp]: "continues (VARINT_MORE_MASK OR b)"
  by (simp only: continues_def more_byte_more) simp

lemma encode_loop_continues:
  "\<not> continues b \<Longrightarrow> list_all continues (butlast (encode_loop b v)) \<and>
     \<not> continues (last (encode_loop b v))"
proof (induction b v rule: encode_loop.induct)
  case (1 b v)
  have "\<not> continues (low_bits v)" by (simp add: continues_def low_bits_more)
  with 1 show ?case
    by (auto simp: encode_loop.simps [of b v] more_continues)
qed

lemma encode_continues:
  "list_all continues (butlast (encode v)) \<and> \<not> continues (last (encode v))"
  unfolding encode_def
  by (rule encode_loop_continues) (simp add: continues_def low_bits_more)

lemma decode_loop_consumes:
  "decode_loop bs r s = (Inr v, rest) \<Longrightarrow> length rest < length bs"
  by (induction bs arbitrary: r s) (auto simp: Let_def intro: less_SucI split: if_splits)

lemma decode_consumes: "decode bs = (Inr v, rest) \<Longrightarrow> length rest < length bs"
  unfolding decode_def by (rule decode_loop_consumes)

lemma decode_loop_truncated:
  "list_all continues bs \<Longrightarrow> length bs + k \<le> 4 \<Longrightarrow>
   decode_loop bs r (shift_at k) = (Inl EOFException, [])"
proof (induction bs arbitrary: r k)
  case (Cons b bs)
  then have "k < 4" by simp
  with Cons show ?case by (simp add: shift_at_facts continues_def Let_def)
qed simp

text \<open>A message that ends inside a code word is an \<open>EOFException\<close>.\<close>

lemma decode_truncated:
  assumes "encode v = bs @ bs'" and "bs' \<noteq> []"
  shows "decode bs = (Inl EOFException, [])"
proof -
  have "butlast (encode v) = bs @ butlast bs'"
    using assms by (simp add: butlast_append)
  then have "list_all continues bs" using encode_continues [of v] by simp
  moreover have "length bs \<le> 4" using encode_length [of v] assms by (cases bs') auto
  ultimately show ?thesis
    using decode_loop_truncated [of bs 0 0] by (simp add: decode_def shift_at_def)
qed

text \<open>The decoder accepts at most five bytes: five bytes with the continuation bit
  are refused whatever they carry.\<close>

lemma decode_loop_too_long:
  "list_all continues bs \<Longrightarrow> length bs + k = 5 \<Longrightarrow> k \<le> 4 \<Longrightarrow>
   \<exists>e rest'. decode_loop (bs @ rest) r (shift_at k) = (Inl e, rest') \<and>
     (e = VarintTooLarge \<or> e = VarintTooManyBytes)"
proof (induction bs arbitrary: r k)
  case (Cons b bs)
  show ?case
  proof (cases "k = 4")
    case True
    moreover have "MAX_SHIFT_FOR_UINT32 \<le> ucast (shift_at 5)"
      using shift_at_facts(4) [of 4] by simp
    ultimately show ?thesis
      using Cons.prems by (auto simp: shift_at_facts continues_def Let_def)
  next
    case False
    then have "k \<le> 4" "k < 4" using Cons.prems(3) by auto
    moreover have "\<exists>e rest'. decode_loop (bs @ rest) r' (shift_at (Suc k)) = (Inl e, rest') \<and>
        (e = VarintTooLarge \<or> e = VarintTooManyBytes)" for r'
      using Cons.prems \<open>k < 4\<close> by (intro Cons.IH) auto
    ultimately show ?thesis using Cons.prems(1) by (simp add: shift_at_facts continues_def Let_def)
  qed
qed simp

lemma decode_five_continues:
  assumes "length bs = 5" and "list_all continues bs"
  shows "\<exists>e rest'. decode (bs @ rest) = (Inl e, rest') \<and>
           (e = VarintTooLarge \<or> e = VarintTooManyBytes)"
  using decode_loop_too_long [of bs 0 rest 0] assms by (simp add: decode_def shift_at_def)

section \<open>The interface of a self-delimiting code\<close>

text \<open>What the framing of messages needs of the code of their lengths: a code word is
  decoded whatever follows it, and the decoder recognises a cut code word.\<close>

locale prefix_codec =
  fixes enc :: "'v \<Rightarrow> 'b list" and dec :: "'b list \<Rightarrow> ('e + 'v) \<times> 'b list" and eof :: 'e
  assumes dec_enc: "dec (enc v @ rest) = (Inr v, rest)"
    and enc_not_Nil: "enc v \<noteq> []"
    and dec_cut: "enc v = bs @ bs' \<Longrightarrow> bs' \<noteq> [] \<Longrightarrow> dec bs = (Inl eof, [])"
begin

lemma enc_unique:
  assumes "enc v @ r = enc w @ r'"
  shows "v = w \<and> r = r'"
proof -
  have "dec (enc v @ r) = dec (enc w @ r')" using assms by (rule arg_cong)
  then show ?thesis unfolding dec_enc by simp
qed

lemma enc_inj: "enc v = enc w \<longleftrightarrow> v = w"
proof
  assume "enc v = enc w"
  then have "enc v @ [] = enc w @ []" by simp
  then show "v = w" by (rule enc_unique [THEN conjunct1])
qed simp

lemma stream_unique: "concat (map enc vs) = concat (map enc ws) \<Longrightarrow> vs = ws"
proof (induction vs arbitrary: ws)
  case Nil
  then show ?case by (cases ws) (auto simp: enc_not_Nil)
next
  case (Cons v vs)
  from Cons.prems obtain w ws' where ws: "ws = w # ws'"
    by (cases ws) (simp_all add: enc_not_Nil)
  from Cons.prems have "enc v @ concat (map enc vs) = enc w @ concat (map enc ws')"
    unfolding ws by simp
  then have eq: "v = w \<and> concat (map enc vs) = concat (map enc ws')" by (rule enc_unique)
  then have "vs = ws'" by (intro Cons.IH) (rule conjunct2)
  with eq ws show ?case by simp
qed

lemma not_proper_prefix:
  assumes "enc w = enc v @ r"
  shows "r = []"
proof -
  have "enc w @ [] = enc v @ r" using assms by simp
  then show ?thesis using enc_unique by metis
qed

end

interpretation uvarint: prefix_codec encode decode EOFException
  by unfold_locales (rule decode_encode encode_not_Nil | erule (1) decode_truncated)+

end
