(* ===== verification/Rw_Utils.thy ===== *)
theory Rw_Utils
  imports Uvarint
begin

text \<open>
  \<open>src/src/kapacitor_udf/utils/rw_utils.cpp\<close>: the reader that cuts the byte stream
  from Kapacitor into requests, and the writer of length-prefixed messages. One call of
  \<open>readRequests\<close> handles one chunk of the stream (the data of one \<open>DataEvent\<close>); what
  a chunk leaves over is kept in the two fields of the reader. The handler is the
  argument \<open>h\<close>: it gets the bytes of a request (which the code passes to
  protobuf's \<open>ParseFromString\<close> first) and its own state, and may throw.
\<close>

record reader =
  residual_request_data :: bytes
  residual_request_size :: nat

definition new_reader :: reader where
  "new_reader = \<lparr>residual_request_data = [], residual_request_size = 0\<rparr>"

lemma new_reader_simps [simp]:
  "residual_request_data new_reader = []" "residual_request_size new_reader = 0"
  by (simp_all add: new_reader_def)

type_synonym 's request_handler = "bytes \<Rightarrow> 's \<Rightarrow> 's \<times> cpp_exn option"

text \<open>The size of the next body: decoded from the stream, or left over from the
  previous chunk. The second component is the rest of the stream.\<close>

definition next_size :: "reader \<Rightarrow> bytes \<Rightarrow> (cpp_exn + nat) \<times> bytes" where
  "next_size rd input =
     (if residual_request_size rd = 0
      then (case decode input of (Inl e, rest) \<Rightarrow> (Inl e, rest) | (Inr n, rest) \<Rightarrow> (Inr (unat n), rest))
      else (Inr (residual_request_size rd mod 2 ^ 32), input))"

function readRequests_loop ::
  "'s request_handler \<Rightarrow> bytes \<Rightarrow> reader \<Rightarrow> 's \<Rightarrow> reader \<times> 's \<times> cpp_exn option" where
  "readRequests_loop h input rd s =
     (case next_size rd input of
        (Inl e, _) \<Rightarrow> (rd, s, if e = EOFException then None else Some e)
      | (Inr request_size, input) \<Rightarrow>
          (let gcount = min request_size (length input);
               request_data = take request_size input @ replicate (request_size - gcount) 0;
               request_data = residual_request_data rd @ request_data;
               rest = drop request_size input
           in
           if gcount < request_size
           then (\<lparr>residual_request_data = take gcount request_data,
                  residual_request_size = request_size - gcount\<rparr>, s, None)
           else
             (case h request_data s of
                (s, Some e) \<Rightarrow> (new_reader, s, Some e)
              | (s, None) \<Rightarrow> readRequests_loop h rest new_reader s)))"
  by pat_completeness auto
termination
proof (relation "measure (\<lambda>(h, input, rd, s).
         2 * length input + (if residual_request_size rd = 0 then 0 else 1))", goal_cases)
  case 1
  show ?case by simp
next
  case (2 h input rd s)
  then show ?case
    by (auto simp: next_size_def dest!: decode_consumes split: if_splits prod.splits sum.splits)
qed

declare readRequests_loop.simps [simp del]

definition readRequests ::
  "'s request_handler \<Rightarrow> bytes \<Rightarrow> reader \<Rightarrow> 's \<Rightarrow> reader \<times> 's \<times> cpp_exn option" where
  "readRequests h input_stream rd s = readRequests_loop h input_stream rd s"

text \<open>\<open>str.size()\<close> is narrowed to the \<open>uint32_t\<close> parameter of \<open>encode\<close>.\<close>

definition writeToStreamWithUvarintLength :: "bytes \<Rightarrow> bytes" where
  "writeToStreamWithUvarintLength str = encode (of_nat (length str)) @ str"

section \<open>Complete messages\<close>

text \<open>What a sequence of requests does to the handler: it stops at the first exception.\<close>

fun deliver :: "'s request_handler \<Rightarrow> bytes list \<Rightarrow> 's \<Rightarrow> 's \<times> cpp_exn option" where
  "deliver h [] s = (s, None)"
| "deliver h (f # fs) s =
     (case h f s of (s, Some e) \<Rightarrow> (s, Some e) | (s, None) \<Rightarrow> deliver h fs s)"

abbreviation messages :: "bytes list \<Rightarrow> bytes" where
  "messages fs \<equiv> concat (map writeToStreamWithUvarintLength fs)"

definition sendable :: "bytes \<Rightarrow> bool" where
  "sendable f \<longleftrightarrow> length f < 2 ^ 32"

lemma next_size_message:
  assumes "sendable f"
  shows "next_size new_reader (encode (of_nat (length f)) @ rest) = (Inr (length f), rest)"
proof -
  have "unat (of_nat (length f) :: 32 word) = length f"
    using assms by (simp add: sendable_def unat_of_nat)
  then show ?thesis by (simp add: next_size_def uvarint.dec_enc)
qed

lemma readRequests_message:
  assumes "sendable f"
  shows "readRequests_loop h (writeToStreamWithUvarintLength f @ rest) new_reader s =
    (case h f s of (s, Some e) \<Rightarrow> (new_reader, s, Some e)
                 | (s, None) \<Rightarrow> readRequests_loop h rest new_reader s)"
  using assms
  by (subst readRequests_loop.simps)
     (simp add: writeToStreamWithUvarintLength_def next_size_message)

lemma readRequests_empty: "readRequests_loop h [] new_reader s = (new_reader, s, None)"
  by (subst readRequests_loop.simps) (simp add: next_size_def decode_def)

lemma readRequests_messages:
  assumes "list_all sendable fs"
  shows "readRequests_loop h (messages fs @ rest) new_reader s =
    (case deliver h fs s of (s, Some e) \<Rightarrow> (new_reader, s, Some e)
                          | (s, None) \<Rightarrow> readRequests_loop h rest new_reader s)"
  using assms
  by (induction fs arbitrary: s) (simp_all add: readRequests_message split: prod.splits option.splits)

section \<open>A message cut by the end of a chunk\<close>

lemma readRequests_cut_body:
  assumes "sendable f" and "k < length f"
  shows "readRequests_loop h (encode (of_nat (length f)) @ take k f) new_reader s =
    (\<lparr>residual_request_data = take k f, residual_request_size = length f - k\<rparr>, s, None)"
  using assms
  by (subst readRequests_loop.simps) (simp add: next_size_message Let_def)

lemma readRequests_resume_body:
  assumes "sendable f" and "k < length f"
  shows "readRequests_loop h (drop k f @ rest)
      \<lparr>residual_request_data = take k f, residual_request_size = length f - k\<rparr> s =
    (case h f s of (s, Some e) \<Rightarrow> (new_reader, s, Some e)
                 | (s, None) \<Rightarrow> readRequests_loop h rest new_reader s)"
proof -
  have "(length f - k) mod 2 ^ 32 = length f - k"
    using assms by (intro mod_less) (simp add: sendable_def)
  then show ?thesis
    using assms by (subst readRequests_loop.simps) (simp add: next_size_def Let_def)
qed

lemma readRequests_cut_prefix:
  assumes "encode (of_nat (length f)) = c @ c'" and "c' \<noteq> []"
  shows "readRequests_loop h c new_reader s = (new_reader, s, None)"
  using uvarint.dec_cut [OF assms]
  by (subst readRequests_loop.simps) (simp add: next_size_def)

lemma readRequests_cut_again:
  assumes "length c < n" and "n < 2 ^ 32"
  shows "readRequests_loop h c \<lparr>residual_request_data = d, residual_request_size = n\<rparr> s =
    (\<lparr>residual_request_data = take (length c) (d @ c), residual_request_size = n - length c\<rparr>, s, None)"
  using assms by (subst readRequests_loop.simps) (simp add: next_size_def Let_def)

text \<open>Any number of chunks, until the handler throws.\<close>

fun feed :: "'s request_handler \<Rightarrow> bytes list \<Rightarrow> reader \<Rightarrow> 's \<Rightarrow> reader \<times> 's \<times> cpp_exn option" where
  "feed h [] rd s = (rd, s, None)"
| "feed h (c # cs) rd s =
     (case readRequests h c rd s of
        (rd, s, Some e) \<Rightarrow> (rd, s, Some e)
      | (rd, s, None) \<Rightarrow> feed h cs rd s)"

lemma feed_three_chunks:
  assumes "sendable f" and "f = a @ b @ c" and "a \<noteq> []" and "c \<noteq> []"
  shows "feed h [encode (of_nat (length f)) @ a, b, c] new_reader s =
    (case h (take (length b) (a @ b) @ c) s of
       (s, Some e) \<Rightarrow> (new_reader, s, Some e) | (s, None) \<Rightarrow> (new_reader, s, None))"
proof -
  have len: "length (b @ c) < 2 ^ 32" using assms by (simp add: sendable_def)
  have "readRequests_loop h (encode (of_nat (length f)) @ a) new_reader s =
      (\<lparr>residual_request_data = a, residual_request_size = length (b @ c)\<rparr>, s, None)"
    using readRequests_cut_body [OF assms(1), of "length a"] assms(2,4) by simp
  moreover have "readRequests_loop h b
        \<lparr>residual_request_data = a, residual_request_size = length (b @ c)\<rparr> s =
      (\<lparr>residual_request_data = take (length b) (a @ b), residual_request_size = length c\<rparr>, s, None)"
    using readRequests_cut_again [of b "length (b @ c)" h a s] len assms(4) by simp
  moreover have "length c mod 2 ^ 32 = length c" using len by simp
  then have "readRequests_loop h c
        \<lparr>residual_request_data = take (length b) (a @ b), residual_request_size = length c\<rparr> s =
      (case h (take (length b) (a @ b) @ c) s of
         (s, Some e) \<Rightarrow> (new_reader, s, Some e) | (s, None) \<Rightarrow> (new_reader, s, None))"
    using assms(4)
    by (subst readRequests_loop.simps) (simp add: next_size_def Let_def readRequests_empty)
  ultimately show ?thesis
    by (simp add: readRequests_def split: prod.splits option.splits)
qed

end
