(* ===== verification/String_Utils.thy ===== *)
theory String_Utils
  imports Prelude
begin

text \<open>
  \<open>src/src/utils/string_utils.cpp\<close>: splitting a string at a delimiter and joining
  strings. \<open>std::string::find\<close> and \<open>substr\<close> follow the C++ standard: \<open>find\<close>
  returns the least position from \<open>pos\<close> on at which the needle occurs (the needle
  may be empty) and \<open>npos\<close>, here \<open>None\<close>, otherwise; \<open>substr\<close> throws
  \<open>std::out_of_range\<close> when its position is beyond the end.
\<close>

function str_find :: "string \<Rightarrow> string \<Rightarrow> nat \<Rightarrow> nat option" where
  "str_find s d pos =
     (if length s < pos + length d then None
      else if take (length d) (drop pos s) = d then Some pos
      else str_find s d (Suc pos))"
  by pat_completeness auto
termination
  by (relation "measure (\<lambda>(s, d, pos). Suc (length s) - pos)") auto

declare str_find.simps [simp del]

lemma str_find_bounds: "str_find s d pos = Some n \<Longrightarrow> pos \<le> n \<and> n + length d \<le> length s"
proof (induction s d pos rule: str_find.induct)
  case (1 s d pos)
  then show ?case
    by (auto simp: str_find.simps [of s d pos] split: if_splits)
qed

definition substr_from :: "string \<Rightarrow> nat \<Rightarrow> cpp_exn + string" where
  "substr_from s pos = (if length s < pos then Inl OutOfRange else Inr (drop pos s))"

text \<open>The \<open>while\<close> loop of \<open>split\<close>; the cursor advances by one, whatever the
  length of the delimiter.\<close>

function split_loop :: "string \<Rightarrow> string \<Rightarrow> nat \<Rightarrow> string list \<Rightarrow> cpp_exn + string list" where
  "split_loop s d lst parts =
     (case str_find s d lst of
        Some nxt \<Rightarrow> split_loop s d (Suc nxt) (parts @ [take (nxt - lst) (drop lst s)])
      | None \<Rightarrow> rbind (substr_from s lst) (\<lambda>p. Inr (parts @ [p])))"
  by pat_completeness auto
termination
proof (relation "measure (\<lambda>(s, d, lst, parts). Suc (length s) - lst)", goal_cases)
  case 1
  show ?case by simp
next
  case (2 s d lst parts nxt)
  then have "lst \<le> nxt \<and> nxt + length d \<le> length s"
    by (intro str_find_bounds) simp
  then show ?case by auto
qed

declare split_loop.simps [simp del]

definition split :: "string \<Rightarrow> string \<Rightarrow> cpp_exn + string list" where
  "split s d = (if s = [] then Inr [] else split_loop s d 0 [])"

text \<open>\<open>concatenateStrings\<close> over a vector.\<close>

definition concatenateStrings :: "string list \<Rightarrow> string \<Rightarrow> string" where
  "concatenateStrings parts d =
     (if parts = [] then []
      else concat (map (\<lambda>p. p @ d) (butlast parts)) @ last parts)"

text \<open>\<open>concatenateStrings\<close> over an unordered set, given as the list of its elements in the order in which
  it is iterated over.\<close>

fun concatenateStrings_set :: "string list \<Rightarrow> string \<Rightarrow> string" where
  "concatenateStrings_set [] d = []"
| "concatenateStrings_set (p # ps) d = p @ (if ps = [] then [] else d) @ concatenateStrings_set ps d"

lemma concatenateStrings_set_vector: "concatenateStrings_set ps d = concatenateStrings ps d"
  by (induction ps) (auto simp: concatenateStrings_def)

section \<open>A reference definition for one-character delimiters\<close>

fun split_on :: "char \<Rightarrow> string \<Rightarrow> string list" where
  "split_on c [] = [[]]"
| "split_on c (x # xs) =
     (if x = c then [] # split_on c xs
      else (case split_on c xs of [] \<Rightarrow> [[x]] | p # ps \<Rightarrow> (x # p) # ps))"

lemma split_on_not_Nil [simp]: "split_on c xs \<noteq> []"
  by (cases xs) (auto split: list.splits)

lemma split_on_no_delim: "c \<notin> set xs \<Longrightarrow> split_on c xs = [xs]"
  by (induction xs) auto

lemma split_on_append:
  "c \<notin> set xs \<Longrightarrow> split_on c (xs @ c # ys) = xs # split_on c ys"
  by (induction xs) auto

lemma split_on_parts: "p \<in> set (split_on c xs) \<Longrightarrow> c \<notin> set p"
  by (induction xs arbitrary: p) (auto split: list.splits if_splits)

lemma str_find_char_None: "c \<notin> set (drop pos s) \<Longrightarrow> str_find s [c] pos = None"
proof (induction s "[c]" pos rule: str_find.induct)
  case (1 s pos)
  show ?case
  proof (cases "length s < pos + length [c]")
    case True
    then show ?thesis by (subst str_find.simps) simp
  next
    case False
    then have "drop pos s = s ! pos # drop (Suc pos) s" by (simp add: Cons_nth_drop_Suc)
    with "1.prems" False "1.hyps" show ?thesis by (subst str_find.simps) auto
  qed
qed

lemma str_find_char_Some:
  "drop pos s = xs @ c # ys \<Longrightarrow> c \<notin> set xs \<Longrightarrow> str_find s [c] pos = Some (pos + length xs)"
proof (induction xs arbitrary: pos)
  case Nil
  then have "pos < length s" using drop_eq_Nil2 [of pos s] by (simp add: not_le [symmetric])
  with Nil show ?case by (subst str_find.simps) auto
next
  case (Cons x xs)
  then have len: "pos < length s" using drop_eq_Nil2 [of pos s] by (simp add: not_le [symmetric])
  have "drop (Suc pos) s = xs @ c # ys"
    using Cons.prems(1) by (metis append_Cons drop_Suc list.sel(3) tl_drop)
  with Cons have "str_find s [c] (Suc pos) = Some (Suc pos + length xs)" by simp
  with Cons.prems len show ?case by (subst str_find.simps) auto
qed

lemma split_loop_char:
  "lst \<le> length s \<Longrightarrow> split_loop s [c] lst parts = Inr (parts @ split_on c (drop lst s))"
proof (induction s "[c]" lst parts rule: split_loop.induct)
  case (1 s lst parts)
  show ?case
  proof (cases "c \<in> set (drop lst s)")
    case False
    with "1.prems" show ?thesis
      by (subst split_loop.simps) (simp add: str_find_char_None substr_from_def split_on_no_delim)
  next
    case True
    then obtain xs ys where xs: "drop lst s = xs @ c # ys" "c \<notin> set xs"
      by (meson split_list_first)
    then have f: "str_find s [c] lst = Some (lst + length xs)"
      by (rule str_find_char_Some)
    have ys: "drop (Suc (lst + length xs)) s = ys"
      using arg_cong [OF xs(1), of "drop (Suc (length xs))"] by (simp add: add.commute)
    have "Suc (lst + length xs) \<le> length s"
      using arg_cong [OF xs(1), of length] by simp
    with "1.hyps" [OF f] f xs ys show ?thesis
      by (subst split_loop.simps) (simp add: split_on_append)
  qed
qed

lemma split_char: "split s [c] = Inr (if s = [] then [] else split_on c s)"
  by (simp add: split_def split_loop_char)

lemma concatenateStrings_simps [simp]:
  "concatenateStrings [] d = []"
  "concatenateStrings [p] d = p"
  "ps \<noteq> [] \<Longrightarrow> concatenateStrings (p # ps) d = p @ d @ concatenateStrings ps d"
  by (auto simp: concatenateStrings_def)

lemma concat_split_on: "concatenateStrings (split_on c s) [c] = s"
proof (induction s)
  case (Cons x xs)
  then show ?case
    by (cases "split_on c xs"; cases "tl (split_on c xs)") (auto simp: split_on_not_Nil)
qed simp

lemma split_on_concat:
  assumes "ps \<noteq> []" and "\<forall>p \<in> set ps. c \<notin> set p"
  shows "split_on c (concatenateStrings ps [c]) = ps"
  using assms
proof (induction ps)
  case (Cons p ps)
  then show ?case by (cases "ps = []") (auto simp: split_on_no_delim split_on_append)
qed simp

end
