(* ===== verification/Ordered_Map.thy ===== *)
theory Ordered_Map
  imports Prelude "HOL-Library.Char_ord" "HOL-Library.List_Lexorder"
begin

text \<open>
  \<open>std::map\<close> and the protobuf map fields: association lists in the order of their keys,
  the order in which the code iterates over them. Strings are compared as
  \<open>std::string\<close> does, by unsigned bytes. \<open>std::unordered_map\<close> is modelled in the
  same way; its iteration order is not specified by the standard, the sorted order stands
  for one of them. \<open>smap_put\<close> is \<open>m[k] = v\<close>, \<open>smap_emplace\<close> is \<open>m.emplace(k, v)\<close>,
  \<open>map_of\<close> is \<open>find\<close>.
\<close>

type_synonym ('k, 'v) smap = "('k \<times> 'v) list"

definition smap :: "('k::linorder, 'v) smap \<Rightarrow> bool" where
  "smap m \<longleftrightarrow> sorted_wrt (<) (map fst m)"

fun smap_put :: "'k::linorder \<Rightarrow> 'v \<Rightarrow> ('k, 'v) smap \<Rightarrow> ('k, 'v) smap" where
  "smap_put k v [] = [(k, v)]"
| "smap_put k v ((k', v') # m) =
     (if k < k' then (k, v) # (k', v') # m
      else if k = k' then (k, v) # m
      else (k', v') # smap_put k v m)"

definition smap_emplace :: "'k::linorder \<Rightarrow> 'v \<Rightarrow> ('k, 'v) smap \<Rightarrow> ('k, 'v) smap" where
  "smap_emplace k v m = (if map_of m k = None then smap_put k v m else m)"

definition smap_puts :: "('k::linorder \<times> 'v) list \<Rightarrow> ('k, 'v) smap \<Rightarrow> ('k, 'v) smap" where
  "smap_puts kvs m = fold (\<lambda>(k, v). smap_put k v) kvs m"

lemma smap_Nil [simp]: "smap []"
  by (simp add: smap_def)

lemma smap_Cons: "smap ((k, v) # m) \<longleftrightarrow> (\<forall>k' \<in> fst ` set m. k < k') \<and> smap m"
  by (simp add: smap_def)

lemma smap_distinct: "smap m \<Longrightarrow> distinct (map fst m)"
  unfolding smap_def by (simp add: strict_sorted_iff)

lemma map_of_smap_put [simp]: "map_of (smap_put k v m) = (map_of m)(k \<mapsto> v)"
  by (induction m) (auto simp: fun_eq_iff)

lemma fst_set_smap_put [simp]: "fst ` set (smap_put k v m) = insert k (fst ` set m)"
  by (induction k v m rule: smap_put.induct) (simp_all add: insert_commute)

lemma smap_smap_put [simp]: "smap m \<Longrightarrow> smap (smap_put k v m)"
proof (induction k v m rule: smap_put.induct)
  case (2 k v k' v' m)
  then have "\<forall>j \<in> fst ` set m. k' < j" by (simp add: smap_Cons)
  then have "k < k' \<longrightarrow> (\<forall>j \<in> fst ` set m. k < j)" by (meson less_trans)
  with 2 \<open>\<forall>j \<in> fst ` set m. k' < j\<close> show ?case
    by (auto simp: smap_Cons not_less_iff_gr_or_eq)
qed (simp add: smap_Cons)

lemma smap_smap_emplace [simp]: "smap m \<Longrightarrow> smap (smap_emplace k v m)"
  by (simp add: smap_emplace_def)

lemma map_of_smap_emplace:
  "map_of (smap_emplace k v m) = (case map_of m k of None \<Rightarrow> (map_of m)(k \<mapsto> v) | Some _ \<Rightarrow> map_of m)"
  by (auto simp: smap_emplace_def split: option.splits)

lemma map_of_above: "smap m \<Longrightarrow> \<forall>k' \<in> fst ` set m. k < k' \<Longrightarrow> map_of m k = None"
  by (auto simp: map_of_eq_None_iff)

text \<open>A sorted association list is determined by its lookup function.\<close>

lemma smap_ext:
  "smap m \<Longrightarrow> smap m' \<Longrightarrow> map_of m = map_of m' \<Longrightarrow> m = m'"
proof (induction m arbitrary: m')
  case Nil
  then show ?case by (cases m') (auto simp: fun_eq_iff split: if_splits)
next
  case (Cons x m)
  obtain k v where x: "x = (k, v)" by force
  have km: "\<forall>k' \<in> fst ` set m. k < k'" and m: "smap m" using Cons.prems(1) by (auto simp: x smap_Cons)
  have "m' \<noteq> []" using Cons.prems(3) by (auto simp: x fun_eq_iff split: if_splits)
  then obtain k' v' r where m': "m' = (k', v') # r" by (cases m') auto
  have kr: "\<forall>j \<in> fst ` set r. k' < j" and r: "smap r" using Cons.prems(2) by (auto simp: m' smap_Cons)
  have dom: "insert k (fst ` set m) = insert k' (fst ` set r)"
    using arg_cong [OF Cons.prems(3), of dom] unfolding dom_map_of_conv_image_fst by (simp add: x m')
  have "k = k'"
  proof (rule ccontr)
    assume "k \<noteq> k'"
    with dom have "k \<in> fst ` set r" "k' \<in> fst ` set m" by auto
    with km kr show False by (auto dest: less_asym)
  qed
  moreover from this have "v = v'" using Cons.prems(3) by (auto simp: x m' fun_eq_iff split: if_splits)
  moreover have "map_of m = map_of r"
  proof
    fix j
    show "map_of m j = map_of r j"
    proof (cases "j = k")
      case True
      then show ?thesis
        using map_of_above [OF m km] map_of_above [OF r kr] \<open>k = k'\<close> by simp
    next
      case False
      then show ?thesis using fun_cong [OF Cons.prems(3), of j] \<open>k = k'\<close> by (simp add: x m')
    qed
  qed
  then have "m = r" by (intro Cons.IH m r)
  ultimately show ?case by (simp add: x m')
qed

lemma smap_smap_puts [simp]: "smap m \<Longrightarrow> smap (smap_puts kvs m)"
  by (induction kvs arbitrary: m) (auto simp: smap_puts_def split: prod.splits)

section \<open>Keyed stores\<close>

text \<open>What the code relies on in a map: a lookup after an update, and that updates keep
  the representation invariant. The facts about sequences of updates follow.\<close>

locale keyed_store =
  fixes put :: "'k \<Rightarrow> 'v \<Rightarrow> 'm \<Rightarrow> 'm" and look :: "'m \<Rightarrow> 'k \<Rightarrow> 'v option" and inv :: "'m \<Rightarrow> bool"
  assumes look_put: "look (put k v m) = (look m)(k \<mapsto> v)"
    and inv_put: "inv m \<Longrightarrow> inv (put k v m)"
begin

lemma look_fold_notin:
  "k \<notin> fst ` set kvs \<Longrightarrow> look (fold (\<lambda>(k, v). put k v) kvs m) k = look m k"
  by (induction kvs arbitrary: m) (auto simp: look_put)

lemma look_fold_distinct:
  "distinct (map fst kvs) \<Longrightarrow> look (fold (\<lambda>(k, v). put k v) kvs m) = look m ++ map_of kvs"
proof (induction kvs arbitrary: m)
  case (Cons kv kvs)
  obtain k v where kv: "kv = (k, v)" by force
  then have "map_of kvs k = None" using Cons.prems by (simp add: map_of_eq_None_iff)
  with Cons kv show ?case
    by (auto simp: look_put map_add_def fun_eq_iff split: option.splits)
qed simp

lemma inv_fold: "inv m \<Longrightarrow> inv (fold (\<lambda>(k, v). put k v) kvs m)"
  by (induction kvs arbitrary: m) (auto simp: inv_put)

lemma put_commute: "k \<noteq> k' \<Longrightarrow> look (put k v (put k' v' m)) = look (put k' v' (put k v m))"
  by (auto simp: look_put)

end

interpretation ordered: keyed_store smap_put map_of smap
  by unfold_locales simp_all

text \<open>Storing the entries of a map in any order rebuilds it.\<close>

lemma smap_puts_permuted:
  assumes "smap m" and "set kvs = set m" and "distinct (map fst kvs)"
  shows "smap_puts kvs [] = m"
proof (rule smap_ext)
  show "smap (smap_puts kvs [])" by simp
  show "smap m" by (rule assms(1))
  have "map_of (smap_puts kvs []) = map_of kvs"
    unfolding smap_puts_def by (subst ordered.look_fold_distinct) (use assms(3) in simp_all)
  also have "\<dots> = map_of m"
    using assms by (intro map_of_inject_set [THEN iffD2]) (auto simp: smap_distinct)
  finally show "map_of (smap_puts kvs []) = map_of m" .
qed

end
