(* ===== verification/Double.thy ===== *)
theory Double
  imports Prelude "HOL-Library.Log_Nat" Complex_Main
begin

text \<open>
  The C++ type \<open>double\<close>, as IEEE 754 binary64 with rounding to nearest, ties to
  even. A finite value is the rational number it stands for; the two zeros are one value,
  since no modelled code divides by a double or prints one. Arithmetic is the exact
  rational result rounded by \<open>round64\<close>; comparisons with a NaN are false. The
  conversions to and from \<open>int64_t\<close> are those of the C++ standard: rounding from an
  integer, truncation towards zero to an integer, and undefined behaviour (\<open>None\<close>)
  when the truncated value is out of range.
\<close>

datatype double = NaN | PInf | NInf | Fin rat

section \<open>Rounding\<close>

text \<open>The exponent of the leading bit of a positive rational number.\<close>

definition ilog2 :: "rat \<Rightarrow> int" where
  "ilog2 x =
     (let (p, q) = quotient_of x; k = bitlen p - bitlen q
      in if 2 powi k \<le> x then k else k - 1)"

definition round_half_even :: "rat \<Rightarrow> int" where
  "round_half_even x =
     (let f = \<lfloor>x\<rfloor>; d = x - of_int f
      in if d < 1 / 2 then f else if 1 / 2 < d then f + 1 else if even f then f else f + 1)"

text \<open>The exponent of the last place of the result: 53 significant bits, not below
  the exponent of the smallest subnormal number.\<close>

definition ulp_exponent :: "rat \<Rightarrow> int" where
  "ulp_exponent x = max (ilog2 \<bar>x\<bar> - 52) (- 1074)"

definition round64 :: "rat \<Rightarrow> double" where
  "round64 x =
     (if x = 0 then Fin 0
      else let u = ulp_exponent x; n = round_half_even (x * 2 powi (- u))
           in if 971 < u \<or> u = 971 \<and> 2 ^ 53 \<le> \<bar>n\<bar> then (if 0 < x then PInf else NInf)
              else Fin (of_int n * 2 powi u))"

section \<open>Arithmetic and comparisons\<close>

fun dlt :: "double \<Rightarrow> double \<Rightarrow> bool" where
  "dlt NaN _ = False"
| "dlt _ NaN = False"
| "dlt PInf _ = False"
| "dlt _ NInf = False"
| "dlt (Fin x) (Fin y) = (x < y)"
| "dlt _ _ = True"

fun dle :: "double \<Rightarrow> double \<Rightarrow> bool" where
  "dle NaN _ = False"
| "dle _ NaN = False"
| "dle NInf _ = True"
| "dle _ PInf = True"
| "dle (Fin x) (Fin y) = (x \<le> y)"
| "dle _ _ = False"

definition dsign :: "double \<Rightarrow> int" where
  "dsign x = (case x of NaN \<Rightarrow> 0 | PInf \<Rightarrow> 1 | NInf \<Rightarrow> - 1
                | Fin r \<Rightarrow> (if 0 < r then 1 else if r < 0 then - 1 else 0))"

text \<open>An infinite operand: the product of the signs decides, a zero factor gives NaN.\<close>

definition dmul :: "double \<Rightarrow> double \<Rightarrow> double" where
  "dmul x y =
     (case (x, y) of
        (Fin a, Fin b) \<Rightarrow> round64 (a * b)
      | (NaN, _) \<Rightarrow> NaN
      | (_, NaN) \<Rightarrow> NaN
      | _ \<Rightarrow> (let s = dsign x * dsign y
              in if s = 0 then NaN else if 0 < s then PInf else NInf))"

text \<open>Division, used with finite non-zero divisors only (the length of a time unit).\<close>

text \<open>Addition: opposite infinities give NaN. Subtraction adds the negated operand.\<close>

definition dneg :: "double \<Rightarrow> double" where
  "dneg x = (case x of NaN \<Rightarrow> NaN | PInf \<Rightarrow> NInf | NInf \<Rightarrow> PInf | Fin a \<Rightarrow> Fin (- a))"

definition dadd :: "double \<Rightarrow> double \<Rightarrow> double" where
  "dadd x y =
     (case (x, y) of
        (Fin a, Fin b) \<Rightarrow> round64 (a + b)
      | (NaN, _) \<Rightarrow> NaN
      | (_, NaN) \<Rightarrow> NaN
      | (PInf, NInf) \<Rightarrow> NaN
      | (NInf, PInf) \<Rightarrow> NaN
      | (Fin _, z) \<Rightarrow> z
      | (z, _) \<Rightarrow> z)"

definition dsub :: "double \<Rightarrow> double \<Rightarrow> double" where
  "dsub x y = dadd x (dneg y)"

text \<open>Division by an integer, as \<open>delta / n\<close> with an integer \<open>n\<close> different from zero.\<close>

definition ddiv_rat :: "double \<Rightarrow> rat \<Rightarrow> double" where
  "ddiv_rat x d =
     (case x of Fin a \<Rightarrow> round64 (a / d) | NaN \<Rightarrow> NaN
      | PInf \<Rightarrow> (if 0 < d then PInf else NInf) | NInf \<Rightarrow> (if 0 < d then NInf else PInf))"

text \<open>\<open>std::min(a, b)\<close> is \<open>(b < a) ? b : a\<close>, \<open>std::max(a, b)\<close> is \<open>(a < b) ? b : a\<close>.\<close>

definition dmin :: "double \<Rightarrow> double \<Rightarrow> double" where
  "dmin a b = (if dlt b a then b else a)"

definition dmax :: "double \<Rightarrow> double \<Rightarrow> double" where
  "dmax a b = (if dlt a b then b else a)"

section \<open>Conversions\<close>

definition double_of_int :: "int \<Rightarrow> double" where
  "double_of_int n = round64 (of_int n)"

definition trunc_rat :: "rat \<Rightarrow> int" where
  "trunc_rat x = (if 0 \<le> x then \<lfloor>x\<rfloor> else \<lceil>x\<rceil>)"

definition INT64_MIN :: int where "INT64_MIN = - (2 ^ 63)"
definition INT64_MAX :: int where "INT64_MAX = 2 ^ 63 - 1"

definition int64_of_double :: "double \<Rightarrow> int option" where
  "int64_of_double x =
     (case x of
        Fin r \<Rightarrow> (if INT64_MIN \<le> trunc_rat r \<and> trunc_rat r \<le> INT64_MAX then Some (trunc_rat r) else None)
      | _ \<Rightarrow> None)"

section \<open>Facts about rounding\<close>

lemma bitlen_powi:
  fixes p :: int
  assumes "0 < p"
  shows "(2::rat) powi (bitlen p - 1) \<le> of_int p" and "of_int p < (2::rat) powi (bitlen p)"
proof -
  have b: "2 ^ nat (bitlen p - 1) \<le> p \<and> p < 2 ^ nat (bitlen p)"
    using assms by (rule bitlen_bounds)
  have "1 \<le> bitlen p" using bitlen_ge_iff_power [of 1 p] assms by simp
  then have e: "(2::rat) powi (bitlen p - 1) = of_int (2 ^ nat (bitlen p - 1))"
    "(2::rat) powi (bitlen p) = of_int (2 ^ nat (bitlen p))"
    by (simp_all add: power_int_def)
  show "(2::rat) powi (bitlen p - 1) \<le> of_int p" unfolding e of_int_le_iff using b by simp
  show "of_int p < (2::rat) powi (bitlen p)" unfolding e of_int_less_iff using b by simp
qed

lemma powi_pos [simp]: "(0::rat) < 2 powi k"
  by (simp add: zero_less_power_int)

lemma ilog2_bounds:
  assumes "0 < x"
  shows "2 powi (ilog2 x) \<le> x \<and> x < 2 powi (ilog2 x + 1)"
proof -
  obtain p q where pq: "quotient_of x = (p, q)" by force
  then have q: "0 < q" and x: "x = of_int p / of_int q"
    by (auto dest: quotient_of_denom_pos quotient_of_div)
  with assms have p: "0 < p" by (simp add: zero_less_divide_iff)
  let ?k = "bitlen p - bitlen q"
  have "x < 2 powi (bitlen p) / 2 powi (bitlen q - 1)"
    unfolding x using bitlen_powi [OF p] bitlen_powi [OF q] p q
    by (intro frac_less) auto
  also have "\<dots> = 2 powi (?k + 1)"
    by (subst power_int_diff [symmetric]) (simp_all add: algebra_simps)
  finally have up: "x < 2 powi (?k + 1)" .
  have "2 powi (?k - 1) = 2 powi (bitlen p - 1) / (2 powi (bitlen q) :: rat)"
    by (subst power_int_diff [symmetric]) (simp_all add: algebra_simps)
  also have "\<dots> \<le> x"
    unfolding x using bitlen_powi [OF p] bitlen_powi [OF q] p q
    by (intro frac_le) auto
  finally have lo: "2 powi (?k - 1) \<le> x" .
  show ?thesis using up lo by (auto simp: ilog2_def pq Let_def)
qed

lemma round_half_even_error: "\<bar>of_int (round_half_even x) - x\<bar> \<le> 1 / 2"
proof -
  have "of_int \<lfloor>x\<rfloor> \<le> x" "x < of_int \<lfloor>x\<rfloor> + 1" by linarith+
  then show ?thesis by (auto simp: round_half_even_def Let_def abs_le_iff)
qed

lemma round_half_even_of_int [simp]: "round_half_even (of_int n) = n"
  by (simp add: round_half_even_def)

lemma powi_cancel [simp]: "(2::rat) powi (- u) * 2 powi u = 1"
  by (simp add: power_int_minus)

lemma powi_mono: "a \<le> b \<Longrightarrow> (2::rat) powi a \<le> 2 powi b"
  by (rule power_int_increasing) auto

lemma powi_less_imp: "(2::rat) powi a < 2 powi b \<Longrightarrow> a < b"
  using powi_mono [of b a] by linarith

text \<open>Rounding changes a number by at most half a unit of its last place.\<close>

lemma round64_Fin_error:
  assumes "x \<noteq> 0" and "2 powi (- 1022) \<le> \<bar>x\<bar>" and "\<bar>x\<bar> < 2 ^ 1023"
  shows "\<exists>y. round64 x = Fin y \<and> \<bar>y - x\<bar> \<le> \<bar>x\<bar> / 2 ^ 53"
proof -
  let ?l = "ilog2 \<bar>x\<bar>" and ?u = "ulp_exponent x"
  let ?n = "round_half_even (x * 2 powi (- ?u))"
  have l: "2 powi ?l \<le> \<bar>x\<bar>" "\<bar>x\<bar> < 2 powi (?l + 1)"
    using ilog2_bounds [of "\<bar>x\<bar>"] assms(1) by auto
  have "(2::rat) powi ?l < 2 powi 1023" using l(1) assms(3) by simp
  then have "?l < 1023" by (rule powi_less_imp)
  have "(2::rat) powi (- 1022) < 2 powi (?l + 1)" using l(2) assms(2) by linarith
  then have "- 1022 < ?l + 1" by (rule powi_less_imp)
  then have u: "?u = ?l - 52" by (simp add: ulp_exponent_def)
  with \<open>?l < 1023\<close> have "?u < 971" by simp
  then have r: "round64 x = Fin (of_int ?n * 2 powi ?u)"
    using assms(1) by (simp add: round64_def Let_def)
  have "of_int ?n * 2 powi ?u - x = (of_int ?n - x * 2 powi (- ?u)) * 2 powi ?u"
    by (simp add: left_diff_distrib mult.assoc)
  then have "\<bar>of_int ?n * 2 powi ?u - x\<bar> = \<bar>of_int ?n - x * 2 powi (- ?u)\<bar> * 2 powi ?u"
    by (simp add: abs_mult)
  also have "\<dots> \<le> (1 / 2) * 2 powi ?u"
    by (intro mult_right_mono round_half_even_error) simp
  also have "\<dots> = 2 powi ?l / 2 ^ 53"
    unfolding u by (simp add: power_int_diff)
  also have "\<dots> \<le> \<bar>x\<bar> / 2 ^ 53" using l(1) by (simp add: divide_right_mono)
  finally show ?thesis using r by blast
qed

text \<open>Integers of up to 53 bits are exact.\<close>

lemma round64_of_int:
  assumes "\<bar>n\<bar> \<le> 2 ^ 53"
  shows "round64 (of_int n) = Fin (of_int n)"
proof (cases "n = 0")
  case True
  then show ?thesis by (simp add: round64_def)
next
  case False
  let ?x = "of_int n :: rat" and ?u = "ulp_exponent (of_int n)"
  have l: "2 powi (ilog2 \<bar>?x\<bar>) \<le> \<bar>?x\<bar>" "\<bar>?x\<bar> < 2 powi (ilog2 \<bar>?x\<bar> + 1)"
    using ilog2_bounds [of "\<bar>?x\<bar>"] False by auto
  have "\<bar>?x\<bar> \<le> 2 ^ 53" using assms by (simp flip: of_int_abs of_int_le_iff)
  show ?thesis
  proof (cases "\<bar>?x\<bar> = 2 ^ 53")
    case True
    then have "n = 2 ^ 53 \<or> n = - (2 ^ 53)" by (auto simp: abs_if split: if_splits)
    then show ?thesis by (elim disjE) (simp, code_simp)+
  next
    case ne: False
    with \<open>\<bar>?x\<bar> \<le> 2 ^ 53\<close> have "\<bar>?x\<bar> < 2 powi 53" by simp
    then have "ilog2 \<bar>?x\<bar> < 53" using l(1) powi_less_imp [of "ilog2 \<bar>?x\<bar>" 53] by linarith
    then have u: "?u \<le> 0" by (simp add: ulp_exponent_def)
    have "?x * 2 powi (- ?u) = of_int (n * 2 ^ nat (- ?u))" using u by (simp add: power_int_def)
    then have "round_half_even (?x * 2 powi (- ?u)) = n * 2 ^ nat (- ?u)"
      by (simp only: round_half_even_of_int)
    moreover have "of_int (n * 2 ^ nat (- ?u)) * 2 powi ?u = (?x * (2 powi (- ?u) * 2 powi ?u) :: rat)"
      using u by (simp add: power_int_def [of _ "- ?u"] mult.assoc)
    ultimately show ?thesis using False u by (simp add: round64_def Let_def del: mult_cancel_left1)
  qed
qed

section \<open>Facts about comparisons\<close>

lemma dle_refl [simp]: "dle x x \<longleftrightarrow> x \<noteq> NaN"
  by (cases x) auto

lemma dle_trans: "dle x y \<Longrightarrow> dle y z \<Longrightarrow> dle x z"
  by (cases x; cases y; cases z) auto

lemma dlt_iff_not_dle: "x \<noteq> NaN \<Longrightarrow> y \<noteq> NaN \<Longrightarrow> dlt x y \<longleftrightarrow> \<not> dle y x"
  by (cases x; cases y) auto

lemma dlt_imp_dle: "dlt x y \<Longrightarrow> dle x y"
  by (cases x; cases y) auto

lemma dlt_NaN [simp]: "\<not> dlt x NaN" "\<not> dle x NaN"
  by (cases x; simp)+

lemma dlt_irrefl [simp]: "\<not> dlt x x"
  by (cases x) auto

lemma dle_imp_not_NaN: "dle x y \<Longrightarrow> x \<noteq> NaN \<and> y \<noteq> NaN"
  by (cases x; cases y) auto

lemma dmin_dle: "x \<noteq> NaN \<Longrightarrow> y \<noteq> NaN \<Longrightarrow> dle (dmin x y) y"
  by (cases x; cases y) (auto simp: dmin_def)

lemma dmax_dle: "x \<noteq> NaN \<Longrightarrow> y \<noteq> NaN \<Longrightarrow> dle y (dmax x y)"
  by (cases x; cases y) (auto simp: dmax_def)

section \<open>Truncation after rounding\<close>

lemma trunc_rat_minus: "trunc_rat (- x) = - trunc_rat x"
  by (auto simp: trunc_rat_def ceiling_minus floor_minus)

lemma round_half_even_minus: "round_half_even (- x) = - round_half_even x"
proof -
  have "\<lfloor>- x\<rfloor> = - \<lceil>x\<rceil>" by (simp add: floor_minus)
  moreover have "\<lceil>x\<rceil> = (if x = of_int \<lfloor>x\<rfloor> then \<lfloor>x\<rfloor> else \<lfloor>x\<rfloor> + 1)" by (rule ceiling_altdef)
  ultimately show ?thesis by (auto simp: round_half_even_def Let_def)
qed

lemma round64_minus: "round64 (- x) = (case round64 x of Fin y \<Rightarrow> Fin (- y) | PInf \<Rightarrow> NInf | NInf \<Rightarrow> PInf | NaN \<Rightarrow> NaN)"
proof (cases "x = 0")
  case True
  then show ?thesis by (simp add: round64_def)
next
  case False
  have u: "ulp_exponent (- x) = ulp_exponent x" by (simp add: ulp_exponent_def)
  have n: "round_half_even (- x * 2 powi (- ulp_exponent x)) = - round_half_even (x * 2 powi (- ulp_exponent x))"
    by (simp only: mult_minus_left round_half_even_minus)
  define w where "w = ulp_exponent x"
  define k where "k = round_half_even (x * 2 powi (- w))"
  have "round64 x = (if 971 < w \<or> w = 971 \<and> 2 ^ 53 \<le> \<bar>k\<bar> then (if 0 < x then PInf else NInf)
                     else Fin (of_int k * 2 powi w))"
    using False by (simp only: round64_def Let_def w_def k_def if_False)
  moreover have "round64 (- x) =
      (if 971 < w \<or> w = 971 \<and> 2 ^ 53 \<le> \<bar>k\<bar> then (if 0 < - x then PInf else NInf)
       else Fin (of_int (- k) * 2 powi w))"
    using False n u
    by (simp only: round64_def Let_def w_def k_def if_False neg_equal_0_iff_equal abs_minus_cancel)
  ultimately show ?thesis using False by simp
qed

text \<open>A quotient of small integers, rounded and then truncated, is the truncated
  quotient: rounding never reaches the next integer.\<close>

lemma trunc_round_quotient_pos:
  fixes p q :: int
  assumes "0 \<le> p" and "p < 2 ^ 53" and "0 < q" and "q < 2 ^ 53"
  shows "\<exists>y. round64 (of_int p / of_int q) = Fin y \<and> trunc_rat y = p div q"
proof (cases "p = 0 \<or> q dvd p")
  case True
  then obtain k where k: "p = q * k" by (metis dvd_def mult_zero_right)
  then have x: "of_int p / of_int q = (of_int k :: rat)" using assms(3) by simp
  have "0 \<le> k" using assms(1,3) k by (simp add: zero_le_mult_iff)
  moreover have "k \<le> p" using k assms(3) \<open>0 \<le> k\<close> mult_right_mono [of 1 q k] by simp
  ultimately have "round64 (of_int k) = Fin (of_int k)" using assms(2) by (intro round64_of_int) simp
  with x k assms(3) \<open>0 \<le> k\<close> show ?thesis by (auto simp: trunc_rat_def)
next
  case False
  let ?x = "of_int p / of_int q :: rat" and ?m = "p div q" and ?r = "p mod q"
  have q0: "(0::rat) < of_int q" using assms(3) by simp
  have p0: "0 < p" using False assms(1) by simp
  have r: "1 \<le> ?r" "?r \<le> q - 1"
    using False assms(3) pos_mod_bound [of q p] pos_mod_sign [of q p]
    by (auto simp: dvd_eq_mod_eq_0 int_one_le_iff_zero_less order_less_le)
  have rp: "of_int p < (2 ^ 53 :: rat)" and rq: "of_int q < (2 ^ 53 :: rat)"
    using assms(2,4) of_int_less_iff [of p "2 ^ 53", where 'a = rat]
      of_int_less_iff [of q "2 ^ 53", where 'a = rat] by simp_all
  have rr: "of_int ?r \<le> (of_int q - 1 :: rat)"
    using r(2) by (metis of_int_1 of_int_diff of_int_le_iff)
  have p_eq: "of_int p = (of_int q * of_int ?m + of_int ?r :: rat)"
    by (metis mult_div_mod_eq of_int_add of_int_mult)
  have x: "?x = of_int ?m + of_int ?r / of_int q"
    unfolding p_eq using q0 by (simp add: add_divide_distrib)
  have lo: "of_int ?m + 1 / of_int q \<le> ?x"
    unfolding x using r(1) q0 by (simp add: divide_right_mono)
  have hi: "?x \<le> of_int ?m + 1 - 1 / of_int q"
  proof -
    have "of_int ?r / of_int q \<le> (of_int q - 1 :: rat) / of_int q"
      using rr q0 by (intro divide_right_mono) simp_all
    then show ?thesis unfolding x using q0 by (simp add: diff_divide_distrib)
  qed
  have "?x \<le> of_int p" using assms(3) p0 by (simp add: field_simps)
  then have xs: "?x < 2 ^ 53" using rp by linarith
  have "2 powi (- 1022) \<le> (2::rat) powi (- 53)" by (rule powi_mono) simp
  also have "\<dots> \<le> 1 / of_int q"
    using rq q0 by (simp add: power_int_minus field_simps)
  also have "\<dots> \<le> ?x" using q0 p0 by (simp add: divide_right_mono)
  finally have "2 powi (- 1022) \<le> \<bar>?x\<bar>" using p0 q0 by simp
  moreover have "\<bar>?x\<bar> < 2 ^ 1023"
    using xs p0 q0 power_strict_increasing [of 53 1023 "2::rat"] by simp
  moreover have "?x \<noteq> 0" using p0 q0 by simp
  ultimately obtain y where y: "round64 ?x = Fin y" "\<bar>y - ?x\<bar> \<le> \<bar>?x\<bar> / 2 ^ 53"
    using round64_Fin_error [of ?x] by blast
  have "\<bar>?x\<bar> / 2 ^ 53 < 1 / of_int q"
    using rp p0 q0 by (simp add: field_simps)
  then have "\<bar>y - ?x\<bar> < 1 / of_int q" using y(2) by linarith
  then have "of_int ?m < y" "y < of_int ?m + 1" using lo hi by linarith+
  moreover have "0 \<le> ?m" using assms(1,3) by (simp add: pos_imp_zdiv_nonneg_iff)
  ultimately have "\<lfloor>y\<rfloor> = ?m" "0 \<le> y" by (linarith, simp add: floor_unique)+
  with y(1) show ?thesis by (auto simp: trunc_rat_def)
qed

end
