(* ===== verification/Agent_Proto.thy ===== *)
theory Agent_Proto
  imports Ordered_Map Double
begin

text \<open>
  The messages of \<open>src/src/kapacitor_udf/udf.proto\<close> and
  \<open>src/src/metadata/metadata.proto\<close>. A \<open>oneof\<close> is a datatype whose \<open>None\<close>-like
  constructor is the unset case; the accessor of an unset member returns the default value
  of its type, as the generated code does. The wire format is protobuf's: the functions
  that serialize and parse are parameters wherever the code uses them.
\<close>

datatype ValueType = VT_BOOL | VT_INT | VT_DOUBLE | VT_STRING | VT_DURATION

datatype EdgeType = EDGE_STREAM | EDGE_BATCH

text \<open>The \<open>type\<close> field and the \<open>oneof value\<close> are independent fields of the message.\<close>

datatype value_oneof =
    ValueNotSet
  | BoolValue bool
  | IntValue int
  | DoubleValue double
  | StringValue string
  | DurationValue int

record OptionValue =
  ov_type :: ValueType
  ov_value :: value_oneof

definition intvalue :: "OptionValue \<Rightarrow> int" where
  "intvalue v = (case ov_value v of IntValue i \<Rightarrow> i | _ \<Rightarrow> 0)"

definition doublevalue :: "OptionValue \<Rightarrow> double" where
  "doublevalue v = (case ov_value v of DoubleValue d \<Rightarrow> d | _ \<Rightarrow> Fin 0)"

definition stringvalue :: "OptionValue \<Rightarrow> string" where
  "stringvalue v = (case ov_value v of StringValue s \<Rightarrow> s | _ \<Rightarrow> [])"

definition durationvalue :: "OptionValue \<Rightarrow> int" where
  "durationvalue v = (case ov_value v of DurationValue d \<Rightarrow> d | _ \<Rightarrow> 0)"

record Option =
  opt_name :: string
  opt_values :: "OptionValue list"

record Point =
  p_time :: int
  p_name :: string
  p_database :: string
  p_retentionPolicy :: string
  p_group :: string
  p_dimensions :: "string list"
  p_tags :: "(string, string) smap"
  p_fieldsDouble :: "(string, double) smap"
  p_fieldsInt :: "(string, int) smap"
  p_fieldsString :: "(string, string) smap"
  p_fieldsBool :: "(string, bool) smap"
  p_byName :: bool

record BeginBatch =
  bb_name :: string
  bb_group :: string
  bb_tags :: "(string, string) smap"
  bb_size :: int
  bb_byName :: bool

record EndBatch =
  eb_name :: string
  eb_group :: string
  eb_tmax :: int
  eb_tags :: "(string, string) smap"
  eb_byName :: bool

type_synonym PointBatch = "Point list"

text \<open>\<open>metadata.proto\<close>.\<close>

datatype ColumnType = UNKNOWN | TIME | MEASUREMENT | TAG | FIELD

record RecordBatchGroup =
  group_columns_names :: "string list"
  group_columns_values :: "string list"

definition empty_group :: RecordBatchGroup where
  "empty_group = \<lparr>group_columns_names = [], group_columns_values = []\<rparr>"

text \<open>\<open>ColumnType_Name\<close> and \<open>ColumnType_Parse\<close>, generated by protobuf from the enum.\<close>

fun ColumnType_Name :: "ColumnType \<Rightarrow> string" where
  "ColumnType_Name UNKNOWN = ''UNKNOWN''"
| "ColumnType_Name TIME = ''TIME''"
| "ColumnType_Name MEASUREMENT = ''MEASUREMENT''"
| "ColumnType_Name TAG = ''TAG''"
| "ColumnType_Name FIELD = ''FIELD''"

definition ColumnType_Parse :: "string \<Rightarrow> ColumnType option" where
  "ColumnType_Parse s = map_of (map (\<lambda>t. (ColumnType_Name t, t)) [UNKNOWN, TIME, MEASUREMENT, TAG, FIELD]) s"

lemma ColumnType_Parse_Name [simp]: "ColumnType_Parse (ColumnType_Name t) = Some t"
  by (cases t) (simp_all add: ColumnType_Parse_def)

section \<open>Requests and responses\<close>

datatype ('e) Response =
    ResponseNotSet
  | InfoResponse EdgeType EdgeType "(string, ValueType list) smap"
  | InitResponse bool "'e option"
  | KeepaliveResponse int
  | SnapshotResponse bytes
  | RestoreResponse bool "string option"
  | ErrorResponse string
  | ResponseBegin BeginBatch
  | ResponsePoint Point
  | ResponseEnd EndBatch

datatype Request =
    RequestNotSet
  | InfoRequest
  | InitRequest "Option list"
  | KeepaliveRequest int
  | SnapshotRequest
  | RestoreRequest bytes
  | RequestBegin BeginBatch
  | RequestPoint Point
  | RequestEnd EndBatch

end
