(* ===== verification/Grouping_Utils.thy ===== *)
theory Grouping_Utils
  imports String_Utils Agent_Proto
begin

text \<open>
  \<open>src/src/kapacitor_udf/utils/grouping_utils.cpp\<close> and
  \<open>constructGroupFromOrderedMap\<close> of \<open>src/src/metadata/grouping.cpp\<close>: the group string
  of Kapacitor (\<open>measurement\<close>, a newline, \<open>tag=value\<close> pairs separated by commas) and
  the group message of the library.
\<close>

definition constructGroupFromOrderedMap :: "(string, string) smap \<Rightarrow> RecordBatchGroup" where
  "constructGroupFromOrderedMap group_map =
     \<lparr>group_columns_names = map fst group_map, group_columns_values = map snd group_map\<rparr>"

definition newline :: char where "newline = CHR 0x0A"

text \<open>The loop of \<open>parse\<close> over the tag strings.\<close>

definition parse_tag :: "string \<Rightarrow> (string, string) smap \<Rightarrow> cpp_exn + (string, string) smap" where
  "parse_tag tag_value_string group_map =
     rbind (split tag_value_string ''='') (\<lambda>tag_value.
       case tag_value of
         [name, v] \<Rightarrow> Inr (smap_put name v group_map)
       | _ \<Rightarrow> Inl GroupParserException)"

definition parse :: "string \<Rightarrow> string \<Rightarrow> cpp_exn + RecordBatchGroup" where
  "parse group_string measurement_column_name =
     rbind (split group_string [newline]) (\<lambda>measurement_and_tags.
       if measurement_and_tags = [] then Inr empty_group
       else if 2 < length measurement_and_tags then Inl GroupParserException
       else
         (let (group_map, tags_index) =
                (if 1 < length measurement_and_tags
                 then (smap_put measurement_column_name (measurement_and_tags ! 0) [], 1)
                 else ([], 0))
          in rbind (split (measurement_and_tags ! tags_index) '','') (\<lambda>tag_values_strings.
               rbind (rfold parse_tag tag_values_strings group_map) (\<lambda>group_map.
                 Inr (constructGroupFromOrderedMap group_map)))))"

text \<open>The loop of \<open>encode\<close>; its state is the measurement prefix, the tag string built so
  far and \<open>first_tag_written\<close>. \<open>columns_names(i)\<close> beyond the end has no defined result.\<close>

definition encode_column ::
  "string \<Rightarrow> (string \<rightharpoonup> ColumnType) \<Rightarrow> string \<Rightarrow> string \<Rightarrow> string \<times> string \<times> bool \<Rightarrow> string \<times> string \<times> bool"
where
  "encode_column measurement_column_name column_types column_name column_value st =
     (let (measurement_prefix, tags, first_tag_written) = st in
      if column_name = measurement_column_name
      then (column_value @ [newline], tags, first_tag_written)
      else if column_types column_name = Some TAG
      then (measurement_prefix,
            tags @ (if first_tag_written then '','' else []) @ column_name @ ''='' @ column_value,
            True)
      else st)"

definition encode_group ::
  "RecordBatchGroup \<Rightarrow> string \<Rightarrow> (string \<rightharpoonup> ColumnType) \<Rightarrow> status + string"
where
  "encode_group grp measurement_column_name column_types =
     rbind
       (rfold (\<lambda>i st.
          if length (group_columns_names grp) \<le> i then Inl UndefinedBehaviour
          else Inr (encode_column measurement_column_name column_types
                 (group_columns_names grp ! i) (group_columns_values grp ! i) st))
        [0..<length (group_columns_values grp)] ([], [], False))
       (\<lambda>(measurement_prefix, tags, _). Inr (measurement_prefix @ tags))"

text \<open>\<open>parse\<close> of a point.\<close>

definition parse_point :: "Point \<Rightarrow> string \<Rightarrow> cpp_exn + RecordBatchGroup" where
  "parse_point point measurement_column_name =
     (let group_map = (if p_byName point then smap_put measurement_column_name (p_name point) [] else [])
      in rbind (rfold (\<lambda>dimension m.
             case map_of (p_tags point) dimension of
               None \<Rightarrow> Inl GroupParserException
             | Some v \<Rightarrow> Inr (smap_put dimension v m)) (p_dimensions point) group_map)
           (\<lambda>group_map. Inr (constructGroupFromOrderedMap group_map)))"

section \<open>Round trip\<close>

definition tag_string :: "string \<times> string \<Rightarrow> string" where
  "tag_string kv = fst kv @ ''='' @ snd kv"

text \<open>A string free of the characters the group string uses as separators.\<close>

definition clean :: "string \<Rightarrow> bool" where
  "clean s \<longleftrightarrow> newline \<notin> set s \<and> CHR '','' \<notin> set s \<and> CHR ''='' \<notin> set s"

text \<open>The maps of which the group string is a faithful rendering: every column but the
  measurement is a tag, and no separator occurs inside a name or a value.\<close>

definition encodable :: "(string \<rightharpoonup> ColumnType) \<Rightarrow> string \<Rightarrow> (string, string) smap \<Rightarrow> bool" where
  "encodable types meas m \<longleftrightarrow>
     smap m \<and>
     (\<forall>(k, v) \<in> set m. if k = meas then newline \<notin> set v
                       else types k = Some TAG \<and> clean k \<and> clean v)"

abbreviation tags_of :: "string \<Rightarrow> (string, string) smap \<Rightarrow> (string \<times> string) list" where
  "tags_of meas m \<equiv> filter (\<lambda>kv. fst kv \<noteq> meas) m"

abbreviation encode_columns where
  "encode_columns meas types \<equiv> fold (\<lambda>(k, v). encode_column meas types k v)"

lemma encode_group_construct:
  "encode_group (constructGroupFromOrderedMap m) meas types =
     (let (prefix, tags, _) = encode_columns meas types m ([], [], False) in Inr (prefix @ tags))"
proof -
  have "rfold (\<lambda>i st.
          if length (map fst m) \<le> i then Inl UndefinedBehaviour
          else Inr (encode_column meas types (map fst m ! i) (map snd m ! i) st))
        [0..<length m] ([], [], False)
      = Inr (fold (\<lambda>i. case m ! i of (k, v) \<Rightarrow> encode_column meas types k v) [0..<length m] ([], [], False))"
    by (rule rfold_Inr) (auto split: prod.splits)
  also have "\<dots> = Inr (encode_columns meas types m ([], [], False))"
    using fold_nth_upt [of "\<lambda>(k, v). encode_column meas types k v" m] by simp
  finally have r: "rfold (\<lambda>i st.
          if length (map fst m) \<le> i then Inl UndefinedBehaviour
          else Inr (encode_column meas types (map fst m ! i) (map snd m ! i) st))
        [0..<length (map snd m)] ([], [], False) = Inr (encode_columns meas types m ([], [], False))"
    by simp
  show ?thesis
    unfolding encode_group_def constructGroupFromOrderedMap_def RecordBatchGroup.select_convs r
    by (simp add: split_beta)
qed

lemma encode_columns_result:
  assumes "distinct (map fst m)" and "\<And>k v. (k, v) \<in> set m \<Longrightarrow> k \<noteq> meas \<Longrightarrow> types k = Some TAG"
  shows "encode_columns meas types m (p, t, f) =
    (case map_of m meas of None \<Rightarrow> p | Some v \<Rightarrow> v @ [newline],
     t @ (if f then concat (map (\<lambda>kv. '','' @ tag_string kv) (tags_of meas m))
          else concatenateStrings (map tag_string (tags_of meas m)) '',''),
     f \<or> tags_of meas m \<noteq> [])"
  using assms
proof (induction m arbitrary: p t f)
  case Nil
  then show ?case by simp
next
  case (Cons kv m)
  obtain k v where kv: "kv = (k, v)" by force
  have j: "concatenateStrings (x # xs) '','' = x @ concat (map (\<lambda>y. '','' @ y) xs)" for x xs
    by (induction xs arbitrary: x) auto
  have IH: "encode_columns meas types m (p, t, f) =
      (case map_of m meas of None \<Rightarrow> p | Some v \<Rightarrow> v @ [newline],
       t @ (if f then concat (map (\<lambda>kv. '','' @ tag_string kv) (tags_of meas m))
            else concatenateStrings (map tag_string (tags_of meas m)) '',''),
       f \<or> tags_of meas m \<noteq> [])" for p t f
    using Cons.prems by (intro Cons.IH) auto
  show ?case
  proof (cases "k = meas")
    case True
    then have "map_of m meas = None" using Cons.prems(1) kv by (simp add: map_of_eq_None_iff)
    moreover have "encode_column meas types k v (p, t, f) = (v @ [newline], t, f)"
      using True by (simp add: encode_column_def)
    ultimately show ?thesis using True by (simp add: kv IH)
  next
    case False
    then have "types k = Some TAG" using Cons.prems(2) [of k v] kv by simp
    with False have "encode_column meas types k v (p, t, f) =
        (p, t @ (if f then '','' else []) @ tag_string (k, v), True)"
      by (simp add: encode_column_def tag_string_def)
    with False show ?thesis by (simp add: kv IH j comp_def)
  qed
qed

lemma split_clean: "CHR ''='' \<notin> set k \<Longrightarrow> CHR ''='' \<notin> set v \<Longrightarrow> split (k @ ''='' @ v) ''='' = Inr [k, v]"
  by (simp add: split_char split_on_append split_on_no_delim)

lemma rfold_parse_tag:
  assumes "\<forall>(k, v) \<in> set kvs. clean k \<and> clean v"
  shows "rfold parse_tag (map tag_string kvs) m = Inr (smap_puts kvs m)"
  using assms
proof (induction kvs arbitrary: m)
  case Nil
  then show ?case by (simp add: smap_puts_def)
next
  case (Cons kv kvs)
  then have "parse_tag (tag_string kv) m = Inr (smap_put (fst kv) (snd kv) m)"
    using split_clean [of "fst kv" "snd kv"]
    by (auto simp: parse_tag_def tag_string_def clean_def split: prod.splits)
  with Cons show ?case by (simp add: smap_puts_def split: prod.splits)
qed

lemma concatenateStrings_set:
  "set (concatenateStrings ps d) \<subseteq> \<Union> (set ` set ps) \<union> set d"
  by (induction ps) (auto simp: concatenateStrings_def split: if_splits dest: in_set_butlastD)

text \<open>The tag part alone: joined with commas and split again.\<close>

lemma split_tags:
  assumes "\<forall>(k, v) \<in> set kvs. clean k \<and> clean v"
  shows "split (concatenateStrings (map tag_string kvs) '','') '','' = Inr (map tag_string kvs)"
    and "newline \<notin> set (concatenateStrings (map tag_string kvs) '','')"
proof -
  have c: "\<forall>p \<in> set (map tag_string kvs). CHR '','' \<notin> set p \<and> newline \<notin> set p"
    using assms by (auto simp: tag_string_def clean_def newline_def)
  show "split (concatenateStrings (map tag_string kvs) '','') '','' = Inr (map tag_string kvs)"
  proof (cases kvs)
    case Nil
    then show ?thesis by (simp add: split_def)
  next
    case (Cons kv kvs')
    then have "concatenateStrings (map tag_string kvs) '','' \<noteq> []"
      by (cases kvs') (auto simp: tag_string_def)
    moreover have "split_on (CHR '','') (concatenateStrings (map tag_string kvs) '','') = map tag_string kvs"
      using c Cons by (intro split_on_concat) auto
    ultimately show ?thesis by (simp add: split_char)
  qed
  show "newline \<notin> set (concatenateStrings (map tag_string kvs) '','')"
    using c concatenateStrings_set [of "map tag_string kvs" "'',''"] by (auto simp: newline_def)
qed

lemma split_newline:
  assumes "newline \<notin> set body"
  shows "split body [newline] = Inr (if body = [] then [] else [body])"
    and "newline \<notin> set v \<Longrightarrow> split (v @ newline # body) [newline] = Inr [v, body]"
  using assms by (simp_all add: split_char split_on_no_delim split_on_append)

lemma parse_encoded:
  assumes "encodable types meas m"
  shows "\<exists>s. encode_group (constructGroupFromOrderedMap m) meas types = Inr s \<and>
             parse s meas = Inr (constructGroupFromOrderedMap m)"
proof -
  let ?ts = "tags_of meas m"
  let ?body = "concatenateStrings (map tag_string ?ts) '',''"
  have m: "smap m" using assms by (simp add: encodable_def)
  have cl: "\<forall>(k, v) \<in> set ?ts. clean k \<and> clean v" using assms by (auto simp: encodable_def)
  note body = split_tags [OF cl]
  have enc: "encode_group (constructGroupFromOrderedMap m) meas types =
      Inr ((case map_of m meas of None \<Rightarrow> [] | Some v \<Rightarrow> v @ [newline]) @ ?body)"
  proof -
    have "encode_columns meas types m ([], [], False) =
        (case map_of m meas of None \<Rightarrow> [] | Some v \<Rightarrow> v @ [newline], [] @ ?body, False \<or> ?ts \<noteq> [])"
      by (subst encode_columns_result) (use assms smap_distinct [OF m] in \<open>auto simp: encodable_def\<close>)
    then show ?thesis by (simp add: encode_group_construct)
  qed
  show ?thesis
  proof (cases "map_of m meas")
    case None
    then have ts: "?ts = m" by (auto simp: filter_id_conv map_of_eq_None_iff)
    have "parse ?body meas = Inr (constructGroupFromOrderedMap m)"
    proof (cases "m = []")
      case True
      then show ?thesis
        by (simp add: parse_def split_def empty_group_def constructGroupFromOrderedMap_def)
    next
      case False
      then have "?body \<noteq> []" using ts by (cases m; cases "tl m") (auto simp: tag_string_def)
      moreover have "smap_puts m [] = m" using m by (intro smap_puts_permuted) (auto simp: smap_distinct)
      ultimately show ?thesis
        using body rfold_parse_tag [OF cl, of "[]"] ts by (simp add: parse_def split_newline)
    qed
    with None enc show ?thesis by simp
  next
    case (Some v)
    then have mem: "(meas, v) \<in> set m" by (rule map_of_SomeD)
    then have v: "newline \<notin> set v" using assms by (auto simp: encodable_def)
    have "smap_puts ((meas, v) # ?ts) [] = m"
    proof (rule smap_puts_permuted [OF m])
      show "set ((meas, v) # ?ts) = set m"
        using mem map_of_is_SomeI [OF smap_distinct [OF m]] Some by fastforce
      show "distinct (map fst ((meas, v) # ?ts))"
        using smap_distinct [OF m] by (auto simp: distinct_map inj_on_def)
    qed
    then have p: "smap_puts ?ts (smap_put meas v []) = m" by (simp add: smap_puts_def)
    have "parse (v @ newline # ?body) meas = Inr (constructGroupFromOrderedMap m)"
      using body rfold_parse_tag [OF cl, of "smap_put meas v []"] p v
      by (simp add: parse_def split_newline del: smap_put.simps)
    with Some enc show ?thesis by simp
  qed
qed

section \<open>What \<open>parse\<close> accepts\<close>

text \<open>A parsed group lists distinct columns in increasing order, one value each.\<close>

definition wf_group :: "RecordBatchGroup \<Rightarrow> bool" where
  "wf_group g \<longleftrightarrow> length (group_columns_names g) = length (group_columns_values g) \<and>
                 sorted_wrt (<) (group_columns_names g)"

lemma wf_construct [simp]: "smap m \<Longrightarrow> wf_group (constructGroupFromOrderedMap m)"
  by (simp add: wf_group_def constructGroupFromOrderedMap_def smap_def)

lemma parse_tag_smap:
  assumes "parse_tag t m = Inr m'" and "smap m"
  shows "smap m'"
proof -
  obtain ps where "(case ps of [name, v] \<Rightarrow> Inr (smap_put name v m) | _ \<Rightarrow> Inl GroupParserException) = Inr m'"
    using assms(1) by (auto simp: parse_tag_def rbind_eq_Inr_iff)
  with assms(2) show ?thesis by (auto split: list.splits)
qed

lemma rfold_parse_tag_smap: "rfold parse_tag ts m = Inr m' \<Longrightarrow> smap m \<Longrightarrow> smap m'"
  by (induction ts arbitrary: m) (auto simp: rbind_eq_Inr_iff dest: parse_tag_smap)

lemma wf_empty_group [simp]: "wf_group empty_group"
  by (simp add: wf_group_def empty_group_def)

lemma parse_wf:
  assumes "parse s meas = Inr g"
  shows "wf_group g"
proof -
  have fin: "wf_group (constructGroupFromOrderedMap m)" if "rfold parse_tag ts m0 = Inr m" "smap m0"
    for ts m0 m
    using that by (simp add: rfold_parse_tag_smap)
  have start: "smap (smap_put meas x [])" for x by (rule smap_smap_put [OF smap_Nil])
  obtain parts where p: "split s [newline] = Inr parts"
    using assms by (auto simp: parse_def rbind_eq_Inr_iff)
  show ?thesis
  proof (cases "parts = [] \<or> 2 < length parts")
    case True
    with assms p show ?thesis by (cases "parts = []") (simp_all add: parse_def)
  next
    case False
    show ?thesis
    proof (cases "1 < length parts")
      case True
      with False assms p show ?thesis
        by (auto simp: parse_def rbind_eq_Inr_iff simp del: smap_put.simps intro: fin start)
    next
      case one: False
      with False assms p show ?thesis
        by (auto simp: parse_def rbind_eq_Inr_iff simp del: smap_put.simps intro: fin smap_Nil)
    qed
  qed
qed

text \<open>The loop of \<open>parse\<close> over the dimensions of a point.\<close>

lemma rfold_dimensions_smap:
  "rfold (\<lambda>dimension m. case tags dimension of None \<Rightarrow> Inl e | Some v \<Rightarrow> Inr (smap_put dimension v m)) ds m
     = Inr m' \<Longrightarrow> smap m \<Longrightarrow> smap m'"
  by (induction ds arbitrary: m) (auto simp: rbind_eq_Inr_iff split: option.splits simp del: smap_put.simps)

lemma parse_point_wf:
  assumes "parse_point p meas = Inr g"
  shows "wf_group g"
proof -
  let ?m = "if p_byName p then smap_put meas (p_name p) [] else []"
  have "smap ?m" by (simp del: smap_put.simps add: smap_smap_put)
  moreover obtain m where "rfold (\<lambda>dimension m. case map_of (p_tags p) dimension of
      None \<Rightarrow> Inl GroupParserException | Some v \<Rightarrow> Inr (smap_put dimension v m)) (p_dimensions p) ?m = Inr m"
    and g: "g = constructGroupFromOrderedMap m"
    using assms unfolding parse_point_def Let_def rbind_eq_Inr_iff by blast
  ultimately have "smap m" by (blast intro: rfold_dimensions_smap)
  with g show ?thesis by simp
qed

text \<open>More than one newline is refused, and so is a tag without exactly one equals sign.\<close>

lemma parse_two_newlines:
  assumes "newline \<notin> set a" and "newline \<notin> set b"
  shows "parse (a @ newline # b @ newline # c) meas = Inl GroupParserException"
proof -
  have "split (a @ newline # b @ newline # c) [newline] = Inr (a # b # split_on newline c)"
    using assms by (simp add: split_char split_on_append)
  moreover have "2 < length (a # b # split_on newline c)" by (cases "split_on newline c") auto
  ultimately show ?thesis by (simp add: parse_def)
qed

end
