(* ===== verification/Time_Utils.thy ===== *)
theory Time_Utils
  imports Double
begin

text \<open>
  \<open>src/src/utils/time_utils.cpp\<close>: conversion of a count of time units into another
  unit. The code goes through \<open>std::chrono::duration<double, P>\<close>: the count is
  converted to a double, scaled by the quotient of the two periods, compared with the
  limits of the target type (themselves converted to double) and truncated. A
  \<open>std::ratio\<close> is the pair of its numerator and denominator.
\<close>

datatype TimeUnit = NANO | MICRO | MILLI | SECOND | MINUTE | HOUR | DAY | WEEK

text \<open>\<open>arrow::TimeUnit\<close>.\<close>

datatype arrow_unit = UNIT_SECOND | UNIT_MILLI | UNIT_MICRO | UNIT_NANO

definition SECONDS_IN_DAY :: int where "SECONDS_IN_DAY = 86400"
definition SECONDS_IN_WEEK :: int where "SECONDS_IN_WEEK = 604800"

fun unit_period :: "TimeUnit \<Rightarrow> int \<times> int" where
  "unit_period NANO = (1, 1000000000)"
| "unit_period MICRO = (1, 1000000)"
| "unit_period MILLI = (1, 1000)"
| "unit_period SECOND = (1, 1)"
| "unit_period MINUTE = (60, 1)"
| "unit_period HOUR = (3600, 1)"
| "unit_period DAY = (SECONDS_IN_DAY, 1)"
| "unit_period WEEK = (SECONDS_IN_WEEK, 1)"

definition ratio_divide :: "int \<times> int \<Rightarrow> int \<times> int \<Rightarrow> int \<times> int" where
  "ratio_divide p q =
     (let n = fst p * snd q; d = snd p * fst q; g = gcd n d in (n div g, d div g))"

text \<open>The conversion of a \<open>duration<int64_t, P>\<close> to \<open>duration<double, Q>\<close>:
  \<open>std::chrono::duration_cast\<close> multiplies and divides only where the factor is not one.\<close>

definition doubled_duration :: "int \<times> int \<Rightarrow> int \<times> int \<Rightarrow> int \<Rightarrow> double" where
  "doubled_duration p q count =
     (let (n, d) = ratio_divide p q; x = double_of_int count
      in if n = 1 \<and> d = 1 then x
         else if d = 1 then dmul x (double_of_int n)
         else if n = 1 then ddiv_rat x (of_int d)
         else ddiv_rat (dmul x (double_of_int n)) (of_int d))"

definition checkedConvert :: "int \<times> int \<Rightarrow> int \<times> int \<Rightarrow> int \<Rightarrow> status + int" where
  "checkedConvert p q count =
     (let doubled = doubled_duration p q count
      in if dlt doubled (double_of_int INT64_MIN) \<or> dlt (double_of_int INT64_MAX) doubled
         then Inl TypeError
         else (case int64_of_double doubled of None \<Rightarrow> Inl UndefinedBehaviour | Some t \<Rightarrow> Inr t))"

definition convertToTimeUnit :: "TimeUnit \<Rightarrow> int \<Rightarrow> TimeUnit \<Rightarrow> status + int" where
  "convertToTimeUnit from count to = checkedConvert (unit_period from) (unit_period to) count"

definition convertTime :: "int \<Rightarrow> TimeUnit \<Rightarrow> TimeUnit \<Rightarrow> status + int" where
  "convertTime time from to = (if from = to then Inr time else convertToTimeUnit from time to)"

fun mapArrowTimeUnit :: "arrow_unit \<Rightarrow> TimeUnit" where
  "mapArrowTimeUnit UNIT_NANO = NANO"
| "mapArrowTimeUnit UNIT_MICRO = MICRO"
| "mapArrowTimeUnit UNIT_MILLI = MILLI"
| "mapArrowTimeUnit UNIT_SECOND = SECOND"

section \<open>Exactness on small counts\<close>

text \<open>Division truncating towards zero, as in C++.\<close>

definition trunc_div :: "int \<Rightarrow> int \<Rightarrow> int" where
  "trunc_div a b = sgn a * (\<bar>a\<bar> div b)"

abbreviation unit_ratio :: "TimeUnit \<Rightarrow> TimeUnit \<Rightarrow> int \<times> int" where
  "unit_ratio from to \<equiv> ratio_divide (unit_period from) (unit_period to)"

text \<open>Of two different units one is a multiple of the other, by less than \<open>2 ^ 50\<close>.\<close>

definition scaling :: "int \<times> int \<Rightarrow> bool" where
  "scaling r \<longleftrightarrow> (snd r = 1 \<or> fst r = 1) \<and> 0 < fst r \<and> fst r < 2 ^ 50 \<and> 0 < snd r \<and> snd r < 2 ^ 50"

lemma scaling_unit_ratio: "scaling (unit_ratio from to)"
  by (cases "from"; cases to; hypsubst; code_simp)

lemma unit_ratio_swap: "unit_ratio to from = prod.swap (unit_ratio from to)"
  by (simp add: ratio_divide_def Let_def gcd.commute mult.commute)

lemma unit_ratio_self [simp]: "unit_ratio u u = (1, 1)"
  by (cases u; hypsubst; code_simp)

lemma double_of_int_small: "\<bar>n\<bar> \<le> 2 ^ 53 \<Longrightarrow> double_of_int n = Fin (of_int n)"
  by (simp add: double_of_int_def round64_of_int)

lemma int64_limits: "double_of_int INT64_MIN = Fin (- (2 ^ 63))" "double_of_int INT64_MAX = Fin (2 ^ 63)"
  by code_simp+

lemma trunc_rat_of_int [simp]: "trunc_rat (of_int n) = n"
  by (simp add: trunc_rat_def)

lemma trunc_round_quotient:
  fixes p q :: int
  assumes "\<bar>p\<bar> < 2 ^ 53" and "0 < q" and "q < 2 ^ 53"
  shows "\<exists>y. round64 (of_int p / of_int q) = Fin y \<and> trunc_rat y = trunc_div p q"
proof (cases "0 \<le> p")
  case True
  then show ?thesis
    using trunc_round_quotient_pos [of p q] assms
    by (cases "p = 0") (auto simp: trunc_div_def)
next
  case False
  then obtain y where "round64 (of_int (- p) / of_int q) = Fin y" "trunc_rat y = (- p) div q"
    using trunc_round_quotient_pos [of "- p" q] assms by auto
  then have "round64 (- (of_int p / of_int q)) = Fin y" by simp
  then have "round64 (of_int p / of_int q) = Fin (- y)"
    using round64_minus [of "- (of_int p / of_int q)"] by simp
  then show ?thesis
    using False \<open>trunc_rat y = (- p) div q\<close> by (auto simp: trunc_rat_minus trunc_div_def)
qed

lemma checkedConvert_Fin:
  assumes "doubled_duration p q count = Fin y" and "\<bar>trunc_rat y\<bar> < 2 ^ 53"
  shows "checkedConvert p q count = Inr (trunc_rat y)"
proof -
  have "of_int \<bar>trunc_rat y\<bar> < (2 ^ 53 :: rat)"
    using assms(2) of_int_less_iff [of "\<bar>trunc_rat y\<bar>" "2 ^ 53", where 'a = rat] by simp
  moreover have "\<bar>y\<bar> \<le> of_int \<bar>trunc_rat y\<bar> + 1"
    unfolding trunc_rat_def by (cases "0 \<le> y") (simp_all, linarith+)
  ultimately have "\<bar>y\<bar> < 2 ^ 53 + 1" by linarith
  then have "\<bar>y\<bar> < 2 ^ 63" by simp
  then have "- (2 ^ 63) < y" "y < 2 ^ 63" unfolding abs_less_iff by linarith+
  then have "\<not> dlt (Fin y) (Fin (- (2 ^ 63)))" "\<not> dlt (Fin (2 ^ 63)) (Fin y)" by simp_all
  moreover have "int64_of_double (Fin y) = Some (trunc_rat y)"
    using assms(2) by (auto simp: int64_of_double_def INT64_MIN_def INT64_MAX_def)
  ultimately show ?thesis
    by (simp only: checkedConvert_def int64_limits Let_def assms(1) simp_thms if_False option.case)
qed

text \<open>What the conversion is meant to compute.\<close>

definition exact_convert :: "int \<Rightarrow> TimeUnit \<Rightarrow> TimeUnit \<Rightarrow> int" where
  "exact_convert time from to = (let (n, d) = unit_ratio from to in trunc_div (time * n) d)"

lemma trunc_div_1 [simp]: "trunc_div a 1 = a"
  by (simp add: trunc_div_def sgn_mult_abs)

lemma doubled_duration_exact:
  assumes "scaling (ratio_divide p q)" and "ratio_divide p q = (n, d)" and "\<bar>count * n\<bar> < 2 ^ 53"
  shows "\<exists>y. doubled_duration p q count = Fin y \<and> trunc_rat y = trunc_div (count * n) d"
proof -
  have nd: "0 < n" "0 < d" "n < 2 ^ 50" "d < 2 ^ 50" "d = 1 \<or> n = 1"
    using assms(1,2) by (simp_all add: scaling_def)
  have "\<bar>count\<bar> \<le> \<bar>count * n\<bar>" using nd(1) by (simp add: abs_mult mult_le_cancel_left1)
  then have c: "double_of_int count = Fin (of_int count)"
    using assms(3) by (intro double_of_int_small) linarith
  show ?thesis
  proof (cases "d = 1")
    case True
    have n: "double_of_int n = Fin (of_int n)" using nd by (intro double_of_int_small) simp
    have "round64 (of_int (count * n)) = Fin (of_int (count * n))"
      using assms(3) by (intro round64_of_int) simp
    then have "doubled_duration p q count = Fin (of_int (count * n))"
      using True assms(2) c n by (auto simp: doubled_duration_def dmul_def Let_def)
    with True show ?thesis by (metis trunc_div_1 trunc_rat_of_int)
  next
    case False
    then have "n = 1" using nd by simp
    moreover have "\<bar>count\<bar> < 2 ^ 53" using assms(3) \<open>n = 1\<close> by simp
    ultimately show ?thesis
      using False assms(2) c nd trunc_round_quotient [of count d]
      by (simp add: doubled_duration_def ddiv_rat_def)
  qed
qed

lemma trunc_div_le: "0 < d \<Longrightarrow> \<bar>trunc_div a d\<bar> \<le> \<bar>a\<bar>"
  using zdiv_mono2 [of "\<bar>a\<bar>" 1 d]
  by (auto simp: trunc_div_def abs_mult sgn_if pos_imp_zdiv_nonneg_iff)

lemma convertTime_small:
  assumes "\<bar>time * fst (unit_ratio from to)\<bar> < 2 ^ 53"
  shows "convertTime time from to = Inr (exact_convert time from to)"
proof -
  obtain n d where r: "unit_ratio from to = (n, d)" by force
  with scaling_unit_ratio [of "from" to] have d: "0 < d" "0 < n" by (simp_all add: scaling_def)
  obtain y where y: "doubled_duration (unit_period from) (unit_period to) time = Fin y"
      "trunc_rat y = trunc_div (time * n) d"
    using doubled_duration_exact [OF scaling_unit_ratio r] assms r by auto
  have "checkedConvert (unit_period from) (unit_period to) time = Inr (trunc_div (time * n) d)"
    using checkedConvert_Fin [OF y(1)] trunc_div_le [OF d(1), of "time * n"] assms y(2) r by simp
  moreover have "trunc_div (time * n) d = time" if "from = to"
    using r that by simp
  ultimately show ?thesis
    using r by (auto simp: convertTime_def convertToTimeUnit_def exact_convert_def)
qed

text \<open>To a finer unit and back: the identity, as long as the finer count is exact.\<close>

lemma convertTime_roundtrip:
  assumes "snd (unit_ratio from to) = 1" and "\<bar>time * fst (unit_ratio from to)\<bar> < 2 ^ 53"
  shows "rbind (convertTime time from to) (\<lambda>t. convertTime t to from) = Inr time"
proof -
  obtain n where r: "unit_ratio from to = (n, 1)" using assms(1) by (cases "unit_ratio from to") auto
  with scaling_unit_ratio [of "from" to] have n: "0 < n" by (simp add: scaling_def)
  have r': "unit_ratio to from = (1, n)" using unit_ratio_swap [of to "from"] r by simp
  have "convertTime time from to = Inr (time * n)"
    using convertTime_small [OF assms(2)] r by (simp add: exact_convert_def)
  moreover have "convertTime (time * n) to from = Inr (trunc_div (time * n) n)"
    using convertTime_small [of "time * n" to "from"] assms(2) r r' by (simp add: exact_convert_def)
  moreover have "trunc_div (time * n) n = time"
    using n by (simp add: trunc_div_def abs_mult sgn_mult sgn_mult_abs)
  ultimately show ?thesis by simp
qed

section \<open>Counts out of range\<close>

text \<open>A product that exceeds the range by more than the rounding is refused.\<close>

lemma convertTime_overflow:
  assumes "snd (unit_ratio from to) = 1" and "\<bar>time\<bar> \<le> 2 ^ 53"
    and "2 ^ 63 + 2 ^ 11 \<le> time * fst (unit_ratio from to)"
  shows "convertTime time from to = Inl TypeError"
proof -
  obtain n where r: "unit_ratio from to = (n, 1)" using assms(1) by (cases "unit_ratio from to") auto
  with scaling_unit_ratio [of "from" to] have n: "0 < n" "n < 2 ^ 50" by (simp_all add: scaling_def)
  have n1: "n \<noteq> 1" using assms(2,3) r by auto
  have "time * n \<le> 2 ^ 53 * 2 ^ 50" using assms(2) n by (intro mult_mono) auto
  then have up: "of_int (time * n) \<le> (2 ^ 103 :: rat)"
    using of_int_le_iff [of "time * n" "2 ^ 103", where 'a = rat] by simp
  have lo: "2 ^ 63 + 2 ^ 11 \<le> (of_int (time * n) :: rat)"
    using assms(3) r of_int_le_iff [of "2 ^ 63 + 2 ^ 11" "time * n", where 'a = rat] by simp
  have "\<exists>y. round64 (of_int (time * n)) = Fin y \<and>
           \<bar>y - of_int (time * n)\<bar> \<le> \<bar>of_int (time * n)\<bar> / 2 ^ 53"
  proof (rule round64_Fin_error)
    have "2 powi (- 1022) \<le> (2 :: rat) powi 0" by (rule powi_mono) simp
    then show "2 powi (- 1022) \<le> \<bar>of_int (time * n) :: rat\<bar>" using lo by simp
    have "(2 ^ 103 :: rat) < 2 ^ 1023" by (rule power_strict_increasing) auto
    then show "\<bar>of_int (time * n) :: rat\<bar> < 2 ^ 1023"
      using le_less_trans [OF up] lo by simp
  qed (use lo in auto)
  then obtain y where y: "round64 (of_int (time * n)) = Fin y"
      "\<bar>y - of_int (time * n)\<bar> \<le> of_int (time * n) / 2 ^ 53"
    using lo by auto
  have "2 ^ 63 < y"
  proof -
    have "of_int (time * n) - of_int (time * n) / 2 ^ 53 \<le> y" using y(2) by linarith
    moreover have "(2 ^ 63 :: rat) < of_int (time * n) - of_int (time * n) / 2 ^ 53"
      using lo by (simp add: field_simps)
    ultimately show ?thesis by linarith
  qed
  moreover have "double_of_int time = Fin (of_int time)" "double_of_int n = Fin (of_int n)"
    using assms(2) n by (auto intro!: double_of_int_small)
  then have "doubled_duration (unit_period from) (unit_period to) time = Fin y"
    using r y(1) n1 by (simp add: doubled_duration_def dmul_def)
  moreover have "from \<noteq> to"
    using r n1 by auto
  ultimately show ?thesis
    by (simp add: convertTime_def convertToTimeUnit_def checkedConvert_def int64_limits Let_def)
qed

end
