(* ===== verification/Handler_Options.thy ===== *)
theory Handler_Options
  imports Agent_Proto Time_Utils
begin

text \<open>
  The option structures of the record batch handlers
  (\<open>src/src/record_batch_handlers/\<close>) and what the option parsers of the request handlers
  (\<open>src/src/kapacitor_udf/request_handlers/\<close>) share: the exceptions they throw, the
  conversion of Kapacitor's durations, look-ups in constant maps. Durations are
  \<open>std::chrono\<close> counts, here integers.
\<close>

record WindowOptions =
  wo_period :: int
  wo_every :: int
  wo_fill_period :: bool

record DynamicWindowOptions =
  period_column_name :: "string option"
  every_column_name :: "string option"

record ThresholdOptions =
  watch_column_name :: string
  threshold_column_name :: string
  default_threshold :: double
  increase_scale_factor :: double
  increase_after :: int
  decrease_trigger_factor :: double
  decrease_scale_factor :: double
  decrease_after :: int
  min_threshold :: double
  max_threshold :: double
  threshold_column_type :: ColumnType

definition double_max :: double where
  "double_max = Fin ((2 ^ 53 - 1) * 2 ^ 971)"

text \<open>The members with a default initializer; the others keep what the memory held.\<close>

definition threshold_defaults :: "ThresholdOptions \<Rightarrow> ThresholdOptions" where
  "threshold_defaults memory = memory\<lparr>watch_column_name := [], threshold_column_name := [],
     decrease_trigger_factor := Fin 0, decrease_scale_factor := Fin 0, decrease_after := 0,
     min_threshold := Fin 0, max_threshold := double_max, threshold_column_type := FIELD\<rparr>"

record DerivativeCase =
  values_column_name :: string
  der_order :: nat

record DerivativeOptions =
  unit_time_segment :: int
  derivative_neighbourhood :: int
  derivative_cases :: "(string, DerivativeCase) smap"
  no_wait_future :: bool

datatype AggregateFunctionEnumType = kFirst | kLast | kMax | kMin | kMean

record AggregateCase =
  aggregate_function :: AggregateFunctionEnumType
  result_column_name :: string
  result_column_type :: ColumnType

record AggregateOptions =
  aggregate_columns :: "(string, AggregateCase list) smap"
  result_time_column_rule :: AggregateCase

definition default_aggregate_options :: AggregateOptions where
  "default_aggregate_options =
     \<lparr>aggregate_columns = [],
      result_time_column_rule =
        \<lparr>aggregate_function = kLast, result_column_name = ''time'', result_column_type = TIME\<rparr>\<rparr>"

section \<open>What the option parsers share\<close>

text \<open>\<open>InvalidOptionException\<close>: a constructor for each \<open>throw\<close>, with the arguments of its
  message; \<open>StdOutOfRange\<close> is \<open>at\<close> on a missing key, which the handlers do not catch.\<close>

datatype option_error =
    InvalidAggregateFunctionName string
  | InvalidOptionValue string
  | TimeAggregateRuleArity
  | ExpectedExactlyOneValue string
  | ExpectedAtMostOneValue string
  | NotMoreThanValues nat string
  | SupposedNoValues string
  | SupposedValueOfType string ValueType
  | UnexpectedType ValueType string
  | UnexpectedOptionName string
  | UnexpectedTimeUnitShortcut string
  | MissedRequiredOption string
  | MissingDerivativeCaseOption string
  | DuplicatingResultFields string
  | OptionExpectedBefore string string
  | NonNegativeExpected string int
  | NoDerivativeCases
  | UnsatisfiedExclusiveDisjunction "string list list"

datatype parse_error = InvalidOptionException option_error | StdOutOfRange

abbreviation throw_invalid :: "option_error \<Rightarrow> parse_error + 'a" where
  "throw_invalid e \<equiv> Inl (InvalidOptionException e)"

definition map_at :: "(string \<times> 'v) list \<Rightarrow> string \<Rightarrow> parse_error + 'v" where
  "map_at m k = (case map_of m k of None \<Rightarrow> Inl StdOutOfRange | Some v \<Rightarrow> Inr v)"

text \<open>\<open>duration_cast<seconds>(nanoseconds(d))\<close> truncates towards zero.\<close>

definition nanoseconds_to_seconds :: "int \<Rightarrow> int" where
  "nanoseconds_to_seconds d = trunc_div d 1000000000"

text \<open>The loop over the required option names; for the unordered sets of the code it goes
  through them in the order of the source.\<close>

definition check_required :: "string list \<Rightarrow> string list \<Rightarrow> (string \<Rightarrow> option_error) \<Rightarrow> parse_error + unit" where
  "check_required required parsed err =
     rfold (\<lambda>name _. if name \<in> set parsed then Inr () else throw_invalid (err name)) required ()"

lemma check_required_Inr: "check_required required parsed err = Inr () \<longleftrightarrow> set required \<subseteq> set parsed"
  unfolding check_required_def by (induction required) auto

lemma check_required_cases:
  "check_required required parsed err = Inr u \<Longrightarrow> set required \<subseteq> set parsed"
  by (cases u) (simp add: check_required_Inr)

lemma map_at_eq_Inr: "map_at m k = Inr v \<longleftrightarrow> map_of m k = Some v"
  by (simp add: map_at_def split: option.splits)

lemma map_at_Some [simp]: "map_of m k = Some v \<Longrightarrow> map_at m k = Inr v"
  by (simp add: map_at_def)

lemma nanoseconds_to_seconds_exact [simp]: "nanoseconds_to_seconds (n * 1000000000) = n"
  by (cases "0 \<le> n") (auto simp: nanoseconds_to_seconds_def trunc_div_def abs_mult sgn_if)

text \<open>Options with one value, as Kapacitor sends them.\<close>

definition string_option :: "string \<Rightarrow> string \<Rightarrow> Option" where
  "string_option name s = \<lparr>opt_name = name, opt_values = [\<lparr>ov_type = VT_STRING, ov_value = StringValue s\<rparr>]\<rparr>"

definition int_option :: "string \<Rightarrow> int \<Rightarrow> Option" where
  "int_option name i = \<lparr>opt_name = name, opt_values = [\<lparr>ov_type = VT_INT, ov_value = IntValue i\<rparr>]\<rparr>"

definition duration_option :: "string \<Rightarrow> int \<Rightarrow> Option" where
  "duration_option name d = \<lparr>opt_name = name, opt_values = [\<lparr>ov_type = VT_DURATION, ov_value = DurationValue d\<rparr>]\<rparr>"

definition double_option :: "string \<Rightarrow> double \<Rightarrow> Option" where
  "double_option name d = \<lparr>opt_name = name, opt_values = [\<lparr>ov_type = VT_DOUBLE, ov_value = DoubleValue d\<rparr>]\<rparr>"

end
