(* ===== verification/Aggregate_Options_Parser.thy ===== *)
theory Aggregate_Options_Parser
  imports Handler_Options
begin

text \<open>
  \<open>src/src/kapacitor_udf/request_handlers/aggregate_request_handlers/\<close>: the parser of the
  aggregate options and the options of the stream aggregate handler. The regular
  expression \<open>(\S+)\((\w+)\)\s+as\s+(\S+)\<close> is matched by depth-first search with greedy
  repetition, as ECMAScript prescribes: \<open>plus\<close> lists the ways to match a repeated class, the
  longest first, and the first complete match decides the groups. Characters are classified as
  in the \<open>C\<close> locale.
\<close>

section \<open>The regular expression\<close>

definition is_space :: "char \<Rightarrow> bool" where
  "is_space c \<longleftrightarrow> c \<in> {CHR '' '', CHR 0x09, CHR 0x0A, CHR 0x0B, CHR 0x0C, CHR 0x0D}"

definition is_word :: "char \<Rightarrow> bool" where
  "is_word c \<longleftrightarrow> (let n = of_char c :: nat in
     (48 \<le> n \<and> n \<le> 57) \<or> (65 \<le> n \<and> n \<le> 90) \<or> n = 95 \<or> (97 \<le> n \<and> n \<le> 122))"

text \<open>The class repeated at least once: the matched prefix and the rest, longest first.\<close>

fun plus :: "(char \<Rightarrow> bool) \<Rightarrow> string \<Rightarrow> (string \<times> string) list" where
  "plus P [] = []"
| "plus P (c # s) = (if P c then map (\<lambda>(m, r). (c # m, r)) (plus P s) @ [([c], s)] else [])"

fun lit :: "string \<Rightarrow> string \<Rightarrow> string list" where
  "lit [] s = [s]"
| "lit (c # p) [] = []"
| "lit (c # p) (d # s) = (if c = d then lit p s else [])"

text \<open>All complete matches \<open>(match[1], match[2], match[3])\<close> in the order of the search.\<close>

definition aggregate_matches :: "string \<Rightarrow> (string \<times> string \<times> string) list" where
  "aggregate_matches s =
     [(m1, m2, m3). (m1, r1) \<leftarrow> plus (\<lambda>c. \<not> is_space c) s, r2 \<leftarrow> lit ''('' r1,
        (m2, r3) \<leftarrow> plus is_word r2, r4 \<leftarrow> lit '')'' r3, (_, r5) \<leftarrow> plus is_space r4,
        r6 \<leftarrow> lit ''as'' r5, (_, r7) \<leftarrow> plus is_space r6, (m3, r8) \<leftarrow> plus (\<lambda>c. \<not> is_space c) r7,
        r8 = []]"

definition regex_match :: "string \<Rightarrow> (string \<times> string \<times> string) option" where
  "regex_match s = (case aggregate_matches s of [] \<Rightarrow> None | m # _ \<Rightarrow> Some m)"

section \<open>The parser\<close>

definition FUNCTION_NAMES_TO_TYPES :: "(string \<times> AggregateFunctionEnumType) list" where
  "FUNCTION_NAMES_TO_TYPES =
     [(''min'', kMin), (''max'', kMax), (''first'', kFirst), (''last'', kLast), (''mean'', kMean)]"

definition AGGREGATES_OPTION_NAME :: string where
  "AGGREGATES_OPTION_NAME = ''aggregate''"
definition TIME_AGGREGATE_RULE_OPTION_NAME :: string where
  "TIME_AGGREGATE_RULE_OPTION_NAME = ''timeAggregateRule''"

definition getResponseOptionsMap :: "(string, ValueType list) smap" where
  "getResponseOptionsMap =
     smap_put TIME_AGGREGATE_RULE_OPTION_NAME [VT_STRING] (smap_put AGGREGATES_OPTION_NAME [VT_STRING] [])"

definition addResponseOptions :: "(string, ValueType list) smap \<Rightarrow> (string, ValueType list) smap" where
  "addResponseOptions options_map = smap_puts getResponseOptionsMap options_map"

text \<open>\<open>aggregate_columns[column].push_back(case)\<close>.\<close>

definition push_aggregate_case :: "string \<Rightarrow> AggregateCase \<Rightarrow> AggregateOptions \<Rightarrow> AggregateOptions" where
  "push_aggregate_case column agg_case options =
     options\<lparr>aggregate_columns :=
       smap_put column (case map_of (aggregate_columns options) column of
           None \<Rightarrow> [agg_case] | Some cases \<Rightarrow> cases @ [agg_case]) (aggregate_columns options)\<rparr>"

definition parse_aggregate_value :: "OptionValue \<Rightarrow> AggregateOptions \<Rightarrow> parse_error + AggregateOptions" where
  "parse_aggregate_value aggregate_string_value options =
     (case regex_match (stringvalue aggregate_string_value) of
        Some (m1, m2, m3) \<Rightarrow>
          if map_of FUNCTION_NAMES_TO_TYPES m1 = None
          then throw_invalid (InvalidAggregateFunctionName m1)
          else rbind (map_at FUNCTION_NAMES_TO_TYPES m1) (\<lambda>f.
                 Inr (push_aggregate_case m2
                   \<lparr>aggregate_function = f, result_column_name = m3, result_column_type = FIELD\<rparr> options))
      | None \<Rightarrow> throw_invalid (InvalidOptionValue (stringvalue aggregate_string_value)))"

definition parseAggregates :: "Option \<Rightarrow> AggregateOptions \<Rightarrow> parse_error + AggregateOptions" where
  "parseAggregates aggregates_request_option options =
     rfold parse_aggregate_value (opt_values aggregates_request_option) options"

definition parseTimeAggregateRule :: "Option \<Rightarrow> AggregateOptions \<Rightarrow> parse_error + AggregateOptions" where
  "parseTimeAggregateRule time_aggregate_rule_option options =
     (if length (opt_values time_aggregate_rule_option) \<noteq> 1 then throw_invalid TimeAggregateRuleArity
      else
        (let name = stringvalue (opt_values time_aggregate_rule_option ! 0) in
         if map_of FUNCTION_NAMES_TO_TYPES name = None
         then throw_invalid (InvalidAggregateFunctionName name)
         else rbind (map_at FUNCTION_NAMES_TO_TYPES name) (\<lambda>f.
                Inr (options\<lparr>result_time_column_rule :=
                  (result_time_column_rule options)\<lparr>aggregate_function := f\<rparr>\<rparr>))))"

definition parse_aggregate_option :: "Option \<Rightarrow> AggregateOptions \<Rightarrow> parse_error + AggregateOptions" where
  "parse_aggregate_option request_option options =
     (if opt_name request_option = AGGREGATES_OPTION_NAME then parseAggregates request_option options
      else if opt_name request_option = TIME_AGGREGATE_RULE_OPTION_NAME
      then parseTimeAggregateRule request_option options
      else Inr options)"

definition parseAggregateOptions :: "Option list \<Rightarrow> parse_error + AggregateOptions" where
  "parseAggregateOptions request_options =
     rfold parse_aggregate_option request_options default_aggregate_options"

section \<open>Options of the stream aggregate handler\<close>

definition SA_EMIT_TIMEOUT :: string where "SA_EMIT_TIMEOUT = ''emitTimeout''"
definition SA_TOLERANCE :: string where "SA_TOLERANCE = ''tolerance''"

definition REQUIRED_STREAM_AGGREGATE_OPTIONS :: "string list" where
  "REQUIRED_STREAM_AGGREGATE_OPTIONS = [SA_EMIT_TIMEOUT]"

definition DEFAULT_TOLERANCE_VALUE :: int where "DEFAULT_TOLERANCE_VALUE = 0"

definition SA_OPTIONS_TYPES :: "(string \<times> ValueType) list" where
  "SA_OPTIONS_TYPES = [(SA_EMIT_TIMEOUT, VT_DURATION), (SA_TOLERANCE, VT_DURATION)]"

definition getStreamAggregateOptionsMap :: "(string, ValueType list) smap" where
  "getStreamAggregateOptionsMap = smap_puts (map (\<lambda>(n, t). (n, [t])) SA_OPTIONS_TYPES) []"

text \<open>One iteration of the loop; the state is \<open>options\<close> and \<open>parsed_options\<close>.\<close>

definition parse_stream_aggregate_option ::
  "Option \<Rightarrow> (string, int) smap \<times> string list \<Rightarrow> parse_error + (string, int) smap \<times> string list"
where
  "parse_stream_aggregate_option option st =
     (let (options, parsed_options) = st; name = opt_name option in
      case map_of SA_OPTIONS_TYPES name of
        None \<Rightarrow> Inr st
      | Some option_type \<Rightarrow>
          if name \<in> set parsed_options \<or> length (opt_values option) \<noteq> 1
          then throw_invalid (ExpectedExactlyOneValue name)
          else
            (let v = opt_values option ! 0 in
             if ov_type v \<noteq> option_type then throw_invalid (UnexpectedType (ov_type v) name)
             else Inr (smap_put name (nanoseconds_to_seconds (durationvalue v)) options,
                       name # parsed_options)))"

definition parseStreamAggregateOptions :: "Option list \<Rightarrow> parse_error + (string, int) smap" where
  "parseStreamAggregateOptions request_options =
     rbind (rfold parse_stream_aggregate_option request_options ([], [])) (\<lambda>(options, parsed_options).
       rbind (check_required REQUIRED_STREAM_AGGREGATE_OPTIONS parsed_options MissedRequiredOption) (\<lambda>_.
         (let options = (if map_of options SA_TOLERANCE = None
                         then smap_put SA_TOLERANCE DEFAULT_TOLERANCE_VALUE options else options)
          in Inr (smap_put SA_TOLERANCE
                    ((case map_of options SA_TOLERANCE of None \<Rightarrow> 0 | Some t \<Rightarrow> t) + 1) options))))"

section \<open>What the expression matches\<close>

lemma set_plus: "set (plus P s) = {(m, r). s = m @ r \<and> m \<noteq> [] \<and> (\<forall>c \<in> set m. P c)}"
proof (induction s)
  case (Cons c s)
  show ?case
  proof (cases "P c")
    case True
    have "(m, r) \<in> set (plus P (c # s)) \<longleftrightarrow> c # s = m @ r \<and> m \<noteq> [] \<and> (\<forall>c \<in> set m. P c)" for m r
      using True Cons.IH by (cases m) (auto simp: image_iff)
    then show ?thesis by (intro set_eqI) (auto simp del: plus.simps)
  next
    case False
    then show ?thesis by (auto simp: Cons_eq_append_conv)
  qed
qed auto

lemma set_lit [simp]: "set (lit p s) = {r. s = p @ r}"
  by (induction p s rule: lit.induct) auto

text \<open>The decompositions the expression describes.\<close>

definition aggregate_form :: "string \<Rightarrow> string \<times> string \<times> string \<Rightarrow> bool" where
  "aggregate_form s g \<longleftrightarrow> (case g of (f, c, r) \<Rightarrow>
     \<exists>w1 w2. s = f @ ''('' @ c @ '')'' @ w1 @ ''as'' @ w2 @ r \<and>
       f \<noteq> [] \<and> c \<noteq> [] \<and> r \<noteq> [] \<and> w1 \<noteq> [] \<and> w2 \<noteq> [] \<and>
       (\<forall>x \<in> set (f @ r). \<not> is_space x) \<and> (\<forall>x \<in> set c. is_word x) \<and> (\<forall>x \<in> set (w1 @ w2). is_space x))"

lemma set_aggregate_matches: "set (aggregate_matches s) = Collect (aggregate_form s)"
proof -
  have "g \<in> set (aggregate_matches s) \<longleftrightarrow> aggregate_form s g" for g
  proof (cases g)
    case (fields f c r)
    show ?thesis
      unfolding fields aggregate_matches_def aggregate_form_def by (fastforce simp: set_plus)
  qed
  then show ?thesis by auto
qed

lemma span_unique:
  assumes "xs @ y # ys = xs' @ y' # ys'" and "\<forall>x \<in> set xs. P x" and "\<forall>x \<in> set xs'. P x"
    and "\<not> P y" and "\<not> P y'"
  shows "xs = xs' \<and> y = y' \<and> ys = ys'"
  using assms
proof (induction xs arbitrary: xs')
  case Nil
  then show ?case by (cases xs') auto
next
  case (Cons x xs)
  then show ?case by (cases xs') auto
qed

lemma word_not_space: "is_word c \<Longrightarrow> \<not> is_space c"
  by (auto simp: is_word_def is_space_def Let_def)

lemma word_not_paren: "is_word c \<Longrightarrow> c \<noteq> CHR ''(''"
  by (auto simp: is_word_def Let_def)

lemma aggregate_form_unique:
  assumes "aggregate_form s (f, c, r)" and "aggregate_form s (f', c', r')"
  shows "f = f' \<and> c = c' \<and> r = r'"
proof -
  obtain w1 w2 where s: "s = f @ ''('' @ c @ '')'' @ w1 @ ''as'' @ w2 @ r"
    and ne: "w1 \<noteq> []" "w2 \<noteq> []" "r \<noteq> []" and sp: "\<forall>x \<in> set (w1 @ w2). is_space x"
    and ns: "\<forall>x \<in> set (f @ r). \<not> is_space x" and wd: "\<forall>x \<in> set c. is_word x"
    using assms(1) by (auto simp: aggregate_form_def)
  obtain w1' w2' where s': "s = f' @ ''('' @ c' @ '')'' @ w1' @ ''as'' @ w2' @ r'"
    and ne': "w1' \<noteq> []" "w2' \<noteq> []" "r' \<noteq> []" and sp': "\<forall>x \<in> set (w1' @ w2'). is_space x"
    and ns': "\<forall>x \<in> set (f' @ r'). \<not> is_space x" and wd': "\<forall>x \<in> set c'. is_word x"
    using assms(2) by (auto simp: aggregate_form_def)
  obtain b w where w1: "w1 = b # w" using ne by (cases w1) auto
  obtain b' w' where w1': "w1' = b' # w'" using ne' by (cases w1') auto
  obtain x t where r: "r = x # t" using ne by (cases r) auto
  obtain x' t' where r': "r' = x' # t'" using ne' by (cases r') auto
  have e: "(f @ ''('' @ c @ '')'') @ b # w @ ''as'' @ w2 @ r
         = (f' @ ''('' @ c' @ '')'') @ b' # w' @ ''as'' @ w2' @ r'"
    using s s' by (simp add: w1 w1')
  have paren: "\<not> is_space (CHR ''('')" "\<not> is_space (CHR '')'')" "\<not> is_space (CHR ''a'')"
    by (simp_all add: is_space_def)
  have X: "f @ ''('' @ c @ '')'' = f' @ ''('' @ c' @ '')'' \<and> b = b' \<and>
      w @ ''as'' @ w2 @ r = w' @ ''as'' @ w2' @ r'"
    by (rule span_unique [OF e, of "\<lambda>x. \<not> is_space x"])
      (use ns ns' wd wd' sp sp' paren word_not_space in \<open>auto simp: w1 w1'\<close>)
  then have "w @ CHR ''a'' # CHR ''s'' # w2 @ r = w' @ CHR ''a'' # CHR ''s'' # w2' @ r'" by simp
  from span_unique [OF this, of is_space] have "w2 @ x # t = w2' @ x' # t'"
    using sp sp' paren by (auto simp: w1 w1' r r')
  from span_unique [OF this, of is_space] have "r = r'"
    using sp sp' ns ns' by (auto simp: r r')
  have "rev c @ CHR ''('' # rev f = rev c' @ CHR ''('' # rev f'"
    using arg_cong [OF conjunct1 [OF X], of rev] by simp
  from span_unique [OF this, of is_word] have "rev c = rev c' \<and> rev f = rev f'"
    using wd wd' word_not_paren by auto
  with \<open>r = r'\<close> show ?thesis by simp
qed

text \<open>The search finds the groups of the only decomposition, if there is one.\<close>

lemma regex_match_iff: "regex_match s = Some g \<longleftrightarrow> aggregate_form s g"
proof (cases "aggregate_matches s")
  case Nil
  then have "\<not> aggregate_form s g" using set_aggregate_matches [of s] by (metis empty_iff list.set(1) mem_Collect_eq)
  with Nil show ?thesis by (simp add: regex_match_def)
next
  case (Cons h l)
  then have "aggregate_form s h" using set_aggregate_matches [of s] by (metis list.set_intros(1) mem_Collect_eq)
  then have "aggregate_form s g \<longleftrightarrow> g = h"
    using aggregate_form_unique by (cases g; cases h) blast
  with Cons show ?thesis by (auto simp: regex_match_def)
qed

section \<open>The stream aggregate options\<close>

abbreviation sa_options :: "Option list \<Rightarrow> Option list" where
  "sa_options opts \<equiv> filter (\<lambda>opt. opt_name opt \<in> {SA_EMIT_TIMEOUT, SA_TOLERANCE}) opts"

definition one_duration :: "Option \<Rightarrow> bool" where
  "one_duration opt \<longleftrightarrow> (\<exists>v. opt_values opt = [v] \<and> ov_type v = VT_DURATION)"

definition option_seconds :: "Option \<Rightarrow> int" where
  "option_seconds opt = nanoseconds_to_seconds (durationvalue (hd (opt_values opt)))"

lemma sa_type: "map_of SA_OPTIONS_TYPES n =
    (if n \<in> {SA_EMIT_TIMEOUT, SA_TOLERANCE} then Some VT_DURATION else None)"
  by (auto simp: SA_OPTIONS_TYPES_def)

lemma parse_stream_aggregate_option_eq:
  "parse_stream_aggregate_option opt (m, p) = Inr r \<longleftrightarrow>
     (if opt_name opt \<in> {SA_EMIT_TIMEOUT, SA_TOLERANCE}
      then opt_name opt \<notin> set p \<and> one_duration opt \<and>
           r = (smap_put (opt_name opt) (option_seconds opt) m, opt_name opt # p)
      else r = (m, p))"
  by (auto simp: parse_stream_aggregate_option_def sa_type Let_def one_duration_def option_seconds_def
      length_Suc_conv)

lemma parse_stream_aggregate_loop:
  "rfold parse_stream_aggregate_option opts (m, p) = Inr r \<longleftrightarrow>
     (\<forall>opt \<in> set (sa_options opts). one_duration opt \<and> opt_name opt \<notin> set p) \<and>
     distinct (map opt_name (sa_options opts)) \<and>
     r = (smap_puts (map (\<lambda>opt. (opt_name opt, option_seconds opt)) (sa_options opts)) m,
          rev (map opt_name (sa_options opts)) @ p)"
proof (induction opts arbitrary: m p)
  case Nil
  then show ?case by (auto simp: smap_puts_def)
next
  case (Cons opt opts)
  show ?case
  proof (cases "opt_name opt \<in> {SA_EMIT_TIMEOUT, SA_TOLERANCE}")
    case True
    then have s: "sa_options (opt # opts) = opt # sa_options opts" by simp
    show ?thesis
      unfolding s rfold.simps rbind_eq_Inr_iff
      using True by (auto simp: parse_stream_aggregate_option_eq Cons.IH smap_puts_def image_iff)
  next
    case False
    then have s: "sa_options (opt # opts) = sa_options opts" by simp
    have "parse_stream_aggregate_option opt (m, p) = Inr (m, p)"
      using False by (subst parse_stream_aggregate_option_eq) simp
    then show ?thesis unfolding s rfold.simps by (simp add: Cons.IH)
  qed
qed

lemma parseStreamAggregateOptions_ok:
  "(\<exists>m. parseStreamAggregateOptions opts = Inr m) \<longleftrightarrow>
     (\<forall>opt \<in> set (sa_options opts). one_duration opt) \<and>
     distinct (map opt_name (sa_options opts)) \<and> SA_EMIT_TIMEOUT \<in> opt_name ` set (sa_options opts)"
proof -
  have "(\<exists>m. parseStreamAggregateOptions opts = Inr m) \<longleftrightarrow>
      (\<exists>m p. rfold parse_stream_aggregate_option opts ([], []) = Inr (m, p) \<and> SA_EMIT_TIMEOUT \<in> set p)"
    by (auto simp: parseStreamAggregateOptions_def rbind_eq_Inr_iff check_required_Inr
      REQUIRED_STREAM_AGGREGATE_OPTIONS_def Let_def)
  then show ?thesis unfolding parse_stream_aggregate_loop by auto
qed

end
