(* ===== verification/Dynamic_Window_Options.thy ===== *)
theory Dynamic_Window_Options
  imports Handler_Options
begin

text \<open>
  The option parser of \<open>src/src/kapacitor_udf/request_handlers/dynamic_window_request_handler.cpp\<close>.
  \<open>period\<close>, \<open>every\<close> and \<open>emit_timeout\<close> have no initializer in the code: what the memory
  holds before the assignments is the argument \<open>memory\<close> of \<open>parseWindowOptions\<close>.
\<close>

definition PERIOD_FIELD :: string where "PERIOD_FIELD = ''periodField''"
definition PERIOD_TIME_UNIT :: string where "PERIOD_TIME_UNIT = ''periodTimeUnit''"
definition EVERY_FIELD :: string where "EVERY_FIELD = ''everyField''"
definition EVERY_TIME_UNIT :: string where "EVERY_TIME_UNIT = ''everyTimeUnit''"
definition FILL_PERIOD :: string where "FILL_PERIOD = ''fillPeriod''"
definition DEFAULT_PERIOD :: string where "DEFAULT_PERIOD = ''defaultPeriod''"
definition DEFAULT_EVERY :: string where "DEFAULT_EVERY = ''defaultEvery''"
definition EMIT_TIMEOUT :: string where "EMIT_TIMEOUT = ''emitTimeout''"
definition STATIC_PERIOD :: string where "STATIC_PERIOD = ''staticPeriod''"
definition STATIC_EVERY :: string where "STATIC_EVERY = ''staticEvery''"

lemmas window_option_names =
  PERIOD_FIELD_def PERIOD_TIME_UNIT_def EVERY_FIELD_def EVERY_TIME_UNIT_def FILL_PERIOD_def
  DEFAULT_PERIOD_def DEFAULT_EVERY_def EMIT_TIMEOUT_def STATIC_PERIOD_def STATIC_EVERY_def

definition WINDOW_OPTIONS_TYPES :: "(string \<times> ValueType) list" where
  "WINDOW_OPTIONS_TYPES =
     [(PERIOD_FIELD, VT_STRING), (PERIOD_TIME_UNIT, VT_STRING), (EVERY_FIELD, VT_STRING),
      (EVERY_TIME_UNIT, VT_STRING), (DEFAULT_PERIOD, VT_DURATION), (DEFAULT_EVERY, VT_DURATION),
      (EMIT_TIMEOUT, VT_DURATION), (STATIC_PERIOD, VT_DURATION), (STATIC_EVERY, VT_DURATION)]"

definition OPTIONS_SIZE :: "(string \<times> nat) list" where
  "OPTIONS_SIZE =
     [(PERIOD_FIELD, 1), (PERIOD_TIME_UNIT, 1), (EVERY_FIELD, 1), (EVERY_TIME_UNIT, 1),
      (FILL_PERIOD, 0), (DEFAULT_PERIOD, 1), (DEFAULT_EVERY, 1), (EMIT_TIMEOUT, 1),
      (STATIC_PERIOD, 1), (STATIC_EVERY, 1)]"

definition PRESENTED_OPTIONS_EXCLUSIVE_CNF :: "string list list list" where
  "PRESENTED_OPTIONS_EXCLUSIVE_CNF =
     [[[PERIOD_FIELD, PERIOD_TIME_UNIT, DEFAULT_PERIOD], [STATIC_PERIOD]],
      [[EVERY_FIELD, EVERY_TIME_UNIT, DEFAULT_EVERY], [STATIC_EVERY]],
      [[EMIT_TIMEOUT]]]"

definition TIME_NAMES_TO_UNITS :: "(string \<times> TimeUnit) list" where
  "TIME_NAMES_TO_UNITS =
     [(''ns'', NANO), (''u'', MICRO), (''mcs'', MICRO), (''us'', MICRO), (''ms'', MILLI),
      (''s'', SECOND), (''m'', MINUTE), (''h'', HOUR), (''d'', DAY), (''w'', WEEK)]"

definition getWindowOptionsMap :: "parse_error + (string, ValueType list) smap" where
  "getWindowOptionsMap =
     rbind (rfold (\<lambda>(name, option_type) m.
              rbind (map_at OPTIONS_SIZE name) (\<lambda>size.
                Inr (if 0 < size then smap_put name [option_type] m else m)))
            WINDOW_OPTIONS_TYPES [])
       (\<lambda>m. Inr (fold (\<lambda>(name, minimal_size) m. if minimal_size = 0 then smap_put name [] m else m)
                  OPTIONS_SIZE m))"

record WindowConvertOptions =
  period_option :: "(string \<times> TimeUnit) option"
  every_option :: "(string \<times> TimeUnit) option"

record ParsedWindowOptions =
  convert_options :: WindowConvertOptions
  window_handler_options :: WindowOptions
  pw_emit_timeout :: int

text \<open>\<open>if (!o.has_value()) o.emplace()\<close>: an empty name and the enumerator with value 0.\<close>

definition emplaced :: "(string \<times> TimeUnit) option \<Rightarrow> string \<times> TimeUnit" where
  "emplaced c = (case c of None \<Rightarrow> ([], NANO) | Some p \<Rightarrow> p)"

abbreviation upd_convert ::
  "(WindowConvertOptions \<Rightarrow> WindowConvertOptions) \<Rightarrow> ParsedWindowOptions \<Rightarrow> ParsedWindowOptions" where
  "upd_convert f w \<equiv> w\<lparr>convert_options := f (convert_options w)\<rparr>"

abbreviation upd_window ::
  "(WindowOptions \<Rightarrow> WindowOptions) \<Rightarrow> ParsedWindowOptions \<Rightarrow> ParsedWindowOptions" where
  "upd_window f w \<equiv> w\<lparr>window_handler_options := f (window_handler_options w)\<rparr>"

definition parse_time_unit :: "OptionValue \<Rightarrow> parse_error + TimeUnit" where
  "parse_time_unit v =
     (if map_of TIME_NAMES_TO_UNITS (stringvalue v) = None
      then throw_invalid (UnexpectedTimeUnitShortcut (stringvalue v))
      else map_at TIME_NAMES_TO_UNITS (stringvalue v))"

text \<open>The chain of assignments for an option with a value of the right type.\<close>

definition assign_window_option ::
  "string \<Rightarrow> OptionValue \<Rightarrow> ParsedWindowOptions \<Rightarrow> parse_error + ParsedWindowOptions"
where
  "assign_window_option name v w =
     (let seconds = nanoseconds_to_seconds (durationvalue v) in
      if name = PERIOD_FIELD then
        Inr (upd_convert (\<lambda>c. c\<lparr>period_option := Some (stringvalue v, snd (emplaced (period_option c)))\<rparr>) w)
      else if name = PERIOD_TIME_UNIT then
        rbind (parse_time_unit v) (\<lambda>u.
          Inr (upd_convert (\<lambda>c. c\<lparr>period_option := Some (fst (emplaced (period_option c)), u)\<rparr>) w))
      else if name = EVERY_FIELD then
        Inr (upd_convert (\<lambda>c. c\<lparr>every_option := Some (stringvalue v, snd (emplaced (every_option c)))\<rparr>) w)
      else if name = EVERY_TIME_UNIT then
        rbind (parse_time_unit v) (\<lambda>u.
          Inr (upd_convert (\<lambda>c. c\<lparr>every_option := Some (fst (emplaced (every_option c)), u)\<rparr>) w))
      else if name = DEFAULT_PERIOD then Inr (upd_window (\<lambda>o'. o'\<lparr>wo_period := seconds\<rparr>) w)
      else if name = DEFAULT_EVERY then Inr (upd_window (\<lambda>o'. o'\<lparr>wo_every := seconds\<rparr>) w)
      else if name = EMIT_TIMEOUT then Inr (w\<lparr>pw_emit_timeout := seconds\<rparr>)
      else if name = STATIC_PERIOD then Inr (upd_window (\<lambda>o'. o'\<lparr>wo_period := seconds\<rparr>) w)
      else if name = STATIC_EVERY then Inr (upd_window (\<lambda>o'. o'\<lparr>wo_every := seconds\<rparr>) w)
      else throw_invalid (UnexpectedOptionName name))"

text \<open>One iteration of the loop; \<open>parsed_options\<close> counts the values of each name.\<close>

definition parse_window_option ::
  "Option \<Rightarrow> ParsedWindowOptions \<times> (string, nat) smap \<Rightarrow> parse_error + ParsedWindowOptions \<times> (string, nat) smap"
where
  "parse_window_option option st =
     (let (w, parsed_options) = st; name = opt_name option; n = length (opt_values option) in
      if map_of OPTIONS_SIZE name = None then throw_invalid (UnexpectedOptionName name)
      else
        (let count = (case map_of parsed_options name of None \<Rightarrow> 0 | Some k \<Rightarrow> k) + n;
             parsed_options = smap_put name count parsed_options in
         if n = 0 then
           (if name = FILL_PERIOD
            then Inr (upd_window (\<lambda>o'. o'\<lparr>wo_fill_period := True\<rparr>) w, parsed_options)
            else throw_invalid (UnexpectedOptionName name))
         else
           rbind (map_at OPTIONS_SIZE name) (\<lambda>size.
             if size < count then throw_invalid (NotMoreThanValues size name)
             else
               (let v = opt_values option ! 0 in
                rbind (map_at WINDOW_OPTIONS_TYPES name) (\<lambda>option_type.
                  if ov_type v \<noteq> option_type then throw_invalid (UnexpectedType (ov_type v) name)
                  else rbind (assign_window_option name v w) (\<lambda>w. Inr (w, parsed_options)))))))"

text \<open>The check that exactly one option set of a disjunction is presented.\<close>

definition check_disjunction :: "(string, nat) smap \<Rightarrow> string list list \<Rightarrow> parse_error + unit" where
  "check_disjunction parsed_options exclusive_disjunction =
     rbind
       (rfold (\<lambda>option_set is_disjunction_satisfied.
          if list_all (\<lambda>name. map_of parsed_options name \<noteq> None) option_set
          then (if is_disjunction_satisfied
                then throw_invalid (UnsatisfiedExclusiveDisjunction exclusive_disjunction)
                else Inr True)
          else Inr is_disjunction_satisfied) exclusive_disjunction False)
       (\<lambda>is_disjunction_satisfied.
          if is_disjunction_satisfied then Inr ()
          else throw_invalid (UnsatisfiedExclusiveDisjunction exclusive_disjunction))"

definition parseWindowOptions :: "ParsedWindowOptions \<Rightarrow> Option list \<Rightarrow> parse_error + ParsedWindowOptions" where
  "parseWindowOptions memory request_options =
     (let w = memory\<lparr>convert_options := \<lparr>period_option = None, every_option = None\<rparr>,
                     window_handler_options := (window_handler_options memory)\<lparr>wo_fill_period := False\<rparr>\<rparr> in
      rbind (rfold parse_window_option request_options (w, [])) (\<lambda>(w, parsed_options).
        rbind (rfold (\<lambda>d _. check_disjunction parsed_options d) PRESENTED_OPTIONS_EXCLUSIVE_CNF ())
          (\<lambda>_. Inr w)))"

section \<open>What the parser accepts\<close>

text \<open>A single option the loop accepts, taken by itself.\<close>

definition window_option_ok :: "Option \<Rightarrow> bool" where
  "window_option_ok opt \<longleftrightarrow>
     (if opt_name opt = FILL_PERIOD then opt_values opt = []
      else \<exists>v. opt_values opt = [v] \<and> map_of WINDOW_OPTIONS_TYPES (opt_name opt) = Some (ov_type v) \<and>
              (opt_name opt \<in> {PERIOD_TIME_UNIT, EVERY_TIME_UNIT} \<longrightarrow>
               stringvalue v \<in> fst ` set TIME_NAMES_TO_UNITS))"

abbreviation valued_names :: "Option list \<Rightarrow> string list" where
  "valued_names opts \<equiv> filter (\<lambda>n. n \<noteq> FILL_PERIOD) (map opt_name opts)"

text \<open>Exactly one option set of each disjunction, over the names that occur.\<close>

definition presented :: "string set \<Rightarrow> bool" where
  "presented N \<longleftrightarrow>
     ({PERIOD_FIELD, PERIOD_TIME_UNIT, DEFAULT_PERIOD} \<subseteq> N) \<noteq> (STATIC_PERIOD \<in> N) \<and>
     ({EVERY_FIELD, EVERY_TIME_UNIT, DEFAULT_EVERY} \<subseteq> N) \<noteq> (STATIC_EVERY \<in> N) \<and>
     EMIT_TIMEOUT \<in> N"

abbreviation count_of :: "(string, nat) smap \<Rightarrow> string \<Rightarrow> nat" where
  "count_of parsed name \<equiv> (case map_of parsed name of None \<Rightarrow> 0 | Some k \<Rightarrow> k)"

lemma options_size_types:
  "n \<noteq> FILL_PERIOD \<Longrightarrow>
     map_of OPTIONS_SIZE n = (case map_of WINDOW_OPTIONS_TYPES n of None \<Rightarrow> None | Some _ \<Rightarrow> Some 1)"
  by (simp add: OPTIONS_SIZE_def WINDOW_OPTIONS_TYPES_def)

lemma options_size_fill [simp]: "map_of OPTIONS_SIZE FILL_PERIOD = Some 0"
  by (simp add: OPTIONS_SIZE_def window_option_names)

lemma parse_time_unit_ok:
  "parse_time_unit v = Inr u \<longleftrightarrow> map_of TIME_NAMES_TO_UNITS (stringvalue v) = Some u"
  by (auto simp: parse_time_unit_def map_at_def)

lemma assign_window_option_ok:
  assumes "map_of WINDOW_OPTIONS_TYPES name = Some t"
  shows "(\<exists>w'. assign_window_option name v w = Inr w') \<longleftrightarrow>
    (name \<in> {PERIOD_TIME_UNIT, EVERY_TIME_UNIT} \<longrightarrow> stringvalue v \<in> fst ` set TIME_NAMES_TO_UNITS)"
proof -
  have u: "(\<exists>u. parse_time_unit v = Inr u) \<longleftrightarrow> stringvalue v \<in> fst ` set TIME_NAMES_TO_UNITS"
    by (simp add: parse_time_unit_ok flip: dom_map_of_conv_image_fst) (auto simp: dom_def)
  have d: "PERIOD_TIME_UNIT \<noteq> PERIOD_FIELD" "EVERY_TIME_UNIT \<noteq> PERIOD_FIELD"
    "EVERY_TIME_UNIT \<noteq> PERIOD_TIME_UNIT" "EVERY_TIME_UNIT \<noteq> EVERY_FIELD"
    by (simp_all add: window_option_names)
  consider "name = PERIOD_TIME_UNIT" | "name = EVERY_TIME_UNIT"
    | "name \<notin> {PERIOD_TIME_UNIT, EVERY_TIME_UNIT}" by blast
  then show ?thesis
  proof cases
    case 1
    with d u show ?thesis by (auto simp: assign_window_option_def Let_def rbind_eq_Inr_iff)
  next
    case 2
    with d u show ?thesis by (auto simp: assign_window_option_def Let_def rbind_eq_Inr_iff)
  next
    case 3
    have "name \<in> fst ` set WINDOW_OPTIONS_TYPES" using assms by (metis domI dom_map_of_conv_image_fst)
    with 3 show ?thesis by (auto simp: assign_window_option_def Let_def WINDOW_OPTIONS_TYPES_def)
  qed
qed

lemma parse_window_option_ok:
  "(\<exists>w' p'. parse_window_option opt (w, p) = Inr (w', p')) \<longleftrightarrow>
     window_option_ok opt \<and> (opt_name opt \<noteq> FILL_PERIOD \<longrightarrow> count_of p (opt_name opt) = 0)"
proof (cases "opt_name opt = FILL_PERIOD")
  case True
  then show ?thesis by (auto simp: parse_window_option_def Let_def window_option_ok_def)
next
  case False
  show ?thesis
  proof (cases "map_of WINDOW_OPTIONS_TYPES (opt_name opt)")
    case None
    with False show ?thesis
      by (simp add: parse_window_option_def Let_def window_option_ok_def options_size_types)
  next
    case (Some t)
    show ?thesis
    proof (cases "length (opt_values opt) = 1")
      case True
      then obtain v where v: "opt_values opt = [v]" by (auto simp: length_Suc_conv)
      have a: "(\<exists>w'. assign_window_option (opt_name opt) v w = Inr w') \<longleftrightarrow>
          (opt_name opt \<in> {PERIOD_TIME_UNIT, EVERY_TIME_UNIT} \<longrightarrow>
           stringvalue v \<in> fst ` set TIME_NAMES_TO_UNITS)"
        by (rule assign_window_option_ok [OF Some])
      have "parse_window_option opt (w, p) =
          (if 1 < count_of p (opt_name opt) + 1 then throw_invalid (NotMoreThanValues 1 (opt_name opt))
           else if ov_type v \<noteq> t then throw_invalid (UnexpectedType (ov_type v) (opt_name opt))
           else rbind (assign_window_option (opt_name opt) v w) (\<lambda>w'.
             Inr (w', smap_put (opt_name opt) (count_of p (opt_name opt) + 1) p)))"
        using False Some v by (simp add: parse_window_option_def Let_def options_size_types map_at_def)
      then show ?thesis
        using False Some v a by (auto simp: window_option_ok_def rbind_eq_Inr_iff)
    next
      case False': False
      then consider "length (opt_values opt) = 0" | "1 < length (opt_values opt)" by linarith
      then show ?thesis
      proof cases
        case 1
        with False Some show ?thesis
          by (simp add: parse_window_option_def Let_def window_option_ok_def options_size_types)
      next
        case 2
        then have "opt_values opt \<noteq> []" "\<not> length (opt_values opt) = 0" by auto
        with 2 False Some show ?thesis
          by (auto simp: parse_window_option_def Let_def window_option_ok_def options_size_types map_at_def)
      qed
    qed
  qed
qed

lemma parse_window_option_count:
  "parse_window_option opt (w, p) = Inr (w', p') \<Longrightarrow>
     p' = smap_put (opt_name opt) (count_of p (opt_name opt) + length (opt_values opt)) p"
  by (auto simp: parse_window_option_def Let_def rbind_eq_Inr_iff split: if_splits simp del: smap_put.simps)

lemma parse_window_loop_names:
  "rfold parse_window_option opts (w, p) = Inr (w', p') \<Longrightarrow> dom (map_of p') = dom (map_of p) \<union> opt_name ` set opts"
proof (induction opts arbitrary: w p)
  case Nil
  then show ?case by simp
next
  case (Cons opt opts)
  then obtain w1 p1 where s: "parse_window_option opt (w, p) = Inr (w1, p1)"
    and r: "rfold parse_window_option opts (w1, p1) = Inr (w', p')"
    by (auto simp: rbind_eq_Inr_iff)
  have "dom (map_of p1) = insert (opt_name opt) (dom (map_of p))"
    unfolding parse_window_option_count [OF s] by simp
  with Cons.IH [OF r] show ?case by auto
qed

lemma parse_window_loop_ok:
  "(\<exists>r. rfold parse_window_option opts (w, p) = Inr r) \<longleftrightarrow>
     (\<forall>opt \<in> set opts. window_option_ok opt) \<and> distinct (valued_names opts) \<and>
     (\<forall>n \<in> set (valued_names opts). count_of p n = 0)"
proof (induction opts arbitrary: w p)
  case Nil
  then show ?case by simp
next
  case (Cons opt opts)
  let ?n = "opt_name opt"
  show ?case
  proof (cases "window_option_ok opt \<and> (?n \<noteq> FILL_PERIOD \<longrightarrow> count_of p ?n = 0)")
    case False
    then have "\<not> (\<exists>w' p'. parse_window_option opt (w, p) = Inr (w', p'))"
      by (simp only: parse_window_option_ok) blast
    then have "\<not> (\<exists>r. rfold parse_window_option (opt # opts) (w, p) = Inr r)"
      by (auto simp: rbind_eq_Inr_iff)
    with False show ?thesis by (cases "?n = FILL_PERIOD") simp_all
  next
    case True
    then obtain w1 p1 where s: "parse_window_option opt (w, p) = Inr (w1, p1)"
      using parse_window_option_ok by blast
    note p1 = parse_window_option_count [OF s]
    have "length (opt_values opt) = (if ?n = FILL_PERIOD then 0 else 1)"
      using True by (auto simp: window_option_ok_def split: if_splits)
    then have c: "(\<forall>n \<in> set (valued_names opts). count_of p1 n = 0) \<longleftrightarrow>
        (\<forall>n \<in> set (valued_names opts). count_of p n = 0) \<and> (?n \<noteq> FILL_PERIOD \<longrightarrow> ?n \<notin> set (valued_names opts))"
      using True by (auto simp: p1 simp del: smap_put.simps split: if_splits)
    have "(\<exists>r. rfold parse_window_option (opt # opts) (w, p) = Inr r) \<longleftrightarrow>
        (\<exists>r. rfold parse_window_option opts (w1, p1) = Inr r)"
      by (simp add: s)
    then show ?thesis
      unfolding Cons.IH c using True by (cases "?n = FILL_PERIOD") auto
  qed
qed

lemma check_disjunction_two:
  "check_disjunction p [a, b] = Inr () \<longleftrightarrow> (set a \<subseteq> dom (map_of p)) \<noteq> (set b \<subseteq> dom (map_of p))"
proof -
  have s: "list_all (\<lambda>name. \<exists>n. map_of p name = Some n) l \<longleftrightarrow> set l \<subseteq> dom (map_of p)" for l
    by (auto simp: list_all_iff dom_def)
  show ?thesis by (auto simp: check_disjunction_def s)
qed

lemma check_disjunction_one:
  "check_disjunction p [a] = Inr () \<longleftrightarrow> set a \<subseteq> dom (map_of p)"
  by (auto simp: check_disjunction_def list_all_iff dom_def)

lemma check_cnf:
  "rfold (\<lambda>d _. check_disjunction p d) PRESENTED_OPTIONS_EXCLUSIVE_CNF () = Inr () \<longleftrightarrow>
     presented (dom (map_of p))"
  by (auto simp: PRESENTED_OPTIONS_EXCLUSIVE_CNF_def rbind_eq_Inr_iff presented_def
      check_disjunction_two check_disjunction_one)

lemma parseWindowOptions_ok:
  "(\<exists>w. parseWindowOptions memory opts = Inr w) \<longleftrightarrow>
     (\<forall>opt \<in> set opts. window_option_ok opt) \<and> distinct (valued_names opts) \<and>
     presented (opt_name ` set opts)"
proof -
  let ?w = "memory\<lparr>convert_options := \<lparr>period_option = None, every_option = None\<rparr>,
      window_handler_options := (window_handler_options memory)\<lparr>wo_fill_period := False\<rparr>\<rparr>"
  have "(\<exists>w. parseWindowOptions memory opts = Inr w) \<longleftrightarrow>
      (\<exists>w p. rfold parse_window_option opts (?w, []) = Inr (w, p) \<and> presented (dom (map_of p)))"
    unfolding check_cnf [symmetric] by (simp add: parseWindowOptions_def Let_def rbind_eq_Inr_iff)
  also have "\<dots> \<longleftrightarrow> (\<exists>r. rfold parse_window_option opts (?w, []) = Inr r) \<and> presented (opt_name ` set opts)"
    using parse_window_loop_names [of opts ?w "[]"] by fastforce
  finally show ?thesis unfolding parse_window_loop_ok by simp
qed

section \<open>No indeterminate value reaches the handlers\<close>

text \<open>Two states of the loop that differ only in members no option has set yet.\<close>

definition agree :: "string set \<Rightarrow> ParsedWindowOptions \<Rightarrow> ParsedWindowOptions \<Rightarrow> bool" where
  "agree N w w' \<longleftrightarrow>
     convert_options w = convert_options w' \<and>
     wo_fill_period (window_handler_options w) = wo_fill_period (window_handler_options w') \<and>
     (DEFAULT_PERIOD \<in> N \<or> STATIC_PERIOD \<in> N \<longrightarrow>
        wo_period (window_handler_options w) = wo_period (window_handler_options w')) \<and>
     (DEFAULT_EVERY \<in> N \<or> STATIC_EVERY \<in> N \<longrightarrow>
        wo_every (window_handler_options w) = wo_every (window_handler_options w')) \<and>
     (EMIT_TIMEOUT \<in> N \<longrightarrow> pw_emit_timeout w = pw_emit_timeout w')"

lemma window_names_distinct:
  "distinct [PERIOD_FIELD, PERIOD_TIME_UNIT, EVERY_FIELD, EVERY_TIME_UNIT, DEFAULT_PERIOD,
     DEFAULT_EVERY, EMIT_TIMEOUT, STATIC_PERIOD, STATIC_EVERY, FILL_PERIOD]"
  by (simp add: window_option_names)

text \<open>Every assignment is an update that does not look at the members that may be
  indeterminate.\<close>

lemma agree_updates:
  assumes "agree N w w'"
  shows "name \<notin> {DEFAULT_PERIOD, STATIC_PERIOD, DEFAULT_EVERY, STATIC_EVERY, EMIT_TIMEOUT} \<Longrightarrow>
      agree (insert name N) (upd_convert f w) (upd_convert f w')"
    and "name \<in> {DEFAULT_PERIOD, STATIC_PERIOD} \<Longrightarrow>
      agree (insert name N) (upd_window (\<lambda>o'. o'\<lparr>wo_period := i\<rparr>) w) (upd_window (\<lambda>o'. o'\<lparr>wo_period := i\<rparr>) w')"
    and "name \<in> {DEFAULT_EVERY, STATIC_EVERY} \<Longrightarrow>
      agree (insert name N) (upd_window (\<lambda>o'. o'\<lparr>wo_every := i\<rparr>) w) (upd_window (\<lambda>o'. o'\<lparr>wo_every := i\<rparr>) w')"
    and "name = EMIT_TIMEOUT \<Longrightarrow>
      agree (insert name N) (w\<lparr>pw_emit_timeout := i\<rparr>) (w'\<lparr>pw_emit_timeout := i\<rparr>)"
  using assms by (auto simp: agree_def window_option_names)

lemma assign_window_option_agree:
  assumes "assign_window_option name v w = Inr w1" and "agree N w w'"
  shows "\<exists>w1'. assign_window_option name v w' = Inr w1' \<and> agree (insert name N) w1 w1'"
proof -
  note d = window_names_distinct [simplified]
  note u = agree_updates [OF assms(2), of name]
  let ?s = "nanoseconds_to_seconds (durationvalue v)"
  have c: "convert_options w = convert_options w'" using assms(2) by (simp add: agree_def)
  consider "name = PERIOD_FIELD" | "name = PERIOD_TIME_UNIT" | "name = EVERY_FIELD"
    | "name = EVERY_TIME_UNIT" | "name \<in> {DEFAULT_PERIOD, STATIC_PERIOD}"
    | "name \<in> {DEFAULT_EVERY, STATIC_EVERY}" | "name = EMIT_TIMEOUT"
    using assms(1) by (auto simp: assign_window_option_def Let_def split: if_splits)
  then show ?thesis
  proof cases
    case 1
    have "assign_window_option name v x = Inr (upd_convert (\<lambda>c. c\<lparr>period_option := Some (stringvalue v, snd (emplaced (period_option c)))\<rparr>) x)" for x
      by (simp add: assign_window_option_def Let_def 1 window_option_names)
    with assms(1) u(1) d show ?thesis by (auto simp: 1)
  next
    case 2
    have "assign_window_option name v x = rbind (parse_time_unit v) (\<lambda>u.
        Inr (upd_convert (\<lambda>c. c\<lparr>period_option := Some (fst (emplaced (period_option c)), u)\<rparr>) x))" for x
      by (simp add: assign_window_option_def Let_def 2 window_option_names)
    with assms(1) u(1) d show ?thesis by (auto simp: 2 rbind_eq_Inr_iff)
  next
    case 3
    have "assign_window_option name v x = Inr (upd_convert (\<lambda>c. c\<lparr>every_option := Some (stringvalue v, snd (emplaced (every_option c)))\<rparr>) x)" for x
      by (simp add: assign_window_option_def Let_def 3 window_option_names)
    with assms(1) u(1) d show ?thesis by (auto simp: 3)
  next
    case 4
    have "assign_window_option name v x = rbind (parse_time_unit v) (\<lambda>u.
        Inr (upd_convert (\<lambda>c. c\<lparr>every_option := Some (fst (emplaced (every_option c)), u)\<rparr>) x))" for x
      by (simp add: assign_window_option_def Let_def 4 window_option_names)
    with assms(1) u(1) d show ?thesis by (auto simp: 4 rbind_eq_Inr_iff)
  next
    case 5
    then have "assign_window_option name v x = Inr (upd_window (\<lambda>o'. o'\<lparr>wo_period := ?s\<rparr>) x)" for x
      by (elim insertE emptyE) (simp_all add: assign_window_option_def Let_def window_option_names)
    with assms(1) u(2) [OF 5] show ?thesis by (metis sum.inject(2))
  next
    case 6
    then have "assign_window_option name v x = Inr (upd_window (\<lambda>o'. o'\<lparr>wo_every := ?s\<rparr>) x)" for x
      by (elim insertE emptyE) (simp_all add: assign_window_option_def Let_def window_option_names)
    with assms(1) u(3) [OF 6] show ?thesis by (metis sum.inject(2))
  next
    case 7
    then have "assign_window_option name v x = Inr (x\<lparr>pw_emit_timeout := ?s\<rparr>)" for x
      by (simp add: assign_window_option_def Let_def window_option_names)
    with assms(1) u(4) [OF 7] show ?thesis by (metis sum.inject(2))
  qed
qed

lemma parse_window_option_agree:
  assumes "parse_window_option opt (w, p) = Inr (w1, p1)" and "agree N w w'"
  shows "\<exists>w1'. parse_window_option opt (w', p) = Inr (w1', p1) \<and> agree (insert (opt_name opt) N) w1 w1'"
proof (cases "opt_values opt = []")
  case True
  have d: "FILL_PERIOD \<notin> {DEFAULT_PERIOD, DEFAULT_EVERY, EMIT_TIMEOUT, STATIC_PERIOD, STATIC_EVERY}"
    by (simp add: window_option_names)
  show ?thesis
    using True assms d by (auto simp: parse_window_option_def Let_def agree_def split: if_splits)
next
  case False
  from assms(1) obtain v t size where
    a: "assign_window_option (opt_name opt) v w = Inr w1" and v: "v = opt_values opt ! 0"
    and "map_of OPTIONS_SIZE (opt_name opt) = Some size"
      "\<not> size < count_of p (opt_name opt) + length (opt_values opt)"
      "map_of WINDOW_OPTIONS_TYPES (opt_name opt) = Some t" "ov_type v = t"
      "p1 = smap_put (opt_name opt) (count_of p (opt_name opt) + length (opt_values opt)) p"
    using False
    by (auto simp: parse_window_option_def Let_def rbind_eq_Inr_iff map_at_eq_Inr split: if_splits)
  moreover obtain w1' where "assign_window_option (opt_name opt) v w' = Inr w1'"
    and "agree (insert (opt_name opt) N) w1 w1'"
    using assign_window_option_agree [OF a assms(2)] by blast
  ultimately show ?thesis
    using False by (simp add: parse_window_option_def Let_def map_at_def)
qed

lemma parse_window_loop_agree:
  "rfold parse_window_option opts (w, p) = Inr (w1, p1) \<Longrightarrow> agree N w w' \<Longrightarrow>
     \<exists>w1'. rfold parse_window_option opts (w', p) = Inr (w1', p1) \<and> agree (opt_name ` set opts \<union> N) w1 w1'"
proof (induction opts arbitrary: w w' p N)
  case Nil
  then show ?case by simp
next
  case (Cons opt opts)
  then obtain w2 p2 where s: "parse_window_option opt (w, p) = Inr (w2, p2)"
    and r: "rfold parse_window_option opts (w2, p2) = Inr (w1, p1)"
    by (auto simp: rbind_eq_Inr_iff)
  obtain w2' where "parse_window_option opt (w', p) = Inr (w2', p2)" and a: "agree (insert (opt_name opt) N) w2 w2'"
    using parse_window_option_agree [OF s Cons.prems(2)] by blast
  with Cons.IH [OF r a] show ?case by simp
qed

lemma agree_all: "agree N w w' \<Longrightarrow> presented N \<Longrightarrow> w = w'"
  by (auto simp: agree_def presented_def)

lemma parseWindowOptions_memory:
  assumes "parseWindowOptions memory opts = Inr w"
  shows "parseWindowOptions memory' opts = Inr w"
proof -
  let ?w = "\<lambda>memory. memory\<lparr>convert_options := \<lparr>period_option = None, every_option = None\<rparr>,
      window_handler_options := (window_handler_options memory)\<lparr>wo_fill_period := False\<rparr>\<rparr>"
  obtain p where r: "rfold parse_window_option opts (?w memory, []) = Inr (w, p)"
    and cnf: "rfold (\<lambda>d _. check_disjunction p d) PRESENTED_OPTIONS_EXCLUSIVE_CNF () = Inr ()"
    using assms by (auto simp: parseWindowOptions_def Let_def rbind_eq_Inr_iff)
  have "agree {} (?w memory) (?w memory')"
    by (simp add: agree_def)
  from parse_window_loop_agree [OF r this] obtain w' where
    r': "rfold parse_window_option opts (?w memory', []) = Inr (w', p)" and a: "agree (opt_name ` set opts) w w'"
    by auto
  have "w = w'"
    using agree_all [OF a] cnf parse_window_loop_names [OF r] by (simp add: check_cnf)
  with r' cnf show ?thesis by (simp add: parseWindowOptions_def Let_def)
qed

text \<open>\<open>at\<close> never misses: \<open>fillPeriod\<close>, the only name without a type, is refused before.\<close>

lemma parse_time_unit_no_out_of_range: "parse_time_unit v \<noteq> Inl StdOutOfRange"
  by (auto simp: parse_time_unit_def map_at_def)

lemma assign_window_option_no_out_of_range: "assign_window_option name v w \<noteq> Inl StdOutOfRange"
  by (simp add: assign_window_option_def Let_def rbind_eq_Inl_iff parse_time_unit_no_out_of_range)

lemma parse_window_option_no_out_of_range: "parse_window_option opt (w, p) \<noteq> Inl StdOutOfRange"
proof (cases "opt_name opt = FILL_PERIOD")
  case True
  then show ?thesis by (auto simp: parse_window_option_def Let_def)
next
  case False
  then show ?thesis
    using assign_window_option_no_out_of_range
    by (auto simp: parse_window_option_def Let_def options_size_types map_at_def rbind_eq_Inl_iff
        split: option.splits)
qed

lemma parse_window_loop_no_out_of_range:
  "rfold parse_window_option opts (w, p) \<noteq> Inl StdOutOfRange"
proof (induction opts arbitrary: w p)
  case (Cons opt opts)
  then show ?case using parse_window_option_no_out_of_range [of opt w p] by (auto simp: rbind_eq_Inl_iff)
qed simp

lemma check_cnf_no_out_of_range:
  "rfold (\<lambda>d _. check_disjunction p d) PRESENTED_OPTIONS_EXCLUSIVE_CNF () \<noteq> Inl StdOutOfRange"
  by (auto simp: PRESENTED_OPTIONS_EXCLUSIVE_CNF_def check_disjunction_def rbind_eq_Inl_iff)

lemma parseWindowOptions_no_out_of_range: "parseWindowOptions memory opts \<noteq> Inl StdOutOfRange"
  using parse_window_loop_no_out_of_range check_cnf_no_out_of_range
  by (auto simp: parseWindowOptions_def Let_def rbind_eq_Inl_iff)

end
