(* ===== verification/Threshold_Options.thy ===== *)
theory Threshold_Options
  imports Handler_Options
begin

text \<open>
  The option parser of
  \<open>src/src/kapacitor_udf/request_handlers/stateful_threshold_request_handler.cpp\<close>. The members of
  \<open>ThresholdStateMachine::Options\<close> without a default initializer start with what the
  memory held (the argument \<open>memory\<close>).
\<close>

definition WATCH_COLUMN :: string where "WATCH_COLUMN = ''watch''"
definition THRESHOLD_COLUMN :: string where "THRESHOLD_COLUMN = ''as''"
definition DEFAULT_THRESHOLD :: string where "DEFAULT_THRESHOLD = ''defaultLevel''"
definition INCREASE_SCALE :: string where "INCREASE_SCALE = ''increaseScaleFactor''"
definition INCREASE_AFTER :: string where "INCREASE_AFTER = ''increaseAfter''"
definition DECREASE_SCALE :: string where "DECREASE_SCALE = ''decreaseScaleFactor''"
definition DECREASE_TRIGGER :: string where "DECREASE_TRIGGER = ''decreaseTriggerFactor''"
definition DECREASE_AFTER :: string where "DECREASE_AFTER = ''decreaseAfter''"
definition MIN_LEVEL :: string where "MIN_LEVEL = ''minLevel''"
definition MAX_LEVEL :: string where "MAX_LEVEL = ''maxLevel''"

lemmas threshold_option_names =
  WATCH_COLUMN_def THRESHOLD_COLUMN_def DEFAULT_THRESHOLD_def INCREASE_SCALE_def INCREASE_AFTER_def
  DECREASE_SCALE_def DECREASE_TRIGGER_def DECREASE_AFTER_def MIN_LEVEL_def MAX_LEVEL_def

definition REQUIRED_THRESHOLD_OPTIONS :: "string list" where
  "REQUIRED_THRESHOLD_OPTIONS =
     [WATCH_COLUMN, THRESHOLD_COLUMN, DEFAULT_THRESHOLD, INCREASE_SCALE, INCREASE_AFTER]"

definition THRESHOLD_OPTIONS_TYPES :: "(string \<times> ValueType) list" where
  "THRESHOLD_OPTIONS_TYPES =
     [(WATCH_COLUMN, VT_STRING), (THRESHOLD_COLUMN, VT_STRING), (DEFAULT_THRESHOLD, VT_DOUBLE),
      (INCREASE_SCALE, VT_DOUBLE), (INCREASE_AFTER, VT_DURATION), (DECREASE_SCALE, VT_DOUBLE),
      (DECREASE_TRIGGER, VT_DOUBLE), (DECREASE_AFTER, VT_DURATION), (MIN_LEVEL, VT_DOUBLE),
      (MAX_LEVEL, VT_DOUBLE)]"

definition getThresholdOptionsMap :: "(string, ValueType list) smap" where
  "getThresholdOptionsMap = smap_puts (map (\<lambda>(n, t). (n, [t])) THRESHOLD_OPTIONS_TYPES) []"

definition assign_threshold_option ::
  "string \<Rightarrow> OptionValue \<Rightarrow> ThresholdOptions \<Rightarrow> parse_error + ThresholdOptions"
where
  "assign_threshold_option name v t =
     (let seconds = nanoseconds_to_seconds (durationvalue v);
          number = (if ov_type v = VT_INT then double_of_int (intvalue v) else doublevalue v) in
      if name = WATCH_COLUMN then Inr (t\<lparr>watch_column_name := stringvalue v\<rparr>)
      else if name = THRESHOLD_COLUMN then Inr (t\<lparr>threshold_column_name := stringvalue v\<rparr>)
      else if name = DEFAULT_THRESHOLD then Inr (t\<lparr>default_threshold := number\<rparr>)
      else if name = INCREASE_SCALE then Inr (t\<lparr>increase_scale_factor := number\<rparr>)
      else if name = INCREASE_AFTER then Inr (t\<lparr>increase_after := seconds\<rparr>)
      else if name = DECREASE_AFTER then Inr (t\<lparr>decrease_after := seconds\<rparr>)
      else if name = DECREASE_TRIGGER then Inr (t\<lparr>decrease_trigger_factor := doublevalue v\<rparr>)
      else if name = DECREASE_SCALE then Inr (t\<lparr>decrease_scale_factor := doublevalue v\<rparr>)
      else if name = MIN_LEVEL then Inr (t\<lparr>min_threshold := doublevalue v\<rparr>)
      else if name = MAX_LEVEL then Inr (t\<lparr>max_threshold := doublevalue v\<rparr>)
      else throw_invalid (UnexpectedOptionName name))"

definition parse_threshold_option ::
  "Option \<Rightarrow> ThresholdOptions \<times> string list \<Rightarrow> parse_error + ThresholdOptions \<times> string list"
where
  "parse_threshold_option option st =
     (let (t, parsed_options) = st; name = opt_name option in
      case map_of THRESHOLD_OPTIONS_TYPES name of
        None \<Rightarrow> throw_invalid (UnexpectedOptionName name)
      | Some option_type \<Rightarrow>
          if name \<in> set parsed_options \<or> length (opt_values option) \<noteq> 1
          then throw_invalid (ExpectedExactlyOneValue name)
          else
            (let v = opt_values option ! 0 in
             if ov_type v \<noteq> option_type then throw_invalid (UnexpectedType (ov_type v) name)
             else rbind (assign_threshold_option name v t) (\<lambda>t. Inr (t, name # parsed_options))))"

definition parseThresholdOptions :: "ThresholdOptions \<Rightarrow> Option list \<Rightarrow> parse_error + ThresholdOptions" where
  "parseThresholdOptions memory request_options =
     rbind (rfold parse_threshold_option request_options (threshold_defaults memory, []))
       (\<lambda>(t, parsed_options).
          rbind (check_required REQUIRED_THRESHOLD_OPTIONS parsed_options MissedRequiredOption)
            (\<lambda>_. Inr (t\<lparr>threshold_column_type := FIELD\<rparr>)))"

section \<open>What the parser accepts\<close>

definition threshold_option_ok :: "Option \<Rightarrow> bool" where
  "threshold_option_ok opt \<longleftrightarrow>
     (\<exists>v. opt_values opt = [v] \<and> map_of THRESHOLD_OPTIONS_TYPES (opt_name opt) = Some (ov_type v))"

lemma assign_threshold_option_ok:
  assumes "map_of THRESHOLD_OPTIONS_TYPES name = Some ty"
  shows "\<exists>t'. assign_threshold_option name v t = Inr t'"
proof -
  have "name \<in> fst ` set THRESHOLD_OPTIONS_TYPES" using assms by (metis domI dom_map_of_conv_image_fst)
  then show ?thesis by (auto simp: assign_threshold_option_def Let_def THRESHOLD_OPTIONS_TYPES_def)
qed

lemma parse_threshold_option_Inr:
  "parse_threshold_option opt (t, p) = Inr (t', p') \<longleftrightarrow>
     threshold_option_ok opt \<and> opt_name opt \<notin> set p \<and> p' = opt_name opt # p \<and>
     assign_threshold_option (opt_name opt) (hd (opt_values opt)) t = Inr t'"
  by (auto simp: parse_threshold_option_def threshold_option_ok_def Let_def rbind_eq_Inr_iff length_Suc_conv
      split: option.splits)

lemma parse_threshold_loop_ok:
  "(\<exists>t'. rfold parse_threshold_option opts (t, p) = Inr (t', rev (map opt_name opts) @ p)) \<longleftrightarrow>
     (\<forall>opt \<in> set opts. threshold_option_ok opt \<and> opt_name opt \<notin> set p) \<and> distinct (map opt_name opts)"
proof (induction opts arbitrary: t p)
  case Nil
  then show ?case by simp
next
  case (Cons opt opts)
  show ?case
  proof (cases "threshold_option_ok opt \<and> opt_name opt \<notin> set p")
    case True
    then obtain ty where "map_of THRESHOLD_OPTIONS_TYPES (opt_name opt) = Some ty"
      by (auto simp: threshold_option_ok_def)
    then obtain t1 where "assign_threshold_option (opt_name opt) (hd (opt_values opt)) t = Inr t1"
      using assign_threshold_option_ok by blast
    with True have s: "parse_threshold_option opt (t, p) = Inr (t1, opt_name opt # p)"
      by (simp add: parse_threshold_option_Inr)
    have "(\<exists>t'. rfold parse_threshold_option (opt # opts) (t, p) = Inr (t', rev (map opt_name (opt # opts)) @ p))
      \<longleftrightarrow> (\<exists>t'. rfold parse_threshold_option opts (t1, opt_name opt # p)
                 = Inr (t', rev (map opt_name opts) @ opt_name opt # p))"
      by (simp add: s)
    also have "\<dots> \<longleftrightarrow> (\<forall>o' \<in> set opts. threshold_option_ok o' \<and> opt_name o' \<notin> set (opt_name opt # p)) \<and>
        distinct (map opt_name opts)"
      by (rule Cons.IH)
    finally show ?thesis using True by (force simp: image_iff)
  next
    case False
    then have "\<not> (\<exists>t' p'. parse_threshold_option opt (t, p) = Inr (t', p'))"
      by (simp add: parse_threshold_option_Inr)
    with False show ?thesis by (auto simp: rbind_eq_Inr_iff)
  qed
qed

lemma parse_threshold_loop_names:
  "rfold parse_threshold_option opts (t, p) = Inr (t', p') \<Longrightarrow> p' = rev (map opt_name opts) @ p"
proof (induction opts arbitrary: t p)
  case (Cons opt opts)
  then obtain t1 p1 where s: "parse_threshold_option opt (t, p) = Inr (t1, p1)"
    and r: "rfold parse_threshold_option opts (t1, p1) = Inr (t', p')"
    by (auto simp: rbind_eq_Inr_iff)
  with Cons.IH [OF r] show ?case by (simp add: parse_threshold_option_Inr)
qed simp

lemma parseThresholdOptions_ok:
  "(\<exists>t. parseThresholdOptions memory opts = Inr t) \<longleftrightarrow>
     (\<forall>opt \<in> set opts. threshold_option_ok opt) \<and> distinct (map opt_name opts) \<and>
     set REQUIRED_THRESHOLD_OPTIONS \<subseteq> opt_name ` set opts"
proof -
  have "(\<exists>t. parseThresholdOptions memory opts = Inr t) \<longleftrightarrow>
      (\<exists>t p. rfold parse_threshold_option opts (threshold_defaults memory, []) = Inr (t, p) \<and>
         set REQUIRED_THRESHOLD_OPTIONS \<subseteq> set p)"
    by (simp add: parseThresholdOptions_def rbind_eq_Inr_iff check_required_Inr)
  also have "\<dots> \<longleftrightarrow>
      (\<exists>t. rfold parse_threshold_option opts (threshold_defaults memory, []) = Inr (t, rev (map opt_name opts) @ [])) \<and>
      set REQUIRED_THRESHOLD_OPTIONS \<subseteq> opt_name ` set opts"
    using parse_threshold_loop_names by fastforce
  finally show ?thesis unfolding parse_threshold_loop_ok by simp
qed

section \<open>The options read\<close>

definition option_value :: "Option list \<Rightarrow> string \<Rightarrow> OptionValue option" where
  "option_value opts = map_of (map (\<lambda>opt. (opt_name opt, hd (opt_values opt))) opts)"

text \<open>The member an option sets: its value, or what was there before.\<close>

abbreviation read_option :: "Option list \<Rightarrow> string \<Rightarrow> (OptionValue \<Rightarrow> 'a) \<Rightarrow> 'a \<Rightarrow> 'a" where
  "read_option opts name f x \<equiv> (case option_value opts name of None \<Rightarrow> x | Some v \<Rightarrow> f v)"

definition threshold_spec :: "ThresholdOptions \<Rightarrow> Option list \<Rightarrow> ThresholdOptions" where
  "threshold_spec t opts =
     (let seconds = (\<lambda>v. nanoseconds_to_seconds (durationvalue v)) in
      \<lparr>watch_column_name = read_option opts WATCH_COLUMN stringvalue (watch_column_name t),
       threshold_column_name = read_option opts THRESHOLD_COLUMN stringvalue (threshold_column_name t),
       default_threshold = read_option opts DEFAULT_THRESHOLD doublevalue (default_threshold t),
       increase_scale_factor = read_option opts INCREASE_SCALE doublevalue (increase_scale_factor t),
       increase_after = read_option opts INCREASE_AFTER seconds (increase_after t),
       decrease_trigger_factor = read_option opts DECREASE_TRIGGER doublevalue (decrease_trigger_factor t),
       decrease_scale_factor = read_option opts DECREASE_SCALE doublevalue (decrease_scale_factor t),
       decrease_after = read_option opts DECREASE_AFTER seconds (decrease_after t),
       min_threshold = read_option opts MIN_LEVEL doublevalue (min_threshold t),
       max_threshold = read_option opts MAX_LEVEL doublevalue (max_threshold t),
       threshold_column_type = threshold_column_type t\<rparr>)"

lemma option_value_simps [simp]:
  "option_value [] name = None"
  "option_value (opt # opts) name =
     (if opt_name opt = name then Some (hd (opt_values opt)) else option_value opts name)"
  by (simp_all add: option_value_def)

lemma option_value_notin: "name \<notin> opt_name ` set opts \<Longrightarrow> option_value opts name = None"
  by (auto simp: option_value_def map_of_eq_None_iff image_image)

lemma threshold_spec_Nil [simp]: "threshold_spec t [] = t"
  by (simp add: threshold_spec_def Let_def)

lemma threshold_spec_Cons:
  assumes "threshold_option_ok opt" and "opt_name opt \<notin> opt_name ` set opts"
    and "assign_threshold_option (opt_name opt) (hd (opt_values opt)) t = Inr t1"
  shows "threshold_spec t (opt # opts) = threshold_spec t1 opts"
proof -
  let ?n = "opt_name opt" and ?v = "hd (opt_values opt)"
  have ty: "map_of THRESHOLD_OPTIONS_TYPES ?n = Some (ov_type ?v)"
    using assms(1) by (auto simp: threshold_option_ok_def)
  then have "?n \<in> fst ` set THRESHOLD_OPTIONS_TYPES" by (metis domI dom_map_of_conv_image_fst)
  then consider "?n = WATCH_COLUMN" | "?n = THRESHOLD_COLUMN" | "?n = DEFAULT_THRESHOLD"
    | "?n = INCREASE_SCALE" | "?n = INCREASE_AFTER" | "?n = DECREASE_AFTER" | "?n = DECREASE_TRIGGER"
    | "?n = DECREASE_SCALE" | "?n = MIN_LEVEL" | "?n = MAX_LEVEL"
    by (auto simp: THRESHOLD_OPTIONS_TYPES_def)
  moreover note none = option_value_notin [OF assms(2)]
  moreover have "ov_type ?v \<noteq> VT_INT"
    using ty by (auto simp: THRESHOLD_OPTIONS_TYPES_def split: if_splits)
  ultimately show ?thesis
    using assms(3)
    by cases (auto simp: assign_threshold_option_def Let_def threshold_spec_def threshold_option_names
        cong: option.case_cong)
qed

lemma parse_threshold_loop_spec:
  "rfold parse_threshold_option opts (t, p) = Inr (t', p') \<Longrightarrow> distinct (map opt_name opts) \<Longrightarrow>
     t' = threshold_spec t opts"
proof (induction opts arbitrary: t p)
  case Nil
  then show ?case by simp
next
  case (Cons opt opts)
  then obtain t1 p1 where s: "parse_threshold_option opt (t, p) = Inr (t1, p1)"
    and r: "rfold parse_threshold_option opts (t1, p1) = Inr (t', p')"
    by (auto simp: rbind_eq_Inr_iff)
  with Cons show ?case
    by (subst threshold_spec_Cons [of _ _ _ t1]) (auto simp: parse_threshold_option_Inr)
qed

lemma parseThresholdOptions_spec:
  assumes "parseThresholdOptions memory opts = Inr t"
  shows "t = threshold_spec (threshold_defaults memory) opts"
proof -
  obtain t' p where r: "rfold parse_threshold_option opts (threshold_defaults memory, []) = Inr (t', p)"
    and t: "t = t'\<lparr>threshold_column_type := FIELD\<rparr>"
    using assms by (auto simp: parseThresholdOptions_def rbind_eq_Inr_iff)
  have "distinct (map opt_name opts)" using assms parseThresholdOptions_ok by blast
  from parse_threshold_loop_spec [OF r this] t show ?thesis
    by (simp add: threshold_spec_def threshold_defaults_def Let_def)
qed

end
