(* ===== verification/Derivative_Options.thy ===== *)
theory Derivative_Options
  imports Handler_Options
begin

text \<open>
  The option parser of \<open>src/src/kapacitor_udf/request_handlers/derivative_request_handler.cpp\<close>. An
  option list is a sequence of derivative cases (\<open>derivative\<close> and then \<open>as\<close>, \<open>order\<close>)
  and global options in between; a case ends where the next begins, at a global option or at the
  end. Members without an initializer, and the string that \<open>std::move\<close> leaves behind, are
  taken from the argument \<open>memory\<close>.
\<close>

definition DERIVATIVE :: string where "DERIVATIVE = ''derivative''"
definition RESULT :: string where "RESULT = ''as''"
definition ORDER :: string where "ORDER = ''order''"
definition UNIT_TIME_SEGMENT :: string where "UNIT_TIME_SEGMENT = ''unit''"
definition NEIGHBOURHOOD :: string where "NEIGHBOURHOOD = ''neighbourhood''"
definition DER_EMIT_TIMEOUT :: string where "DER_EMIT_TIMEOUT = ''emitTimeout''"
definition NO_WAIT_FUTURE :: string where "NO_WAIT_FUTURE = ''noWait''"

lemmas derivative_option_names =
  DERIVATIVE_def RESULT_def ORDER_def UNIT_TIME_SEGMENT_def NEIGHBOURHOOD_def DER_EMIT_TIMEOUT_def
  NO_WAIT_FUTURE_def

definition REQUIRED_DERIVATIVE_CASE_OPTIONS :: "string list" where
  "REQUIRED_DERIVATIVE_CASE_OPTIONS = [DERIVATIVE, RESULT]"

definition DERIVATIVE_OPTIONS_TYPES :: "(string \<times> ValueType) list" where
  "DERIVATIVE_OPTIONS_TYPES =
     [(DERIVATIVE, VT_STRING), (RESULT, VT_STRING), (ORDER, VT_INT), (UNIT_TIME_SEGMENT, VT_DURATION),
      (NEIGHBOURHOOD, VT_DURATION), (DER_EMIT_TIMEOUT, VT_DURATION)]"

definition OPTIONAL_GLOBAL_OPTIONS :: "string list" where
  "OPTIONAL_GLOBAL_OPTIONS = [UNIT_TIME_SEGMENT, NEIGHBOURHOOD, DER_EMIT_TIMEOUT]"

definition DEFAULT_ORDER_OPTION_VALUE :: nat where "DEFAULT_ORDER_OPTION_VALUE = 1"
definition DEFAULT_UNIT_TIME_SEGMENT_OPTION_VALUE :: int where
  "DEFAULT_UNIT_TIME_SEGMENT_OPTION_VALUE = 1000000000"
definition DEFAULT_EMIT_TIMEOUT_OPTION_VALUE :: int where "DEFAULT_EMIT_TIMEOUT_OPTION_VALUE = 10"

definition getDerivativeOptionsMap :: "(string, ValueType list) smap" where
  "getDerivativeOptionsMap =
     smap_put NO_WAIT_FUTURE [] (smap_puts (map (\<lambda>(n, t). (n, [t])) DERIVATIVE_OPTIONS_TYPES) [])"

text \<open>The local variables of \<open>parseDerivativeOptions\<close>.\<close>

record DerivativeParser =
  dp_options :: DerivativeOptions
  dp_emit_timeout :: int
  current_result_option_value :: string
  current_derivative_case :: DerivativeCase
  parsed_derivative_case_options :: "string list"
  parsed_global_options :: "string list"

definition addDerivativeCase :: "string \<Rightarrow> DerivativeParser \<Rightarrow> parse_error + DerivativeParser" where
  "addDerivativeCase moved_string st =
     (let result = current_result_option_value st;
          cases = derivative_cases (dp_options st);
          parsed = parsed_derivative_case_options st in
      rbind (check_required REQUIRED_DERIVATIVE_CASE_OPTIONS parsed MissingDerivativeCaseOption) (\<lambda>_.
        if map_of cases result \<noteq> None then throw_invalid (DuplicatingResultFields result)
        else
          (let derivative_case = current_derivative_case st;
               derivative_case = (if ORDER \<in> set parsed then derivative_case
                                  else derivative_case\<lparr>der_order := DEFAULT_ORDER_OPTION_VALUE\<rparr>) in
           Inr (st\<lparr>dp_options := (dp_options st)\<lparr>derivative_cases := smap_put result derivative_case cases\<rparr>,
                   current_derivative_case := (current_derivative_case st)\<lparr>values_column_name := moved_string\<rparr>,
                   parsed_derivative_case_options := []\<rparr>))))"

abbreviation finish_case :: "string \<Rightarrow> DerivativeParser \<Rightarrow> parse_error + DerivativeParser" where
  "finish_case moved_string st \<equiv>
     (if parsed_derivative_case_options st \<noteq> [] then addDerivativeCase moved_string st else Inr st)"

abbreviation upd_options ::
  "(DerivativeOptions \<Rightarrow> DerivativeOptions) \<Rightarrow> DerivativeParser \<Rightarrow> DerivativeParser" where
  "upd_options f st \<equiv> st\<lparr>dp_options := f (dp_options st)\<rparr>"

abbreviation upd_case :: "(DerivativeCase \<Rightarrow> DerivativeCase) \<Rightarrow> DerivativeParser \<Rightarrow> DerivativeParser" where
  "upd_case f st \<equiv> st\<lparr>current_derivative_case := f (current_derivative_case st)\<rparr>"

definition parse_global_option ::
  "string \<Rightarrow> string \<Rightarrow> OptionValue \<Rightarrow> DerivativeParser \<Rightarrow> parse_error + DerivativeParser"
where
  "parse_global_option moved_string name v st =
     rbind (finish_case moved_string st) (\<lambda>st.
       (let st = st\<lparr>parsed_global_options := name # parsed_global_options st\<rparr> in
        if name = UNIT_TIME_SEGMENT then
          Inr (upd_options (\<lambda>o'. o'\<lparr>unit_time_segment := durationvalue v\<rparr>) st)
        else if name = NEIGHBOURHOOD then
          Inr (upd_options (\<lambda>o'. o'\<lparr>derivative_neighbourhood := durationvalue v\<rparr>) st)
        else if name = DER_EMIT_TIMEOUT then
          Inr (st\<lparr>dp_emit_timeout := nanoseconds_to_seconds (durationvalue v)\<rparr>)
        else throw_invalid (UnexpectedOptionName name)))"

definition parse_case_option ::
  "string \<Rightarrow> string \<Rightarrow> OptionValue \<Rightarrow> DerivativeParser \<Rightarrow> parse_error + DerivativeParser"
where
  "parse_case_option moved_string name v st =
     rbind
       (if name = DERIVATIVE then
          rbind (finish_case moved_string st) (\<lambda>st.
            Inr (upd_case (\<lambda>c. c\<lparr>values_column_name := stringvalue v\<rparr>) st))
        else if DERIVATIVE \<notin> set (parsed_derivative_case_options st) then
          throw_invalid (OptionExpectedBefore DERIVATIVE name)
        else if name = RESULT then Inr (st\<lparr>current_result_option_value := stringvalue v\<rparr>)
        else if name = ORDER then
          (if intvalue v < 0 then throw_invalid (NonNegativeExpected name (intvalue v))
           else Inr (upd_case (\<lambda>c. c\<lparr>der_order := nat (intvalue v)\<rparr>) st))
        else throw_invalid (UnexpectedOptionName name))
       (\<lambda>st. Inr (st\<lparr>parsed_derivative_case_options := name # parsed_derivative_case_options st\<rparr>))"

definition parse_derivative_option ::
  "string \<Rightarrow> Option \<Rightarrow> DerivativeParser \<Rightarrow> parse_error + DerivativeParser"
where
  "parse_derivative_option moved_string option st =
     (let name = opt_name option; n = length (opt_values option) in
      if map_of DERIVATIVE_OPTIONS_TYPES name = None \<and> name \<noteq> NO_WAIT_FUTURE
      then throw_invalid (UnexpectedOptionName name)
      else if name \<in> set (parsed_global_options st) \<or> 1 < n then throw_invalid (ExpectedAtMostOneValue name)
      else if name = NO_WAIT_FUTURE then
        (if 0 < n then throw_invalid (SupposedNoValues name)
         else Inr (upd_options (\<lambda>o'. o'\<lparr>no_wait_future := True\<rparr>) st))
      else
        rbind (map_at DERIVATIVE_OPTIONS_TYPES name) (\<lambda>option_type.
          if n = 0 then throw_invalid (SupposedValueOfType name option_type)
          else
            (let v = opt_values option ! 0 in
             if ov_type v \<noteq> option_type then throw_invalid (UnexpectedType (ov_type v) name)
             else if name \<in> set OPTIONAL_GLOBAL_OPTIONS then parse_global_option moved_string name v st
             else parse_case_option moved_string name v st)))"

definition parser_start :: "DerivativeParser \<Rightarrow> DerivativeParser" where
  "parser_start memory =
     memory\<lparr>dp_options := (dp_options memory)\<lparr>derivative_cases := [], no_wait_future := False\<rparr>,
            current_result_option_value := [],
            current_derivative_case := (current_derivative_case memory)\<lparr>values_column_name := []\<rparr>,
            parsed_derivative_case_options := [], parsed_global_options := []\<rparr>"

definition parseDerivativeOptions ::
  "DerivativeParser \<Rightarrow> string \<Rightarrow> Option list \<Rightarrow> parse_error + DerivativeOptions \<times> int"
where
  "parseDerivativeOptions memory moved_string request_options =
     rbind (rfold (parse_derivative_option moved_string) request_options (parser_start memory)) (\<lambda>st.
       rbind (finish_case moved_string st) (\<lambda>st.
         if derivative_cases (dp_options st) = [] then throw_invalid NoDerivativeCases
         else
           (let parsed = parsed_global_options st;
                o' = dp_options st;
                o' = (if UNIT_TIME_SEGMENT \<in> set parsed then o'
                      else o'\<lparr>unit_time_segment := DEFAULT_UNIT_TIME_SEGMENT_OPTION_VALUE\<rparr>);
                o' = (if NEIGHBOURHOOD \<in> set parsed then o'
                      else o'\<lparr>derivative_neighbourhood := unit_time_segment o'\<rparr>);
                emit_timeout = (if DER_EMIT_TIMEOUT \<in> set parsed then dp_emit_timeout st
                                else DEFAULT_EMIT_TIMEOUT_OPTION_VALUE)
            in Inr (o', emit_timeout))))"

section \<open>A list of cases is read back\<close>

text \<open>A derivative case as a user writes it: result field, source field, order if given.\<close>

type_synonym case_text = "string \<times> string \<times> nat option"

definition case_options :: "case_text \<Rightarrow> Option list" where
  "case_options c = (case c of (result, column, order) \<Rightarrow>
     string_option DERIVATIVE column # string_option RESULT result #
     (case order of None \<Rightarrow> [] | Some n \<Rightarrow> [int_option ORDER (int n)]))"

definition case_meaning :: "case_text \<Rightarrow> string \<times> DerivativeCase" where
  "case_meaning c = (case c of (result, column, order) \<Rightarrow>
     (result, \<lparr>values_column_name = column, der_order = (case order of None \<Rightarrow> 1 | Some n \<Rightarrow> n)\<rparr>))"

text \<open>The state of the parser within the case \<open>c\<close>, after the cases \<open>m\<close>.\<close>

definition within_case :: "case_text \<Rightarrow> (string, DerivativeCase) smap \<Rightarrow> DerivativeParser \<Rightarrow> bool" where
  "within_case c m st \<longleftrightarrow> (case c of (result, column, order) \<Rightarrow>
     current_result_option_value st = result \<and>
     values_column_name (current_derivative_case st) = column \<and>
     (\<forall>n. order = Some n \<longrightarrow> der_order (current_derivative_case st) = n) \<and>
     set (parsed_derivative_case_options st) = {DERIVATIVE, RESULT} \<union> (if order = None then {} else {ORDER}) \<and>
     derivative_cases (dp_options st) = m)"

definition same_globals :: "DerivativeParser \<Rightarrow> DerivativeParser \<Rightarrow> bool" where
  "same_globals st st' \<longleftrightarrow>
     parsed_global_options st = parsed_global_options st' \<and>
     unit_time_segment (dp_options st) = unit_time_segment (dp_options st') \<and>
     derivative_neighbourhood (dp_options st) = derivative_neighbourhood (dp_options st') \<and>
     no_wait_future (dp_options st) = no_wait_future (dp_options st') \<and>
     dp_emit_timeout st = dp_emit_timeout st'"

lemma finish_within_case:
  assumes "within_case c m st" and "map_of m (fst (case_meaning c)) = None"
  shows "\<exists>st'. finish_case moved st = Inr st' \<and> parsed_derivative_case_options st' = [] \<and>
    derivative_cases (dp_options st') = smap_put (fst (case_meaning c)) (snd (case_meaning c)) m \<and>
    same_globals st st'"
proof -
  obtain r col ord where c: "c = (r, col, ord)" by (cases c)
  have "parsed_derivative_case_options st \<noteq> []"
    using assms(1) by (auto simp: within_case_def c)
  moreover have "check_required REQUIRED_DERIVATIVE_CASE_OPTIONS (parsed_derivative_case_options st) e = Inr ()" for e
    using assms(1) by (simp add: check_required_Inr REQUIRED_DERIVATIVE_CASE_OPTIONS_def within_case_def c)
  moreover have "ORDER \<notin> {DERIVATIVE, RESULT}" by (simp add: derivative_option_names)
  moreover have e: "\<lparr>values_column_name = values_column_name d, der_order = n\<rparr> = d\<lparr>der_order := n\<rparr>" for d :: DerivativeCase and n
    by (cases d) simp
  ultimately show ?thesis
    using assms
    by (cases ord) (auto simp: addDerivativeCase_def Let_def within_case_def case_meaning_def c
        same_globals_def DEFAULT_ORDER_OPTION_VALUE_def e simp del: smap_put.simps)
qed

text \<open>From a state between two cases, the options of a case lead into it.\<close>

lemma enter_case:
  assumes "parsed_derivative_case_options st = []" and "derivative_cases (dp_options st) = m"
    and "set (parsed_global_options st) \<subseteq> set OPTIONAL_GLOBAL_OPTIONS"
  shows "\<exists>st'. rfold (parse_derivative_option moved) (case_options c) st = Inr st' \<and>
    within_case c m st' \<and> same_globals st st'"
proof -
  obtain r col ord where c: "c = (r, col, ord)" by (cases c)
  have g: "DERIVATIVE \<notin> set (parsed_global_options st)" "RESULT \<notin> set (parsed_global_options st)"
    "ORDER \<notin> set (parsed_global_options st)"
    using assms(3) by (auto simp: OPTIONAL_GLOBAL_OPTIONS_def derivative_option_names)
  show ?thesis
    using assms(1,2) g
    by (cases ord) (simp_all add: c case_options_def parse_derivative_option_def string_option_def int_option_def
        DERIVATIVE_OPTIONS_TYPES_def OPTIONAL_GLOBAL_OPTIONS_def parse_case_option_def derivative_option_names
        stringvalue_def intvalue_def within_case_def same_globals_def map_at_def insert_commute)
qed

text \<open>From within a case, the first option of the next one finishes it.\<close>

lemma next_case:
  assumes "within_case c m st" and "map_of m (fst (case_meaning c)) = None"
    and "set (parsed_global_options st) \<subseteq> set OPTIONAL_GLOBAL_OPTIONS"
  shows "\<exists>st'. rfold (parse_derivative_option moved) (case_options c') st = Inr st' \<and>
    within_case c' (smap_put (fst (case_meaning c)) (snd (case_meaning c)) m) st' \<and> same_globals st st'"
proof -
  obtain st1 where f: "finish_case moved st = Inr st1" and e: "parsed_derivative_case_options st1 = []"
    and d: "derivative_cases (dp_options st1) = smap_put (fst (case_meaning c)) (snd (case_meaning c)) m"
    and g: "same_globals st st1"
    using finish_within_case [OF assms(1,2)] by blast
  obtain r col ord where c': "c' = (r, col, ord)" by (cases c')
  have pg: "parsed_global_options st1 = parsed_global_options st" using g by (simp add: same_globals_def)
  have nd: "DERIVATIVE \<notin> set (parsed_global_options st)"
    using assms(3) by (auto simp: OPTIONAL_GLOBAL_OPTIONS_def derivative_option_names)
  have o': "DERIVATIVE \<notin> set OPTIONAL_GLOBAL_OPTIONS" "DERIVATIVE \<noteq> NO_WAIT_FUTURE"
    "map_of DERIVATIVE_OPTIONS_TYPES DERIVATIVE = Some VT_STRING"
    by (simp_all add: OPTIONAL_GLOBAL_OPTIONS_def DERIVATIVE_OPTIONS_TYPES_def derivative_option_names)
  have s: "parse_derivative_option moved (string_option DERIVATIVE col) x =
      rbind (rbind (finish_case moved x) (\<lambda>y. Inr (upd_case (\<lambda>c. c\<lparr>values_column_name := col\<rparr>) y)))
        (\<lambda>st. Inr (st\<lparr>parsed_derivative_case_options := DERIVATIVE # parsed_derivative_case_options st\<rparr>))"
    if "DERIVATIVE \<notin> set (parsed_global_options x)" for x
    using that o' by (simp add: parse_derivative_option_def string_option_def Let_def map_at_def
        parse_case_option_def stringvalue_def)
  have "parse_derivative_option moved (string_option DERIVATIVE col) st =
      parse_derivative_option moved (string_option DERIVATIVE col) st1"
    unfolding s [OF nd] s [OF nd [folded pg]] f using e by simp
  then have "rfold (parse_derivative_option moved) (case_options c') st =
      rfold (parse_derivative_option moved) (case_options c') st1"
    by (simp add: c' case_options_def)
  moreover obtain st' where "rfold (parse_derivative_option moved) (case_options c') st1 = Inr st'"
    "within_case c' (smap_put (fst (case_meaning c)) (snd (case_meaning c)) m) st'" "same_globals st1 st'"
    using enter_case [OF e d] assms(3) pg by metis
  ultimately show ?thesis using g by (auto simp: same_globals_def)
qed

abbreviation result_name :: "case_text \<Rightarrow> string" where
  "result_name c \<equiv> fst (case_meaning c)"

lemma case_loop:
  assumes "within_case c m st" and "set (parsed_global_options st) \<subseteq> set OPTIONAL_GLOBAL_OPTIONS"
    and "distinct (map result_name (c # cs))" and "\<forall>d \<in> set (c # cs). map_of m (result_name d) = None"
  shows "\<exists>st'. rbind (rfold (parse_derivative_option moved) (concat (map case_options cs)) st) (finish_case moved) = Inr st' \<and>
    derivative_cases (dp_options st') = smap_puts (map case_meaning (c # cs)) m \<and> same_globals st st'"
  using assms
proof (induction cs arbitrary: c m st)
  case Nil
  then show ?case
    using finish_within_case [of c m st moved] by (auto simp: smap_puts_def case_prod_beta)
next
  case (Cons c' cs)
  let ?m = "smap_put (result_name c) (snd (case_meaning c)) m"
  obtain st1 where r: "rfold (parse_derivative_option moved) (case_options c') st = Inr st1"
    and w: "within_case c' ?m st1" and g: "same_globals st st1"
    using next_case [OF Cons.prems(1)] Cons.prems(2,4) by fastforce
  have ne: "\<forall>d \<in> set (c' # cs). result_name d \<noteq> result_name c"
  proof
    fix d
    assume "d \<in> set (c' # cs)"
    then have "result_name d \<in> set (map result_name (c' # cs))" unfolding set_map by (rule imageI)
    moreover have "result_name c \<notin> set (map result_name (c' # cs))"
      using Cons.prems(3) by simp
    ultimately show "result_name d \<noteq> result_name c" by metis
  qed
  have "set (parsed_global_options st1) \<subseteq> set OPTIONAL_GLOBAL_OPTIONS"
    using g Cons.prems(2) by (simp add: same_globals_def)
  moreover have "distinct (map result_name (c' # cs))" using Cons.prems(3) by simp
  moreover from ne have "\<forall>d \<in> set (c' # cs). map_of ?m (result_name d) = None"
    using Cons.prems(4) by simp
  ultimately obtain st' where
    "rbind (rfold (parse_derivative_option moved) (concat (map case_options cs)) st1) (finish_case moved) = Inr st'"
    "derivative_cases (dp_options st') = smap_puts (map case_meaning (c' # cs)) ?m" "same_globals st1 st'"
    using Cons.IH [OF w] by blast
  with r g show ?case
    by (simp add: rfold_append rbind_assoc smap_puts_def case_prod_beta) (auto simp: same_globals_def)
qed

text \<open>The global options as a user writes them, before the cases.\<close>

definition global_options :: "int option \<Rightarrow> int option \<Rightarrow> int option \<Rightarrow> bool \<Rightarrow> Option list" where
  "global_options u n e nw =
     (case u of None \<Rightarrow> [] | Some d \<Rightarrow> [duration_option UNIT_TIME_SEGMENT d]) @
     (case n of None \<Rightarrow> [] | Some d \<Rightarrow> [duration_option NEIGHBOURHOOD d]) @
     (case e of None \<Rightarrow> [] | Some d \<Rightarrow> [duration_option DER_EMIT_TIMEOUT d]) @
     (if nw then [\<lparr>opt_name = NO_WAIT_FUTURE, opt_values = []\<rparr>] else [])"

lemma global_loop:
  "\<exists>st. rfold (parse_derivative_option moved) (global_options u n e nw) (parser_start memory) = Inr st \<and>
     parsed_derivative_case_options st = [] \<and> derivative_cases (dp_options st) = [] \<and>
     no_wait_future (dp_options st) = nw \<and>
     set (parsed_global_options st) =
       (if u = None then {} else {UNIT_TIME_SEGMENT}) \<union> (if n = None then {} else {NEIGHBOURHOOD}) \<union>
       (if e = None then {} else {DER_EMIT_TIMEOUT}) \<and>
     (\<forall>d. u = Some d \<longrightarrow> unit_time_segment (dp_options st) = d) \<and>
     (\<forall>d. n = Some d \<longrightarrow> derivative_neighbourhood (dp_options st) = d) \<and>
     (\<forall>d. e = Some d \<longrightarrow> dp_emit_timeout st = nanoseconds_to_seconds d)"
  by (cases u; cases n; cases e; cases nw)
    (simp_all add: global_options_def parse_derivative_option_def duration_option_def parse_global_option_def
      DERIVATIVE_OPTIONS_TYPES_def OPTIONAL_GLOBAL_OPTIONS_def derivative_option_names parser_start_def map_at_def
      durationvalue_def insert_commute)

lemma parseDerivativeOptions_cases:
  assumes "cs \<noteq> []" and "distinct (map result_name cs)"
  shows "parseDerivativeOptions memory moved (global_options u n e nw @ concat (map case_options cs)) =
    Inr (\<lparr>unit_time_segment = (case u of None \<Rightarrow> 1000000000 | Some d \<Rightarrow> d),
          derivative_neighbourhood = (case n of Some d \<Rightarrow> d
            | None \<Rightarrow> (case u of None \<Rightarrow> 1000000000 | Some d \<Rightarrow> d)),
          derivative_cases = smap_puts (map case_meaning cs) [],
          no_wait_future = nw\<rparr>,
         case e of None \<Rightarrow> 10 | Some d \<Rightarrow> nanoseconds_to_seconds d)"
proof -
  obtain c cs' where cs: "cs = c # cs'" using assms(1) by (cases cs) auto
  obtain st where g: "rfold (parse_derivative_option moved) (global_options u n e nw) (parser_start memory) = Inr st"
    and p: "parsed_derivative_case_options st = []" "derivative_cases (dp_options st) = []"
    and nw: "no_wait_future (dp_options st) = nw"
    and names: "set (parsed_global_options st) =
       (if u = None then {} else {UNIT_TIME_SEGMENT}) \<union> (if n = None then {} else {NEIGHBOURHOOD}) \<union>
       (if e = None then {} else {DER_EMIT_TIMEOUT})"
    and vals: "\<forall>d. u = Some d \<longrightarrow> unit_time_segment (dp_options st) = d"
      "\<forall>d. n = Some d \<longrightarrow> derivative_neighbourhood (dp_options st) = d"
      "\<forall>d. e = Some d \<longrightarrow> dp_emit_timeout st = nanoseconds_to_seconds d"
    using global_loop [of moved u n e nw memory] by blast
  have sub: "set (parsed_global_options st) \<subseteq> set OPTIONAL_GLOBAL_OPTIONS"
    by (auto simp: names OPTIONAL_GLOBAL_OPTIONS_def split: if_splits)
  obtain st1 where r1: "rfold (parse_derivative_option moved) (case_options c) st = Inr st1"
    and w: "within_case c [] st1" and g1: "same_globals st st1"
    using enter_case [OF p sub] by blast
  obtain st2 where r2: "rbind (rfold (parse_derivative_option moved) (concat (map case_options cs')) st1)
      (finish_case moved) = Inr st2"
    and d: "derivative_cases (dp_options st2) = smap_puts (map case_meaning cs) []" and g2: "same_globals st1 st2"
    using case_loop [OF w, of cs' moved] sub g1 assms(2) by (auto simp: cs same_globals_def)
  have loop: "rbind (rfold (parse_derivative_option moved)
      (global_options u n e nw @ concat (map case_options cs)) (parser_start memory)) (finish_case moved) = Inr st2"
    by (simp only: cs list.map concat.simps rfold_append rbind_assoc g r1 r2 rbind_simps)
  have ne: "derivative_cases (dp_options st2) \<noteq> []"
    using arg_cong [OF d, of "\<lambda>m. map_of m (result_name c)"] assms(2)
      ordered.look_fold_distinct [of "map case_meaning cs" "[]"]
    by (auto simp: smap_puts_def cs comp_def)
  have gg: "same_globals st st2" using g1 g2 by (simp add: same_globals_def)
  have dist: "distinct [UNIT_TIME_SEGMENT, NEIGHBOURHOOD, DER_EMIT_TIMEOUT]"
    by (simp add: derivative_option_names)
  have "parseDerivativeOptions memory moved (global_options u n e nw @ concat (map case_options cs)) =
      (let parsed = parsed_global_options st2;
           o' = dp_options st2;
           o' = (if UNIT_TIME_SEGMENT \<in> set parsed then o'
                 else o'\<lparr>unit_time_segment := DEFAULT_UNIT_TIME_SEGMENT_OPTION_VALUE\<rparr>);
           o' = (if NEIGHBOURHOOD \<in> set parsed then o'
                 else o'\<lparr>derivative_neighbourhood := unit_time_segment o'\<rparr>);
           emit_timeout = (if DER_EMIT_TIMEOUT \<in> set parsed then dp_emit_timeout st2
                           else DEFAULT_EMIT_TIMEOUT_OPTION_VALUE)
       in Inr (o', emit_timeout))"
    unfolding parseDerivativeOptions_def rbind_assoc [symmetric] loop using ne by simp
  moreover have mem: "UNIT_TIME_SEGMENT \<in> set (parsed_global_options st2) \<longleftrightarrow> u \<noteq> None"
    "NEIGHBOURHOOD \<in> set (parsed_global_options st2) \<longleftrightarrow> n \<noteq> None"
    "DER_EMIT_TIMEOUT \<in> set (parsed_global_options st2) \<longleftrightarrow> e \<noteq> None"
    using names gg by (simp_all add: same_globals_def derivative_option_names)
  moreover obtain U N C W where o2: "dp_options st2 =
      \<lparr>unit_time_segment = U, derivative_neighbourhood = N, derivative_cases = C, no_wait_future = W\<rparr>"
    by (cases "dp_options st2")
  moreover have "W = nw" "C = smap_puts (map case_meaning cs) []"
    "\<forall>x. u = Some x \<longrightarrow> U = x" "\<forall>x. n = Some x \<longrightarrow> N = x"
    "\<forall>x. e = Some x \<longrightarrow> dp_emit_timeout st2 = nanoseconds_to_seconds x"
    using gg d nw vals o2 by (simp_all add: same_globals_def)
  ultimately show ?thesis
    by (cases u; cases n; cases e) (simp_all add: Let_def DEFAULT_UNIT_TIME_SEGMENT_OPTION_VALUE_def
        DEFAULT_EMIT_TIMEOUT_OPTION_VALUE_def)
qed

end
