(* ===== verification/Arrow.thy ===== *)
theory Arrow
  imports Agent_Proto Time_Utils
begin

text \<open>
  What the program uses of Apache Arrow. The data of a record batch (schema, fields with their
  key-value metadata, columns of scalars) is written down as records; \<open>RecordBatch::Make\<close>,
  \<open>arrow::field\<close>, \<open>schema()\<close>, \<open>num_rows()\<close>, \<open>ReplaceSchemaMetadata\<close> and the like only build or
  read it. Every function of the library that computes something is a field of the record
  \<open>arrow_lib\<close>, passed to the definitions that call it as the argument \<open>A\<close>; the theorems state
  what they need of it as hypotheses. Likewise \<open>proto_lib\<close> holds protobuf's serialization of
  the messages that are stored in metadata or in snapshots.

  The \<open>value\<close> of a scalar is read after a \<open>static_pointer_cast\<close> to the scalar class of its
  type; the members of the other classes have no meaning for it.
\<close>

section \<open>Data\<close>

datatype arrow_type_id =
    BOOL | UINT8 | INT8 | UINT16 | INT16 | UINT32 | INT32 | UINT64 | INT64 | HALF_FLOAT | FLOAT
  | DOUBLE | STRING | TIMESTAMP | DURATION | DECIMAL | NA | OTHER_TYPE nat

datatype arrow_type = Plain arrow_type_id | Timestamp arrow_unit | Duration arrow_unit

fun type_id :: "arrow_type \<Rightarrow> arrow_type_id" where
  "type_id (Plain i) = i"
| "type_id (Timestamp _) = TIMESTAMP"
| "type_id (Duration _) = DURATION"

record scalar =
  s_type :: arrow_type
  s_is_valid :: bool
  s_int :: int
  s_double :: double
  s_string :: string
  s_bool :: bool

type_synonym kv_metadata = "(string \<times> string) list"

record arrow_field =
  f_name :: string
  f_type :: arrow_type
  f_metadata :: "kv_metadata option"

record schema =
  sch_fields :: "arrow_field list"
  sch_metadata :: "kv_metadata option"

record arrow_array =
  a_type :: arrow_type
  a_values :: "scalar list"

record batch =
  b_schema :: schema
  b_num_rows :: nat
  b_columns :: "arrow_array list"

record table =
  t_schema :: schema
  t_num_rows :: nat
  t_columns :: "arrow_array list list"

text \<open>An \<open>ArrayBuilder\<close>: the type of the array and the values appended so far.\<close>

type_synonym builder = "arrow_type \<times> scalar list"

abbreviation new_field :: "string \<Rightarrow> arrow_type \<Rightarrow> arrow_field" where
  "new_field name ty \<equiv> \<lparr>f_name = name, f_type = ty, f_metadata = None\<rparr>"

abbreviation Make :: "schema \<Rightarrow> nat \<Rightarrow> arrow_array list \<Rightarrow> batch" where
  "Make sch n cols \<equiv> \<lparr>b_schema = sch, b_num_rows = n, b_columns = cols\<rparr>"

lemma Make_eta [simp]: "Make (b_schema b) (b_num_rows b) (b_columns b) = b"
  by simp

abbreviation ReplaceSchemaMetadata :: "batch \<Rightarrow> kv_metadata option \<Rightarrow> batch" where
  "ReplaceSchemaMetadata b md \<equiv> b\<lparr>b_schema := (b_schema b)\<lparr>sch_metadata := md\<rparr>\<rparr>"

abbreviation a_length :: "arrow_array \<Rightarrow> nat" where
  "a_length a \<equiv> length (a_values a)"

abbreviation num_columns :: "batch \<Rightarrow> nat" where
  "num_columns b \<equiv> length (b_columns b)"

definition int_scalar :: "arrow_type \<Rightarrow> int \<Rightarrow> scalar" where
  "int_scalar ty i = \<lparr>s_type = ty, s_is_valid = True, s_int = i, s_double = Fin 0, s_string = [], s_bool = False\<rparr>"

definition double_scalar :: "double \<Rightarrow> scalar" where
  "double_scalar d = \<lparr>s_type = Plain DOUBLE, s_is_valid = True, s_int = 0, s_double = d, s_string = [], s_bool = False\<rparr>"

definition string_scalar :: "string \<Rightarrow> scalar" where
  "string_scalar s = \<lparr>s_type = Plain STRING, s_is_valid = True, s_int = 0, s_double = Fin 0, s_string = s, s_bool = False\<rparr>"

definition bool_scalar :: "bool \<Rightarrow> scalar" where
  "bool_scalar b = \<lparr>s_type = Plain BOOL, s_is_valid = True, s_int = 0, s_double = Fin 0, s_string = [], s_bool = b\<rparr>"

definition null_scalar :: "arrow_type \<Rightarrow> scalar" where
  "null_scalar ty = \<lparr>s_type = ty, s_is_valid = False, s_int = 0, s_double = Fin 0, s_string = [], s_bool = False\<rparr>"

lemmas scalar_defs = int_scalar_def double_scalar_def string_scalar_def bool_scalar_def null_scalar_def

section \<open>The library\<close>

record arrow_lib =
  md_Set :: "kv_metadata \<Rightarrow> string \<Rightarrow> string \<Rightarrow> status + kv_metadata"
  md_Contains :: "kv_metadata \<Rightarrow> string \<Rightarrow> bool"
  md_Get :: "kv_metadata \<Rightarrow> string \<Rightarrow> status + string"
  field_HasMetadata :: "arrow_field \<Rightarrow> bool"
  schema_HasMetadata :: "schema \<Rightarrow> bool"
  field_Equals :: "arrow_field \<Rightarrow> arrow_field \<Rightarrow> bool"
  schema_Equals :: "schema \<Rightarrow> schema \<Rightarrow> bool"
  GetFieldIndex :: "schema \<Rightarrow> string \<Rightarrow> int"
  GetFieldByName :: "schema \<Rightarrow> string \<Rightarrow> arrow_field option"
  SetField :: "schema \<Rightarrow> int \<Rightarrow> arrow_field \<Rightarrow> status + schema"
  GetColumnByName :: "batch \<Rightarrow> string \<Rightarrow> arrow_array option"
  AddColumn :: "batch \<Rightarrow> int \<Rightarrow> arrow_field \<Rightarrow> arrow_array \<Rightarrow> status + batch"
  RemoveColumn :: "batch \<Rightarrow> int \<Rightarrow> status + batch"
  Slice :: "batch \<Rightarrow> int \<Rightarrow> int \<Rightarrow> batch"
  SliceFrom :: "batch \<Rightarrow> int \<Rightarrow> batch"
  GetScalar :: "arrow_array \<Rightarrow> int \<Rightarrow> status + scalar"
  ViewInt64 :: "arrow_array \<Rightarrow> status + arrow_array"
  CastTo :: "scalar \<Rightarrow> arrow_type \<Rightarrow> status + scalar"
  ToString :: "scalar \<Rightarrow> string"
  scalar_Equals :: "scalar \<Rightarrow> scalar \<Rightarrow> bool"
  SortIndices :: "arrow_array \<Rightarrow> status + arrow_array"
  Take :: "batch \<Rightarrow> arrow_array \<Rightarrow> status + batch"
  CompareEqual :: "arrow_array \<Rightarrow> scalar \<Rightarrow> status + arrow_array"
  CompareNotEqual :: "arrow_array \<Rightarrow> scalar \<Rightarrow> status + arrow_array"
  Filter :: "batch \<Rightarrow> arrow_array \<Rightarrow> status + batch"
  MinMax :: "arrow_array \<Rightarrow> status + scalar \<times> scalar"
  Mean :: "arrow_array \<Rightarrow> status + scalar"
  FromRecordBatches :: "batch list \<Rightarrow> status + table"
  CombineChunks :: "table \<Rightarrow> status + table"
  Append :: "builder \<Rightarrow> scalar \<Rightarrow> status + builder"
  AppendNull :: "builder \<Rightarrow> status + builder"
  Finish :: "builder \<Rightarrow> status + arrow_array"

record proto_lib =
  SerializeGroup :: "RecordBatchGroup \<Rightarrow> string"
  ParseGroup :: "string \<Rightarrow> RecordBatchGroup"
  SerializeColumnsNames :: "string list \<Rightarrow> string"
  SerializePoints :: "PointBatch \<Rightarrow> bytes"
  ParsePoints :: "bytes \<Rightarrow> PointBatch \<times> bool"
  SerializePoint :: "Point \<Rightarrow> bytes"

text \<open>\<open>GetColumnByName(name)->f(...)\<close>: a null pointer is dereferenced when there is no such
  column.\<close>

definition deref :: "'a option \<Rightarrow> ('a \<Rightarrow> status + 'b) \<Rightarrow> status + 'b" where
  "deref p f = (case p of None \<Rightarrow> Inl UndefinedBehaviour | Some x \<Rightarrow> f x)"

lemma deref_simps [simp]: "deref None f = Inl UndefinedBehaviour" "deref (Some x) f = f x"
  by (simp_all add: deref_def)

lemma deref_cong [fundef_cong]:
  "p = p' \<Longrightarrow> (\<And>x. p' = Some x \<Longrightarrow> f x = f' x) \<Longrightarrow> deref p f = deref p' f'"
  by (auto simp: deref_def split: option.splits)

lemma deref_eq_Inr_iff: "deref p f = Inr y \<longleftrightarrow> (\<exists>x. p = Some x \<and> f x = Inr y)"
  by (auto simp: deref_def split: option.splits)

end
