(* ===== verification/Metadata.thy ===== *)
theory Metadata
  imports Arrow Grouping_Utils
begin

text \<open>
  \<open>src/src/metadata/\<close>: the metadata the program keeps in a record batch. The type of a
  column and its time unit are in the metadata of its field (\<open>help.cpp\<close>, \<open>column_typing.cpp\<close>,
  \<open>time_metadata.cpp\<close>); the names of the time and the measurement column and the group are in
  the metadata of the schema (\<open>column_typing.cpp\<close>, \<open>grouping.cpp\<close>). A function that changes
  \<open>*record_batch\<close> returns the new batch.
\<close>

section \<open>\<open>help.cpp\<close>\<close>

definition setFieldMetadata :: "arrow_lib \<Rightarrow> arrow_field \<Rightarrow> string \<Rightarrow> string \<Rightarrow> status + arrow_field" where
  "setFieldMetadata A field key metadata =
     (let arrow_metadata = (if field_HasMetadata A field then the (f_metadata field) else []) in
      rbind (md_Set A arrow_metadata key metadata) (\<lambda>arrow_metadata.
        Inr (field\<lparr>f_metadata := Some arrow_metadata\<rparr>)))"

definition replaceField :: "arrow_lib \<Rightarrow> batch \<Rightarrow> arrow_field \<Rightarrow> status + batch" where
  "replaceField A record_batch field =
     (let field_index = GetFieldIndex A (b_schema record_batch) (f_name field) in
      if field_index = - 1 then Inl KeyError
      else rbind (SetField A (b_schema record_batch) field_index field) (\<lambda>new_schema.
             Inr (Make new_schema (b_num_rows record_batch) (b_columns record_batch))))"

definition setColumnMetadata_at :: "arrow_lib \<Rightarrow> batch \<Rightarrow> int \<Rightarrow> string \<Rightarrow> string \<Rightarrow> status + batch" where
  "setColumnMetadata_at A record_batch i key metadata =
     (if i < 0 \<or> int (num_columns record_batch) \<le> i then Inl IndexError
      else rbind (setFieldMetadata A (sch_fields (b_schema record_batch) ! nat i) key metadata)
             (replaceField A record_batch))"

definition setColumnMetadata :: "arrow_lib \<Rightarrow> batch \<Rightarrow> string \<Rightarrow> string \<Rightarrow> string \<Rightarrow> status + batch" where
  "setColumnMetadata A record_batch column_name key metadata =
     (let i = GetFieldIndex A (b_schema record_batch) column_name in
      if i = - 1 then Inl KeyError else setColumnMetadata_at A record_batch i key metadata)"

definition setSchemaMetadata :: "arrow_lib \<Rightarrow> batch \<Rightarrow> string \<Rightarrow> string \<Rightarrow> status + batch" where
  "setSchemaMetadata A record_batch key metadata =
     (let arrow_metadata = (if schema_HasMetadata A (b_schema record_batch)
                            then the (sch_metadata (b_schema record_batch)) else []) in
      rbind (md_Set A arrow_metadata key metadata) (\<lambda>arrow_metadata.
        Inr (ReplaceSchemaMetadata record_batch (Some arrow_metadata))))"

definition getFieldMetadata :: "arrow_lib \<Rightarrow> arrow_field \<Rightarrow> string \<Rightarrow> status + string" where
  "getFieldMetadata A field key =
     (case f_metadata field of
        None \<Rightarrow> Inl Invalid
      | Some metadata \<Rightarrow> if \<not> md_Contains A metadata key then Inl KeyError else md_Get A metadata key)"

definition getColumnNameMetadata :: "arrow_lib \<Rightarrow> batch \<Rightarrow> string \<Rightarrow> status + string" where
  "getColumnNameMetadata A record_batch metadata_key =
     (case sch_metadata (b_schema record_batch) of
        None \<Rightarrow> Inl Invalid
      | Some metadata \<Rightarrow>
          if \<not> md_Contains A metadata metadata_key then Inl KeyError else md_Get A metadata metadata_key)"

section \<open>\<open>column_typing.cpp\<close>\<close>

definition COLUMN_TYPE_METADATA_KEY :: string where "COLUMN_TYPE_METADATA_KEY = ''column_type''"
definition TIME_COLUMN_NAME_METADATA_KEY :: string where
  "TIME_COLUMN_NAME_METADATA_KEY = ''time_column_name''"
definition MEASUREMENT_COLUMN_NAME_METADATA_KEY :: string where
  "MEASUREMENT_COLUMN_NAME_METADATA_KEY = ''measurement_column_name''"

definition setFieldTypeMetadata :: "arrow_lib \<Rightarrow> arrow_field \<Rightarrow> ColumnType \<Rightarrow> status + arrow_field" where
  "setFieldTypeMetadata A column_field ty =
     setFieldMetadata A column_field COLUMN_TYPE_METADATA_KEY (ColumnType_Name ty)"

definition setColumnTypeMetadata_at :: "arrow_lib \<Rightarrow> batch \<Rightarrow> int \<Rightarrow> ColumnType \<Rightarrow> status + batch" where
  "setColumnTypeMetadata_at A record_batch i ty =
     setColumnMetadata_at A record_batch i COLUMN_TYPE_METADATA_KEY (ColumnType_Name ty)"

definition setColumnTypeMetadata :: "arrow_lib \<Rightarrow> batch \<Rightarrow> string \<Rightarrow> ColumnType \<Rightarrow> status + batch" where
  "setColumnTypeMetadata A record_batch column_name ty =
     setColumnMetadata A record_batch column_name COLUMN_TYPE_METADATA_KEY (ColumnType_Name ty)"

text \<open>\<open>ValueOrDie\<close> aborts the program when the look-up fails, which \<open>Contains\<close> excludes.\<close>

definition value_or_die :: "status + string \<Rightarrow> string option" where
  "value_or_die r = (case r of Inl _ \<Rightarrow> None | Inr s \<Rightarrow> Some s)"

definition getColumnType :: "arrow_lib \<Rightarrow> arrow_field \<Rightarrow> status + ColumnType" where
  "getColumnType A column_field =
     (if \<not> field_HasMetadata A column_field then Inr UNKNOWN
      else let metadata = the (f_metadata column_field) in
        if \<not> md_Contains A metadata COLUMN_TYPE_METADATA_KEY then Inr UNKNOWN
        else (case value_or_die (md_Get A metadata COLUMN_TYPE_METADATA_KEY) of
                None \<Rightarrow> Inl UndefinedBehaviour
              | Some name \<Rightarrow> Inr (case ColumnType_Parse name of None \<Rightarrow> UNKNOWN | Some ty \<Rightarrow> ty)))"

definition setColumnNameMetadata ::
  "arrow_lib \<Rightarrow> batch \<Rightarrow> string \<Rightarrow> string \<Rightarrow> arrow_type_id \<Rightarrow> ColumnType \<Rightarrow> status + batch"
where
  "setColumnNameMetadata A record_batch column_name metadata_key arrow_column_type column_type =
     (case GetColumnByName A record_batch column_name of
        None \<Rightarrow> Inl KeyError
      | Some column \<Rightarrow>
          if type_id (a_type column) \<noteq> arrow_column_type then Inl Invalid
          else rbind (setColumnTypeMetadata A record_batch column_name column_type) (\<lambda>record_batch.
                 setSchemaMetadata A record_batch metadata_key column_name))"

definition setTimeColumnNameMetadata :: "arrow_lib \<Rightarrow> batch \<Rightarrow> string \<Rightarrow> status + batch" where
  "setTimeColumnNameMetadata A record_batch time_column_name =
     setColumnNameMetadata A record_batch time_column_name TIME_COLUMN_NAME_METADATA_KEY TIMESTAMP TIME"

definition getTimeColumnNameMetadata :: "arrow_lib \<Rightarrow> batch \<Rightarrow> status + string" where
  "getTimeColumnNameMetadata A record_batch =
     getColumnNameMetadata A record_batch TIME_COLUMN_NAME_METADATA_KEY"

definition setMeasurementColumnNameMetadata :: "arrow_lib \<Rightarrow> batch \<Rightarrow> string \<Rightarrow> status + batch" where
  "setMeasurementColumnNameMetadata A record_batch measurement_column_name =
     setColumnNameMetadata A record_batch measurement_column_name
       MEASUREMENT_COLUMN_NAME_METADATA_KEY STRING MEASUREMENT"

definition getMeasurementColumnNameMetadata :: "arrow_lib \<Rightarrow> batch \<Rightarrow> status + string" where
  "getMeasurementColumnNameMetadata A record_batch =
     getColumnNameMetadata A record_batch MEASUREMENT_COLUMN_NAME_METADATA_KEY"

definition getColumnTypes :: "arrow_lib \<Rightarrow> batch \<Rightarrow> status + (string, ColumnType) smap" where
  "getColumnTypes A record_batch =
     rfold (\<lambda>field column_types.
       if map_of column_types (f_name field) \<noteq> None then Inl KeyError
       else rbind (getColumnType A field) (\<lambda>ty. Inr (smap_put (f_name field) ty column_types)))
     (sch_fields (b_schema record_batch)) []"

definition getMeasurement :: "arrow_lib \<Rightarrow> batch \<Rightarrow> status + string" where
  "getMeasurement A record_batch =
     rbind (getMeasurementColumnNameMetadata A record_batch) (\<lambda>measurement_column_name.
       case GetColumnByName A record_batch measurement_column_name of
         None \<Rightarrow> Inl Invalid
       | Some measurement_column \<Rightarrow>
           if b_num_rows record_batch = 0 then Inl Invalid
           else rbind (GetScalar A measurement_column 0) (\<lambda>measurement_scalar.
                  Inr (ToString A measurement_scalar)))"

definition getMeasurementAndValidate :: "arrow_lib \<Rightarrow> batch \<Rightarrow> status + string" where
  "getMeasurementAndValidate A record_batch =
     rbind (getMeasurement A record_batch) (\<lambda>measurement_value.
       rbind (getMeasurementColumnNameMetadata A record_batch) (\<lambda>measurement_column_name.
         (let measurement_column = GetColumnByName A record_batch measurement_column_name in
          rbind (rfold (\<lambda>i _.
              rbind (deref measurement_column (\<lambda>c. GetScalar A c (int i))) (\<lambda>measurement_scalar.
                if measurement_value \<noteq> ToString A measurement_scalar then Inl Invalid else Inr ()))
              [0..<b_num_rows record_batch] ())
            (\<lambda>_. Inr measurement_value))))"

section \<open>\<open>grouping.cpp\<close>\<close>

definition GROUP_METADATA_KEY :: string where "GROUP_METADATA_KEY = ''group''"

definition fillGroupMap ::
  "arrow_lib \<Rightarrow> (string, string) smap \<Rightarrow> batch \<Rightarrow> string list \<Rightarrow> status + (string, string) smap"
where
  "fillGroupMap A group_map record_batch grouping_columns =
     rfold (\<lambda>grouping_column_name group_map.
       if map_of group_map grouping_column_name \<noteq> None then Inr group_map
       else (case GetColumnByName A record_batch grouping_column_name of
               None \<Rightarrow> Inr group_map
             | Some column \<Rightarrow>
                 rbind (GetScalar A column 0) (\<lambda>column_value.
                   Inr (smap_put grouping_column_name (ToString A column_value) group_map))))
     grouping_columns group_map"

definition extractGroupMetadata :: "arrow_lib \<Rightarrow> batch \<Rightarrow> status + string" where
  "extractGroupMetadata A record_batch =
     (if \<not> schema_HasMetadata A (b_schema record_batch) then Inr []
      else let metadata = the (sch_metadata (b_schema record_batch)) in
        if \<not> md_Contains A metadata GROUP_METADATA_KEY then Inr []
        else (case value_or_die (md_Get A metadata GROUP_METADATA_KEY) of
                None \<Rightarrow> Inl UndefinedBehaviour | Some s \<Rightarrow> Inr s))"

definition extractGroup :: "arrow_lib \<Rightarrow> proto_lib \<Rightarrow> batch \<Rightarrow> status + RecordBatchGroup" where
  "extractGroup A P record_batch =
     (if \<not> schema_HasMetadata A (b_schema record_batch) then Inr empty_group
      else let metadata = the (sch_metadata (b_schema record_batch)) in
        if \<not> md_Contains A metadata GROUP_METADATA_KEY then Inr empty_group
        else (case value_or_die (md_Get A metadata GROUP_METADATA_KEY) of
                None \<Rightarrow> Inl UndefinedBehaviour | Some s \<Rightarrow> Inr (ParseGroup P s)))"

definition extractGroupingColumnsNames :: "arrow_lib \<Rightarrow> proto_lib \<Rightarrow> batch \<Rightarrow> status + string list" where
  "extractGroupingColumnsNames A P record_batch =
     rbind (extractGroup A P record_batch) (\<lambda>grp. Inr (group_columns_names grp))"

definition getGroupingColumnsSetKey :: "arrow_lib \<Rightarrow> proto_lib \<Rightarrow> batch \<Rightarrow> status + string" where
  "getGroupingColumnsSetKey A P record_batch =
     rbind (extractGroup A P record_batch) (\<lambda>grp. Inr (SerializeColumnsNames P (group_columns_names grp)))"

definition setGroupMetadata :: "arrow_lib \<Rightarrow> proto_lib \<Rightarrow> batch \<Rightarrow> RecordBatchGroup \<Rightarrow> status + batch" where
  "setGroupMetadata A P record_batch grp =
     setSchemaMetadata A record_batch GROUP_METADATA_KEY (SerializeGroup P grp)"

definition fillGroupMetadata :: "arrow_lib \<Rightarrow> proto_lib \<Rightarrow> batch \<Rightarrow> string list \<Rightarrow> status + batch" where
  "fillGroupMetadata A P record_batch grouping_columns =
     rbind (extractGroupingColumnsNames A P record_batch) (\<lambda>names.
       rbind (fillGroupMap A [] record_batch names) (\<lambda>group_columns_values.
         rbind (fillGroupMap A group_columns_values record_batch grouping_columns) (\<lambda>group_columns_values.
           setGroupMetadata A P record_batch (constructGroupFromOrderedMap group_columns_values))))"

section \<open>\<open>time_metadata.cpp\<close>\<close>

definition TIME_UNIT_METADATA_KEY :: string where "TIME_UNIT_METADATA_KEY = ''time_unit''"

fun TIME_UNITS_TO_NAMES :: "TimeUnit \<Rightarrow> string" where
  "TIME_UNITS_TO_NAMES NANO = ''NANO''"
| "TIME_UNITS_TO_NAMES MICRO = ''MICRO''"
| "TIME_UNITS_TO_NAMES MILLI = ''MILLI''"
| "TIME_UNITS_TO_NAMES SECOND = ''SECOND''"
| "TIME_UNITS_TO_NAMES MINUTE = ''MINUTE''"
| "TIME_UNITS_TO_NAMES HOUR = ''HOUR''"
| "TIME_UNITS_TO_NAMES DAY = ''DAY''"
| "TIME_UNITS_TO_NAMES WEEK = ''WEEK''"

definition METADATA_TIME_NAMES_TO_UNITS :: "(string \<times> TimeUnit) list" where
  "METADATA_TIME_NAMES_TO_UNITS =
     [(''NANO'', NANO), (''MICRO'', MICRO), (''MILLI'', MILLI), (''SECOND'', SECOND),
      (''MINUTE'', MINUTE), (''HOUR'', HOUR), (''DAY'', DAY), (''WEEK'', WEEK)]"

definition TIME_COMPATIBLE_ARROW_TYPES :: "arrow_type_id list" where
  "TIME_COMPATIBLE_ARROW_TYPES =
     [DURATION, INT16, INT32, INT64, INT8, UINT16, UINT32, UINT64, UINT8, TIMESTAMP]"

text \<open>The unit an Arrow type carries.\<close>

definition arrow_time_unit :: "arrow_type \<Rightarrow> arrow_unit option" where
  "arrow_time_unit ty = (case ty of Duration u \<Rightarrow> Some u | Timestamp u \<Rightarrow> Some u | Plain _ \<Rightarrow> None)"

definition setFieldTimeUnitMetadata :: "arrow_lib \<Rightarrow> arrow_field \<Rightarrow> TimeUnit \<Rightarrow> status + arrow_field" where
  "setFieldTimeUnitMetadata A field time_unit =
     (if (case arrow_time_unit (f_type field) of None \<Rightarrow> False | Some u \<Rightarrow> time_unit \<noteq> mapArrowTimeUnit u)
      then Inl TypeError
      else if type_id (f_type field) \<notin> set TIME_COMPATIBLE_ARROW_TYPES then Inl TypeError
      else setFieldMetadata A field TIME_UNIT_METADATA_KEY (TIME_UNITS_TO_NAMES time_unit))"

definition setTimeUnitMetadata :: "arrow_lib \<Rightarrow> batch \<Rightarrow> string \<Rightarrow> TimeUnit \<Rightarrow> status + batch" where
  "setTimeUnitMetadata A record_batch column_name time_unit =
     (case GetFieldByName A (b_schema record_batch) column_name of
        None \<Rightarrow> Inl KeyError
      | Some field \<Rightarrow>
          rbind (setFieldTimeUnitMetadata A field time_unit) (replaceField A record_batch))"

definition getFieldTimeUnitMetadata :: "arrow_lib \<Rightarrow> arrow_field \<Rightarrow> status + TimeUnit" where
  "getFieldTimeUnitMetadata A field =
     rbind (getFieldMetadata A field TIME_UNIT_METADATA_KEY) (\<lambda>time_unit_name.
       case map_of METADATA_TIME_NAMES_TO_UNITS time_unit_name of
         None \<Rightarrow> Inl Invalid | Some u \<Rightarrow> Inr u)"

definition getTimeUnitMetadata :: "arrow_lib \<Rightarrow> batch \<Rightarrow> string \<Rightarrow> status + TimeUnit" where
  "getTimeUnitMetadata A record_batch column_name =
     (case GetFieldByName A (b_schema record_batch) column_name of
        None \<Rightarrow> Inl KeyError
      | Some field \<Rightarrow> getFieldTimeUnitMetadata A field)"

end
