(* ===== verification/Arrow_Utils.thy ===== *)
theory Arrow_Utils
  imports Arrow
begin

text \<open>
  \<open>src/src/utils/arrow_utils.cpp\<close> and \<open>src/src/utils/convert_utils.cpp\<close>: builders for the
  supported column types, the cast of a time stamp, the concatenation of record batches.
\<close>

definition createArrayBuilder :: "arrow_type_id \<Rightarrow> status + builder" where
  "createArrayBuilder ty =
     (if ty \<in> {INT64, DOUBLE, STRING, BOOL} then Inr (Plain ty, []) else Inl NotImplemented)"

definition createTimestampArrayBuilder :: "arrow_type \<Rightarrow> status + builder" where
  "createTimestampArrayBuilder arrow_type =
     (if type_id arrow_type \<noteq> TIMESTAMP then Inl TypeError else Inr (arrow_type, []))"

text \<open>The downcast to the scalar class of \<open>type\<close> has no meaning for a scalar of another class; the
  value of a null string scalar is a null pointer.\<close>

definition appendToBuilder :: "arrow_lib \<Rightarrow> scalar \<Rightarrow> builder \<Rightarrow> arrow_type_id \<Rightarrow> status + builder" where
  "appendToBuilder A v b ty =
     (if ty \<notin> {INT64, DOUBLE, STRING, BOOL} then Inl NotImplemented
      else if type_id (s_type v) \<noteq> ty then Inl UndefinedBehaviour
      else if ty = INT64 then Append A b (int_scalar (Plain INT64) (s_int v))
      else if ty = DOUBLE then Append A b (double_scalar (s_double v))
      else if ty = STRING
      then (if s_is_valid v then Append A b (string_scalar (s_string v)) else Inl UndefinedBehaviour)
      else Append A b (bool_scalar (s_bool v)))"

definition appendToTimestampBuilder :: "arrow_lib \<Rightarrow> scalar \<Rightarrow> builder \<Rightarrow> arrow_type \<Rightarrow> status + builder" where
  "appendToTimestampBuilder A v b arrow_type =
     (if type_id arrow_type \<noteq> TIMESTAMP then Inl TypeError
      else rbind (CastTo A v arrow_type) (\<lambda>timestamp_scalar.
             Append A b (int_scalar (fst b) (s_int timestamp_scalar))))"

definition isNumericType :: "arrow_type_id \<Rightarrow> bool" where
  "isNumericType ty \<longleftrightarrow>
     ty \<in> {UINT8, INT8, UINT16, INT16, UINT32, INT32, UINT64, INT64, HALF_FLOAT, FLOAT, DOUBLE, DECIMAL}"

definition castTimestampScalar :: "arrow_lib \<Rightarrow> status + scalar \<Rightarrow> arrow_unit \<Rightarrow> status + scalar" where
  "castTimestampScalar A timestamp_scalar time_unit =
     rbind timestamp_scalar (\<lambda>s. CastTo A s (Timestamp time_unit))"

text \<open>\<open>column->chunk(0)\<close>; a table of \<open>FromRecordBatches\<close> has a chunk for each batch.\<close>

definition first_chunk :: "arrow_array list \<Rightarrow> status + arrow_array" where
  "first_chunk chunks = (case chunks of [] \<Rightarrow> Inl UndefinedBehaviour | c # _ \<Rightarrow> Inr c)"

definition convertTableToRecordBatch :: "arrow_lib \<Rightarrow> table \<Rightarrow> status + batch" where
  "convertTableToRecordBatch A tab =
     rbind (CombineChunks A tab) (\<lambda>prepared_table.
       rbind (if t_num_rows tab \<noteq> 0 then rmap first_chunk (t_columns prepared_table) else Inr [])
         (\<lambda>table_columns. Inr (Make (t_schema prepared_table) (t_num_rows prepared_table) table_columns)))"

definition concatenateRecordBatches :: "arrow_lib \<Rightarrow> batch list \<Rightarrow> status + batch" where
  "concatenateRecordBatches A record_batches =
     rbind (FromRecordBatches A record_batches) (convertTableToRecordBatch A)"

end
