(* ===== verification/Compute_Utils.thy ===== *)
theory Compute_Utils
  imports Arrow_Utils
begin

text \<open>
  \<open>src/src/utils/compute_utils.cpp\<close>: sorting by a column, splitting into groups of equal
  keys, the positions of the extrema, and the binary search for the first time stamp that
  satisfies a predicate. \<open>size_t\<close> values are naturals, with the wrap-around of \<open>right_bound - 1\<close>
  written out.
\<close>

definition sortByColumn :: "arrow_lib \<Rightarrow> string \<Rightarrow> batch \<Rightarrow> status + batch" where
  "sortByColumn A column_name source =
     (case GetColumnByName A source column_name of
        None \<Rightarrow> Inl KeyError
      | Some sorting_column \<Rightarrow>
          rbind (if type_id (a_type sorting_column) = TIMESTAMP then ViewInt64 A sorting_column
                 else Inr sorting_column) (\<lambda>sorting_column.
            rbind (SortIndices A sorting_column) (\<lambda>sorted_idx. Take A source sorted_idx)))"

text \<open>The \<open>while (true)\<close> loop of \<open>sort\<close>; \<open>k\<close> is the recursive call on the next column.\<close>

partial_function (option) sort_loop ::
  "arrow_lib \<Rightarrow> string \<Rightarrow> (batch \<Rightarrow> batch list \<Rightarrow> status + batch list) \<Rightarrow> batch \<Rightarrow> batch list
     \<Rightarrow> (status + batch list) option"
where
  "sort_loop A column_name k sorted_batch targets =
     (case deref (GetColumnByName A sorted_batch column_name) (\<lambda>sorted_keys.
          rbind (GetScalar A sorted_keys 0) (\<lambda>min_val.
          rbind (GetScalar A sorted_keys (int (a_length sorted_keys) - 1)) (\<lambda>max_val.
          rbind (CompareEqual A sorted_keys min_val) (\<lambda>equals_datum.
          rbind (Filter A sorted_batch equals_datum) (\<lambda>filter_datum.
          rbind (k filter_datum targets) (\<lambda>targets. Inr (sorted_keys, min_val, max_val, targets)))))))
      of Inl e \<Rightarrow> Some (Inl e)
       | Inr (sorted_keys, min_val, max_val, targets) \<Rightarrow>
           if scalar_Equals A min_val max_val then Some (Inr targets)
           else (case rbind (CompareNotEqual A sorted_keys min_val) (Filter A sorted_batch) of
                   Inl e \<Rightarrow> Some (Inl e)
                 | Inr rest \<Rightarrow> sort_loop A column_name k rest targets))"

fun sort_columns :: "arrow_lib \<Rightarrow> string list \<Rightarrow> batch \<Rightarrow> batch list \<Rightarrow> status + batch list" where
  "sort_columns A [] source targets = Inr (targets @ [source])"
| "sort_columns A (c # cs) source targets =
     (if GetColumnByName A source c = None then sort_columns A cs source targets
      else rbind (sortByColumn A c source) (\<lambda>sorted_batch.
             returned (sort_loop A c (sort_columns A cs) sorted_batch targets)))"

definition groupSortingByColumns :: "arrow_lib \<Rightarrow> string list \<Rightarrow> batch \<Rightarrow> status + batch list" where
  "groupSortingByColumns A column_names record_batch = sort_columns A column_names record_batch []"

text \<open>The loop of \<open>argMinMax\<close>. The \<open>-1\<close> of a value not found is kept: \<open>size_t\<close> and
  back to the \<open>int64_t\<close> argument of \<open>GetScalar\<close> is the identity on it.\<close>

function argMinMax_loop :: "arrow_lib \<Rightarrow> arrow_array \<Rightarrow> scalar \<times> scalar \<Rightarrow> nat \<Rightarrow> int \<times> int \<Rightarrow> status + int \<times> int" where
  "argMinMax_loop A arr min_max i args =
     (if i < a_length arr \<and> (fst args = - 1 \<or> snd args = - 1)
      then rbind (GetScalar A arr (int i)) (\<lambda>value_scalar.
             argMinMax_loop A arr min_max (Suc i)
               (if scalar_Equals A value_scalar (fst min_max) then int i else fst args,
                if scalar_Equals A value_scalar (snd min_max) then int i else snd args))
      else Inr args)"
  by pat_completeness auto
termination
  by (relation "measure (\<lambda>(A, arr, min_max, i, args). a_length arr - i)") auto

declare argMinMax_loop.simps [simp del]

definition argMinMax :: "arrow_lib \<Rightarrow> arrow_array \<Rightarrow> status + int \<times> int" where
  "argMinMax A arr =
     rbind (if type_id (a_type arr) = TIMESTAMP then ViewInt64 A arr else Inr arr) (\<lambda>arr.
       rbind (MinMax A arr) (\<lambda>min_max_ts. argMinMax_loop A arr min_max_ts 0 (- 1, - 1)))"

section \<open>\<open>tsLowerBound\<close>\<close>

definition read_ts :: "arrow_lib \<Rightarrow> arrow_array \<Rightarrow> arrow_unit \<Rightarrow> nat \<Rightarrow> status + int" where
  "read_ts A arr time_unit i =
     rbind (castTimestampScalar A (GetScalar A arr (int i)) time_unit) (\<lambda>ts_scalar. Inr (s_int ts_scalar))"

partial_function (option) tsLowerBound_loop ::
  "arrow_lib \<Rightarrow> arrow_array \<Rightarrow> (int \<Rightarrow> bool) \<Rightarrow> arrow_unit \<Rightarrow> nat \<Rightarrow> nat \<Rightarrow> (status + nat \<times> nat) option"
where
  "tsLowerBound_loop A arr pred time_unit left_bound right_bound =
     (if left_bound \<noteq> (right_bound + (2 ^ 64 - 1)) mod 2 ^ 64
      then (case read_ts A arr time_unit ((left_bound + right_bound) div 2) of
              Inl e \<Rightarrow> Some (Inl e)
            | Inr ts \<Rightarrow>
                if pred ts
                then tsLowerBound_loop A arr pred time_unit left_bound ((left_bound + right_bound) div 2)
                else tsLowerBound_loop A arr pred time_unit ((left_bound + right_bound) div 2) right_bound)
      else Some (Inr (left_bound, right_bound)))"

definition tsLowerBound :: "arrow_lib \<Rightarrow> arrow_array \<Rightarrow> (int \<Rightarrow> bool) \<Rightarrow> arrow_unit \<Rightarrow> status + nat" where
  "tsLowerBound A sorted_ts_array pred time_unit =
     rbind (returned (tsLowerBound_loop A sorted_ts_array pred time_unit 0 (a_length sorted_ts_array)))
       (\<lambda>(left_bound, right_bound).
          rbind (read_ts A sorted_ts_array time_unit left_bound) (\<lambda>ts.
            Inr (if pred ts then left_bound else right_bound)))"

text \<open>The array reads as the list of time stamps \<open>ts\<close> in the given unit.\<close>

definition reads_ts :: "arrow_lib \<Rightarrow> arrow_array \<Rightarrow> arrow_unit \<Rightarrow> int list \<Rightarrow> bool" where
  "reads_ts A arr time_unit ts \<longleftrightarrow>
     a_length arr = length ts \<and> (\<forall>i < length ts. read_ts A arr time_unit i = Inr (ts ! i))"

lemma right_minus_one:
  "0 < r \<Longrightarrow> r < 2 ^ 64 \<Longrightarrow> (r + (2 ^ 64 - 1)) mod 2 ^ 64 = r - (1::nat)"
proof -
  assume "0 < r" "r < (2::nat) ^ 64"
  then have "r + (2 ^ 64 - 1) = (r - 1) + 2 ^ 64" "r - 1 < 2 ^ 64" by simp_all
  then show ?thesis by (simp only: mod_add_self2 mod_less)
qed

text \<open>The interval shrinks to one element; what is left of it fails the predicate (unless it
  is the first), what is right of it satisfies it (unless it is the end).\<close>

lemma tsLowerBound_loop_correct:
  assumes "reads_ts A arr u ts" and "length ts < 2 ^ 64" and "l < r" and "r \<le> length ts"
    and "0 < l \<Longrightarrow> \<not> pred (ts ! l)" and "r < length ts \<Longrightarrow> pred (ts ! r)"
  shows "\<exists>l'. tsLowerBound_loop A arr pred u l r = Some (Inr (l', Suc l')) \<and> Suc l' \<le> length ts \<and>
    (0 < l' \<longrightarrow> \<not> pred (ts ! l')) \<and> (Suc l' < length ts \<longrightarrow> pred (ts ! Suc l'))"
  using assms(3-6)
proof (induction "r - l" arbitrary: l r rule: less_induct)
  case less
  have m: "(r + (2 ^ 64 - 1)) mod 2 ^ 64 = r - 1" using less.prems assms(2) by (intro right_minus_one) auto
  show ?case
  proof (cases "l = r - 1")
    case True
    then have "Suc l = r" using less.prems by simp
    with less.prems True m show ?thesis by (subst tsLowerBound_loop.simps) auto
  next
    case False
    let ?m = "(l + r) div 2"
    have mid: "l < ?m" "?m < r" using False less.prems by auto
    then have rd: "read_ts A arr u ?m = Inr (ts ! ?m)" using assms(1) less.prems by (simp add: reads_ts_def)
    show ?thesis
    proof (cases "pred (ts ! ?m)")
      case True
      have "tsLowerBound_loop A arr pred u l r = tsLowerBound_loop A arr pred u l ?m"
        using False True rd m by (subst tsLowerBound_loop.simps) simp
      moreover have "?m - l < r - l" using mid by simp
      ultimately show ?thesis using less.hyps [of ?m l] mid less.prems True by simp
    next
      case no: False
      have "tsLowerBound_loop A arr pred u l r = tsLowerBound_loop A arr pred u ?m r"
        using False no rd m by (subst tsLowerBound_loop.simps) simp
      moreover have "r - ?m < r - l" using mid by simp
      ultimately show ?thesis using less.hyps [of r ?m] mid less.prems no by simp
    qed
  qed
qed

definition first_index :: "(int \<Rightarrow> bool) \<Rightarrow> int list \<Rightarrow> nat" where
  "first_index P ts = length (takeWhile (\<lambda>t. \<not> P t) ts)"

lemma first_index_le [simp]: "first_index P ts \<le> length ts"
  by (simp add: first_index_def length_takeWhile_le)

lemma first_index_eq:
  assumes "\<And>i. i < n \<Longrightarrow> \<not> P (ts ! i)" and "n \<le> length ts" and "n < length ts \<Longrightarrow> P (ts ! n)"
  shows "first_index P ts = n"
proof -
  have "takeWhile (\<lambda>t. \<not> P t) ts = take n ts"
    by (rule takeWhile_eq_take_P_nth) (use assms in auto)
  then show ?thesis using assms(2) by (simp add: first_index_def)
qed

text \<open>On an array sorted by time and a predicate that stays true from some time on, the search
  finds the first position at which it holds, or the end.\<close>

definition upward :: "(int \<Rightarrow> bool) \<Rightarrow> bool" where
  "upward P \<longleftrightarrow> (\<forall>x y. x \<le> y \<longrightarrow> P x \<longrightarrow> P y)"

lemma upward_ge [simp]: "upward (\<lambda>t. c \<le> t)"
  by (auto simp: upward_def)

lemma tsLowerBound_correct:
  assumes "reads_ts A arr u ts" and "sorted ts" and "ts \<noteq> []" and "length ts < 2 ^ 64" and "upward pred"
  shows "tsLowerBound A arr pred u = Inr (first_index pred ts)"
proof -
  have up: "pred (ts ! i) \<Longrightarrow> i \<le> j \<Longrightarrow> j < length ts \<Longrightarrow> pred (ts ! j)" for i j
    using assms(2,5) unfolding upward_def by (meson sorted_nth_mono)
  have len: "a_length arr = length ts" using assms(1) by (simp add: reads_ts_def)
  obtain l where l: "tsLowerBound_loop A arr pred u 0 (length ts) = Some (Inr (l, Suc l))"
    and le: "Suc l \<le> length ts" and lo: "0 < l \<longrightarrow> \<not> pred (ts ! l)"
    and hi: "Suc l < length ts \<longrightarrow> pred (ts ! Suc l)"
    using tsLowerBound_loop_correct [OF assms(1,4), of 0 "length ts" pred] assms(3) by auto
  have "read_ts A arr u l = Inr (ts ! l)" using assms(1) le by (simp add: reads_ts_def)
  then have "tsLowerBound A arr pred u = Inr (if pred (ts ! l) then l else Suc l)"
    by (simp add: tsLowerBound_def len l)
  moreover have "first_index pred ts = (if pred (ts ! l) then l else Suc l)"
  proof (cases "pred (ts ! l)")
    case True
    with lo have "l = 0" by auto
    with True le show ?thesis by (subst first_index_eq [of 0]) auto
  next
    case False
    have "\<not> pred (ts ! i)" if "i < Suc l" for i
      using that False up [of i l] le by auto
    then have "first_index pred ts = Suc l" using le hi by (intro first_index_eq) auto
    with False show ?thesis by simp
  qed
  ultimately show ?thesis by simp
qed

text \<open>An empty array: \<open>right_bound - 1\<close> wraps, the loop reads position 0. Arrow refuses the read,
  and its error is returned; were it to succeed, the loop would not end.\<close>

lemma tsLowerBound_empty:
  assumes "a_length arr = 0" and "GetScalar A arr 0 = Inl e"
  shows "tsLowerBound A arr pred u = Inl e"
proof -
  have "read_ts A arr u 0 = Inl e" using assms(2) by (simp add: read_ts_def castTimestampScalar_def)
  then show ?thesis
    using assms(1) by (simp add: tsLowerBound_def) (subst tsLowerBound_loop.simps, simp)
qed

end
