(* ===== verification/Record_Batch_Handler.thy ===== *)
theory Record_Batch_Handler
  imports Metadata Arrow_Utils
begin

text \<open>
  \<open>src/src/record_batch_handlers/record_batch_handler.h\<close> and \<open>.cpp\<close>: the interface of the
  handlers. A handler with state \<open>'s\<close> is a function from its state and a batch to the state it
  leaves and its result. \<open>handle\<close> of a vector, which most handlers inherit, runs the batches in
  turn and stops at the first error.
\<close>

type_synonym 's handler = "'s \<Rightarrow> batch \<Rightarrow> 's \<times> (status + batch list)"
type_synonym 's vector_handler = "'s \<Rightarrow> batch list \<Rightarrow> 's \<times> (status + batch list)"

fun handle_all :: "'s handler \<Rightarrow> 's \<Rightarrow> batch list \<Rightarrow> batch list \<Rightarrow> 's \<times> (status + batch list)" where
  "handle_all h s [] result = (s, Inr result)"
| "handle_all h s (b # bs) result =
     (case h s b of
        (s, Inl e) \<Rightarrow> (s, Inl e)
      | (s, Inr batch_result) \<Rightarrow> handle_all h s bs (result @ batch_result))"

definition handle_vector :: "'s handler \<Rightarrow> 's vector_handler" where
  "handle_vector h s record_batches = handle_all h s record_batches []"

definition copySchemaMetadata :: "arrow_lib \<Rightarrow> batch \<Rightarrow> batch \<Rightarrow> batch" where
  "copySchemaMetadata A src to =
     (if schema_HasMetadata A (b_schema src)
      then ReplaceSchemaMetadata to (sch_metadata (b_schema src)) else to)"

text \<open>\<open>SetField\<close> returns a new schema, which the code drops: the target batch is not changed.\<close>

definition copyColumnTypes :: "arrow_lib \<Rightarrow> batch \<Rightarrow> batch \<Rightarrow> status + batch" where
  "copyColumnTypes A src to =
     rfold (\<lambda>from_field to.
       case GetFieldByName A (b_schema to) (f_name from_field) of
         None \<Rightarrow> Inr to
       | Some to_field \<Rightarrow>
           if field_Equals A to_field from_field
           then rbind (getColumnType A from_field) (\<lambda>ty.
                  rbind (setFieldTypeMetadata A to_field ty) (\<lambda>to_field.
                    rbind (SetField A (b_schema to) (GetFieldIndex A (b_schema to) (f_name from_field)) to_field)
                      (\<lambda>_. Inr to)))
           else Inr to)
     (sch_fields (b_schema src)) to"

lemma copyColumnTypes_identity:
  assumes "copyColumnTypes A src to = Inr to'"
  shows "to' = to"
  using assms unfolding copyColumnTypes_def
  by (rule rfold_invariant [where I = "\<lambda>t. t = to", rotated 2])
    (auto simp: rbind_eq_Inr_iff split: option.splits if_splits)

lemma handle_all_acc:
  "handle_all h s bs result = (fst (handle_all h s bs []), rbind (snd (handle_all h s bs [])) (\<lambda>r. Inr (result @ r)))"
proof (induction bs arbitrary: s result)
  case (Cons b bs)
  obtain s' r where h: "h s b = (s', r)" by force
  show ?case
  proof (cases r)
    case (Inr x)
    show ?thesis using Cons.IH [of s' "result @ x"] Cons.IH [of s' x]
      by (simp add: h Inr rbind_assoc)
  qed (simp add: h)
qed simp

lemma handle_vector_Nil [simp]: "handle_vector h s [] = (s, Inr [])"
  by (simp add: handle_vector_def)

lemma handle_vector_Cons:
  "handle_vector h s (b # bs) =
     (case h s b of
        (s, Inl e) \<Rightarrow> (s, Inl e)
      | (s, Inr r) \<Rightarrow> (fst (handle_vector h s bs), rbind (snd (handle_vector h s bs)) (\<lambda>rs. Inr (r @ rs))))"
proof -
  obtain s' r where h: "h s b = (s', r)" by force
  show ?thesis
  proof (cases r)
    case (Inr x)
    then show ?thesis using handle_all_acc [of h s' bs x] by (simp add: h handle_vector_def)
  qed (simp add: h handle_vector_def)
qed

lemma handle_vector_append:
  "handle_vector h s (xs @ ys) =
     (case handle_vector h s xs of
        (s, Inl e) \<Rightarrow> (s, Inl e)
      | (s, Inr r) \<Rightarrow> (fst (handle_vector h s ys), rbind (snd (handle_vector h s ys)) (\<lambda>rs. Inr (r @ rs))))"
proof (induction xs arbitrary: s)
  case (Cons b bs)
  obtain s' r where h: "h s b = (s', r)" by force
  show ?case
  proof (cases r)
    case (Inr x)
    show ?thesis
      by (cases "handle_vector h s' bs"; cases "snd (handle_vector h s' bs)")
        (simp_all add: handle_vector_Cons h Inr Cons.IH rbind_assoc)
  qed (simp add: handle_vector_Cons h)
qed simp

section \<open>Handlers of a stream\<close>

text \<open>What a consumer of a handler relies on when it passes the batches of a stream in calls of any
  size: nothing in, nothing out, and two successful calls have the effect of one with all the
  batches. Only the batches that pass are fixed; a call that fails may have handled a part of its
  batches.\<close>

locale stream_handler =
  fixes run :: "'s vector_handler"
  assumes run_Nil: "run s [] = (s, Inr [])"
    and run_append: "run s xs = (s', Inr r) \<Longrightarrow> run s' ys = (s'', Inr r') \<Longrightarrow> run s (xs @ ys) = (s'', Inr (r @ r'))"
begin

text \<open>The calls one after the other.\<close>

fun run_calls :: "'s \<Rightarrow> batch list list \<Rightarrow> 's \<times> (status + batch list)" where
  "run_calls s [] = (s, Inr [])"
| "run_calls s (bs # calls) =
     (case run s bs of
        (s, Inl e) \<Rightarrow> (s, Inl e)
      | (s, Inr r) \<Rightarrow> (fst (run_calls s calls), rbind (snd (run_calls s calls)) (\<lambda>rs. Inr (r @ rs))))"

lemma run_calls_concat: "run_calls s calls = (s', Inr r) \<Longrightarrow> run s (concat calls) = (s', Inr r)"
proof (induction calls arbitrary: s r)
  case (Cons bs calls)
  obtain s1 r1 where 1: "run s bs = (s1, Inr r1)"
    using Cons.prems by (cases "run s bs"; cases "snd (run s bs)") auto
  obtain r2 where 2: "run_calls s1 calls = (s', Inr r2)" and r: "r = r1 @ r2"
    using Cons.prems 1 by (cases "run_calls s1 calls") (auto simp: rbind_eq_Inr_iff)
  show ?case using run_append [OF 1 Cons.IH [OF 2]] r by simp
qed (simp add: run_Nil)

text \<open>Two ways to cut a stream into calls that both succeed have the same effect.\<close>

lemma run_calls_cut:
  assumes "concat calls = concat calls'" and "run_calls s calls = (s', Inr r)" and "run_calls s calls' = (s'', Inr r')"
  shows "s' = s'' \<and> r = r'"
  using run_calls_concat [OF assms(2)] run_calls_concat [OF assms(3)] assms(1) by simp

end

text \<open>The vector overload that most handlers inherit is one.\<close>

interpretation vector: stream_handler "handle_vector h" for h
  by unfold_locales (simp_all add: handle_vector_append)

end
