(* ===== verification/Window_Handler.thy ===== *)
theory Window_Handler
  imports Metadata Compute_Utils Handler_Options Record_Batch_Handler
begin

text \<open>
  \<open>WindowHandler\<close> of \<open>src/src/record_batch_handlers/stateful_handlers/window_handler.cpp\<close>. The
  members of the class are the record \<open>WindowHandler\<close>; the deque of buffered batches is a list,
  oldest first. A method returns the state it leaves (also when it returns an error) and its
  result. \<open>std::time_t\<close> values are integers; their overflow has no meaning in C++.
\<close>

record WindowHandler =
  wh_options :: WindowOptions
  buffered_record_batches :: "batch list"
  next_emit :: int
  emitted_first :: bool

definition new_window_handler :: "WindowOptions \<Rightarrow> WindowHandler" where
  "new_window_handler options =
     \<lparr>wh_options = options, buffered_record_batches = [], next_emit = 0, emitted_first = False\<rparr>"

definition getPeriodOption :: "WindowHandler \<Rightarrow> int" where
  "getPeriodOption w = wo_period (wh_options w)"

definition getEveryOption :: "WindowHandler \<Rightarrow> int" where
  "getEveryOption w = wo_every (wh_options w)"

definition setPeriodOption :: "int \<Rightarrow> int \<Rightarrow> WindowHandler \<Rightarrow> WindowHandler" where
  "setPeriodOption new_period_option change_ts w =
     (let period = wo_period (wh_options w);
          w = (if next_emit w \<noteq> 0 \<and> \<not> emitted_first w \<and> wo_fill_period (wh_options w) \<and>
                  period \<le> next_emit w + new_period_option \<and>
                  change_ts \<le> next_emit w + new_period_option - period
               then w\<lparr>next_emit := next_emit w + new_period_option - period\<rparr> else w)
      in w\<lparr>wh_options := (wh_options w)\<lparr>wo_period := new_period_option\<rparr>\<rparr>)"

definition setEveryOption :: "int \<Rightarrow> int \<Rightarrow> WindowHandler \<Rightarrow> WindowHandler" where
  "setEveryOption new_every_option change_ts w =
     (let every = wo_every (wh_options w);
          w = (if next_emit w \<noteq> 0 \<and> (emitted_first w \<or> \<not> wo_fill_period (wh_options w)) \<and>
                  every \<le> next_emit w + new_every_option \<and>
                  change_ts \<le> next_emit w + new_every_option - every
               then w\<lparr>next_emit := next_emit w + new_every_option - every\<rparr> else w)
      in w\<lparr>wh_options := (wh_options w)\<lparr>wo_every := new_every_option\<rparr>\<rparr>)"

text \<open>\<open>removeOldRecords\<close> on the buffer; \<open>limit\<close> is \<open>next_emit_ - period\<close>.\<close>

fun remove_old :: "arrow_lib \<Rightarrow> int \<Rightarrow> batch list \<Rightarrow> batch list \<times> (status + unit)" where
  "remove_old A limit [] = ([], Inr ())"
| "remove_old A limit (oldest_batch # rest) =
     (case rbind (getTimeColumnNameMetadata A oldest_batch) (\<lambda>time_column_name.
             deref (GetColumnByName A oldest_batch time_column_name) (\<lambda>time_column.
               tsLowerBound A time_column (\<lambda>ts. limit \<le> ts) UNIT_SECOND)) of
        Inl e \<Rightarrow> (oldest_batch # rest, Inl e)
      | Inr divide_index \<Rightarrow>
          if divide_index < b_num_rows oldest_batch
          then (SliceFrom A oldest_batch (int divide_index) # rest, Inr ())
          else remove_old A limit rest)"

definition removeOldRecords :: "arrow_lib \<Rightarrow> WindowHandler \<Rightarrow> WindowHandler \<times> (status + unit)" where
  "removeOldRecords A w =
     (let (bs, r) = remove_old A (next_emit w - getPeriodOption w) (buffered_record_batches w)
      in (w\<lparr>buffered_record_batches := bs\<rparr>, r))"

text \<open>The loop of \<open>emitWindow\<close> over the buffer: a batch of another schema closes the batches
  collected so far. The state is \<open>window\<close>, \<open>window_batches\<close> and \<open>current_schema\<close>.\<close>

definition emit_step ::
  "arrow_lib \<Rightarrow> batch \<Rightarrow> batch list \<times> batch list \<times> schema \<Rightarrow> status + batch list \<times> batch list \<times> schema"
where
  "emit_step A b st =
     (let (window, window_batches, current_schema) = st in
      if \<not> schema_Equals A current_schema (b_schema b)
      then rbind (concatenateRecordBatches A window_batches) (\<lambda>w. Inr (window @ [w], [b], b_schema b))
      else Inr (window, window_batches @ [b], current_schema))"

definition emitWindow :: "arrow_lib \<Rightarrow> WindowHandler \<Rightarrow> WindowHandler \<times> (status + batch list)" where
  "emitWindow A w =
     (case removeOldRecords A w of
        (w, Inl e) \<Rightarrow> (w, Inl e)
      | (w, Inr _) \<Rightarrow>
          (w, (case buffered_record_batches w of
                 [] \<Rightarrow> Inr []
               | front # _ \<Rightarrow>
                   rbind (rfold (emit_step A) (buffered_record_batches w) ([], [], b_schema front))
                     (\<lambda>(window, window_batches, _).
                        rbind (concatenateRecordBatches A window_batches) (\<lambda>b. Inr (window @ [b]))))))"

text \<open>One iteration of the \<open>while\<close> loop of \<open>handle\<close>.\<close>

definition window_iteration ::
  "arrow_lib \<Rightarrow> string \<Rightarrow> WindowHandler \<Rightarrow> batch \<Rightarrow> batch list \<Rightarrow> WindowHandler \<times> (status + batch \<times> batch list)"
where
  "window_iteration A time_column_name w sorted_record_batch result =
     (case deref (GetColumnByName A sorted_record_batch time_column_name) (\<lambda>time_column.
             tsLowerBound A time_column (\<lambda>ts. next_emit w \<le> ts) UNIT_SECOND) of
        Inl e \<Rightarrow> (w, Inl e)
      | Inr divide_index \<Rightarrow>
          (let w = (if 0 < divide_index
                    then w\<lparr>buffered_record_batches :=
                             buffered_record_batches w @ [Slice A sorted_record_batch 0 (int divide_index)]\<rparr>
                    else w);
               (w, r) = (if buffered_record_batches w \<noteq> []
                         then (case emitWindow A w of
                                 (w, Inl e) \<Rightarrow> (w, Inl e)
                               | (w, Inr window) \<Rightarrow> (w, Inr (result @ window)))
                         else (w, Inr result))
           in case r of
                Inl e \<Rightarrow> (w, Inl e)
              | Inr result \<Rightarrow>
                  (let w = w\<lparr>emitted_first := True, next_emit := next_emit w + getEveryOption w\<rparr> in
                   case removeOldRecords A w of
                     (w, Inl e) \<Rightarrow> (w, Inl e)
                   | (w, Inr _) \<Rightarrow> (w, Inr (SliceFrom A sorted_record_batch (int divide_index), result)))))"

partial_function (option) window_loop ::
  "arrow_lib \<Rightarrow> string \<Rightarrow> int \<Rightarrow> WindowHandler \<Rightarrow> batch \<Rightarrow> batch list
     \<Rightarrow> (WindowHandler \<times> (status + batch \<times> batch list)) option"
where
  "window_loop A time_column_name max_ts w sorted_record_batch result =
     (if next_emit w \<le> max_ts
      then (case window_iteration A time_column_name w sorted_record_batch result of
              (w, Inl e) \<Rightarrow> Some (w, Inl e)
            | (w, Inr (sorted_record_batch, result)) \<Rightarrow>
                window_loop A time_column_name max_ts w sorted_record_batch result)
      else Some (w, Inr (sorted_record_batch, result)))"

text \<open>The initialisation of \<open>next_emit_\<close>, zero standing for \<open>not yet set\<close>.\<close>

definition init_next_emit :: "arrow_lib \<Rightarrow> arrow_array \<Rightarrow> WindowHandler \<Rightarrow> status + WindowHandler" where
  "init_next_emit A time_column w =
     (if next_emit w = 0
      then rbind (castTimestampScalar A (GetScalar A time_column 0) UNIT_SECOND) (\<lambda>min_ts.
             Inr (w\<lparr>next_emit := s_int min_ts +
                      (if wo_fill_period (wh_options w) then getPeriodOption w else getEveryOption w)\<rparr>))
      else Inr w)"

definition window_handle :: "arrow_lib \<Rightarrow> WindowHandler \<Rightarrow> batch \<Rightarrow> WindowHandler \<times> (status + batch list)" where
  "window_handle A w record_batch =
     (case rbind (getTimeColumnNameMetadata A record_batch) (\<lambda>time_column_name.
             rbind (sortByColumn A time_column_name record_batch) (\<lambda>sorted_record_batch.
               case GetColumnByName A sorted_record_batch time_column_name of
                 None \<Rightarrow> Inl Invalid
               | Some time_column \<Rightarrow>
                   rbind (init_next_emit A time_column w) (\<lambda>w.
                     Inr (time_column_name, sorted_record_batch, time_column, w)))) of
        Inl e \<Rightarrow> (w, Inl e)
      | Inr (time_column_name, sorted_record_batch, time_column, w) \<Rightarrow>
          (case castTimestampScalar A
                  (GetScalar A time_column (int (b_num_rows sorted_record_batch) - 1)) UNIT_SECOND of
             Inl e \<Rightarrow> (w, Inl e)
           | Inr max_ts_scalar \<Rightarrow>
               (case window_loop A time_column_name (s_int max_ts_scalar) w sorted_record_batch [] of
                  None \<Rightarrow> (w, Inl NoReturn)
                | Some (w, Inl e) \<Rightarrow> (w, Inl e)
                | Some (w, Inr (sorted_record_batch, result)) \<Rightarrow>
                    (w\<lparr>buffered_record_batches := buffered_record_batches w @ [sorted_record_batch]\<rparr>,
                     Inr result))))"

section \<open>What the handler relies on in Arrow\<close>

text \<open>The batches of a stream, as lists of rows. \<open>key\<close> is the raw time stamp, by which \<open>SortIndices\<close>
  sorts (it is a stable sort), \<open>ts\<close> the time stamp cast to seconds. All batches of the stream have
  the same schema. A concatenation has the rows of its parts in order.\<close>

definition stream_batch :: "arrow_lib \<Rightarrow> string \<Rightarrow> (batch \<Rightarrow> 'r list) \<Rightarrow> ('r \<Rightarrow> int) \<Rightarrow> batch \<Rightarrow> bool" where
  "stream_batch A tn rows ts b \<longleftrightarrow>
     getTimeColumnNameMetadata A b = Inr tn \<and> b_num_rows b = length (rows b) \<and> length (rows b) < 2 ^ 64 \<and>
     (\<exists>c. GetColumnByName A b tn = Some c \<and> type_id (a_type c) = TIMESTAMP \<and>
          reads_ts A c UNIT_SECOND (map ts (rows b)))"

definition slice_law :: "arrow_lib \<Rightarrow> (batch \<Rightarrow> bool) \<Rightarrow> (batch \<Rightarrow> 'r list) \<Rightarrow> bool" where
  "slice_law A good rows \<longleftrightarrow>
     (\<forall>b n. good b \<longrightarrow> n \<le> length (rows b) \<longrightarrow>
        good (Slice A b 0 (int n)) \<and> rows (Slice A b 0 (int n)) = take n (rows b) \<and>
        good (SliceFrom A b (int n)) \<and> rows (SliceFrom A b (int n)) = drop n (rows b))"

definition sort_law :: "arrow_lib \<Rightarrow> string \<Rightarrow> (batch \<Rightarrow> bool) \<Rightarrow> (batch \<Rightarrow> 'r list) \<Rightarrow> ('r \<Rightarrow> int) \<Rightarrow> bool" where
  "sort_law A tn good rows key \<longleftrightarrow>
     (\<forall>b c. good b \<longrightarrow> GetColumnByName A b tn = Some c \<longrightarrow>
        (\<exists>c' idx b'. ViewInt64 A c = Inr c' \<and> SortIndices A c' = Inr idx \<and> Take A b idx = Inr b' \<and>
           good b' \<and> rows b' = sort_key key (rows b)))"

definition concat_law :: "arrow_lib \<Rightarrow> (batch \<Rightarrow> bool) \<Rightarrow> (batch \<Rightarrow> 'r list) \<Rightarrow> bool" where
  "concat_law A good rows \<longleftrightarrow>
     (\<forall>bs. list_all good bs \<longrightarrow> concat (map rows bs) \<noteq> [] \<longrightarrow> length (concat (map rows bs)) < 2 ^ 64 \<longrightarrow>
        (\<exists>t t'. FromRecordBatches A bs = Inr t \<and> CombineChunks A t = Inr t' \<and> t_num_rows t \<noteq> 0 \<and>
           list_all (\<lambda>chunks. chunks \<noteq> []) (t_columns t') \<and>
           (let b' = Make (t_schema t') (t_num_rows t') (map hd (t_columns t'))
            in good b' \<and> rows b' = concat (map rows bs))))"

definition stream_laws ::
  "arrow_lib \<Rightarrow> string \<Rightarrow> (batch \<Rightarrow> bool) \<Rightarrow> (batch \<Rightarrow> 'r list) \<Rightarrow> ('r \<Rightarrow> int) \<Rightarrow> ('r \<Rightarrow> int) \<Rightarrow> bool"
where
  "stream_laws A tn good rows key ts \<longleftrightarrow>
     (\<forall>b. good b \<longrightarrow> stream_batch A tn rows ts b) \<and>
     (\<forall>b b'. good b \<longrightarrow> good b' \<longrightarrow> schema_Equals A (b_schema b) (b_schema b')) \<and>
     (\<forall>r r'. key r \<le> key r' \<longrightarrow> ts r \<le> ts r') \<and>
     slice_law A good rows \<and> sort_law A tn good rows key \<and> concat_law A good rows"

section \<open>The rows of a window\<close>

abbreviation buffer_rows :: "(batch \<Rightarrow> 'r list) \<Rightarrow> batch list \<Rightarrow> 'r list" where
  "buffer_rows rows bs \<equiv> concat (map rows bs)"

lemma sorted_head_all:
  "sorted (map f (x # xs)) \<Longrightarrow> upward P \<Longrightarrow> P (f x) \<Longrightarrow> \<forall>y \<in> set xs. P (f y)"
  by (auto simp: upward_def)

lemma sorted_dropWhile_filter:
  "sorted (map f xs) \<Longrightarrow> upward P \<Longrightarrow> dropWhile (\<lambda>x. \<not> P (f x)) xs = filter (\<lambda>x. P (f x)) xs"
proof (induction xs)
  case (Cons x xs)
  show ?case
  proof (cases "P (f x)")
    case True
    then have "filter (\<lambda>x. P (f x)) xs = xs" using sorted_head_all [OF Cons.prems] by (intro filter_True) auto
    with True show ?thesis by simp
  next
    case False
    with Cons show ?thesis by simp
  qed
qed simp

lemma sorted_takeWhile_filter:
  "sorted (map f xs) \<Longrightarrow> upward P \<Longrightarrow> takeWhile (\<lambda>x. \<not> P (f x)) xs = filter (\<lambda>x. \<not> P (f x)) xs"
proof (induction xs)
  case (Cons x xs)
  show ?case
  proof (cases "P (f x)")
    case True
    then have "filter (\<lambda>x. \<not> P (f x)) xs = []" using sorted_head_all [OF Cons.prems] by (intro filter_False) auto
    with True show ?thesis by simp
  next
    case False
    with Cons show ?thesis by simp
  qed
qed simp

lemma first_index_map: "first_index P (map f xs) = length (takeWhile (\<lambda>x. \<not> P (f x)) xs)"
  by (simp add: first_index_def takeWhile_map comp_def)

lemma drop_first_index:
  "sorted (map f xs) \<Longrightarrow> upward P \<Longrightarrow> drop (first_index P (map f xs)) xs = filter (\<lambda>x. P (f x)) xs"
  unfolding first_index_map by (simp add: dropWhile_eq_drop [symmetric] sorted_dropWhile_filter)

lemma take_first_index:
  "sorted (map f xs) \<Longrightarrow> upward P \<Longrightarrow> take (first_index P (map f xs)) xs = filter (\<lambda>x. \<not> P (f x)) xs"
  by (metis first_index_map takeWhile_eq_take sorted_takeWhile_filter)

lemma stream_lower_bound:
  assumes "stream_laws A tn good rows key ts" and "good b" and "sorted (map ts (rows b))" and "rows b \<noteq> []"
  shows "\<exists>c. GetColumnByName A b tn = Some c \<and>
    tsLowerBound A c (\<lambda>t. limit \<le> t) UNIT_SECOND = Inr (first_index (\<lambda>t. limit \<le> t) (map ts (rows b)))"
proof -
  have "stream_batch A tn rows ts b" using assms(1,2) by (simp add: stream_laws_def)
  then obtain c where c: "GetColumnByName A b tn = Some c" "reads_ts A c UNIT_SECOND (map ts (rows b))"
    and l: "length (map ts (rows b)) < 2 ^ 64"
    by (auto simp: stream_batch_def)
  show ?thesis
    using tsLowerBound_correct [OF c(2) assms(3) _ l upward_ge] c(1) assms(4) by simp
qed

lemma stream_facts:
  assumes "stream_laws A tn good rows key ts" and "good b"
  shows "getTimeColumnNameMetadata A b = Inr tn" and "b_num_rows b = length (rows b)"
  using assms by (simp_all add: stream_laws_def stream_batch_def)

lemma stream_slices:
  assumes "stream_laws A tn good rows key ts" and "good b" and "n \<le> length (rows b)"
  shows "good (Slice A b 0 (int n))" and "rows (Slice A b 0 (int n)) = take n (rows b)"
    and "good (SliceFrom A b (int n))" and "rows (SliceFrom A b (int n)) = drop n (rows b)"
  using assms by (simp_all add: stream_laws_def slice_law_def)

text \<open>The buffer: batches of the stream, none of them empty, in the order of time.\<close>

definition buffer_ok :: "(batch \<Rightarrow> bool) \<Rightarrow> (batch \<Rightarrow> 'r list) \<Rightarrow> ('r \<Rightarrow> int) \<Rightarrow> batch list \<Rightarrow> bool" where
  "buffer_ok good rows ts bs \<longleftrightarrow>
     (\<forall>b \<in> set bs. good b \<and> rows b \<noteq> []) \<and> sorted (map ts (buffer_rows rows bs))"

lemma remove_old_rows:
  assumes "stream_laws A tn good rows key ts" and "buffer_ok good rows ts bs"
  shows "\<exists>bs'. remove_old A limit bs = (bs', Inr ()) \<and> buffer_ok good rows ts bs' \<and>
    buffer_rows rows bs' = filter (\<lambda>r. limit \<le> ts r) (buffer_rows rows bs)"
  using assms(2)
proof (induction bs)
  case Nil
  then show ?case by (simp add: buffer_ok_def)
next
  case (Cons b bs)
  have b: "good b" "rows b \<noteq> []" "sorted (map ts (rows b))" and bs: "buffer_ok good rows ts bs"
    using Cons.prems by (auto simp: buffer_ok_def sorted_append)
  let ?d = "first_index (\<lambda>t. limit \<le> t) (map ts (rows b))"
  obtain c where c: "GetColumnByName A b tn = Some c" "tsLowerBound A c (\<lambda>t. limit \<le> t) UNIT_SECOND = Inr ?d"
    using stream_lower_bound [OF assms(1) b(1,3,2)] by blast
  note f = stream_facts [OF assms(1) b(1)]
  have d: "drop ?d (rows b) = filter (\<lambda>r. limit \<le> ts r) (rows b)"
    using b(3) by (intro drop_first_index upward_ge)
  have le: "?d \<le> length (rows b)" using first_index_le [of _ "map ts (rows b)"] by simp
  show ?case
  proof (cases "?d < length (rows b)")
    case True
    then have ne: "filter (\<lambda>r. limit \<le> ts r) (rows b) \<noteq> []" using d by (metis drop_eq_Nil not_le)
    then obtain r where "r \<in> set (rows b)" "limit \<le> ts r" by (auto simp: filter_empty_conv)
    moreover have "\<forall>r \<in> set (rows b). \<forall>r' \<in> set (buffer_rows rows bs). ts r \<le> ts r'"
      using Cons.prems by (auto simp: buffer_ok_def sorted_append)
    ultimately have all: "filter (\<lambda>r. limit \<le> ts r) (buffer_rows rows bs) = buffer_rows rows bs"
      by (auto simp: filter_id_conv intro: order_trans)
    have "sorted (map ts (filter (\<lambda>r. limit \<le> ts r) (rows b) @ buffer_rows rows bs))"
      using Cons.prems sorted_filter [of ts "rows b @ buffer_rows rows bs" "\<lambda>r. limit \<le> ts r"] all
      by (simp add: buffer_ok_def)
    with True show ?thesis
      using Cons.prems bs ne stream_slices [OF assms(1) b(1) le] d all
      by (simp add: f c buffer_ok_def)
  next
    case False
    with le have "filter (\<lambda>r. limit \<le> ts r) (rows b) = []" using d by (metis drop_all not_less)
    with False show ?thesis
      using Cons.IH [OF bs] by (simp add: f c)
  qed
qed

lemma removeOldRecords_rows:
  assumes "stream_laws A tn good rows key ts" and "buffer_ok good rows ts (buffered_record_batches w)"
  shows "\<exists>bs'. removeOldRecords A w = (w\<lparr>buffered_record_batches := bs'\<rparr>, Inr ()) \<and> buffer_ok good rows ts bs' \<and>
    buffer_rows rows bs' = filter (\<lambda>r. next_emit w - getPeriodOption w \<le> ts r)
      (buffer_rows rows (buffered_record_batches w))"
  using remove_old_rows [OF assms, of "next_emit w - getPeriodOption w"] by (auto simp: removeOldRecords_def)

lemma concat_rows:
  assumes "concat_law A good rows" and "buffer_rows rows bs \<noteq> []" and "\<forall>b \<in> set bs. good b"
    and "length (buffer_rows rows bs) < 2 ^ 64"
  shows "\<exists>b. concatenateRecordBatches A bs = Inr b \<and> good b \<and> rows b = buffer_rows rows bs"
proof -
  have l: "list_all good bs" using assms(3) by (simp add: list_all_iff)
  obtain t t' where t: "FromRecordBatches A bs = Inr t" "CombineChunks A t = Inr t'" "t_num_rows t \<noteq> 0"
    and ne: "list_all (\<lambda>chunks. chunks \<noteq> []) (t_columns t')"
    and b: "good (Make (t_schema t') (t_num_rows t') (map hd (t_columns t')))"
      "rows (Make (t_schema t') (t_num_rows t') (map hd (t_columns t'))) = buffer_rows rows bs"
    using assms(1) [unfolded concat_law_def Let_def, rule_format, OF l assms(2,4)] by blast
  have "rmap first_chunk cs = Inr (map hd cs)" if "list_all (\<lambda>chunks. chunks \<noteq> []) cs" for cs
    using that by (intro rmap_all_Inr) (auto simp: first_chunk_def list_all_iff split: list.splits)
  then show ?thesis
    using t ne b by (auto simp: concatenateRecordBatches_def convertTableToRecordBatch_def)
qed

lemma stream_concat:
  assumes "stream_laws A tn good rows key ts" and "buffer_rows rows bs \<noteq> []" and "\<forall>b \<in> set bs. good b"
    and "length (buffer_rows rows bs) < 2 ^ 64"
  shows "\<exists>b. concatenateRecordBatches A bs = Inr b \<and> good b \<and> rows b = buffer_rows rows bs"
  using assms by (intro concat_rows) (simp_all add: stream_laws_def)

lemma rfold_emit_step:
  assumes "stream_laws A tn good rows key ts" and "\<forall>b \<in> set bs. good b" and "good b0"
  shows "rfold (emit_step A) bs (window, window_batches, b_schema b0) =
    Inr (window, window_batches @ bs, b_schema b0)"
  using assms(2)
proof (induction bs arbitrary: window_batches)
  case (Cons b bs)
  then have "schema_Equals A (b_schema b0) (b_schema b)" using assms(1,3) by (simp add: stream_laws_def)
  with Cons show ?case by (simp add: emit_step_def)
qed simp

text \<open>A window is one batch with the buffered rows that are not too old; no batch if there are none.\<close>

definition one_window :: "'r list \<Rightarrow> 'r list list" where
  "one_window rs = (if rs = [] then [] else [rs])"

lemma emitWindow_rows:
  assumes "stream_laws A tn good rows key ts" and "buffer_ok good rows ts (buffered_record_batches w)"
    and "length (buffer_rows rows (buffered_record_batches w)) < 2 ^ 64"
  shows "\<exists>bs' window. emitWindow A w = (w\<lparr>buffered_record_batches := bs'\<rparr>, Inr window) \<and>
    buffer_ok good rows ts bs' \<and>
    buffer_rows rows bs' = filter (\<lambda>r. next_emit w - getPeriodOption w \<le> ts r)
      (buffer_rows rows (buffered_record_batches w)) \<and>
    list_all good window \<and> map rows window = one_window (buffer_rows rows bs')"
proof -
  obtain bs' where r: "removeOldRecords A w = (w\<lparr>buffered_record_batches := bs'\<rparr>, Inr ())"
    and ok: "buffer_ok good rows ts bs'"
    and rows: "buffer_rows rows bs' = filter (\<lambda>r. next_emit w - getPeriodOption w \<le> ts r)
      (buffer_rows rows (buffered_record_batches w))"
    using removeOldRecords_rows [OF assms(1,2)] by blast
  show ?thesis
  proof (cases bs')
    case Nil
    with r ok rows show ?thesis
      by (intro exI [of _ bs'] exI [of _ "[]"]) (simp add: emitWindow_def one_window_def)
  next
    case (Cons b0 rest)
    have g: "\<forall>b \<in> set bs'. good b" and ne: "\<forall>b \<in> set bs'. rows b \<noteq> []" using ok by (auto simp: buffer_ok_def)
    have nonempty: "buffer_rows rows bs' \<noteq> []" using ne Cons by simp
    have "length (buffer_rows rows bs') < 2 ^ 64"
      unfolding rows using assms(3) le_less_trans length_filter_le by blast
    then obtain b where b: "concatenateRecordBatches A bs' = Inr b" "good b" "rows b = buffer_rows rows bs'"
      using stream_concat [OF assms(1) nonempty g] by blast
    have "rfold (emit_step A) bs' ([], [], b_schema b0) = Inr ([], bs', b_schema b0)"
      using rfold_emit_step [OF assms(1) g, of b0 "[]" "[]"] g Cons by simp
    then have "emitWindow A w = (w\<lparr>buffered_record_batches := bs'\<rparr>, Inr [b])"
      using r b Cons by (simp add: emitWindow_def)
    moreover have "buffer_rows rows bs' \<noteq> []" using ne Cons by simp
    ultimately show ?thesis
      using ok rows b by (intro exI [of _ bs'] exI [of _ "[b]"]) (simp add: one_window_def)
  qed
qed

section \<open>The loop\<close>

text \<open>The specification: the windows \<open>[n - period, n)\<close> of all rows, for the emission times \<open>n\<close> from
  \<open>next_emit\<close> up to the last time stamp, in steps of \<open>every\<close>; empty ones are left out.\<close>

definition window_rows :: "('r \<Rightarrow> int) \<Rightarrow> int \<Rightarrow> int \<Rightarrow> 'r list \<Rightarrow> 'r list" where
  "window_rows ts period n rs = filter (\<lambda>r. n - period \<le> ts r \<and> ts r < n) rs"

function windows :: "('r \<Rightarrow> int) \<Rightarrow> int \<Rightarrow> int \<Rightarrow> int \<Rightarrow> int \<Rightarrow> 'r list \<Rightarrow> 'r list list" where
  "windows ts period every n max_ts rs =
     (if 0 < every \<and> n \<le> max_ts
      then one_window (window_rows ts period n rs) @ windows ts period every (n + every) max_ts rs
      else [])"
  by pat_completeness auto
termination
  by (relation "measure (\<lambda>(ts, period, every, n, max_ts, rs). nat (max_ts - n + 1))") auto

declare windows.simps [simp del]

text \<open>The first emission time after \<open>max_ts\<close>.\<close>

function emit_after :: "int \<Rightarrow> int \<Rightarrow> int \<Rightarrow> int" where
  "emit_after every n max_ts = (if 0 < every \<and> n \<le> max_ts then emit_after every (n + every) max_ts else n)"
  by pat_completeness auto
termination
  by (relation "measure (\<lambda>(every, n, max_ts). nat (max_ts - n + 1))") auto

declare emit_after.simps [simp del]

lemma emit_after_gt: "0 < every \<Longrightarrow> max_ts < emit_after every n max_ts"
proof (induction every n max_ts rule: emit_after.induct)
  case (1 every n max_ts)
  then show ?case by (subst emit_after.simps) auto
qed

lemma emit_after_ge: "0 < every \<Longrightarrow> n \<le> emit_after every n max_ts"
proof (induction every n max_ts rule: emit_after.induct)
  case (1 every n max_ts)
  then show ?case by (subst emit_after.simps) force
qed

text \<open>Rows that are too old for the next window do not matter for it and the later ones.\<close>

lemma windows_drop:
  assumes "\<forall>r \<in> set (take k rs). ts r < n - period"
  shows "windows ts period every n max_ts (drop k rs) = windows ts period every n max_ts rs"
  using assms
proof (induction ts period every n max_ts rs rule: windows.induct)
  case (1 ts period every n max_ts rs)
  show ?case
  proof (cases "0 < every \<and> n \<le> max_ts")
    case True
    have "window_rows ts period n rs = window_rows ts period n (take k rs @ drop k rs)" by simp
    also have "\<dots> = window_rows ts period n (drop k rs)"
      using "1.prems" unfolding window_rows_def filter_append by (auto simp: filter_empty_conv)
    finally have "window_rows ts period n (drop k rs) = window_rows ts period n rs" by simp
    moreover have "windows ts period every (n + every) max_ts (drop k rs) =
        windows ts period every (n + every) max_ts rs"
      using True "1.prems" by (intro "1.IH") auto
    ultimately show ?thesis using True by (subst (1 2) windows.simps) simp
  next
    case False
    then have "windows ts period every n max_ts xs = []" for xs by (subst windows.simps) auto
    then show ?thesis by simp
  qed
qed

lemma filter_ge_sorted_drop:
  assumes "sorted (map ts xs)"
  shows "\<exists>k \<le> length xs. filter (\<lambda>r. (c :: int) \<le> ts r) xs = drop k xs \<and> (\<forall>r \<in> set (take k xs). ts r < c)"
proof (intro exI conjI ballI)
  let ?k = "first_index (\<lambda>t. c \<le> t) (map ts xs)"
  show "?k \<le> length xs" using first_index_le [of _ "map ts xs"] by simp
  show "filter (\<lambda>r. c \<le> ts r) xs = drop ?k xs" using assms by (intro drop_first_index [symmetric] upward_ge)
  show "ts r < c" if "r \<in> set (take ?k xs)" for r
    using that take_first_index [OF assms, of "\<lambda>t. c \<le> t"] by auto
qed

text \<open>One iteration, on a batch whose last row is not before the emission time.\<close>

lemma window_iteration_rows:
  fixes w :: WindowHandler and rows :: "batch \<Rightarrow> 'r list"
  defines "B \<equiv> buffer_rows rows (buffered_record_batches w)"
  assumes laws: "stream_laws A tn good rows key ts" and ok: "buffer_ok good rows ts (buffered_record_batches w)"
    and b: "good b" "rows b \<noteq> []" and so: "sorted (map ts (B @ rows b))"
    and old: "\<forall>r \<in> set B. ts r < next_emit w" and lst: "next_emit w \<le> ts (last (rows b))"
    and e: "0 \<le> getEveryOption w" and small: "length (B @ rows b) < 2 ^ 64"
  shows "\<exists>w' b' window k. window_iteration A tn w b result = (w', Inr (b', result @ window)) \<and>
    wh_options w' = wh_options w \<and> emitted_first w' \<and> next_emit w' = next_emit w + getEveryOption w \<and>
    list_all good window \<and> map rows window = one_window (window_rows ts (getPeriodOption w) (next_emit w) (B @ rows b)) \<and>
    buffer_ok good rows ts (buffered_record_batches w') \<and> good b' \<and> rows b' \<noteq> [] \<and> last (rows b') = last (rows b) \<and>
    buffer_rows rows (buffered_record_batches w') @ rows b' = drop k (B @ rows b) \<and>
    (\<forall>r \<in> set (take k (B @ rows b)). ts r < next_emit w + getEveryOption w - getPeriodOption w) \<and>
    (\<forall>r \<in> set (buffer_rows rows (buffered_record_batches w')). ts r < next_emit w)"
proof -
  let ?N = "next_emit w" and ?P = "getPeriodOption w" and ?E = "getEveryOption w"
  let ?d = "first_index (\<lambda>t. ?N \<le> t) (map ts (rows b))"
  have sb: "sorted (map ts (rows b))" using so by (simp add: sorted_append)
  obtain c where c: "GetColumnByName A b tn = Some c" "tsLowerBound A c (\<lambda>t. ?N \<le> t) UNIT_SECOND = Inr ?d"
    using stream_lower_bound [OF laws b(1) sb b(2)] by blast
  have le: "?d \<le> length (rows b)" using first_index_le [of _ "map ts (rows b)"] by simp
  note sl = stream_slices [OF laws b(1) le]
  have tk: "take ?d (rows b) = filter (\<lambda>r. \<not> ?N \<le> ts r) (rows b)" by (rule take_first_index [OF sb]) simp
  have dr: "drop ?d (rows b) = filter (\<lambda>r. ?N \<le> ts r) (rows b)" by (rule drop_first_index [OF sb]) simp
  have "last (rows b) \<in> set (drop ?d (rows b))" using lst b(2) by (simp add: dr)
  then have ne: "drop ?d (rows b) \<noteq> []" by auto
  then have lt: "?d < length (rows b)" by simp
  define w1 where "w1 = (if 0 < ?d then w\<lparr>buffered_record_batches :=
      buffered_record_batches w @ [Slice A b 0 (int ?d)]\<rparr> else w)"
  define B1 where "B1 = B @ take ?d (rows b)"
  have w1: "wh_options w1 = wh_options w" "next_emit w1 = ?N"
    "buffer_rows rows (buffered_record_batches w1) = B1"
    using sl by (simp_all add: w1_def B1_def B_def)
  have "sorted (map ts (B1 @ drop ?d (rows b)))" using so by (simp add: B1_def)
  then have so1: "sorted (map ts B1)" by (simp add: sorted_append)
  have small1: "length (buffer_rows rows (buffered_record_batches w1)) < 2 ^ 64"
    unfolding w1(3) B1_def using small by simp
  have ok1: "buffer_ok good rows ts (buffered_record_batches w1)"
    using ok so1 sl lt unfolding buffer_ok_def w1(3) by (auto simp: w1_def)
  define X where "X = filter (\<lambda>r. ?N - ?P \<le> ts r) B1"
  have win: "window_rows ts ?P ?N (B @ rows b) = X"
  proof -
    have "B @ rows b = B1 @ drop ?d (rows b)" by (simp add: B1_def)
    then have "window_rows ts ?P ?N (B @ rows b) = window_rows ts ?P ?N B1 @ window_rows ts ?P ?N (drop ?d (rows b))"
      by (simp only: window_rows_def filter_append)
    moreover have "window_rows ts ?P ?N (drop ?d (rows b)) = []"
      unfolding dr by (auto simp: window_rows_def filter_empty_conv)
    moreover have "window_rows ts ?P ?N B1 = X"
      using old unfolding window_rows_def X_def B1_def tk by (intro filter_cong) auto
    ultimately show ?thesis by simp
  qed
  obtain bs2 window where w2: "(if buffered_record_batches w1 \<noteq> []
      then (case emitWindow A w1 of (w, Inl e) \<Rightarrow> (w, Inl e) | (w, Inr window) \<Rightarrow> (w, Inr (result @ window)))
      else (w1, Inr result)) = (w1\<lparr>buffered_record_batches := bs2\<rparr>, Inr (result @ window))"
    and ok2: "buffer_ok good rows ts bs2" and r2: "buffer_rows rows bs2 = X"
    and g2: "list_all good window" and m2: "map rows window = one_window X"
  proof (cases "buffered_record_batches w1 = []")
    case True
    then have "X = []" using w1(3) by (simp add: X_def)
    with True show ?thesis
      by (intro that [of "[]" "[]"]) (simp_all add: buffer_ok_def one_window_def)
  next
    case False
    obtain bs' window where "emitWindow A w1 = (w1\<lparr>buffered_record_batches := bs'\<rparr>, Inr window)"
      "buffer_ok good rows ts bs'" "buffer_rows rows bs' = X" "list_all good window"
      "map rows window = one_window (buffer_rows rows bs')"
      using emitWindow_rows [OF laws ok1 small1] unfolding w1 getPeriodOption_def X_def by metis
    with False show ?thesis by (intro that [of bs' window]) simp_all
  qed
  define w3 where "w3 = w1\<lparr>buffered_record_batches := bs2, emitted_first := True, next_emit := ?N + ?E\<rparr>"
  have w3: "getPeriodOption w3 = ?P" "next_emit w3 = ?N + ?E" "buffered_record_batches w3 = bs2"
    by (simp_all add: w3_def w1 getPeriodOption_def)
  obtain bs4 where r4: "removeOldRecords A w3 = (w3\<lparr>buffered_record_batches := bs4\<rparr>, Inr ())"
    and ok4: "buffer_ok good rows ts bs4"
    and b4: "buffer_rows rows bs4 = filter (\<lambda>r. ?N + ?E - ?P \<le> ts r) X"
    using removeOldRecords_rows [OF laws, of w3] ok2 r2 unfolding w3 by metis
  have b4': "buffer_rows rows bs4 = filter (\<lambda>r. ?N + ?E - ?P \<le> ts r) B1"
    unfolding b4 X_def filter_filter using e by (intro filter_cong) auto
  obtain k where k: "k \<le> length B1" "filter (\<lambda>r. ?N + ?E - ?P \<le> ts r) B1 = drop k B1"
    "\<forall>r \<in> set (take k B1). ts r < ?N + ?E - ?P"
    using filter_ge_sorted_drop [OF so1] by blast
  have it: "window_iteration A tn w b result =
      (w3\<lparr>buffered_record_batches := bs4\<rparr>, Inr (SliceFrom A b (int ?d), result @ window))"
  proof -
    have "(w1\<lparr>buffered_record_batches := bs2\<rparr>)\<lparr>emitted_first := True,
        next_emit := next_emit (w1\<lparr>buffered_record_batches := bs2\<rparr>) + getEveryOption (w1\<lparr>buffered_record_batches := bs2\<rparr>)\<rparr> = w3"
      by (simp add: w3_def w1 getEveryOption_def)
    then show ?thesis
      using r4 by (simp add: window_iteration_def c w1_def [symmetric] w2 Let_def)
  qed
  have B1b: "B @ rows b = B1 @ drop ?d (rows b)" by (simp add: B1_def)
  show ?thesis
  proof (intro exI conjI)
    show "window_iteration A tn w b result =
      (w3\<lparr>buffered_record_batches := bs4\<rparr>, Inr (SliceFrom A b (int ?d), result @ window))" by (rule it)
    show "buffer_rows rows (buffered_record_batches (w3\<lparr>buffered_record_batches := bs4\<rparr>)) @ rows (SliceFrom A b (int ?d))
        = drop k (B @ rows b)"
      using k sl(4) unfolding B1b by (simp add: b4')
    show "\<forall>r \<in> set (take k (B @ rows b)). ts r < ?N + ?E - ?P"
      using k unfolding B1b by simp
    have "\<forall>r \<in> set B1. ts r < ?N" using old by (auto simp: B1_def tk)
    then show "\<forall>r \<in> set (buffer_rows rows (buffered_record_batches (w3\<lparr>buffered_record_batches := bs4\<rparr>))). ts r < ?N"
      using b4' by simp
    show "last (rows (SliceFrom A b (int ?d))) = last (rows b)" using sl(4) lt by simp
    show "rows (SliceFrom A b (int ?d)) \<noteq> []" using sl(4) ne by simp
    show "map rows window = one_window (window_rows ts ?P ?N (B @ rows b))" using m2 win by simp
  qed (use w3 w1 ok4 g2 sl in \<open>simp_all add: w3_def\<close>)
qed

text \<open>The loop ends, having emitted the windows due.\<close>

lemma window_loop_rows:
  fixes w :: WindowHandler and rows :: "batch \<Rightarrow> 'r list"
  assumes laws: "stream_laws A tn good rows key ts" and ok: "buffer_ok good rows ts (buffered_record_batches w)"
    and b: "good b" "rows b \<noteq> []"
    and so: "sorted (map ts (buffer_rows rows (buffered_record_batches w) @ rows b))"
    and old: "\<forall>r \<in> set (buffer_rows rows (buffered_record_batches w)). ts r < next_emit w"
    and e: "0 < getEveryOption w"
    and small: "length (buffer_rows rows (buffered_record_batches w) @ rows b) < 2 ^ 64"
  shows "\<exists>w' b' res k. window_loop A tn (ts (last (rows b))) w b result = Some (w', Inr (b', result @ res)) \<and>
    wh_options w' = wh_options w \<and>
    next_emit w' = emit_after (getEveryOption w) (next_emit w) (ts (last (rows b))) \<and>
    list_all good res \<and>
    map rows res = windows ts (getPeriodOption w) (getEveryOption w) (next_emit w) (ts (last (rows b)))
      (buffer_rows rows (buffered_record_batches w) @ rows b) \<and>
    buffer_ok good rows ts (buffered_record_batches w' @ [b']) \<and>
    buffer_rows rows (buffered_record_batches w' @ [b']) = drop k (buffer_rows rows (buffered_record_batches w) @ rows b) \<and>
    (\<forall>r \<in> set (take k (buffer_rows rows (buffered_record_batches w) @ rows b)). ts r < next_emit w' - getPeriodOption w)"
  using ok b so old e small
proof (induction "nat (ts (last (rows b)) - next_emit w + 1)" arbitrary: w b result rule: less_induct)
  case less
  let ?N = "next_emit w" and ?P = "getPeriodOption w" and ?E = "getEveryOption w"
  let ?M = "ts (last (rows b))" and ?X = "buffer_rows rows (buffered_record_batches w) @ rows b"
  show ?case
  proof (cases "?N \<le> ?M")
    case False
    have "window_loop A tn ?M w b result = Some (w, Inr (b, result @ []))"
      using False by (subst window_loop.simps) simp
    moreover have "emit_after ?E ?N ?M = ?N" using False by (subst emit_after.simps) simp
    moreover have "windows ts ?P ?E ?N ?M ?X = []" using False by (subst windows.simps) simp
    moreover have "buffer_ok good rows ts (buffered_record_batches w @ [b])"
      using less.prems by (auto simp: buffer_ok_def)
    ultimately show ?thesis
      by (intro exI [of _ w] exI [of _ b] exI [of _ "[]"] exI [of _ 0]) simp
  next
    case True
    obtain w1 b1 win k1 where
      it: "window_iteration A tn w b result = (w1, Inr (b1, result @ win))"
      and o1: "wh_options w1 = wh_options w" and n1: "next_emit w1 = ?N + ?E"
      and g1: "list_all good win" and m1: "map rows win = one_window (window_rows ts ?P ?N ?X)"
      and ok1: "buffer_ok good rows ts (buffered_record_batches w1)" and b1: "good b1" "rows b1 \<noteq> []"
      and l1: "last (rows b1) = last (rows b)"
      and x1: "buffer_rows rows (buffered_record_batches w1) @ rows b1 = drop k1 ?X"
      and d1: "\<forall>r \<in> set (take k1 ?X). ts r < ?N + ?E - ?P"
      and old1: "\<forall>r \<in> set (buffer_rows rows (buffered_record_batches w1)). ts r < ?N"
      using window_iteration_rows [OF laws less.prems(1-5) True less_imp_le [OF less.prems(6)] less.prems(7)] by blast
    have opts: "getPeriodOption w1 = ?P" "getEveryOption w1 = ?E"
      using o1 by (simp_all add: getPeriodOption_def getEveryOption_def)
    have "nat (ts (last (rows b1)) - next_emit w1 + 1) < nat (?M - ?N + 1)"
      using True less.prems(6) by (simp add: l1 n1)
    moreover have "sorted (map ts (buffer_rows rows (buffered_record_batches w1) @ rows b1))"
      unfolding x1 drop_map [symmetric] using less.prems(4) by (rule sorted_wrt_drop)
    moreover have "\<forall>r \<in> set (buffer_rows rows (buffered_record_batches w1)). ts r < next_emit w1"
      using old1 n1 less.prems(6) by force
    moreover have "length (buffer_rows rows (buffered_record_batches w1) @ rows b1) < 2 ^ 64"
      unfolding x1 using less.prems(7) by simp
    ultimately obtain w' b' res k where
      lp: "window_loop A tn ?M w1 b1 (result @ win) = Some (w', Inr (b', (result @ win) @ res))"
      and o2: "wh_options w' = wh_options w1" and n2: "next_emit w' = emit_after ?E (?N + ?E) ?M"
      and g2: "list_all good res" and m2: "map rows res = windows ts ?P ?E (?N + ?E) ?M (drop k1 ?X)"
      and ok2: "buffer_ok good rows ts (buffered_record_batches w' @ [b'])"
      and x2: "buffer_rows rows (buffered_record_batches w' @ [b']) = drop k (drop k1 ?X)"
      and d2: "\<forall>r \<in> set (take k (drop k1 ?X)). ts r < next_emit w' - ?P"
      using less.hyps [of b1 w1 "result @ win"] ok1 b1 less.prems(6) unfolding opts n1 l1 x1 by blast
    have "window_loop A tn ?M w b result = Some (w', Inr (b', result @ win @ res))"
      using True it lp by (subst window_loop.simps) simp
    moreover have "emit_after ?E ?N ?M = emit_after ?E (?N + ?E) ?M"
      using True less.prems(6) by (subst emit_after.simps) simp
    moreover have "windows ts ?P ?E ?N ?M ?X = one_window (window_rows ts ?P ?N ?X) @ windows ts ?P ?E (?N + ?E) ?M ?X"
      using True less.prems(6) by (subst windows.simps) simp
    moreover have "windows ts ?P ?E (?N + ?E) ?M (drop k1 ?X) = windows ts ?P ?E (?N + ?E) ?M ?X"
      by (rule windows_drop [OF d1])
    moreover have "\<forall>r \<in> set (take (k1 + k) ?X). ts r < next_emit w' - ?P"
    proof -
      have "?N + ?E \<le> next_emit w'" unfolding n2 by (rule emit_after_ge [OF less.prems(6)])
      with d1 d2 show ?thesis unfolding take_add by force
    qed
    moreover have "buffer_rows rows (buffered_record_batches w' @ [b']) = drop (k1 + k) ?X"
      unfolding x2 drop_drop by (simp only: add.commute)
    ultimately show ?thesis
      using o1 o2 n2 g1 g2 m1 m2 ok2
      by (intro exI [of _ w'] exI [of _ b'] exI [of _ "win @ res"] exI [of _ "k1 + k"]) simp
  qed
qed

section \<open>A stream of batches\<close>

text \<open>What the handler has kept of the rows \<open>seen\<close> so far.\<close>

definition window_inv ::
  "(batch \<Rightarrow> bool) \<Rightarrow> (batch \<Rightarrow> 'r list) \<Rightarrow> ('r \<Rightarrow> int) \<Rightarrow> WindowHandler \<Rightarrow> 'r list \<Rightarrow> bool"
where
  "window_inv good rows ts w seen \<longleftrightarrow>
     buffer_ok good rows ts (buffered_record_batches w) \<and> sorted (map ts seen) \<and>
     (if seen = [] then buffered_record_batches w = [] \<and> next_emit w = 0
      else 0 < next_emit w \<and> (\<forall>r \<in> set seen. ts r < next_emit w) \<and>
        (\<exists>k. buffer_rows rows (buffered_record_batches w) = drop k seen \<and>
             (\<forall>r \<in> set (take k seen). ts r < next_emit w - getPeriodOption w)))"

text \<open>The first emission time.\<close>

definition first_emit :: "WindowOptions \<Rightarrow> int \<Rightarrow> int" where
  "first_emit options min_ts = min_ts + (if wo_fill_period options then wo_period options else wo_every options)"

lemma new_window_inv: "window_inv good rows ts (new_window_handler options) []"
  by (simp add: window_inv_def new_window_handler_def buffer_ok_def)

lemma sort_key_facts: "sort_key f xs = [] \<longleftrightarrow> xs = []" "set (sort_key f xs) = set xs"
  by (auto simp flip: length_0_conv)

text \<open>The handler up to its loop: the batch is sorted, the first emission time is set when there is none,
  and the loop runs up to the last time stamp.\<close>

lemma window_handle_start:
  fixes w :: WindowHandler
  assumes laws: "stream_laws A tn good rows key ts" and b: "good b" "rows b \<noteq> []"
  defines "R \<equiv> sort_key key (rows b)"
  defines "w1 \<equiv> w\<lparr>next_emit := (if next_emit w = 0 then first_emit (wh_options w) (ts (hd R)) else next_emit w)\<rparr>"
  shows "\<exists>sb. good sb \<and> rows sb = R \<and>
    window_handle A w b =
      (case window_loop A tn (ts (last R)) w1 sb [] of
         None \<Rightarrow> (w1, Inl NoReturn)
       | Some (w, Inl e) \<Rightarrow> (w, Inl e)
       | Some (w, Inr (sorted_record_batch, result)) \<Rightarrow>
           (w\<lparr>buffered_record_batches := buffered_record_batches w @ [sorted_record_batch]\<rparr>, Inr result))"
proof -
  have R: "R \<noteq> []" using b(2) by (simp add: sort_key_facts R_def)
  have sb: "stream_batch A tn rows ts b" using laws b(1) by (simp add: stream_laws_def)
  then obtain c where tn: "getTimeColumnNameMetadata A b = Inr tn" and c: "GetColumnByName A b tn = Some c"
    "type_id (a_type c) = TIMESTAMP" by (auto simp: stream_batch_def)
  obtain c' idx sb where s: "ViewInt64 A c = Inr c'" "SortIndices A c' = Inr idx" "Take A b idx = Inr sb"
    and g: "good sb" and rs: "rows sb = R"
    using laws b(1) c(1) unfolding stream_laws_def sort_law_def R_def by metis
  have sorted: "sortByColumn A tn b = Inr sb" using c s by (simp add: sortByColumn_def)
  have "stream_batch A tn rows ts sb" using laws g by (simp add: stream_laws_def)
  then obtain d where d: "GetColumnByName A sb tn = Some d" "reads_ts A d UNIT_SECOND (map ts R)"
    and n: "b_num_rows sb = length R"
    by (auto simp: stream_batch_def rs)
  have rd: "\<exists>x. castTimestampScalar A (GetScalar A d (int i)) UNIT_SECOND = Inr x \<and> s_int x = ts (R ! i)"
    if "i < length R" for i
    using d(2) that by (auto simp: reads_ts_def read_ts_def rbind_eq_Inr_iff)
  obtain x0 where x0: "castTimestampScalar A (GetScalar A d 0) UNIT_SECOND = Inr x0" "s_int x0 = ts (hd R)"
    using rd [of 0] R by (auto simp: hd_conv_nth)
  have "int (b_num_rows sb) - 1 = int (length R - 1)" using R n by (cases R) auto
  then obtain x1 where x1: "castTimestampScalar A (GetScalar A d (int (b_num_rows sb) - 1)) UNIT_SECOND = Inr x1"
    "s_int x1 = ts (last R)"
    using rd [of "length R - 1"] R by (auto simp: last_conv_nth)
  have "init_next_emit A d w = Inr w1"
    using x0 by (simp add: init_next_emit_def w1_def first_emit_def getPeriodOption_def getEveryOption_def)
  then have "window_handle A w b =
      (case window_loop A tn (ts (last R)) w1 sb [] of
         None \<Rightarrow> (w1, Inl NoReturn)
       | Some (w, Inl e) \<Rightarrow> (w, Inl e)
       | Some (w, Inr (sorted_record_batch, result)) \<Rightarrow>
           (w\<lparr>buffered_record_batches := buffered_record_batches w @ [sorted_record_batch]\<rparr>, Inr result))"
    by (simp add: window_handle_def tn sorted d(1) x1)
  with g rs show ?thesis by blast
qed

lemma window_handle_rows:
  fixes w :: WindowHandler and rows :: "batch \<Rightarrow> 'r list"
  assumes laws: "stream_laws A tn good rows key ts" and inv: "window_inv good rows ts w seen"
    and b: "good b" "rows b \<noteq> []" and e: "0 < getEveryOption w" and p: "0 \<le> getPeriodOption w"
    and so: "sorted (map ts (seen @ sort_key key (rows b)))" and pos: "\<forall>r \<in> set (rows b). 0 < ts r"
    and small: "length (seen @ rows b) < 2 ^ 64"
  defines "N \<equiv> (if seen = [] then first_emit (wh_options w) (ts (hd (sort_key key (rows b)))) else next_emit w)"
    and "M \<equiv> ts (last (sort_key key (rows b)))"
  shows "\<exists>w' res. window_handle A w b = (w', Inr res) \<and> wh_options w' = wh_options w \<and>
    list_all good res \<and>
    map rows res = windows ts (getPeriodOption w) (getEveryOption w) N M (seen @ sort_key key (rows b)) \<and>
    next_emit w' = emit_after (getEveryOption w) N M \<and>
    window_inv good rows ts w' (seen @ sort_key key (rows b))"
proof -
  let ?R = "sort_key key (rows b)" and ?P = "getPeriodOption w" and ?E = "getEveryOption w"
  have R: "?R \<noteq> []" using b(2) by (simp add: sort_key_facts)
  define w1 where "w1 = w\<lparr>next_emit := N\<rparr>"
  have "next_emit w = 0 \<longleftrightarrow> seen = []" using inv by (auto simp: window_inv_def split: if_splits)
  then have N: "(if next_emit w = 0 then first_emit (wh_options w) (ts (hd ?R)) else next_emit w) = N"
    by (simp add: N_def)
  obtain sb where g: "good sb" and rs: "rows sb = ?R"
    and hd0: "window_handle A w b =
      (case window_loop A tn M w1 sb [] of
         None \<Rightarrow> (w1, Inl NoReturn)
       | Some (w, Inl e) \<Rightarrow> (w, Inl e)
       | Some (w, Inr (sorted_record_batch, result)) \<Rightarrow>
           (w\<lparr>buffered_record_batches := buffered_record_batches w @ [sorted_record_batch]\<rparr>, Inr result))"
    using window_handle_start [OF laws b, of w] unfolding N w1_def [symmetric] M_def [symmetric] by blast
  have hpos: "0 < ts (hd ?R)" using pos R by (metis hd_in_set sort_key_facts(2))
  have npos: "0 < N"
    using inv hpos e p by (auto simp: N_def first_emit_def window_inv_def getPeriodOption_def getEveryOption_def)
  have B: "buffer_ok good rows ts (buffered_record_batches w1)"
    using inv by (simp add: window_inv_def w1_def)
  obtain k0 where k0: "buffer_rows rows (buffered_record_batches w1) = drop k0 seen"
    "\<forall>r \<in> set (take k0 seen). ts r < N - ?P"
    using inv by (cases "seen = []") (auto simp: window_inv_def w1_def N_def)
  have x: "buffer_rows rows (buffered_record_batches w1) @ ?R = drop (min k0 (length seen)) (seen @ ?R)"
    and x': "\<forall>r \<in> set (take (min k0 (length seen)) (seen @ ?R)). ts r < N - ?P"
    using k0 by (simp_all add: min_def)
  let ?k0 = "min k0 (length seen)"
  have "sorted (map ts (buffer_rows rows (buffered_record_batches w1) @ rows sb))"
    unfolding rs x drop_map [symmetric] using so by (rule sorted_wrt_drop)
  moreover have "\<forall>r \<in> set (buffer_rows rows (buffered_record_batches w1)). ts r < next_emit w1"
    using inv k0(1) by (cases "seen = []") (auto simp: window_inv_def w1_def N_def dest: in_set_dropD)
  moreover have "length (buffer_rows rows (buffered_record_batches w1) @ rows sb) < 2 ^ 64"
    unfolding rs x using small by simp
  moreover have o1: "getPeriodOption w1 = ?P" "getEveryOption w1 = ?E" "next_emit w1 = N" "wh_options w1 = wh_options w"
    by (simp_all add: w1_def getPeriodOption_def getEveryOption_def)
  ultimately obtain w2 b2 res k where
    lp: "window_loop A tn M w1 sb [] = Some (w2, Inr (b2, res))" and o2: "wh_options w2 = wh_options w"
    and n2: "next_emit w2 = emit_after ?E N M" and gr: "list_all good res"
    and m2: "map rows res = windows ts ?P ?E N M (drop ?k0 (seen @ ?R))"
    and ok2: "buffer_ok good rows ts (buffered_record_batches w2 @ [b2])"
    and x2: "buffer_rows rows (buffered_record_batches w2 @ [b2]) = drop k (drop ?k0 (seen @ ?R))"
    and d2: "\<forall>r \<in> set (take k (drop ?k0 (seen @ ?R))). ts r < next_emit w2 - ?P"
    using window_loop_rows [OF laws B g, of "[]"] e R unfolding rs x M_def o1 by fastforce
  let ?w = "w2\<lparr>buffered_record_batches := buffered_record_batches w2 @ [b2]\<rparr>"
  have hd: "window_handle A w b = (?w, Inr res)"
    by (simp add: hd0 lp)
  have ge: "N \<le> next_emit w2" unfolding n2 by (rule emit_after_ge [OF e])
  have gt: "M < next_emit w2" unfolding n2 by (rule emit_after_gt [OF e])
  have all: "ts r \<le> M" if "r \<in> set (seen @ ?R)" for r
  proof -
    have "sorted (map ts (butlast (seen @ ?R) @ [last ?R]))"
      using so R by (metis append_butlast_last_id append_is_Nil_conv last_appendR)
    moreover have "r \<in> set (butlast (seen @ ?R)) \<or> r = last ?R"
      using that R by (metis append_butlast_last_id append_is_Nil_conv last_appendR rotate1.simps(2) set_ConsD set_rotate1)
    ultimately show ?thesis by (auto simp: M_def sorted_append)
  qed
  have "window_inv good rows ts ?w (seen @ ?R)"
  proof -
    have f1: "buffer_rows rows (buffered_record_batches ?w) = drop (?k0 + k) (seen @ ?R)"
      using x2 unfolding drop_drop add.commute [of k] by simp
    have f2: "\<forall>r \<in> set (take (?k0 + k) (seen @ ?R)). ts r < next_emit ?w - getPeriodOption ?w"
      using x' d2 ge o2 unfolding take_add by (force simp: getPeriodOption_def)
    have f3: "\<forall>r \<in> set (seen @ ?R). ts r < next_emit ?w" using all gt by force
    have f4: "0 < next_emit ?w" using npos ge by simp
    have f5: "buffer_ok good rows ts (buffered_record_batches ?w)" using ok2 by simp
    have "seen @ ?R \<noteq> []" using R by simp
    then show ?thesis
      unfolding window_inv_def using f5 so f4 f3 f1 f2 by (simp only: if_False) blast
  qed
  then show ?thesis
    using hd o2 gr m2 n2 windows_drop [OF x', of ?E M] by (intro exI [of _ ?w] exI [of _ res]) simp
qed

text \<open>Windows emitted up to \<open>max_ts\<close> and then up to \<open>max_ts'\<close> are those emitted up to \<open>max_ts'\<close>
  at once, when the rows in between come no earlier than \<open>max_ts\<close>.\<close>

lemma windows_extend:
  assumes "0 < every" and "max_ts \<le> max_ts'" and "\<forall>r \<in> set ys. max_ts \<le> ts r"
  shows "windows ts period every n max_ts xs @ windows ts period every (emit_after every n max_ts) max_ts' (xs @ ys) =
    windows ts period every n max_ts' (xs @ ys)"
proof (induction "nat (max_ts - n + 1)" arbitrary: n rule: less_induct)
  case less
  show ?case
  proof (cases "n \<le> max_ts")
    case True
    have "window_rows ts period n ys = []"
      using assms(3) True by (auto simp: window_rows_def filter_empty_conv)
    then have w: "window_rows ts period n (xs @ ys) = window_rows ts period n xs"
      by (simp add: window_rows_def)
    have "nat (max_ts - (n + every) + 1) < nat (max_ts - n + 1)" using True assms(1) by simp
    note IH = less.hyps [OF this]
    have "windows ts period every n max_ts xs =
        one_window (window_rows ts period n xs) @ windows ts period every (n + every) max_ts xs"
      using True assms(1) by (subst windows.simps) simp
    moreover have "emit_after every n max_ts = emit_after every (n + every) max_ts"
      using True assms(1) by (subst emit_after.simps) simp
    moreover have "windows ts period every n max_ts' (xs @ ys) =
        one_window (window_rows ts period n xs) @ windows ts period every (n + every) max_ts' (xs @ ys)"
      using True assms(1,2) w by (subst windows.simps) simp
    ultimately show ?thesis using IH by simp
  next
    case False
    then have "windows ts period every n max_ts xs = []" "emit_after every n max_ts = n"
      by (subst windows.simps, simp add: False) (subst emit_after.simps, simp add: False)
    then show ?thesis by simp
  qed
qed

text \<open>The rows of a sequence of batches, each sorted by time.\<close>

abbreviation stream_rows :: "(batch \<Rightarrow> 'r list) \<Rightarrow> ('r \<Rightarrow> int) \<Rightarrow> batch list \<Rightarrow> 'r list" where
  "stream_rows rows key bs \<equiv> concat (map (\<lambda>b. sort_key key (rows b)) bs)"

lemma handle_stream:
  fixes w :: WindowHandler and rows :: "batch \<Rightarrow> 'r list"
  assumes laws: "stream_laws A tn good rows key ts" and inv: "window_inv good rows ts w seen"
    and bs: "\<forall>b \<in> set bs. good b \<and> rows b \<noteq> []" and e: "0 < getEveryOption w" and p: "0 \<le> getPeriodOption w"
    and so: "sorted (map ts (seen @ stream_rows rows key bs))"
    and pos: "\<forall>b \<in> set bs. \<forall>r \<in> set (rows b). 0 < ts r"
    and ne: "seen \<noteq> []" and small: "length (seen @ stream_rows rows key bs) < 2 ^ 64"
  shows "\<exists>w' res. handle_vector (window_handle A) w bs = (w', Inr res) \<and> list_all good res \<and>
    map rows res = (if bs = [] then [] else windows ts (getPeriodOption w) (getEveryOption w) (next_emit w)
      (ts (last (stream_rows rows key bs))) (seen @ stream_rows rows key bs))"
  using inv bs e p so pos ne small
proof (induction bs arbitrary: w seen)
  case Nil
  then show ?case by simp
next
  case (Cons b bs)
  let ?R = "sort_key key (rows b)" and ?P = "getPeriodOption w" and ?E = "getEveryOption w"
  have so1: "sorted (map ts (seen @ ?R))" using Cons.prems(5) by (simp add: sorted_append)
  obtain w1 res1 where h1: "window_handle A w b = (w1, Inr res1)" and o1: "wh_options w1 = wh_options w"
    and g1: "list_all good res1"
    and m1: "map rows res1 = windows ts ?P ?E (next_emit w) (ts (last ?R)) (seen @ ?R)"
    and n1: "next_emit w1 = emit_after ?E (next_emit w) (ts (last ?R))"
    and inv1: "window_inv good rows ts w1 (seen @ ?R)"
    using window_handle_rows [OF laws Cons.prems(1) _ _ Cons.prems(3,4) so1] Cons.prems(2,6,7,8) by auto
  have opts: "getPeriodOption w1 = ?P" "getEveryOption w1 = ?E"
    using o1 by (simp_all add: getPeriodOption_def getEveryOption_def)
  obtain w2 res2 where h2: "handle_vector (window_handle A) w1 bs = (w2, Inr res2)" and g2: "list_all good res2"
    and m2: "map rows res2 = (if bs = [] then [] else windows ts ?P ?E (next_emit w1)
      (ts (last (stream_rows rows key bs))) ((seen @ ?R) @ stream_rows rows key bs))"
    using Cons.IH [OF inv1] Cons.prems opts by fastforce
  have h: "handle_vector (window_handle A) w (b # bs) = (w2, Inr (res1 @ res2))"
    by (simp add: handle_vector_Cons h1 h2)
  have R: "?R \<noteq> []" using Cons.prems(2) by (simp add: sort_key_facts)
  show ?case
  proof (cases "bs = []")
    case True
    with h g1 g2 m1 m2 show ?thesis by simp
  next
    case False
    let ?Y = "stream_rows rows key bs"
    have Y: "?Y \<noteq> []" using False Cons.prems(2) by (cases bs) (auto simp: sort_key_facts)
    have yge: "\<forall>r \<in> set ?Y. ts (last ?R) \<le> ts r"
      using Cons.prems(5) R last_in_set [OF R] by (auto simp: sorted_append)
    then have "ts (last ?R) \<le> ts (last ?Y)" using last_in_set [OF Y] by blast
    from windows_extend [OF Cons.prems(3) this yge, of ?P "next_emit w" "seen @ ?R"]
    have "map rows (res1 @ res2) = windows ts ?P ?E (next_emit w) (ts (last ?Y)) ((seen @ ?R) @ ?Y)"
      using m1 m2 n1 False by simp
    with h g1 g2 Y show ?thesis by simp
  qed
qed

lemma handle_stream_from_start:
  assumes laws: "stream_laws A tn good rows key ts" and bs: "bs \<noteq> []" "\<forall>b \<in> set bs. good b \<and> rows b \<noteq> []"
    and e: "0 < wo_every options" and p: "0 \<le> wo_period options"
    and so: "sorted (map ts (stream_rows rows key bs))"
    and pos: "\<forall>b \<in> set bs. \<forall>r \<in> set (rows b). 0 < ts r"
    and small: "length (stream_rows rows key bs) < 2 ^ 64"
  shows "\<exists>w' res. handle_vector (window_handle A) (new_window_handler options) bs = (w', Inr res) \<and>
    map rows res = windows ts (wo_period options) (wo_every options)
      (first_emit options (ts (hd (stream_rows rows key bs)))) (ts (last (stream_rows rows key bs)))
      (stream_rows rows key bs)"
proof -
  let ?w = "new_window_handler options"
  obtain b bs' where b: "bs = b # bs'" using bs(1) by (cases bs) auto
  let ?R = "sort_key key (rows b)" and ?Y = "stream_rows rows key bs'"
  have o0: "getPeriodOption ?w = wo_period options" "getEveryOption ?w = wo_every options" "wh_options ?w = options"
    by (simp_all add: new_window_handler_def getPeriodOption_def getEveryOption_def)
  have R: "?R \<noteq> []" using bs b by (simp add: sort_key_facts)
  have so1: "sorted (map ts ([] @ ?R))" using so by (simp add: b sorted_append)
  let ?N = "first_emit options (ts (hd ?R))"
  obtain w1 res1 where h1: "window_handle A ?w b = (w1, Inr res1)" and o1: "wh_options w1 = options"
    and m1: "map rows res1 = windows ts (wo_period options) (wo_every options) ?N (ts (last ?R)) ?R"
    and n1: "next_emit w1 = emit_after (wo_every options) ?N (ts (last ?R))"
    and inv1: "window_inv good rows ts w1 ?R"
    using window_handle_rows [OF laws new_window_inv [of good rows ts options], of b] bs b e p so1 pos small
    unfolding o0 by auto
  have opts: "getPeriodOption w1 = wo_period options" "getEveryOption w1 = wo_every options"
    using o1 by (simp_all add: getPeriodOption_def getEveryOption_def)
  obtain w2 res2 where h2: "handle_vector (window_handle A) w1 bs' = (w2, Inr res2)"
    and m2: "map rows res2 = (if bs' = [] then [] else windows ts (wo_period options) (wo_every options)
      (next_emit w1) (ts (last ?Y)) (?R @ ?Y))"
    using handle_stream [OF laws inv1, of bs'] bs b e p so pos R small unfolding opts by auto
  have h: "handle_vector (window_handle A) ?w bs = (w2, Inr (res1 @ res2))"
    by (simp add: b handle_vector_Cons h1 h2)
  show ?thesis
  proof (cases "bs' = []")
    case True
    with h m1 m2 show ?thesis by (simp add: b)
  next
    case False
    have Y: "?Y \<noteq> []" using False bs b by (cases bs') (auto simp: sort_key_facts)
    have yge: "\<forall>r \<in> set ?Y. ts (last ?R) \<le> ts r"
      using so b R last_in_set [OF R] by (auto simp: sorted_append)
    then have "ts (last ?R) \<le> ts (last ?Y)" using last_in_set [OF Y] by blast
    from windows_extend [OF e this yge, of "wo_period options" ?N ?R]
    have "map rows (res1 @ res2) = windows ts (wo_period options) (wo_every options) ?N (ts (last ?Y)) (?R @ ?Y)"
      using m1 m2 n1 False by simp
    with h Y R show ?thesis by (simp add: b)
  qed
qed

end
