(* ===== verification/Dynamic_Window_Handler.thy ===== *)
theory Dynamic_Window_Handler
  imports Window_Handler
begin

text \<open>
  \<open>DynamicWindowHandler\<close> of \<open>src/src/record_batch_handlers/stateful_handlers/window_handler.cpp\<close>:
  it cuts a batch, sorted by time, where the period or the every column of its rows changes, passes
  the pieces to a window handler and sets the new options in between. The window handler is used
  through the interface \<open>IWindowHandler\<close>, the record \<open>window_ops\<close>.
\<close>

record 's window_ops =
  op_getPeriod :: "'s \<Rightarrow> int"
  op_getEvery :: "'s \<Rightarrow> int"
  op_setPeriod :: "int \<Rightarrow> int \<Rightarrow> 's \<Rightarrow> 's"
  op_setEvery :: "int \<Rightarrow> int \<Rightarrow> 's \<Rightarrow> 's"
  op_handle :: "'s handler"

definition window_handler_ops :: "arrow_lib \<Rightarrow> WindowHandler window_ops" where
  "window_handler_ops A =
     \<lparr>op_getPeriod = getPeriodOption, op_getEvery = getEveryOption, op_setPeriod = setPeriodOption,
      op_setEvery = setEveryOption, op_handle = window_handle A\<rparr>"

definition getColumnTimeUnit :: "arrow_lib \<Rightarrow> batch \<Rightarrow> string \<Rightarrow> status + TimeUnit" where
  "getColumnTimeUnit A record_batch column_name =
     deref (GetColumnByName A record_batch column_name) (\<lambda>column.
       case arrow_time_unit (a_type column) of
         Some u \<Rightarrow> Inr (mapArrowTimeUnit u)
       | None \<Rightarrow> getTimeUnitMetadata A record_batch column_name)"

text \<open>The value of a \<open>uint64\<close> scalar is narrowed to \<open>int64_t\<close>.\<close>

definition getDurationOption :: "arrow_lib \<Rightarrow> batch \<Rightarrow> int \<Rightarrow> string \<Rightarrow> TimeUnit \<Rightarrow> status + int" where
  "getDurationOption A record_batch row column_name time_unit =
     deref (GetColumnByName A record_batch column_name) (\<lambda>column.
       rbind (GetScalar A column row) (\<lambda>duration_scalar.
         rbind (if type_id (a_type column) \<in> {DURATION, INT64, INT32, UINT64, UINT32}
                then Inr (signed_take_bit 63 (s_int duration_scalar)) else Inl NotImplemented)
           (\<lambda>duration. convertTime duration time_unit SECOND)))"

function findNewWindowOptionIndex_loop ::
  "arrow_lib \<Rightarrow> batch \<Rightarrow> int \<Rightarrow> string \<Rightarrow> TimeUnit \<Rightarrow> nat \<Rightarrow> status + nat"
where
  "findNewWindowOptionIndex_loop A record_batch current_option_value column_name time_unit i =
     (if i < b_num_rows record_batch
      then rbind (getDurationOption A record_batch (int i) column_name time_unit) (\<lambda>new_option_value.
             if new_option_value \<noteq> current_option_value then Inr i
             else findNewWindowOptionIndex_loop A record_batch current_option_value column_name time_unit (Suc i))
      else Inr i)"
  by pat_completeness auto
termination
  by (relation "measure (\<lambda>(A, record_batch, current, name, unit, i). b_num_rows record_batch - i)") auto

declare findNewWindowOptionIndex_loop.simps [simp del]

definition findNewWindowOptionIndex ::
  "arrow_lib \<Rightarrow> batch \<Rightarrow> int \<Rightarrow> string \<Rightarrow> TimeUnit \<Rightarrow> status + nat"
where
  "findNewWindowOptionIndex A record_batch current_option_value column_name time_unit =
     findNewWindowOptionIndex_loop A record_batch current_option_value column_name time_unit 0"

text \<open>\<open>is_new_period_possible\<close> with the column and its unit, or \<open>None\<close>.\<close>

definition option_column :: "arrow_lib \<Rightarrow> batch \<Rightarrow> string option \<Rightarrow> status + (string \<times> TimeUnit) option" where
  "option_column A record_batch column_name =
     (case column_name of
        None \<Rightarrow> Inr None
      | Some name \<Rightarrow>
          if GetColumnByName A record_batch name = None then Inr None
          else rbind (getColumnTimeUnit A record_batch name) (\<lambda>u. Inr (Some (name, u))))"

text \<open>\<open>if (possible && index == 0) index = findNewWindowOptionIndex(...)\<close>.\<close>

definition refresh_index ::
  "arrow_lib \<Rightarrow> batch \<Rightarrow> int \<Rightarrow> (string \<times> TimeUnit) option \<Rightarrow> nat \<Rightarrow> status + nat"
where
  "refresh_index A sorted_by_time current_option_value column index =
     (case column of
        Some (name, u) \<Rightarrow>
          if index = 0 then findNewWindowOptionIndex A sorted_by_time current_option_value name u
          else Inr index
      | None \<Rightarrow> Inr index)"

text \<open>The options that change at the first row of the rest.\<close>

definition set_new_option ::
  "arrow_lib \<Rightarrow> batch \<Rightarrow> (int \<Rightarrow> int \<Rightarrow> 's \<Rightarrow> 's) \<Rightarrow> (string \<times> TimeUnit) option \<Rightarrow> bool \<Rightarrow> int \<Rightarrow> 's \<Rightarrow> status + 's"
where
  "set_new_option A sorted_by_time setter column due new_options_ts s =
     (case column of
        Some (name, u) \<Rightarrow>
          if due then rbind (getDurationOption A sorted_by_time 0 name u) (\<lambda>d. Inr (setter d new_options_ts s))
          else Inr s
      | None \<Rightarrow> Inr s)"

text \<open>One iteration; the last component of the result is \<open>None\<close> after the \<open>break\<close>.\<close>

definition dynamic_iteration ::
  "arrow_lib \<Rightarrow> 's window_ops \<Rightarrow> string \<Rightarrow> (string \<times> TimeUnit) option \<Rightarrow> (string \<times> TimeUnit) option \<Rightarrow>
   's \<Rightarrow> batch \<Rightarrow> batch list \<Rightarrow> nat \<Rightarrow> nat \<Rightarrow> 's \<times> (status + batch \<times> batch list \<times> (nat \<times> nat) option)"
where
  "dynamic_iteration A ops time_column_name period_column every_column s sorted_by_time result
     new_period_index new_every_index =
     (case rbind (refresh_index A sorted_by_time (op_getPeriod ops s) period_column new_period_index)
             (\<lambda>pi. rbind (refresh_index A sorted_by_time (op_getEvery ops s) every_column new_every_index)
               (\<lambda>ei. Inr (pi, ei))) of
        Inl e \<Rightarrow> (s, Inl e)
      | Inr (new_period_index, new_every_index) \<Rightarrow>
          (let new_options_index = min new_every_index new_period_index;
               (s, r) = (if 0 < new_options_index
                         then op_handle ops s (Slice A sorted_by_time 0 (int new_options_index))
                         else (s, Inr []))
           in case r of
                Inl e \<Rightarrow> (s, Inl e)
              | Inr intermediate_result \<Rightarrow>
                  (let result = result @ intermediate_result;
                       sorted_by_time = SliceFrom A sorted_by_time (int new_options_index) in
                   if b_num_rows sorted_by_time = 0 then (s, Inr (sorted_by_time, result, None))
                   else
                     (case castTimestampScalar A
                             (deref (GetColumnByName A sorted_by_time time_column_name) (\<lambda>c. GetScalar A c 0))
                             UNIT_SECOND of
                        Inl e \<Rightarrow> (s, Inl e)
                      | Inr new_options_ts \<Rightarrow>
                          (case set_new_option A sorted_by_time (op_setPeriod ops) period_column
                                  (new_options_index = new_period_index) (s_int new_options_ts) s of
                             Inl e \<Rightarrow> (s, Inl e)
                           | Inr s \<Rightarrow>
                               (case set_new_option A sorted_by_time (op_setEvery ops) every_column
                                       (new_options_index = new_every_index) (s_int new_options_ts) s of
                                  Inl e \<Rightarrow> (s, Inl e)
                                | Inr s \<Rightarrow>
                                    (s, Inr (sorted_by_time, result,
                                       Some (new_period_index - new_options_index,
                                             new_every_index - new_options_index)))))))))"

partial_function (option) dynamic_loop ::
  "arrow_lib \<Rightarrow> 's window_ops \<Rightarrow> string \<Rightarrow> (string \<times> TimeUnit) option \<Rightarrow> (string \<times> TimeUnit) option \<Rightarrow>
   's \<Rightarrow> batch \<Rightarrow> batch list \<Rightarrow> nat \<Rightarrow> nat \<Rightarrow> ('s \<times> (status + batch list)) option"
where
  "dynamic_loop A ops time_column_name period_column every_column s sorted_by_time result
     new_period_index new_every_index =
     (if 0 < b_num_rows sorted_by_time
      then (case dynamic_iteration A ops time_column_name period_column every_column s sorted_by_time result
                   new_period_index new_every_index of
              (s, Inl e) \<Rightarrow> Some (s, Inl e)
            | (s, Inr (sorted_by_time, result, None)) \<Rightarrow> Some (s, Inr result)
            | (s, Inr (sorted_by_time, result, Some (new_period_index, new_every_index))) \<Rightarrow>
                dynamic_loop A ops time_column_name period_column every_column s sorted_by_time result
                  new_period_index new_every_index)
      else Some (s, Inr result))"

definition dynamic_window_handle ::
  "arrow_lib \<Rightarrow> 's window_ops \<Rightarrow> DynamicWindowOptions \<Rightarrow> 's \<Rightarrow> batch \<Rightarrow> 's \<times> (status + batch list)"
where
  "dynamic_window_handle A ops options s record_batch =
     (case rbind (option_column A record_batch (period_column_name options)) (\<lambda>period_column.
             rbind (option_column A record_batch (every_column_name options)) (\<lambda>every_column.
             rbind (getTimeColumnNameMetadata A record_batch) (\<lambda>time_column_name.
             rbind (sortByColumn A time_column_name record_batch) (\<lambda>sorted_by_time.
               Inr (period_column, every_column, time_column_name, sorted_by_time))))) of
        Inl e \<Rightarrow> (s, Inl e)
      | Inr (period_column, every_column, time_column_name, sorted_by_time) \<Rightarrow>
          (case dynamic_loop A ops time_column_name period_column every_column s sorted_by_time []
                  (if period_column = None then b_num_rows record_batch else 0)
                  (if every_column = None then b_num_rows record_batch else 0) of
             None \<Rightarrow> (s, Inl NoReturn)
           | Some r \<Rightarrow> r))"

text \<open>\<open>DynamicWindowHandlerFactory::createHandler\<close>.\<close>

definition createDynamicWindowHandler :: "WindowOptions \<Rightarrow> WindowHandler" where
  "createDynamicWindowHandler window_options = new_window_handler window_options"


section \<open>Every row is handled under its own options\<close>

text \<open>What the loop needs of Arrow: \<open>per r\<close> and \<open>ev r\<close> are the options of the row, in seconds, \<open>ts r\<close> its
  time stamp. A column that is not there has no options to read.\<close>

definition option_law ::
  "arrow_lib \<Rightarrow> (batch \<Rightarrow> bool) \<Rightarrow> (batch \<Rightarrow> 'r list) \<Rightarrow> (string \<times> TimeUnit) option \<Rightarrow> ('r \<Rightarrow> int) \<Rightarrow> bool"
where
  "option_law A good rows column opt \<longleftrightarrow>
     (\<forall>name u b i. column = Some (name, u) \<longrightarrow> good b \<longrightarrow> i < length (rows b) \<longrightarrow>
        getDurationOption A b (int i) name u = Inr (opt (rows b ! i)))"

definition dynamic_laws ::
  "arrow_lib \<Rightarrow> string \<Rightarrow> (batch \<Rightarrow> bool) \<Rightarrow> (batch \<Rightarrow> 'r list) \<Rightarrow> ('r \<Rightarrow> int) \<Rightarrow>
   (string \<times> TimeUnit) option \<Rightarrow> ('r \<Rightarrow> int) \<Rightarrow> (string \<times> TimeUnit) option \<Rightarrow> ('r \<Rightarrow> int) \<Rightarrow> bool"
where
  "dynamic_laws A tn good rows ts pc per ec ev \<longleftrightarrow>
     slice_law A good rows \<and> option_law A good rows pc per \<and> option_law A good rows ec ev \<and>
     (\<forall>b. good b \<longrightarrow> b_num_rows b = length (rows b)) \<and>
     (\<forall>b. good b \<longrightarrow> rows b \<noteq> [] \<longrightarrow>
        (\<exists>x. castTimestampScalar A (deref (GetColumnByName A b tn) (\<lambda>c. GetScalar A c 0)) UNIT_SECOND = Inr x \<and>
             s_int x = ts (hd (rows b))))"

text \<open>The length of the longest prefix of rows with the option in force.\<close>

definition same_option :: "(string \<times> TimeUnit) option \<Rightarrow> ('r \<Rightarrow> int) \<Rightarrow> int \<Rightarrow> 'r \<Rightarrow> bool" where
  "same_option column opt cur r \<longleftrightarrow> (column \<noteq> None \<longrightarrow> opt r = cur)"

definition run_length :: "(string \<times> TimeUnit) option \<Rightarrow> ('r \<Rightarrow> int) \<Rightarrow> int \<Rightarrow> 'r list \<Rightarrow> nat" where
  "run_length column opt cur rs = length (takeWhile (same_option column opt cur) rs)"

lemma findNewWindowOptionIndex_loop_run:
  assumes "option_law A good rows (Some (name, u)) opt" and "good b" and "b_num_rows b = length (rows b)"
    and "i \<le> length (rows b)"
  shows "findNewWindowOptionIndex_loop A b cur name u i =
    Inr (i + run_length (Some (name, u)) opt cur (drop i (rows b)))"
  using assms(4)
proof (induction "length (rows b) - i" arbitrary: i)
  case 0
  then show ?case using assms(3) by (subst findNewWindowOptionIndex_loop.simps) (simp add: run_length_def)
next
  case (Suc n)
  then have i: "i < length (rows b)" by simp
  then have d: "drop i (rows b) = rows b ! i # drop (Suc i) (rows b)" by (simp add: Cons_nth_drop_Suc)
  have r: "getDurationOption A b (int i) name u = Inr (opt (rows b ! i))"
    using assms(1,2) i by (auto simp: option_law_def)
  show ?case
    using Suc.hyps(1) [of "Suc i"] Suc.hyps(2) i assms(3)
    by (subst findNewWindowOptionIndex_loop.simps) (simp add: r d run_length_def same_option_def)
qed

lemma run_length_None: "run_length None opt cur rs = length rs"
  by (induction rs) (simp_all add: run_length_def same_option_def)

lemma run_length_less: "run_length column opt cur rs < length rs \<Longrightarrow> column \<noteq> None"
  by (cases column) (auto simp: run_length_None)

lemma run_length_le: "run_length column opt cur rs \<le> length rs"
  by (simp add: run_length_def length_takeWhile_le)

text \<open>The cached index is zero or right; the next one is right.\<close>

definition index_ok :: "(string \<times> TimeUnit) option \<Rightarrow> ('r \<Rightarrow> int) \<Rightarrow> int \<Rightarrow> 'r list \<Rightarrow> nat \<Rightarrow> bool" where
  "index_ok column opt cur rs n \<longleftrightarrow> n = run_length column opt cur rs \<or> (column \<noteq> None \<and> n = 0)"

lemma refresh_index_run:
  assumes "option_law A good rows column opt" and "good b" and "b_num_rows b = length (rows b)"
    and "index_ok column opt cur (rows b) n"
  shows "refresh_index A b cur column n = Inr (run_length column opt cur (rows b))"
proof (cases column)
  case None
  then show ?thesis using assms(4) by (simp add: refresh_index_def index_ok_def run_length_None)
next
  case (Some p)
  then show ?thesis
    using assms(4) findNewWindowOptionIndex_loop_run [of A good rows "fst p" "snd p" opt b 0] assms
    by (auto simp: refresh_index_def index_ok_def findNewWindowOptionIndex_def split: prod.split)
qed

lemma run_length_drop:
  assumes "k \<le> run_length column opt cur rs"
  shows "run_length column opt cur (drop k rs) = run_length column opt cur rs - k"
  using assms unfolding run_length_def
proof (induction rs arbitrary: k)
  case (Cons r rs)
  then show ?case by (cases k) (auto split: if_splits)
qed simp

lemma run_length_same: "r \<in> set (take (run_length column opt cur rs) rs) \<Longrightarrow> same_option column opt cur r"
  unfolding run_length_def by (metis set_takeWhileD takeWhile_eq_take)

lemma run_length_zero:
  "rs \<noteq> [] \<Longrightarrow> run_length column opt cur rs = 0 \<longleftrightarrow> \<not> same_option column opt cur (hd rs)"
  by (cases rs) (simp_all add: run_length_def)

lemma take_subset: "k \<le> n \<Longrightarrow> set (take k xs) \<subseteq> set (take n xs)"
  by (metis min.absorb1 set_take_subset take_take)

section \<open>The contract of a window handler\<close>

locale window_interface =
  fixes ops :: "'s window_ops"
  assumes period_setPeriod: "op_getPeriod ops (op_setPeriod ops p t s) = p"
    and every_setPeriod: "op_getEvery ops (op_setPeriod ops p t s) = op_getEvery ops s"
    and every_setEvery: "op_getEvery ops (op_setEvery ops p t s) = p"
    and period_setEvery: "op_getPeriod ops (op_setEvery ops p t s) = op_getPeriod ops s"
    and period_handle: "op_getPeriod ops (fst (op_handle ops s b)) = op_getPeriod ops s"
    and every_handle: "op_getEvery ops (fst (op_handle ops s b)) = op_getEvery ops s"
begin

lemma set_new_option_spec:
  assumes "option_law A good rows column opt" and "good b" and "rows b \<noteq> []"
  shows "set_new_option A b setter column due t s =
    Inr (if column \<noteq> None \<and> due then setter (opt (hd (rows b))) t s else s)"
proof (cases column)
  case (Some p)
  obtain name u where p: "p = (name, u)" by force
  have "getDurationOption A b (int 0) name u = Inr (opt (rows b ! 0))"
    using assms Some p unfolding option_law_def by blast
  with Some p assms(3) show ?thesis by (simp add: set_new_option_def hd_conv_nth)
qed (simp add: set_new_option_def)

text \<open>One iteration, with the indexes it computes anew written as run lengths.\<close>

lemma iteration_spec:
  fixes rows :: "batch \<Rightarrow> 'r list"
  assumes laws: "dynamic_laws A tn good rows ts pc per ec ev" and b: "good b" "rows b \<noteq> []"
    and ok: "index_ok pc per (op_getPeriod ops s) (rows b) pn" "index_ok ec ev (op_getEvery ops s) (rows b) en"
    and lp: "lp = run_length pc per (op_getPeriod ops s) (rows b)"
    and le: "le = run_length ec ev (op_getEvery ops s) (rows b)"
    and n: "n = min le lp"
    and h: "(if 0 < n then op_handle ops s (Slice A b 0 (int n)) else (s, Inr [])) = (s1, r)"
  shows "dynamic_iteration A ops tn pc ec s b res pn en =
    (case r of
       Inl e \<Rightarrow> (s1, Inl e)
     | Inr x \<Rightarrow>
         (let b' = SliceFrom A b (int n) in
          if rows b' = [] then (s1, Inr (b', res @ x, None))
          else let s2 = (if n = lp then op_setPeriod ops (per (hd (rows b'))) (ts (hd (rows b'))) s1 else s1);
                   s3 = (if n = le then op_setEvery ops (ev (hd (rows b'))) (ts (hd (rows b'))) s2 else s2)
               in (s3, Inr (b', res @ x, Some (lp - n, le - n)))))"
proof -
  have op: "option_law A good rows pc per" and oe: "option_law A good rows ec ev"
    and sl: "slice_law A good rows" and num: "\<And>b. good b \<Longrightarrow> b_num_rows b = length (rows b)"
    using laws by (auto simp: dynamic_laws_def)
  have rp: "refresh_index A b (op_getPeriod ops s) pc pn = Inr lp"
    using refresh_index_run [OF op b(1) num [OF b(1)] ok(1)] by (simp add: lp)
  have re: "refresh_index A b (op_getEvery ops s) ec en = Inr le"
    using refresh_index_run [OF oe b(1) num [OF b(1)] ok(2)] by (simp add: le)
  have nl: "n \<le> length (rows b)" using n lp run_length_le [of pc per _ "rows b"] by (simp add: min.coboundedI2)
  let ?b = "SliceFrom A b (int n)"
  have b': "good ?b" "rows ?b = drop n (rows b)" using sl b(1) nl by (auto simp: slice_law_def)
  have idx: "rbind (refresh_index A b (op_getPeriod ops s) pc pn)
      (\<lambda>pi. rbind (refresh_index A b (op_getEvery ops s) ec en) (\<lambda>ei. Inr (pi, ei))) = Inr (lp, le)"
    by (simp add: rp re)
  have mn: "min le lp = n" using n by simp
  note unfold = dynamic_iteration_def idx sum.case prod.case mn Let_def h
  show ?thesis
  proof (cases r)
    case (Inl e)
    then show ?thesis unfolding unfold by simp
  next
    case (Inr x)
    show ?thesis
    proof (cases "rows ?b = []")
      case True
      then show ?thesis using Inr num [OF b'(1)] unfolding unfold by simp
    next
      case False
      then obtain t where t: "castTimestampScalar A (deref (GetColumnByName A ?b tn) (\<lambda>c. GetScalar A c 0)) UNIT_SECOND = Inr t"
          "s_int t = ts (hd (rows ?b))"
        using laws b'(1) unfolding dynamic_laws_def by blast
      have pc: "pc \<noteq> None" if "n = lp"
        using that False lp b'(2) by (cases pc) (auto simp: run_length_None)
      have ec: "ec \<noteq> None" if "n = le"
        using that False le b'(2) by (cases ec) (auto simp: run_length_None)
      show ?thesis using Inr False num [OF b'(1)] t pc ec unfolding unfold
        by (simp add: set_new_option_spec [OF op b'(1)] set_new_option_spec [OF oe b'(1)])
    qed
  qed
qed

text \<open>A proof rule for the loop: it returns, and an invariant of the rows handled so far, the state
  and the result is kept, if a batch is only ever handled in a state whose options are those of
  all its rows.\<close>

lemma loop_rule:
  fixes rows :: "batch \<Rightarrow> 'r list"
  assumes laws: "dynamic_laws A tn good rows ts pc per ec ev" and b: "good b"
    and ok: "index_ok pc per (op_getPeriod ops s) (rows b) pn" "index_ok ec ev (op_getEvery ops s) (rows b) en"
    and step: "\<And>sofar s res b s' x. I sofar s res \<Longrightarrow> good b \<Longrightarrow> rows b \<noteq> [] \<Longrightarrow>
      \<forall>r \<in> set (rows b). same_option pc per (op_getPeriod ops s) r \<and> same_option ec ev (op_getEvery ops s) r \<Longrightarrow>
      op_handle ops s b = (s', Inr x) \<Longrightarrow> I (sofar @ rows b) s' (res @ x)"
    and setp: "\<And>sofar s res p t. I sofar s res \<Longrightarrow> I sofar (op_setPeriod ops p t s) res"
    and sete: "\<And>sofar s res p t. I sofar s res \<Longrightarrow> I sofar (op_setEvery ops p t s) res"
    and I: "I sofar s res"
  shows "\<exists>s' r. dynamic_loop A ops tn pc ec s b res pn en = Some (s', r) \<and>
    (case r of Inl e \<Rightarrow> \<exists>s b. snd (op_handle ops s b) = Inl e | Inr out \<Rightarrow> I (sofar @ rows b) s' out)"
  using b ok I
proof (induction "2 * length (rows b) + (if rows b = [] \<or> same_option pc per (op_getPeriod ops s) (hd (rows b)) \<and>
      same_option ec ev (op_getEvery ops s) (hd (rows b)) then 0 else 1)"
    arbitrary: b s pn en sofar res rule: less_induct)
  case less
  have num: "b_num_rows b = length (rows b)" and sl: "slice_law A good rows"
    using laws less.prems(1) by (auto simp: dynamic_laws_def)
  show ?case
  proof (cases "rows b = []")
    case True
    then show ?thesis using num less.prems(4) by (subst dynamic_loop.simps) simp
  next
    case ne: False
    define lp le n where "lp = run_length pc per (op_getPeriod ops s) (rows b)"
      and "le = run_length ec ev (op_getEvery ops s) (rows b)" and "n = min le lp"
    obtain s1 r where h: "(if 0 < n then op_handle ops s (Slice A b 0 (int n)) else (s, Inr [])) = (s1, r)" by force
    note it = iteration_spec [OF laws less.prems(1) ne less.prems(2,3) lp_def le_def n_def h, of res]
    have nl: "n \<le> length (rows b)" "n \<le> lp" "n \<le> le"
      using run_length_le [of pc per _ "rows b"] by (auto simp: n_def lp_def min.coboundedI2)
    let ?a = "Slice A b 0 (int n)" and ?b = "SliceFrom A b (int n)"
    have a: "good ?a" "rows ?a = take n (rows b)" and b': "good ?b" "rows ?b = drop n (rows b)"
      using sl less.prems(1) nl(1) by (auto simp: slice_law_def)
    have opts: "op_getPeriod ops s1 = op_getPeriod ops s" "op_getEvery ops s1 = op_getEvery ops s"
      using h period_handle [of s ?a] every_handle [of s ?a] by (auto split: if_splits)
    show ?thesis
    proof (cases r)
      case (Inl e)
      then have "snd (op_handle ops s ?a) = Inl e" using h by (auto split: if_splits)
      with Inl it ne num show ?thesis by (subst dynamic_loop.simps) auto
    next
      case (Inr x)
      have I1: "I (sofar @ take n (rows b)) s1 (res @ x)"
      proof (cases "0 < n")
        case True
        have "\<forall>r \<in> set (rows ?a). same_option pc per (op_getPeriod ops s) r \<and> same_option ec ev (op_getEvery ops s) r"
        proof
          fix r assume "r \<in> set (rows ?a)"
          then have "r \<in> set (take lp (rows b))" "r \<in> set (take le (rows b))"
            using a(2) subsetD [OF take_subset [OF nl(2)]] subsetD [OF take_subset [OF nl(3)]] by simp_all
          then show "same_option pc per (op_getPeriod ops s) r \<and> same_option ec ev (op_getEvery ops s) r"
            unfolding lp_def le_def by (auto dest: run_length_same)
        qed
        moreover have "rows ?a \<noteq> []" using True a(2) ne by simp
        ultimately have "I (sofar @ rows ?a) s1 (res @ x)"
          using h True Inr by (intro step [OF less.prems(4) a(1)]) simp_all
        then show ?thesis using a(2) by simp
      qed (use h Inr less.prems(4) in simp)
      show ?thesis
      proof (cases "rows ?b = []")
        case True
        then have "take n (rows b) = rows b" using b'(2) by simp
        then show ?thesis using I1 it Inr True num ne by (subst dynamic_loop.simps) (simp add: Let_def)
      next
        case False
        define s2 where "s2 = (if n = lp then op_setPeriod ops (per (hd (rows ?b))) (ts (hd (rows ?b))) s1 else s1)"
        define s3 where "s3 = (if n = le then op_setEvery ops (ev (hd (rows ?b))) (ts (hd (rows ?b))) s2 else s2)"
        have gp: "op_getPeriod ops s3 = (if n = lp then per (hd (rows ?b)) else op_getPeriod ops s)"
          and ge: "op_getEvery ops s3 = (if n = le then ev (hd (rows ?b)) else op_getEvery ops s)"
          by (simp_all add: s3_def s2_def period_setEvery every_setEvery period_setPeriod every_setPeriod opts)
        have rlp: "run_length pc per (op_getPeriod ops s) (rows ?b) = lp - n"
          and rle: "run_length ec ev (op_getEvery ops s) (rows ?b) = le - n"
          unfolding b'(2) using nl by (simp_all add: lp_def le_def run_length_drop)
        have fit: "same_option pc per (op_getPeriod ops s3) (hd (rows ?b))"
            "same_option ec ev (op_getEvery ops s3) (hd (rows ?b))"
          using run_length_zero [OF False, of pc per "op_getPeriod ops s"] rlp gp nl(2)
            run_length_zero [OF False, of ec ev "op_getEvery ops s"] rle ge nl(3)
          by (auto simp: same_option_def split: if_splits)
        have "n < length (rows b)" using False b'(2) by simp
        then have cols: "n = lp \<Longrightarrow> pc \<noteq> None" "n = le \<Longrightarrow> ec \<noteq> None"
          unfolding lp_def le_def using run_length_less by blast+
        have ok': "index_ok pc per (op_getPeriod ops s3) (rows ?b) (lp - n)"
            "index_ok ec ev (op_getEvery ops s3) (rows ?b) (le - n)"
          unfolding index_ok_def using cols gp ge rlp rle by (auto split: if_splits)
        have I3: "I (sofar @ take n (rows b)) s3 (res @ x)"
          using I1 by (auto simp: s3_def s2_def intro: setp sete)
        have smaller: "2 * length (rows ?b) < 2 * length (rows b) + (if rows b = [] \<or>
            same_option pc per (op_getPeriod ops s) (hd (rows b)) \<and>
            same_option ec ev (op_getEvery ops s) (hd (rows b)) then 0 else 1)"
        proof (cases "0 < n")
          case True
          then have "length (rows ?b) < length (rows b)" using ne b'(2) nl(1) by simp
          then show ?thesis by simp
        next
          case False
          then have "lp = 0 \<or> le = 0" by (auto simp: n_def)
          then show ?thesis using run_length_zero [OF ne] False b'(2) ne by (auto simp: lp_def le_def)
        qed
        have "dynamic_loop A ops tn pc ec s b res pn en =
            dynamic_loop A ops tn pc ec s3 ?b (res @ x) (lp - n) (le - n)"
          using it Inr False num ne by (subst dynamic_loop.simps) (simp add: Let_def s3_def s2_def)
        moreover have "\<exists>s' r. dynamic_loop A ops tn pc ec s3 ?b (res @ x) (lp - n) (le - n) = Some (s', r) \<and>
            (case r of Inl e \<Rightarrow> \<exists>s b. snd (op_handle ops s b) = Inl e
             | Inr out \<Rightarrow> I ((sofar @ take n (rows b)) @ rows ?b) s' out)"
          by (rule less.hyps [OF _ b'(1) ok' I3]) (use smaller fit in simp)
        moreover have "(sofar @ take n (rows b)) @ rows ?b = sofar @ rows b" using b'(2) by simp
        ultimately show ?thesis by (simp only:)
      qed
    qed
  qed
qed

end

section \<open>The window handler provides it\<close>

lemma removeOldRecords_options [simp]: "wh_options (fst (removeOldRecords A w)) = wh_options w"
  by (simp add: removeOldRecords_def split: prod.split)

lemma emitWindow_options [simp]: "wh_options (fst (emitWindow A w)) = wh_options w"
proof -
  obtain w' r where "removeOldRecords A w = (w', r)" by force
  then show ?thesis using removeOldRecords_options [of A w] by (simp add: emitWindow_def split: sum.split)
qed

lemma window_iteration_options:
  "window_iteration A tn w b res = (w', r) \<Longrightarrow> wh_options w' = wh_options w"
proof -
  assume it: "window_iteration A tn w b res = (w', r)"
  have e: "wh_options w2 = wh_options w1" if "emitWindow A w1 = (w2, x)" for w1 w2 x
    using emitWindow_options [of A w1] that by simp
  have o: "wh_options w2 = wh_options w1" if "removeOldRecords A w1 = (w2, x)" for w1 w2 x
    using removeOldRecords_options [of A w1] that by simp
  show ?thesis using it unfolding window_iteration_def Let_def
    by (auto split: sum.splits prod.splits if_splits dest!: e o)
qed

lemma window_loop_options:
  assumes "window_loop A tn m w b res = Some y"
  shows "wh_options (fst y) = wh_options w"
proof (rule window_loop.raw_induct [OF _ assms, where P = "\<lambda>A tn m w b res y. wh_options (fst y) = wh_options w"])
  fix loop A tn m w b res y
  assume IH: "\<And>A tn m w b res y. loop A tn m w b res = Some y \<Longrightarrow> wh_options (fst y) = wh_options w"
    and y: "(if next_emit w \<le> m
      then (case window_iteration A tn w b res of
              (w, Inl e) \<Rightarrow> Some (w, Inl e)
            | (w, Inr (b, res)) \<Rightarrow> loop A tn m w b res)
      else Some (w, Inr (b, res))) = Some y"
  obtain w' r where it: "window_iteration A tn w b res = (w', r)" by force
  note keep = window_iteration_options [OF it]
  show "wh_options (fst y) = wh_options w"
  proof (cases "next_emit w \<le> m")
    case True
    then show ?thesis
    proof (cases r)
      case (Inl e)
      with True y it have "y = (w', Inl e)" by simp
      with keep show ?thesis by simp
    next
      case (Inr p)
      with True y it have "loop A tn m w' (fst p) (snd p) = Some y" by (simp split: prod.splits)
      from IH [OF this] keep show ?thesis by simp
    qed
  qed (use y in auto)
qed

lemma init_next_emit_options: "init_next_emit A c w = Inr w' \<Longrightarrow> wh_options w' = wh_options w"
  by (auto simp: init_next_emit_def rbind_eq_Inr_iff split: if_splits)

lemma window_handle_options [simp]: "wh_options (fst (window_handle A w b)) = wh_options w"
  unfolding window_handle_def
  by (auto split: sum.splits option.splits prod.splits simp: rbind_eq_Inr_iff
    dest!: init_next_emit_options window_loop_options)

lemma set_options [simp]:
  "getPeriodOption (setPeriodOption p t w) = p" "getEveryOption (setPeriodOption p t w) = getEveryOption w"
  "getEveryOption (setEveryOption p t w) = p" "getPeriodOption (setEveryOption p t w) = getPeriodOption w"
  by (simp_all add: setPeriodOption_def setEveryOption_def getPeriodOption_def getEveryOption_def Let_def)

interpretation wh: window_interface "window_handler_ops A" for A
  by unfold_locales (simp_all add: window_handler_ops_def, simp_all add: getPeriodOption_def getEveryOption_def)

end
