(* ===== verification/Threshold_State_Machine.thy ===== *)
theory Threshold_State_Machine
  imports Metadata Compute_Utils Handler_Options
begin

text \<open>
  \<open>src/src/record_batch_handlers/stateful_handlers/threshold_state_machine.cpp\<close>. The three state
  classes are the constructors of \<open>ThresholdState\<close> (\<open>current_threshold_\<close>, and the start of the
  alert or of the decrease); \<open>changeState\<close> replaces the state of the machine, which stays
  replaced when a later call of the same row fails. \<open>threshold_step\<close> is what a row does to
  the state when its cells can be read, stated over the value and the time alone.
\<close>

datatype ThresholdState =
    StateOK double
  | StateIncrease double int
  | StateDecrease double int

definition getColumnValueAtRow :: "arrow_lib \<Rightarrow> batch \<Rightarrow> string \<Rightarrow> nat \<Rightarrow> status + double" where
  "getColumnValueAtRow A record_batch column_name row_id =
     (case GetColumnByName A record_batch column_name of
        None \<Rightarrow> Inl KeyError
      | Some column \<Rightarrow>
          if \<not> isNumericType (type_id (a_type column)) then Inl TypeError
          else rbind (GetScalar A column (int row_id)) (\<lambda>v.
                 rbind (CastTo A v (Plain DOUBLE)) (\<lambda>v. Inr (s_double v))))"

definition getTimeAtRow :: "arrow_lib \<Rightarrow> batch \<Rightarrow> nat \<Rightarrow> status + int" where
  "getTimeAtRow A record_batch row_id =
     rbind (getTimeColumnNameMetadata A record_batch) (\<lambda>time_column_name.
       rbind (castTimestampScalar A
                (deref (GetColumnByName A record_batch time_column_name) (\<lambda>c. GetScalar A c (int row_id)))
                UNIT_SECOND)
         (\<lambda>time_scalar. Inr (s_int time_scalar)))"

text \<open>\<open>addThresholdForRow\<close> of the three classes: the new state of the machine and the builder
  or the error.\<close>

definition addThresholdForRow_OK ::
  "arrow_lib \<Rightarrow> ThresholdOptions \<Rightarrow> double \<Rightarrow> batch \<Rightarrow> nat \<Rightarrow> builder \<Rightarrow> ThresholdState \<times> (status + builder)"
where
  "addThresholdForRow_OK A options current_threshold record_batch row_id b =
     (let self = StateOK current_threshold in
      case getColumnValueAtRow A record_batch (watch_column_name options) row_id of
        Inl e \<Rightarrow> (self, Inl e)
      | Inr v \<Rightarrow>
          (case Append A b (double_scalar current_threshold) of
             Inl e \<Rightarrow> (self, Inl e)
           | Inr b \<Rightarrow>
               if dle v current_threshold \<and>
                  dle (dmul current_threshold (decrease_trigger_factor options)) v
               then (self, Inr b)
               else
                 (case getTimeAtRow A record_batch row_id of
                    Inl e \<Rightarrow> (self, Inl e)
                  | Inr alert_start \<Rightarrow>
                      if dlt current_threshold v then (StateIncrease current_threshold alert_start, Inr b)
                      else if dle v (dmul current_threshold (decrease_trigger_factor options))
                      then (StateDecrease current_threshold alert_start, Inr b)
                      else (self, Inr b))))"

definition addThresholdForRow_Increase ::
  "arrow_lib \<Rightarrow> ThresholdOptions \<Rightarrow> double \<Rightarrow> int \<Rightarrow> batch \<Rightarrow> nat \<Rightarrow> builder \<Rightarrow> ThresholdState \<times> (status + builder)"
where
  "addThresholdForRow_Increase A options current_threshold alert_start record_batch row_id b =
     (let self = StateIncrease current_threshold alert_start in
      case getColumnValueAtRow A record_batch (watch_column_name options) row_id of
        Inl e \<Rightarrow> (self, Inl e)
      | Inr v \<Rightarrow>
          (case getTimeAtRow A record_batch row_id of
             Inl e \<Rightarrow> (self, Inl e)
           | Inr row_time \<Rightarrow>
               if dlt current_threshold v \<and> alert_start < row_time \<and>
                  increase_after options < row_time - alert_start
               then addThresholdForRow_OK A options
                      (dmin (dmul current_threshold (increase_scale_factor options)) (max_threshold options))
                      record_batch row_id b
               else
                 (case Append A b (double_scalar current_threshold) of
                    Inl e \<Rightarrow> (self, Inl e)
                  | Inr b \<Rightarrow>
                      if dle v current_threshold then (StateOK current_threshold, Inr b)
                      else (self, Inr b))))"

definition addThresholdForRow_Decrease ::
  "arrow_lib \<Rightarrow> ThresholdOptions \<Rightarrow> double \<Rightarrow> int \<Rightarrow> batch \<Rightarrow> nat \<Rightarrow> builder \<Rightarrow> ThresholdState \<times> (status + builder)"
where
  "addThresholdForRow_Decrease A options current_threshold decrease_start record_batch row_id b =
     (let self = StateDecrease current_threshold decrease_start in
      case getColumnValueAtRow A record_batch (watch_column_name options) row_id of
        Inl e \<Rightarrow> (self, Inl e)
      | Inr v \<Rightarrow>
          (case getTimeAtRow A record_batch row_id of
             Inl e \<Rightarrow> (self, Inl e)
           | Inr row_time \<Rightarrow>
               if dle v (dmul current_threshold (decrease_trigger_factor options)) \<and>
                  decrease_start < row_time \<and> decrease_after options < row_time - decrease_start
               then addThresholdForRow_OK A options
                      (dmax (dmul current_threshold (decrease_scale_factor options)) (min_threshold options))
                      record_batch row_id b
               else
                 (case Append A b (double_scalar current_threshold) of
                    Inl e \<Rightarrow> (self, Inl e)
                  | Inr b \<Rightarrow>
                      if dlt current_threshold v then (StateIncrease current_threshold row_time, Inr b)
                      else if dlt (dmul current_threshold (decrease_trigger_factor options)) v
                      then (StateOK (dmul current_threshold (decrease_scale_factor options)), Inr b)
                      else (self, Inr b))))"

definition addThresholdForRow ::
  "arrow_lib \<Rightarrow> ThresholdOptions \<Rightarrow> ThresholdState \<Rightarrow> batch \<Rightarrow> nat \<Rightarrow> builder \<Rightarrow> ThresholdState \<times> (status + builder)"
where
  "addThresholdForRow A options st record_batch row_id b =
     (case st of
        StateOK c \<Rightarrow> addThresholdForRow_OK A options c record_batch row_id b
      | StateIncrease c t \<Rightarrow> addThresholdForRow_Increase A options c t record_batch row_id b
      | StateDecrease c t \<Rightarrow> addThresholdForRow_Decrease A options c t record_batch row_id b)"

text \<open>The machine: its options and \<open>state_\<close>, \<open>None\<close> before \<open>changeState\<close>.\<close>

record ThresholdStateMachine =
  tsm_options :: ThresholdOptions
  tsm_state :: "ThresholdState option"

fun threshold_rows ::
  "arrow_lib \<Rightarrow> ThresholdOptions \<Rightarrow> batch \<Rightarrow> nat list \<Rightarrow> ThresholdState \<Rightarrow> builder \<Rightarrow> ThresholdState \<times> (status + builder)"
where
  "threshold_rows A options record_batch [] st b = (st, Inr b)"
| "threshold_rows A options record_batch (i # is) st b =
     (case addThresholdForRow A options st record_batch i b of
        (st, Inl e) \<Rightarrow> (st, Inl e)
      | (st, Inr b) \<Rightarrow> threshold_rows A options record_batch is st b)"

definition threshold_handle ::
  "arrow_lib \<Rightarrow> ThresholdStateMachine \<Rightarrow> batch \<Rightarrow> ThresholdStateMachine \<times> (status + batch list)"
where
  "threshold_handle A m record_batch =
     (case tsm_state m of
        None \<Rightarrow> (m, Inl Invalid)
      | Some st \<Rightarrow>
          (case threshold_rows A (tsm_options m) record_batch [0..<b_num_rows record_batch] st (Plain DOUBLE, []) of
             (st, Inl e) \<Rightarrow> (m\<lparr>tsm_state := Some st\<rparr>, Inl e)
           | (st, Inr threshold_builder) \<Rightarrow>
               (m\<lparr>tsm_state := Some st\<rparr>,
                rbind (Finish A threshold_builder) (\<lambda>threshold_array.
                rbind (AddColumn A record_batch (int (num_columns record_batch))
                         (new_field (threshold_column_name (tsm_options m)) (Plain DOUBLE)) threshold_array)
                  (\<lambda>result_record_batch.
                rbind (setColumnTypeMetadata A result_record_batch (threshold_column_name (tsm_options m))
                         (threshold_column_type (tsm_options m)))
                  (\<lambda>result_record_batch. Inr [result_record_batch]))))))"

definition createThresholdHandler :: "ThresholdOptions \<Rightarrow> ThresholdStateMachine" where
  "createThresholdHandler options =
     \<lparr>tsm_options = options, tsm_state = Some (StateOK (default_threshold options))\<rparr>"

section \<open>The step on values and times\<close>

definition ok_step :: "ThresholdOptions \<Rightarrow> double \<Rightarrow> double \<Rightarrow> int \<Rightarrow> ThresholdState" where
  "ok_step options c v t =
     (let trigger = dmul c (decrease_trigger_factor options) in
      if dle v c \<and> dle trigger v then StateOK c
      else if dlt c v then StateIncrease c t
      else if dle v trigger then StateDecrease c t
      else StateOK c)"

text \<open>The threshold a row gets, and the state after it.\<close>

fun threshold_step :: "ThresholdOptions \<Rightarrow> ThresholdState \<Rightarrow> double \<Rightarrow> int \<Rightarrow> double \<times> ThresholdState" where
  "threshold_step options (StateOK c) v t = (c, ok_step options c v t)"
| "threshold_step options (StateIncrease c s) v t =
     (if dlt c v \<and> s < t \<and> increase_after options < t - s
      then let c' = dmin (dmul c (increase_scale_factor options)) (max_threshold options)
           in (c', ok_step options c' v t)
      else (c, if dle v c then StateOK c else StateIncrease c s))"
| "threshold_step options (StateDecrease c s) v t =
     (if dle v (dmul c (decrease_trigger_factor options)) \<and> s < t \<and> decrease_after options < t - s
      then let c' = dmax (dmul c (decrease_scale_factor options)) (min_threshold options)
           in (c', ok_step options c' v t)
      else (c, if dlt c v then StateIncrease c t
               else if dlt (dmul c (decrease_trigger_factor options)) v
               then StateOK (dmul c (decrease_scale_factor options))
               else StateDecrease c s))"

fun threshold_run :: "ThresholdOptions \<Rightarrow> ThresholdState \<Rightarrow> (double \<times> int) list \<Rightarrow> double list \<times> ThresholdState" where
  "threshold_run options st [] = ([], st)"
| "threshold_run options st ((v, t) # rows) =
     (let (c, st) = threshold_step options st v t; (cs, st) = threshold_run options st rows in (c # cs, st))"

text \<open>The cells of the batch the machine looks at.\<close>

definition reads_rows :: "arrow_lib \<Rightarrow> batch \<Rightarrow> string \<Rightarrow> (double \<times> int) list \<Rightarrow> bool" where
  "reads_rows A record_batch column rows \<longleftrightarrow>
     (\<forall>i < length rows. getColumnValueAtRow A record_batch column i = Inr (fst (rows ! i)) \<and>
                        getTimeAtRow A record_batch i = Inr (snd (rows ! i)))"

text \<open>Appending to a builder succeeds.\<close>

definition appends :: "arrow_lib \<Rightarrow> bool" where
  "appends A \<longleftrightarrow> (\<forall>ty vs s. Append A (ty, vs) s = Inr (ty, vs @ [s]))"

lemma addThresholdForRow_OK_step:
  assumes "getColumnValueAtRow A record_batch (watch_column_name options) i = Inr v"
    and "getTimeAtRow A record_batch i = Inr t" and "appends A"
  shows "addThresholdForRow_OK A options c record_batch i (ty, vs) =
    (ok_step options c v t, Inr (ty, vs @ [double_scalar c]))"
  using assms by (simp add: addThresholdForRow_OK_def ok_step_def appends_def Let_def)

lemma addThresholdForRow_step:
  assumes "getColumnValueAtRow A record_batch (watch_column_name options) i = Inr v"
    and "getTimeAtRow A record_batch i = Inr t" and "appends A"
  shows "addThresholdForRow A options st record_batch i (ty, vs) =
    (snd (threshold_step options st v t), Inr (ty, vs @ [double_scalar (fst (threshold_step options st v t))]))"
proof (cases st)
  case (StateOK c)
  then show ?thesis by (simp add: addThresholdForRow_def addThresholdForRow_OK_step [OF assms])
next
  case (StateIncrease c s)
  have "Append A (ty, vs) (double_scalar c) = Inr (ty, vs @ [double_scalar c])" for c
    using assms(3) by (simp add: appends_def)
  with StateIncrease show ?thesis
    by (simp add: addThresholdForRow_def addThresholdForRow_Increase_def assms(1,2) Let_def
        addThresholdForRow_OK_step [OF assms])
next
  case (StateDecrease c s)
  have "Append A (ty, vs) (double_scalar c) = Inr (ty, vs @ [double_scalar c])" for c
    using assms(3) by (simp add: appends_def)
  with StateDecrease show ?thesis
    by (simp add: addThresholdForRow_def addThresholdForRow_Decrease_def assms(1,2) Let_def
        addThresholdForRow_OK_step [OF assms])
qed

lemma threshold_rows_run:
  assumes "reads_rows A record_batch (watch_column_name options) rows" and "appends A" and "k \<le> length rows"
  shows "threshold_rows A options record_batch [k..<length rows] st (ty, vs) =
    (let (cs, st') = threshold_run options st (drop k rows)
     in (st', Inr (ty, vs @ map double_scalar cs)))"
  using assms(3)
proof (induction "length rows - k" arbitrary: k st vs)
  case 0
  then show ?case by simp
next
  case (Suc n)
  then have k: "k < length rows" by simp
  obtain v t where row: "rows ! k = (v, t)" by force
  have "getColumnValueAtRow A record_batch (watch_column_name options) k = Inr v"
    "getTimeAtRow A record_batch k = Inr t"
    using assms(1) k row by (simp_all add: reads_rows_def)
  note s = addThresholdForRow_step [OF this assms(2)]
  have "threshold_rows A options record_batch [Suc k..<length rows] st (ty, vs) =
    (let (cs, st') = threshold_run options st (drop (Suc k) rows)
     in (st', Inr (ty, vs @ map double_scalar cs)))" for st vs
    using Suc.hyps(2) k by (intro Suc.hyps(1)) auto
  moreover have "drop k rows = (v, t) # drop (Suc k) rows" using k row by (metis Cons_nth_drop_Suc)
  ultimately show ?case
    using k by (simp add: upt_conv_Cons s split: prod.splits)
qed

text \<open>The machine on a batch: the thresholds of the run are the new column.\<close>

definition add_threshold_column ::
  "arrow_lib \<Rightarrow> ThresholdOptions \<Rightarrow> batch \<Rightarrow> double list \<Rightarrow> status + batch list"
where
  "add_threshold_column A options record_batch cs =
     rbind (Finish A (Plain DOUBLE, map double_scalar cs)) (\<lambda>threshold_array.
     rbind (AddColumn A record_batch (int (num_columns record_batch))
              (new_field (threshold_column_name options) (Plain DOUBLE)) threshold_array) (\<lambda>result_record_batch.
     rbind (setColumnTypeMetadata A result_record_batch (threshold_column_name options)
              (threshold_column_type options)) (\<lambda>result_record_batch. Inr [result_record_batch])))"

lemma threshold_handle_run:
  assumes "reads_rows A record_batch (watch_column_name (tsm_options m)) rows" and "appends A"
    and "length rows = b_num_rows record_batch" and "tsm_state m = Some st"
    and "threshold_run (tsm_options m) st rows = (cs, st')"
  shows "threshold_handle A m record_batch =
    (m\<lparr>tsm_state := Some st'\<rparr>, add_threshold_column A (tsm_options m) record_batch cs)"
  using threshold_rows_run [OF assms(1,2), of 0 st "Plain DOUBLE" "[]"] assms(3-)
  by (simp add: threshold_handle_def add_threshold_column_def)

lemma threshold_handle_thresholds:
  assumes "reads_rows A record_batch (watch_column_name (tsm_options m)) rows" and "appends A"
    and "length rows = b_num_rows record_batch" and "tsm_state m = Some st"
  shows "snd (threshold_handle A m record_batch) =
    add_threshold_column A (tsm_options m) record_batch (fst (threshold_run (tsm_options m) st rows))"
  using threshold_handle_run [OF assms, of "fst (threshold_run (tsm_options m) st rows)"
      "snd (threshold_run (tsm_options m) st rows)"]
  by simp

section \<open>Behaviour of the machine\<close>

lemma threshold_run_length: "length (fst (threshold_run options st rows)) = length rows"
proof (induction rows arbitrary: st)
  case (Cons row rows)
  then show ?case by (cases row) (simp add: split_beta Let_def)
qed simp

lemma threshold_run_append:
  "threshold_run options st (xs @ ys) =
     (let (cs, st') = threshold_run options st xs; (ds, st'') = threshold_run options st' ys in (cs @ ds, st''))"
proof (induction xs arbitrary: st)
  case (Cons row rows)
  then show ?case by (cases row) (simp add: split_beta Let_def)
qed simp

text \<open>While the value exceeds the threshold, but for no longer than \<open>increaseAfter\<close>, the threshold
  stays.\<close>

lemma increase_pending:
  assumes "\<forall>(v, t) \<in> set rows. dlt c v \<and> t - s \<le> increase_after options"
  shows "threshold_run options (StateIncrease c s) rows = (replicate (length rows) c, StateIncrease c s)"
  using assms
proof (induction rows)
  case (Cons row rows)
  obtain v t where row: "row = (v, t)" by force
  have v: "dlt c v" "t - s \<le> increase_after options" using Cons.prems row by auto
  then have "\<not> dle v c" by (metis dle_imp_not_NaN dlt_iff_not_dle)
  with v Cons row show ?case by simp
qed simp

lemma ok_to_increase: "dlt c v \<Longrightarrow> ok_step options c v t = StateIncrease c t"
  using dlt_iff_not_dle [of c v] by (cases "v = NaN"; cases "c = NaN") (auto simp: ok_step_def)

text \<open>An alert that lasts: the first row after more than \<open>increaseAfter\<close> gets the scaled threshold,
  capped by \<open>maxLevel\<close>.\<close>

lemma increase_after_alert:
  assumes "dlt c v0" and "\<forall>(v, t) \<in> set rows. dlt c v \<and> t - t0 \<le> increase_after options"
    and "dlt c v" and "t0 < t" and "increase_after options < t - t0"
  shows "fst (threshold_run options (StateOK c) ((v0, t0) # rows @ [(v, t)])) =
    replicate (Suc (length rows)) c @ [dmin (dmul c (increase_scale_factor options)) (max_threshold options)]"
  using assms(3-)
  by (simp add: ok_to_increase [OF assms(1)] threshold_run_append increase_pending [OF assms(2)] Let_def)

text \<open>Values between the decrease trigger and the threshold change nothing.\<close>

lemma ok_stable:
  assumes "\<forall>(v, t) \<in> set rows. dle v c \<and> dle (dmul c (decrease_trigger_factor options)) v"
  shows "threshold_run options (StateOK c) rows = (replicate (length rows) c, StateOK c)"
  using assms by (induction rows) (auto simp: ok_step_def)

text \<open>A decrease takes the lower threshold, not below \<open>minLevel\<close>, when the value has stayed at or
  below the trigger for longer than \<open>decreaseAfter\<close>.\<close>

lemma decrease_pending:
  assumes "\<forall>(v, t) \<in> set rows. dle v (dmul c (decrease_trigger_factor options)) \<and> dle v c \<and>
      t - s \<le> decrease_after options"
  shows "threshold_run options (StateDecrease c s) rows = (replicate (length rows) c, StateDecrease c s)"
  using assms
proof (induction rows)
  case (Cons row rows)
  obtain v t where row: "row = (v, t)" by force
  have v: "dle v (dmul c (decrease_trigger_factor options))" "dle v c" "t - s \<le> decrease_after options"
    using Cons.prems row by auto
  then have "\<not> dlt (dmul c (decrease_trigger_factor options)) v" "\<not> dlt c v"
    by (metis dle_imp_not_NaN dlt_iff_not_dle)+
  with v Cons row show ?case by simp
qed simp

lemma ok_to_decrease:
  "dlt v (dmul c (decrease_trigger_factor options)) \<Longrightarrow> dle v c \<Longrightarrow> ok_step options c v t = StateDecrease c t"
  using dlt_iff_not_dle [of v "dmul c (decrease_trigger_factor options)"] dlt_imp_dle
    dlt_iff_not_dle [of c v] dle_imp_not_NaN [of v c]
  by (cases "dmul c (decrease_trigger_factor options) = NaN") (auto simp: ok_step_def Let_def)

lemma decrease_after_calm:
  assumes "dlt v0 (dmul c (decrease_trigger_factor options))" and "dle v0 c"
    and "\<forall>(v, t) \<in> set rows. dle v (dmul c (decrease_trigger_factor options)) \<and> dle v c \<and>
      t - t0 \<le> decrease_after options"
    and "dle v (dmul c (decrease_trigger_factor options))" and "t0 < t" and "decrease_after options < t - t0"
  shows "fst (threshold_run options (StateOK c) ((v0, t0) # rows @ [(v, t)])) =
    replicate (Suc (length rows)) c @ [dmax (dmul c (decrease_scale_factor options)) (min_threshold options)]"
  using assms(4-)
  by (simp add: ok_to_decrease [OF assms(1,2)] threshold_run_append decrease_pending [OF assms(3)] Let_def)

text \<open>The machine leaves the decrease state as soon as the value recovers, and scales the threshold
  all the same: without the delay, and without the lower limit.\<close>

lemma decrease_on_recovery:
  assumes "dlt v0 (dmul c (decrease_trigger_factor options))" and "dle v0 c"
    and "dlt (dmul c (decrease_trigger_factor options)) v" and "dle v c"
  shows "threshold_run options (StateOK c) [(v0, t0), (v, t)] =
    ([c, c], StateOK (dmul c (decrease_scale_factor options)))"
proof -
  have "\<not> dle v (dmul c (decrease_trigger_factor options))" "\<not> dlt c v"
    using assms(3,4) by (metis dle_imp_not_NaN dlt_iff_not_dle dlt_imp_dle)+
  with assms(3) show ?thesis by (simp add: ok_to_decrease [OF assms(1,2)])
qed

text \<open>Every new threshold but that one is within the configured limits.\<close>

fun state_threshold :: "ThresholdState \<Rightarrow> double" where
  "state_threshold (StateOK c) = c"
| "state_threshold (StateIncrease c _) = c"
| "state_threshold (StateDecrease c _) = c"

lemma ok_step_threshold [simp]: "state_threshold (ok_step options c v t) = c"
  by (simp add: ok_step_def Let_def)

lemma threshold_changes:
  "fst (threshold_step options st v t) \<noteq> state_threshold st \<Longrightarrow>
     (\<exists>c s. st = StateIncrease c s \<and> dlt c v \<and> increase_after options < t - s \<and>
        fst (threshold_step options st v t) = dmin (dmul c (increase_scale_factor options)) (max_threshold options)) \<or>
     (\<exists>c s. st = StateDecrease c s \<and> dle v (dmul c (decrease_trigger_factor options)) \<and>
        decrease_after options < t - s \<and>
        fst (threshold_step options st v t) = dmax (dmul c (decrease_scale_factor options)) (min_threshold options))"
  by (cases st) (auto simp: Let_def split: if_splits)

end
