(* ===== verification/Metadata_Laws.thy ===== *)
theory Metadata_Laws
  imports Metadata
begin

text \<open>
  What the program relies on in Arrow's schemas and key-value metadata, as named laws of an
  \<open>arrow_lib\<close>, and what the functions of \<open>Metadata\<close> do under them. A name of a schema is found
  when exactly one field has it. The metadata of a field and of a schema are two instances of one
  interface, the locale \<open>metadata_store\<close>.
\<close>

section \<open>Laws\<close>

fun unique_index :: "string \<Rightarrow> string list \<Rightarrow> nat option" where
  "unique_index n [] = None"
| "unique_index n (m # ms) =
     (if m = n then (if n \<in> set ms then None else Some 0) else map_option Suc (unique_index n ms))"

definition field_index :: "schema \<Rightarrow> string \<Rightarrow> nat option" where
  "field_index sch n = unique_index n (map f_name (sch_fields sch))"

definition metadata_laws :: "arrow_lib \<Rightarrow> bool" where
  "metadata_laws A \<longleftrightarrow>
     (\<forall>m k v. \<exists>m'. md_Set A m k v = Inr m' \<and> m' \<noteq> [] \<and> md_Contains A m' k \<and> md_Get A m' k = Inr v \<and>
        (\<forall>j. j \<noteq> k \<longrightarrow> md_Contains A m' j = md_Contains A m j \<and> md_Get A m' j = md_Get A m j)) \<and>
     (\<forall>k. \<not> md_Contains A [] k) \<and> (\<forall>m k. md_Contains A m k \<longrightarrow> (\<exists>v. md_Get A m k = Inr v)) \<and>
     (\<forall>f. field_HasMetadata A f \<longleftrightarrow> f_metadata f \<noteq> None \<and> f_metadata f \<noteq> Some []) \<and>
     (\<forall>s. schema_HasMetadata A s \<longleftrightarrow> sch_metadata s \<noteq> None \<and> sch_metadata s \<noteq> Some [])"

definition schema_laws :: "arrow_lib \<Rightarrow> bool" where
  "schema_laws A \<longleftrightarrow>
     (\<forall>s n. GetFieldIndex A s n = (case field_index s n of None \<Rightarrow> - 1 | Some i \<Rightarrow> int i)) \<and>
     (\<forall>s n. GetFieldByName A s n = map_option ((!) (sch_fields s)) (field_index s n)) \<and>
     (\<forall>s i f. i < length (sch_fields s) \<longrightarrow> SetField A s (int i) f = Inr (s\<lparr>sch_fields := (sch_fields s)[i := f]\<rparr>)) \<and>
     (\<forall>b n. GetColumnByName A b n = map_option ((!) (b_columns b)) (field_index (b_schema b) n))"

text \<open>A column of the length of the batch and of the type of its field can be added anywhere.\<close>

definition insert_at :: "nat \<Rightarrow> 'a \<Rightarrow> 'a list \<Rightarrow> 'a list" where
  "insert_at i x xs = take i xs @ x # drop i xs"

definition column_law :: "arrow_lib \<Rightarrow> bool" where
  "column_law A \<longleftrightarrow>
     (\<forall>b i f a. i \<le> num_columns b \<longrightarrow> a_length a = b_num_rows b \<longrightarrow> a_type a = f_type f \<longrightarrow>
        AddColumn A b (int i) f a =
          Inr (b\<lparr>b_schema := (b_schema b)\<lparr>sch_fields := insert_at i f (sch_fields (b_schema b))\<rparr>,
                 b_columns := insert_at i a (b_columns b)\<rparr>))"

definition builder_laws :: "arrow_lib \<Rightarrow> bool" where
  "builder_laws A \<longleftrightarrow>
     (\<forall>ty vs s. Append A (ty, vs) s = Inr (ty, vs @ [s])) \<and>
     (\<forall>ty vs. AppendNull A (ty, vs) = Inr (ty, vs @ [null_scalar ty])) \<and>
     (\<forall>ty vs. Finish A (ty, vs) = Inr \<lparr>a_type = ty, a_values = vs\<rparr>)"

text \<open>As many columns as fields.\<close>

definition wf_batch :: "batch \<Rightarrow> bool" where
  "wf_batch b \<longleftrightarrow> length (sch_fields (b_schema b)) = num_columns b"

lemma insert_at_end [simp]: "insert_at (length xs) x xs = xs @ [x]"
  by (simp add: insert_at_def)

section \<open>Fields by name\<close>

lemma unique_index_Some: "unique_index n ns = Some i \<Longrightarrow> i < length ns \<and> ns ! i = n"
  by (induction n ns arbitrary: i rule: unique_index.induct) (auto split: if_splits)

lemma unique_index_notin: "n \<notin> set ns \<Longrightarrow> unique_index n ns = None"
  by (induction ns) auto

lemma unique_index_distinct: "distinct ns \<Longrightarrow> unique_index n ns = None \<longleftrightarrow> n \<notin> set ns"
  by (induction ns) auto

lemma unique_index_nth: "distinct ns \<Longrightarrow> i < length ns \<Longrightarrow> unique_index (ns ! i) ns = Some i"
  by (induction ns arbitrary: i) (auto simp: nth_Cons split: nat.splits)

lemma unique_index_snoc_new: "n \<notin> set ns \<Longrightarrow> unique_index n (ns @ [n]) = Some (length ns)"
  by (induction ns) auto

lemma unique_index_snoc_other: "m \<noteq> n \<Longrightarrow> unique_index n (ns @ [m]) = unique_index n ns"
  by (induction ns) auto

lemma field_index_Some:
  assumes "field_index s n = Some i"
  shows "i < length (sch_fields s)" and "f_name (sch_fields s ! i) = n"
  using unique_index_Some [OF assms [unfolded field_index_def]] by auto

lemma field_index_update:
  assumes "i < length (sch_fields s)" and "f_name f = f_name (sch_fields s ! i)"
  shows "field_index (s\<lparr>sch_fields := (sch_fields s)[i := f]\<rparr>) n = field_index s n"
proof -
  have "map f_name ((sch_fields s)[i := f]) = map f_name (sch_fields s)"
    using assms by (metis list_update_id map_update nth_map)
  then show ?thesis by (simp add: field_index_def)
qed

lemma field_index_snoc_new:
  "f_name f \<notin> f_name ` set (sch_fields s) \<Longrightarrow>
     field_index (s\<lparr>sch_fields := sch_fields s @ [f]\<rparr>) (f_name f) = Some (length (sch_fields s))"
  using unique_index_snoc_new [of "f_name f" "map f_name (sch_fields s)"] by (simp add: field_index_def)

lemma field_index_snoc_other:
  "f_name f \<noteq> n \<Longrightarrow> field_index (s\<lparr>sch_fields := sch_fields s @ [f]\<rparr>) n = field_index s n"
  by (simp add: field_index_def unique_index_snoc_other)

lemma field_index_None:
  "distinct (map f_name (sch_fields s)) \<Longrightarrow> field_index s n = None \<longleftrightarrow> n \<notin> f_name ` set (sch_fields s)"
  by (simp add: field_index_def unique_index_distinct)

section \<open>Metadata as a store\<close>

locale metadata_store =
  fixes put :: "arrow_lib \<Rightarrow> 'a \<Rightarrow> string \<Rightarrow> string \<Rightarrow> status + 'a"
    and get :: "arrow_lib \<Rightarrow> 'a \<Rightarrow> string \<Rightarrow> status + string"
  assumes put_total: "metadata_laws A \<Longrightarrow> \<exists>y. put A x k v = Inr y"
    and get_put: "metadata_laws A \<Longrightarrow> put A x k v = Inr y \<Longrightarrow> get A y k = Inr v"
    and get_put_other: "metadata_laws A \<Longrightarrow> put A x k v = Inr y \<Longrightarrow> j \<noteq> k \<Longrightarrow> get A y j = Inr u \<longleftrightarrow> get A x j = Inr u"
begin

text \<open>A list of entries written in order: the last one of each key is read.\<close>

definition put_all :: "arrow_lib \<Rightarrow> (string \<times> string) list \<Rightarrow> 'a \<Rightarrow> status + 'a" where
  "put_all A kvs x = rfold (\<lambda>(k, v) x. put A x k v) kvs x"

lemma put_all_reads:
  assumes "metadata_laws A" and "put_all A kvs x = Inr y"
  shows "get A y j = Inr u \<longleftrightarrow> (case map_of (rev kvs) j of None \<Rightarrow> get A x j = Inr u | Some v \<Rightarrow> u = v)"
  using assms(2)
proof (induction kvs arbitrary: x)
  case (Cons kv kvs)
  obtain k v where kv: "kv = (k, v)" by force
  obtain x1 where x1: "put A x k v = Inr x1" "put_all A kvs x1 = Inr y"
    using Cons.prems by (auto simp: put_all_def kv rbind_eq_Inr_iff)
  show ?case
    using Cons.IH [OF x1(2)] get_put [OF assms(1) x1(1)] get_put_other [OF assms(1) x1(1), of j u]
    by (cases "j = k") (auto simp: kv map_add_def split: option.splits)
qed (simp add: put_all_def)

end

lemma metadata_setE:
  assumes "metadata_laws A"
  obtains m' where "md_Set A m k v = Inr m'" and "m' \<noteq> []" and "md_Contains A m' k" and "md_Get A m' k = Inr v"
    and "\<And>j. j \<noteq> k \<Longrightarrow> md_Contains A m' j = md_Contains A m j \<and> md_Get A m' j = md_Get A m j"
  using assms unfolding metadata_laws_def by metis

lemma metadata_empty: "metadata_laws A \<Longrightarrow> \<not> md_Contains A [] k"
  by (simp add: metadata_laws_def)

text \<open>The entries a metadata object stands for, the empty ones where there is none.\<close>

definition entries :: "bool \<Rightarrow> kv_metadata option \<Rightarrow> kv_metadata" where
  "entries has md = (if has then the md else [])"

lemma field_entries:
  "metadata_laws A \<Longrightarrow> getFieldMetadata A f j = Inr u \<longleftrightarrow>
     md_Contains A (entries (field_HasMetadata A f) (f_metadata f)) j \<and>
     md_Get A (entries (field_HasMetadata A f) (f_metadata f)) j = Inr u"
  by (auto simp: metadata_laws_def getFieldMetadata_def entries_def split: option.splits)

lemma schema_entries:
  "metadata_laws A \<Longrightarrow> getColumnNameMetadata A b j = Inr u \<longleftrightarrow>
     md_Contains A (entries (schema_HasMetadata A (b_schema b)) (sch_metadata (b_schema b))) j \<and>
     md_Get A (entries (schema_HasMetadata A (b_schema b)) (sch_metadata (b_schema b))) j = Inr u"
  by (auto simp: metadata_laws_def getColumnNameMetadata_def entries_def split: option.splits)

lemma setFieldMetadata_entries:
  assumes "metadata_laws A"
  obtains m' where "setFieldMetadata A f k v = Inr (f\<lparr>f_metadata := Some m'\<rparr>)"
    and "m' \<noteq> []" and "md_Contains A m' k" and "md_Get A m' k = Inr v"
    and "\<And>j. j \<noteq> k \<Longrightarrow> md_Contains A m' j = md_Contains A (entries (field_HasMetadata A f) (f_metadata f)) j \<and>
      md_Get A m' j = md_Get A (entries (field_HasMetadata A f) (f_metadata f)) j"
  by (rule metadata_setE [OF assms, of "entries (field_HasMetadata A f) (f_metadata f)" k v])
    (simp add: setFieldMetadata_def entries_def Let_def)

lemma setSchemaMetadata_entries:
  assumes "metadata_laws A"
  obtains m' where "setSchemaMetadata A b k v = Inr (ReplaceSchemaMetadata b (Some m'))"
    and "m' \<noteq> []" and "md_Contains A m' k" and "md_Get A m' k = Inr v"
    and "\<And>j. j \<noteq> k \<Longrightarrow> md_Contains A m' j = md_Contains A (entries (schema_HasMetadata A (b_schema b)) (sch_metadata (b_schema b))) j \<and>
      md_Get A m' j = md_Get A (entries (schema_HasMetadata A (b_schema b)) (sch_metadata (b_schema b))) j"
  by (rule metadata_setE [OF assms, of "entries (schema_HasMetadata A (b_schema b)) (sch_metadata (b_schema b))" k v])
    (simp add: setSchemaMetadata_def entries_def Let_def)

lemma has_metadata:
  "metadata_laws A \<Longrightarrow> f_metadata f = Some m \<Longrightarrow> m \<noteq> [] \<Longrightarrow> field_HasMetadata A f"
  "metadata_laws A \<Longrightarrow> sch_metadata s = Some m \<Longrightarrow> m \<noteq> [] \<Longrightarrow> schema_HasMetadata A s"
  by (auto simp: metadata_laws_def)

interpretation field_md: metadata_store setFieldMetadata getFieldMetadata
proof (unfold_locales, goal_cases)
  case (1 A x k v)
  then show ?case by (rule setFieldMetadata_entries) blast
next
  case (2 A x k v y)
  show ?case by (rule setFieldMetadata_entries [OF 2(1), of x k v]) (use 2(2) in \<open>simp add: getFieldMetadata_def\<close>)
next
  case (3 A x k v y j u)
  show ?case
    by (rule setFieldMetadata_entries [OF 3(1), of x k v])
      (use 3 in \<open>simp add: field_entries [OF 3(1)] has_metadata entries_def\<close>)
qed

interpretation schema_md: metadata_store setSchemaMetadata getColumnNameMetadata
proof (unfold_locales, goal_cases)
  case (1 A x k v)
  then show ?case by (rule setSchemaMetadata_entries) blast
next
  case (2 A x k v y)
  show ?case by (rule setSchemaMetadata_entries [OF 2(1), of x k v]) (use 2(2) in \<open>simp add: getColumnNameMetadata_def\<close>)
next
  case (3 A x k v y j u)
  show ?case
    by (rule setSchemaMetadata_entries [OF 3(1), of x k v])
      (use 3 in \<open>simp add: schema_entries [OF 3(1)] has_metadata entries_def\<close>)
qed

section \<open>Round trips\<close>

lemma replaceField_at:
  assumes "schema_laws A" and "field_index (b_schema b) (f_name f) = Some i"
  shows "replaceField A b f = Inr (b\<lparr>b_schema := (b_schema b)\<lparr>sch_fields := (sch_fields (b_schema b))[i := f]\<rparr>\<rparr>)"
  using assms field_index_Some [OF assms(2)]
  by (simp add: replaceField_def schema_laws_def Let_def)

lemma setFieldMetadata_keeps:
  "setFieldMetadata A f k v = Inr f' \<Longrightarrow> f_name f' = f_name f \<and> f_type f' = f_type f"
  by (auto simp: setFieldMetadata_def Let_def rbind_eq_Inr_iff)

text \<open>Setting an entry of a column changes the metadata of its field and nothing else.\<close>

lemma setColumnMetadata_field:
  assumes "metadata_laws A" and "schema_laws A" and "wf_batch b" and "field_index (b_schema b) c = Some i"
  obtains f where "setFieldMetadata A (sch_fields (b_schema b) ! i) k v = Inr f"
    and "setColumnMetadata A b c k v =
      Inr (b\<lparr>b_schema := (b_schema b)\<lparr>sch_fields := (sch_fields (b_schema b))[i := f]\<rparr>\<rparr>)"
    and "f_name f = c"
proof -
  note i = field_index_Some [OF assms(4)]
  obtain f where f: "setFieldMetadata A (sch_fields (b_schema b) ! i) k v = Inr f"
    using field_md.put_total [OF assms(1)] by blast
  then have n: "f_name f = c" using setFieldMetadata_keeps i(2) by metis
  have g: "GetFieldIndex A (b_schema b) c = int i" using assms(2,4) by (simp add: schema_laws_def)
  have "setColumnMetadata A b c k v = replaceField A b f"
    using i(1) assms(3) f by (simp add: setColumnMetadata_def setColumnMetadata_at_def g wf_batch_def)
  with f n replaceField_at [of A b f i] assms(2,4) show thesis by (intro that) simp_all
qed

lemma getColumnType_entry:
  assumes "metadata_laws A" and "getFieldMetadata A f COLUMN_TYPE_METADATA_KEY = Inr (ColumnType_Name ty)"
  shows "getColumnType A f = Inr ty"
  using assms metadata_empty [OF assms(1)]
  by (auto simp: getColumnType_def getFieldMetadata_def metadata_laws_def value_or_die_def split: option.splits if_splits)

lemma setFieldTypeMetadata_type:
  "metadata_laws A \<Longrightarrow> setFieldTypeMetadata A f ty = Inr f' \<Longrightarrow> getColumnType A f' = Inr ty"
  unfolding setFieldTypeMetadata_def by (rule getColumnType_entry) (auto intro: field_md.get_put)

lemma setFieldTypeMetadata_total: "metadata_laws A \<Longrightarrow> \<exists>f'. setFieldTypeMetadata A f ty = Inr f'"
  unfolding setFieldTypeMetadata_def by (rule field_md.put_total)

lemma getColumnType_total:
  assumes "metadata_laws A"
  shows "\<exists>ty. getColumnType A f = Inr ty"
proof -
  have "\<exists>v. md_Get A m k = Inr v" if "md_Contains A m k" for m k
    using assms that unfolding metadata_laws_def by blast
  then show ?thesis by (fastforce simp: getColumnType_def value_or_die_def Let_def)
qed

text \<open>The batch with another field in place of one of the same name.\<close>

abbreviation with_field :: "batch \<Rightarrow> nat \<Rightarrow> arrow_field \<Rightarrow> batch" where
  "with_field b i f \<equiv> b\<lparr>b_schema := (b_schema b)\<lparr>sch_fields := (sch_fields (b_schema b))[i := f]\<rparr>\<rparr>"

lemma with_field_lookup:
  assumes "schema_laws A" and "field_index (b_schema b) c = Some i" and "f_name f = c"
  shows "GetFieldByName A (b_schema (with_field b i f)) c = Some f"
    and "\<And>d. d \<noteq> c \<Longrightarrow> GetFieldByName A (b_schema (with_field b i f)) d = GetFieldByName A (b_schema b) d"
    and "\<And>d. GetColumnByName A (with_field b i f) d = GetColumnByName A b d"
proof -
  note i = field_index_Some [OF assms(2)]
  have u: "field_index ((b_schema b)\<lparr>sch_fields := (sch_fields (b_schema b))[i := f]\<rparr>) n = field_index (b_schema b) n" for n
    using i assms(3) by (simp add: field_index_update)
  show "GetFieldByName A (b_schema (with_field b i f)) c = Some f"
    using assms(1,2) i by (simp add: schema_laws_def u)
  show "GetColumnByName A (with_field b i f) d = GetColumnByName A b d" for d
    using assms(1) by (simp add: schema_laws_def u)
  fix d
  assume d: "d \<noteq> c"
  have "j \<noteq> i" if "field_index (b_schema b) d = Some j" for j
    using field_index_Some [OF that] i d by auto
  then show "GetFieldByName A (b_schema (with_field b i f)) d = GetFieldByName A (b_schema b) d"
    using assms(1) by (auto simp: schema_laws_def u split: option.splits)
      (metis (no_types, lifting) map_option_cong nth_list_update_neq)
qed

text \<open>The type of a column is read back, the other fields are as they were.\<close>

lemma setColumnTypeMetadata_reads:
  assumes "metadata_laws A" and "schema_laws A" and "wf_batch b" and "field_index (b_schema b) c = Some i"
  obtains f where "setColumnTypeMetadata A b c ty = Inr (with_field b i f)" and "f_name f = c"
    and "getColumnType A f = Inr ty"
proof (rule setColumnMetadata_field [OF assms, of COLUMN_TYPE_METADATA_KEY "ColumnType_Name ty"])
  fix f
  assume f: "setFieldMetadata A (sch_fields (b_schema b) ! i) COLUMN_TYPE_METADATA_KEY (ColumnType_Name ty) = Inr f"
    and s: "setColumnMetadata A b c COLUMN_TYPE_METADATA_KEY (ColumnType_Name ty) = Inr (with_field b i f)"
    and n: "f_name f = c"
  from f have "getColumnType A f = Inr ty"
    using setFieldTypeMetadata_type [OF assms(1)] by (simp add: setFieldTypeMetadata_def)
  with s n show thesis by (intro that) (simp_all add: setColumnTypeMetadata_def)
qed

lemma metadata_keys_distinct:
  "TIME_COLUMN_NAME_METADATA_KEY \<noteq> MEASUREMENT_COLUMN_NAME_METADATA_KEY"
  "GROUP_METADATA_KEY \<noteq> TIME_COLUMN_NAME_METADATA_KEY" "GROUP_METADATA_KEY \<noteq> MEASUREMENT_COLUMN_NAME_METADATA_KEY"
  "COLUMN_TYPE_METADATA_KEY \<noteq> TIME_UNIT_METADATA_KEY"
  by (simp_all add: TIME_COLUMN_NAME_METADATA_KEY_def MEASUREMENT_COLUMN_NAME_METADATA_KEY_def
      GROUP_METADATA_KEY_def COLUMN_TYPE_METADATA_KEY_def TIME_UNIT_METADATA_KEY_def)

text \<open>The name of a special column is read back; the column has its type.\<close>

lemma setColumnNameMetadata_reads:
  assumes "metadata_laws A" and "schema_laws A" and "wf_batch b" and "GetColumnByName A b c = Some col"
    and "type_id (a_type col) = tid"
  obtains b' i f where "setColumnNameMetadata A b c key tid ty = Inr b'"
    and "field_index (b_schema b) c = Some i"
    and "getColumnNameMetadata A b' key = Inr c"
    and "\<And>j u. j \<noteq> key \<Longrightarrow> getColumnNameMetadata A b' j = Inr u \<longleftrightarrow> getColumnNameMetadata A b j = Inr u"
    and "GetFieldByName A (b_schema b') c = Some f" and "getColumnType A f = Inr ty"
    and "b_columns b' = b_columns b" and "b_num_rows b' = b_num_rows b"
proof -
  obtain i where i: "field_index (b_schema b) c = Some i"
    using assms(2,4) by (auto simp: schema_laws_def)
  show thesis
  proof (rule setColumnTypeMetadata_reads [OF assms(1-3) i, of ty])
    fix f
    assume t: "setColumnTypeMetadata A b c ty = Inr (with_field b i f)" and n: "f_name f = c"
      and ty: "getColumnType A f = Inr ty"
    obtain b' where b': "setSchemaMetadata A (with_field b i f) key c = Inr b'"
      using schema_md.put_total [OF assms(1)] by blast
    then obtain md where md: "b' = ReplaceSchemaMetadata (with_field b i f) md"
      by (auto simp: setSchemaMetadata_def Let_def rbind_eq_Inr_iff)
    have set: "setColumnNameMetadata A b c key tid ty = Inr b'"
      using assms(4,5) t b' by (simp add: setColumnNameMetadata_def)
    have same: "getColumnNameMetadata A (with_field b i f) = getColumnNameMetadata A b"
      by (simp add: getColumnNameMetadata_def fun_eq_iff)
    have fi: "field_index (s\<lparr>sch_metadata := md\<rparr>) m = field_index s m" for s md m by (simp add: field_index_def)
    have f: "GetFieldByName A (b_schema b') c = Some f"
      using with_field_lookup(1) [OF assms(2) i n] assms(2) by (simp add: md schema_laws_def fi)
    show thesis
      using schema_md.get_put [OF assms(1) b'] schema_md.get_put_other [OF assms(1) b']
      by (intro that [OF set i _ _ f ty]) (simp_all add: md same)
  qed
qed

text \<open>The time unit of a column is read back.\<close>

lemma time_unit_names [simp]: "map_of METADATA_TIME_NAMES_TO_UNITS (TIME_UNITS_TO_NAMES u) = Some u"
  by (cases u) (simp_all add: METADATA_TIME_NAMES_TO_UNITS_def)

lemma setFieldTimeUnitMetadata_reads:
  assumes "metadata_laws A" and "setFieldTimeUnitMetadata A f u = Inr f'"
  shows "getFieldTimeUnitMetadata A f' = Inr u"
proof -
  have "setFieldMetadata A f TIME_UNIT_METADATA_KEY (TIME_UNITS_TO_NAMES u) = Inr f'"
    using assms(2) by (auto simp: setFieldTimeUnitMetadata_def split: if_splits)
  from field_md.get_put [OF assms(1) this] show ?thesis by (simp add: getFieldTimeUnitMetadata_def)
qed

lemma time_unit_roundtrip:
  assumes "metadata_laws A" and "schema_laws A" and "setTimeUnitMetadata A b c u = Inr b'"
  shows "getTimeUnitMetadata A b' c = Inr u"
proof -
  obtain f where f: "GetFieldByName A (b_schema b) c = Some f"
    using assms(3) by (auto simp: setTimeUnitMetadata_def split: option.splits)
  then obtain f' where f': "setFieldTimeUnitMetadata A f u = Inr f'" and r: "replaceField A b f' = Inr b'"
    using assms(3) by (auto simp: setTimeUnitMetadata_def rbind_eq_Inr_iff)
  obtain i where i: "field_index (b_schema b) c = Some i" and fi: "f = sch_fields (b_schema b) ! i"
    using f assms(2) by (auto simp: schema_laws_def)
  have n: "f_name f' = c"
    using f' field_index_Some [OF i] fi
    by (auto simp: setFieldTimeUnitMetadata_def dest!: setFieldMetadata_keeps split: if_splits)
  then have "b' = with_field b i f'" using r replaceField_at [OF assms(2), of b f' i] i by simp
  with with_field_lookup(1) [OF assms(2) i n] setFieldTimeUnitMetadata_reads [OF assms(1) f'] show ?thesis
    by (simp add: getTimeUnitMetadata_def)
qed

text \<open>The group of a batch is read back, and is what distinguishes it for the dispatchers.\<close>

lemma group_metadata_reads:
  assumes "metadata_laws A" and "setGroupMetadata A P b g = Inr b'"
  shows "extractGroupMetadata A b' = Inr (SerializeGroup P g)"
    and "extractGroup A P b' = Inr (ParseGroup P (SerializeGroup P g))"
proof -
  have s: "setSchemaMetadata A b GROUP_METADATA_KEY (SerializeGroup P g) = Inr b'"
    using assms(2) by (simp add: setGroupMetadata_def)
  from schema_md.get_put [OF assms(1) s]
  have "schema_HasMetadata A (b_schema b') \<and> md_Contains A (the (sch_metadata (b_schema b'))) GROUP_METADATA_KEY \<and>
      md_Get A (the (sch_metadata (b_schema b'))) GROUP_METADATA_KEY = Inr (SerializeGroup P g)"
    using assms(1) by (auto simp: getColumnNameMetadata_def metadata_laws_def split: option.splits if_splits)
  then show "extractGroupMetadata A b' = Inr (SerializeGroup P g)"
      and "extractGroup A P b' = Inr (ParseGroup P (SerializeGroup P g))"
    by (simp_all add: extractGroupMetadata_def extractGroup_def value_or_die_def)
qed

end
