(* ===== verification/Reference_Arrow.thy ===== *)
theory Reference_Arrow
  imports Dynamic_Window_Handler Threshold_State_Machine Metadata_Laws
begin

text \<open>
  A concrete \<open>arrow_lib\<close>: the functions of Arrow the program calls, written out on the data of
  \<open>Arrow\<close>. It shows that what the theorems assume of Arrow can hold, and the examples of the
  root theory run the model on it. Sorting is stable and by the integer value, a cast between
  time units divides, the string of a scalar is that of a string scalar.
\<close>

section \<open>The library\<close>

definition has_entries :: "kv_metadata option \<Rightarrow> bool" where
  "has_entries md \<longleftrightarrow> (case md of None \<Rightarrow> False | Some m \<Rightarrow> m \<noteq> [])"

fun md_update :: "string \<Rightarrow> string \<Rightarrow> kv_metadata \<Rightarrow> kv_metadata" where
  "md_update k v [] = [(k, v)]"
| "md_update k v ((k', v') # m) = (if k = k' then (k, v) # m else (k', v') # md_update k v m)"

lemma map_of_md_update [simp]: "map_of (md_update k v m) = (map_of m)(k \<mapsto> v)"
  by (induction m) (auto simp: fun_eq_iff)

definition same_field :: "arrow_field \<Rightarrow> arrow_field \<Rightarrow> bool" where
  "same_field f g \<longleftrightarrow> f_name f = f_name g \<and> f_type f = f_type g"

fun unit_nanos :: "arrow_unit \<Rightarrow> int" where
  "unit_nanos UNIT_SECOND = 1000000000"
| "unit_nanos UNIT_MILLI = 1000000"
| "unit_nanos UNIT_MICRO = 1000"
| "unit_nanos UNIT_NANO = 1"

fun cast_scalar :: "scalar \<Rightarrow> arrow_type \<Rightarrow> status + scalar" where
  "cast_scalar s (Timestamp u) =
     (case s_type s of
        Timestamp u' \<Rightarrow> Inr (int_scalar (Timestamp u) (s_int s * unit_nanos u' div unit_nanos u))
      | Plain INT64 \<Rightarrow> Inr (int_scalar (Timestamp u) (s_int s))
      | _ \<Rightarrow> Inl NotImplemented)"
| "cast_scalar s (Plain DOUBLE) =
     (case s_type s of
        Plain DOUBLE \<Rightarrow> Inr s
      | Plain INT64 \<Rightarrow> Inr (double_scalar (double_of_int (s_int s)))
      | _ \<Rightarrow> Inl NotImplemented)"
| "cast_scalar s ty = Inl NotImplemented"

definition map_columns :: "(arrow_array \<Rightarrow> arrow_array) \<Rightarrow> nat \<Rightarrow> batch \<Rightarrow> batch" where
  "map_columns f n b = b\<lparr>b_num_rows := n, b_columns := map f (b_columns b)\<rparr>"

definition pick :: "nat list \<Rightarrow> arrow_array \<Rightarrow> arrow_array" where
  "pick idx a = a\<lparr>a_values := map ((!) (a_values a)) idx\<rparr>"

definition slice_batch :: "batch \<Rightarrow> nat \<Rightarrow> nat \<Rightarrow> batch" where
  "slice_batch b offset len =
     map_columns (\<lambda>a. a\<lparr>a_values := take len (drop offset (a_values a))\<rparr>) (min len (b_num_rows b - offset)) b"

definition sort_permutation :: "arrow_array \<Rightarrow> nat list" where
  "sort_permutation a = sort_key (\<lambda>i. s_int (a_values a ! i)) [0..<length (a_values a)]"

definition index_array :: "nat list \<Rightarrow> arrow_array" where
  "index_array idx = \<lparr>a_type = Plain UINT64, a_values = map (\<lambda>i. int_scalar (Plain UINT64) (int i)) idx\<rparr>"

definition filter_batch :: "batch \<Rightarrow> arrow_array \<Rightarrow> batch" where
  "filter_batch b flags =
     (let idx = filter (\<lambda>i. s_bool (a_values flags ! i)) [0..<b_num_rows b] in map_columns (pick idx) (length idx) b)"

definition ref_arrow :: arrow_lib where
  "ref_arrow =
     \<lparr>md_Set = \<lambda>m k v. Inr (md_update k v m),
      md_Contains = \<lambda>m k. map_of m k \<noteq> None,
      md_Get = \<lambda>m k. case map_of m k of None \<Rightarrow> Inl KeyError | Some v \<Rightarrow> Inr v,
      field_HasMetadata = \<lambda>f. has_entries (f_metadata f),
      schema_HasMetadata = \<lambda>s. has_entries (sch_metadata s),
      field_Equals = same_field,
      schema_Equals = \<lambda>s s'. list_all2 same_field (sch_fields s) (sch_fields s'),
      GetFieldIndex = \<lambda>s n. case field_index s n of None \<Rightarrow> - 1 | Some i \<Rightarrow> int i,
      GetFieldByName = \<lambda>s n. map_option ((!) (sch_fields s)) (field_index s n),
      SetField = \<lambda>s i f. if 0 \<le> i \<and> i < int (length (sch_fields s))
                   then Inr (s\<lparr>sch_fields := (sch_fields s)[nat i := f]\<rparr>) else Inl Invalid,
      GetColumnByName = \<lambda>b n. map_option ((!) (b_columns b)) (field_index (b_schema b) n),
      AddColumn = \<lambda>b i f a.
        if 0 \<le> i \<and> i \<le> int (length (b_columns b)) \<and> length (a_values a) = b_num_rows b
        then Inr (b\<lparr>b_schema := (b_schema b)\<lparr>sch_fields := take (nat i) (sch_fields (b_schema b)) @ f # drop (nat i) (sch_fields (b_schema b))\<rparr>,
                    b_columns := take (nat i) (b_columns b) @ a # drop (nat i) (b_columns b)\<rparr>)
        else Inl Invalid,
      RemoveColumn = \<lambda>b i.
        if 0 \<le> i \<and> i < int (length (b_columns b))
        then Inr (b\<lparr>b_schema := (b_schema b)\<lparr>sch_fields := take (nat i) (sch_fields (b_schema b)) @ drop (Suc (nat i)) (sch_fields (b_schema b))\<rparr>,
                    b_columns := take (nat i) (b_columns b) @ drop (Suc (nat i)) (b_columns b)\<rparr>)
        else Inl Invalid,
      Slice = \<lambda>b offset len. slice_batch b (nat offset) (nat len),
      SliceFrom = \<lambda>b offset. slice_batch b (nat offset) (b_num_rows b - nat offset),
      GetScalar = \<lambda>a i. if 0 \<le> i \<and> i < int (length (a_values a)) then Inr (a_values a ! nat i) else Inl IndexError,
      ViewInt64 = \<lambda>a. Inr (a\<lparr>a_type := Plain INT64\<rparr>),
      CastTo = cast_scalar,
      ToString = s_string,
      scalar_Equals = (=),
      SortIndices = \<lambda>a. Inr (index_array (sort_permutation a)),
      Take = \<lambda>b idx. Inr (map_columns (pick (map (\<lambda>s. nat (s_int s)) (a_values idx))) (length (a_values idx)) b),
      CompareEqual = \<lambda>a s. Inr \<lparr>a_type = Plain BOOL, a_values = map (\<lambda>v. bool_scalar (v = s)) (a_values a)\<rparr>,
      CompareNotEqual = \<lambda>a s. Inr \<lparr>a_type = Plain BOOL, a_values = map (\<lambda>v. bool_scalar (v \<noteq> s)) (a_values a)\<rparr>,
      Filter = \<lambda>b flags. Inr (filter_batch b flags),
      MinMax = \<lambda>a. if a_values a = [] then Inl Invalid
                   else Inr (hd (sort_key s_int (a_values a)), last (sort_key s_int (a_values a))),
      Mean = \<lambda>a. Inl NotImplemented,
      FromRecordBatches = \<lambda>bs. case bs of [] \<Rightarrow> Inl Invalid
        | b # _ \<Rightarrow> Inr \<lparr>t_schema = b_schema b, t_num_rows = sum_list (map b_num_rows bs),
                        t_columns = map (\<lambda>i. map (\<lambda>b. b_columns b ! i) bs) [0..<length (b_columns b)]\<rparr>,
      CombineChunks = \<lambda>t. Inr (t\<lparr>t_columns := map (\<lambda>chunks. case chunks of [] \<Rightarrow> []
        | c # _ \<Rightarrow> [\<lparr>a_type = a_type c, a_values = concat (map a_values chunks)\<rparr>]) (t_columns t)\<rparr>),
      Append = \<lambda>(ty, vs) s. Inr (ty, vs @ [s]),
      AppendNull = \<lambda>(ty, vs). Inr (ty, vs @ [null_scalar ty]),
      Finish = \<lambda>(ty, vs). Inr \<lparr>a_type = ty, a_values = vs\<rparr>\<rparr>"

lemma ref_appends [simp]: "appends ref_arrow"
  by (simp add: appends_def ref_arrow_def)

lemma ref_metadata_laws [simp]: "metadata_laws ref_arrow"
proof -
  have "md_update k v m \<noteq> []" for k v and m :: kv_metadata
    by (cases "(k, v, m)" rule: md_update.cases) auto
  then show ?thesis
    by (auto simp: metadata_laws_def ref_arrow_def has_entries_def split: option.splits)
qed

lemma ref_schema_laws [simp]: "schema_laws ref_arrow"
  by (simp add: schema_laws_def ref_arrow_def)

lemma ref_column_law [simp]: "column_law ref_arrow"
  by (simp add: column_law_def ref_arrow_def insert_at_def)

lemma ref_builder_laws [simp]: "builder_laws ref_arrow"
  by (simp add: builder_laws_def ref_arrow_def)

section \<open>A stream of time stamps\<close>

text \<open>Batches with a single column of time stamps, in seconds, and a group string.\<close>

definition gts_schema :: "string \<Rightarrow> schema" where
  "gts_schema g = \<lparr>sch_fields = [new_field ''time'' (Timestamp UNIT_SECOND)],
     sch_metadata = Some ((TIME_COLUMN_NAME_METADATA_KEY, ''time'') # (if g = [] then [] else [(GROUP_METADATA_KEY, g)]))\<rparr>"

definition ts_schema :: schema where
  "ts_schema = gts_schema []"

definition ts_array :: "int list \<Rightarrow> arrow_array" where
  "ts_array xs = \<lparr>a_type = Timestamp UNIT_SECOND, a_values = map (int_scalar (Timestamp UNIT_SECOND)) xs\<rparr>"

definition gts_batch :: "string \<Rightarrow> int list \<Rightarrow> batch" where
  "gts_batch g xs = Make (gts_schema g) (length xs) [ts_array xs]"

definition gts_good :: "string \<Rightarrow> batch \<Rightarrow> bool" where
  "gts_good g b \<longleftrightarrow> (\<exists>xs. b = gts_batch g xs \<and> length xs < 2 ^ 64)"

definition ts_rows :: "batch \<Rightarrow> int list" where
  "ts_rows b = map s_int (a_values (hd (b_columns b)))"

lemma s_int_int_scalar [simp]: "s_int (int_scalar ty i) = i" "s_type (int_scalar ty i) = ty"
  by (simp_all add: int_scalar_def)

lemma s_int_comp [simp]: "s_int \<circ> int_scalar ty = id"
  by (simp add: fun_eq_iff)

lemma ts_rows_batch [simp]: "ts_rows (gts_batch g xs) = xs"
  by (simp add: ts_rows_def gts_batch_def ts_array_def)

lemma ts_good_batch [simp]: "gts_good g (gts_batch g xs) \<longleftrightarrow> length xs < 2 ^ 64"
proof
  assume "gts_good g (gts_batch g xs)"
  then obtain ys where "gts_batch g xs = gts_batch g ys" "length ys < 2 ^ 64" by (auto simp: gts_good_def)
  moreover from this have "xs = ys" using ts_rows_batch by metis
  ultimately show "length xs < 2 ^ 64" by simp
qed (auto simp: gts_good_def)

lemma ts_goodE:
  assumes "gts_good g b"
  obtains xs where "b = gts_batch g xs" and "length xs < 2 ^ 64"
  using assms by (auto simp: gts_good_def)

lemma ts_column [simp]: "GetColumnByName ref_arrow (gts_batch g xs) ''time'' = Some (ts_array xs)"
  by (simp add: ref_arrow_def gts_batch_def gts_schema_def field_index_def)

lemma ts_time_name [simp]: "getTimeColumnNameMetadata ref_arrow (gts_batch g xs) = Inr ''time''"
  by (simp add: getTimeColumnNameMetadata_def getColumnNameMetadata_def ref_arrow_def gts_batch_def gts_schema_def)

lemma ts_read:
  "i < length xs \<Longrightarrow> castTimestampScalar ref_arrow (GetScalar ref_arrow (ts_array xs) (int i)) UNIT_SECOND =
     Inr (int_scalar (Timestamp UNIT_SECOND) (xs ! i))"
  by (simp add: castTimestampScalar_def ref_arrow_def ts_array_def)

lemma reads_ts_array [simp]: "reads_ts ref_arrow (ts_array xs) UNIT_SECOND xs"
  by (simp add: reads_ts_def read_ts_def ts_read) (simp add: ts_array_def)

lemma ts_stream_batch: "gts_good g b \<Longrightarrow> stream_batch ref_arrow ''time'' ts_rows id b"
  by (elim ts_goodE) (simp add: stream_batch_def, simp add: gts_batch_def ts_array_def)

lemma ts_slice: "slice_batch (gts_batch g xs) i n = gts_batch g (take n (drop i xs))"
  by (simp add: slice_batch_def map_columns_def gts_batch_def ts_array_def take_map drop_map min_def)

lemma ts_slices:
  "Slice ref_arrow (gts_batch g xs) 0 (int n) = gts_batch g (take n xs)"
  "SliceFrom ref_arrow (gts_batch g xs) (int n) = gts_batch g (drop n xs)"
proof -
  have "b_num_rows (gts_batch g xs) - n = length (drop n xs)" by (simp add: gts_batch_def)
  then show "SliceFrom ref_arrow (gts_batch g xs) (int n) = gts_batch g (drop n xs)"
    by (simp add: ref_arrow_def ts_slice)
qed (simp add: ref_arrow_def ts_slice)

lemma ts_slice_law: "slice_law ref_arrow (gts_good g) ts_rows"
  unfolding slice_law_def by (auto elim!: ts_goodE simp: ts_slices)

lemma map_insort_key: "map g (insort_key (\<lambda>i. f (g i)) x xs) = insort_key f (g x) (map g xs)"
  by (induction xs) auto

lemma map_sort_key: "map g (sort_key (\<lambda>i. f (g i)) xs) = sort_key f (map g xs)"
  by (induction xs) (simp_all add: map_insort_key)

lemma sort_key_nth: "map ((!) xs) (sort_key (\<lambda>i. f (xs ! i)) [0..<length xs]) = sort_key f xs"
  by (simp only: map_sort_key map_nth)

lemma ts_sort_law: "sort_law ref_arrow ''time'' (gts_good g) ts_rows id"
  unfolding sort_law_def
proof (intro allI impI)
  fix b c
  assume "gts_good g b" and c: "GetColumnByName ref_arrow b ''time'' = Some c"
  then obtain xs where b: "b = gts_batch g xs" and l: "length xs < 2 ^ 64" by (auto elim: ts_goodE)
  with c have c: "c = ts_array xs" by simp
  let ?c = "c\<lparr>a_type := Plain INT64\<rparr>" and ?p = "sort_permutation c"
  have "map ((!) (map (int_scalar (Timestamp UNIT_SECOND)) xs)) ?p =
      sort_key s_int (map (int_scalar (Timestamp UNIT_SECOND)) xs)"
    using sort_key_nth [of "map (int_scalar (Timestamp UNIT_SECOND)) xs" s_int]
    by (simp add: sort_permutation_def c ts_array_def)
  also have "\<dots> = map (int_scalar (Timestamp UNIT_SECOND)) (sort_key id xs)"
    using map_sort_key [of "int_scalar (Timestamp UNIT_SECOND)" s_int xs] by (simp add: id_def)
  finally have p: "map ((!) (map (int_scalar (Timestamp UNIT_SECOND)) xs)) ?p = \<dots>" .
  have len: "length ?p = length xs" by (simp add: sort_permutation_def c ts_array_def)
  have pc: "sort_permutation ?c = ?p" by (simp add: sort_permutation_def)
  have "ViewInt64 ref_arrow c = Inr ?c" "SortIndices ref_arrow ?c = Inr (index_array ?p)"
    by (simp_all add: ref_arrow_def pc)
  moreover have "Take ref_arrow b (index_array ?p) = Inr (gts_batch g (sort_key id xs))"
    using p len by (simp add: ref_arrow_def index_array_def comp_def map_columns_def b gts_batch_def pick_def ts_array_def)
  ultimately show "\<exists>c' idx b'. ViewInt64 ref_arrow c = Inr c' \<and> SortIndices ref_arrow c' = Inr idx \<and>
      Take ref_arrow b idx = Inr b' \<and> gts_good g b' \<and> ts_rows b' = sort_key id (ts_rows b)"
    using l b by simp
qed

lemma ts_concat_law: "concat_law ref_arrow (gts_good g) ts_rows"
  unfolding concat_law_def Let_def
proof (intro allI impI)
  fix bs
  assume good: "list_all (gts_good g) bs" and ne: "concat (map ts_rows bs) \<noteq> []"
    and small: "length (concat (map ts_rows bs)) < 2 ^ 64"
  then obtain xss where bs: "bs = map (gts_batch g) xss"
    by (metis (no_types, lifting) ex_map_conv list_all_iff gts_good_def)
  have rows: "concat (map ts_rows bs) = concat xss" by (simp add: bs comp_def)
  have xss: "xss \<noteq> []" using ne rows by auto
  define t where "t = \<lparr>t_schema = gts_schema g, t_num_rows = length (concat xss), t_columns = [map ts_array xss]\<rparr>"
  have "FromRecordBatches ref_arrow bs = Inr t"
    using xss by (cases xss) (simp_all add: ref_arrow_def bs t_def gts_batch_def comp_def length_concat)
  moreover have "CombineChunks ref_arrow t = Inr (t\<lparr>t_columns := [[ts_array (concat xss)]]\<rparr>)"
    using xss by (cases xss) (simp_all add: ref_arrow_def t_def ts_array_def comp_def map_concat)
  moreover have "t_num_rows t \<noteq> 0" using ne unfolding rows t_def by simp
  moreover have "Make (t_schema t) (t_num_rows t) [ts_array (concat xss)] = gts_batch g (concat xss)"
    by (simp add: t_def gts_batch_def)
  ultimately show "\<exists>t t'. FromRecordBatches ref_arrow bs = Inr t \<and> CombineChunks ref_arrow t = Inr t' \<and>
      t_num_rows t \<noteq> 0 \<and> list_all (\<lambda>chunks. chunks \<noteq> []) (t_columns t') \<and>
      gts_good g (Make (t_schema t') (t_num_rows t') (map hd (t_columns t'))) \<and>
      ts_rows (Make (t_schema t') (t_num_rows t') (map hd (t_columns t'))) = concat (map ts_rows bs)"
    using small unfolding rows
    by (intro exI [of _ t] exI [of _ "t\<lparr>t_columns := [[ts_array (concat xss)]]\<rparr>"]) simp
qed

lemma ts_stream_laws: "stream_laws ref_arrow ''time'' (gts_good g) ts_rows id id"
  unfolding stream_laws_def
  by (auto simp: ts_stream_batch ts_slice_law ts_sort_law ts_concat_law)
    (auto elim!: ts_goodE simp: ref_arrow_def gts_batch_def gts_schema_def same_field_def)

abbreviation ts_batch :: "int list \<Rightarrow> batch" where
  "ts_batch \<equiv> gts_batch []"

lemma gts_group [simp]: "extractGroupMetadata ref_arrow (gts_batch g xs) = Inr g"
  by (simp add: extractGroupMetadata_def ref_arrow_def gts_batch_def gts_schema_def has_entries_def value_or_die_def
      metadata_keys_distinct)

section \<open>Batches with a value\<close>

text \<open>A column of time stamps and a column of doubles.\<close>

definition value_batch :: "(int \<times> double) list \<Rightarrow> batch" where
  "value_batch rows =
     Make (ts_schema\<lparr>sch_fields := [new_field ''time'' (Timestamp UNIT_SECOND), new_field ''value'' (Plain DOUBLE)]\<rparr>)
       (length rows)
       [ts_array (map fst rows), \<lparr>a_type = Plain DOUBLE, a_values = map (double_scalar \<circ> snd) rows\<rparr>]"

lemma value_columns [simp]:
  "GetColumnByName ref_arrow (value_batch rows) ''time'' = Some (ts_array (map fst rows))"
  "GetColumnByName ref_arrow (value_batch rows) ''value'' =
     Some \<lparr>a_type = Plain DOUBLE, a_values = map (double_scalar \<circ> snd) rows\<rparr>"
  by (simp_all add: ref_arrow_def value_batch_def ts_schema_def gts_schema_def field_index_def)

lemma value_time_name [simp]: "getTimeColumnNameMetadata ref_arrow (value_batch rows) = Inr ''time''"
  by (simp add: getTimeColumnNameMetadata_def getColumnNameMetadata_def ref_arrow_def value_batch_def ts_schema_def gts_schema_def)

lemma double_scalar_simps [simp]: "s_double (double_scalar d) = d" "s_type (double_scalar d) = Plain DOUBLE"
  by (simp_all add: double_scalar_def)

lemma value_reads [simp]:
  "reads_rows ref_arrow (value_batch rows) ''value'' (map (\<lambda>(t, v). (v, t)) rows)"
proof -
  have "getColumnValueAtRow ref_arrow (value_batch rows) ''value'' i = Inr (snd (rows ! i))" if "i < length rows" for i
    using that unfolding getColumnValueAtRow_def value_columns
    by (simp add: isNumericType_def) (simp add: ref_arrow_def)
  moreover have "getTimeAtRow ref_arrow (value_batch rows) i = Inr (fst (rows ! i))" if "i < length rows" for i
    using that ts_read [of i "map fst rows"] by (simp add: getTimeAtRow_def)
  ultimately show ?thesis by (simp add: reads_rows_def split_beta)
qed

lemma value_num_rows [simp]: "b_num_rows (value_batch rows) = length rows"
  by (simp add: value_batch_def)

text \<open>A column of doubles appended to such a batch.\<close>

definition append_column :: "batch \<Rightarrow> string \<Rightarrow> double list \<Rightarrow> status + batch list" where
  "append_column b name ds =
     rbind (Finish ref_arrow (Plain DOUBLE, map double_scalar ds)) (\<lambda>arr.
     rbind (AddColumn ref_arrow b (int (num_columns b)) (new_field name (Plain DOUBLE)) arr) (\<lambda>b.
     rbind (setColumnTypeMetadata ref_arrow b name FIELD) (\<lambda>b. Inr [b])))"

lemma value_append:
  assumes "length ds = length rows"
  shows "\<exists>b. append_column (value_batch rows) ''level'' ds = Inr [b]"
  using assms
  by (simp add: append_column_def ref_arrow_def value_batch_def ts_schema_def gts_schema_def setColumnTypeMetadata_def
    setColumnMetadata_def setColumnMetadata_at_def setFieldMetadata_def replaceField_def field_index_def
    has_entries_def Let_def)

end
