(* ===== verification/Pipeline_Handler.thy ===== *)
theory Pipeline_Handler
  imports Record_Batch_Handler
begin

text \<open>
  \<open>PipelineHandler\<close> of \<open>src/src/record_batch_handlers/pipeline_handler.h\<close> and \<open>.cpp\<close>. A handler
  object of the pipeline is its vector overload of \<open>handle\<close> with its state; \<open>'s\<close> is a type that
  can hold the state of any of them. The pipeline keeps the new states also when a later handler
  fails.
\<close>

type_synonym 's handler_object = "'s vector_handler \<times> 's"
type_synonym 's PipelineHandler = "'s handler_object list"

fun pipeline_loop :: "'s PipelineHandler \<Rightarrow> batch list \<Rightarrow> 's PipelineHandler \<times> (status + batch list)" where
  "pipeline_loop [] current_result = ([], Inr current_result)"
| "pipeline_loop ((h, s) # hs) current_result =
     (case h s current_result of
        (s, Inl e) \<Rightarrow> ((h, s) # hs, Inl e)
      | (s, Inr tmp_result) \<Rightarrow> (let (hs, r) = pipeline_loop hs tmp_result in ((h, s) # hs, r)))"

definition pipeline_handle_vector ::
  "'s PipelineHandler \<Rightarrow> batch list \<Rightarrow> 's PipelineHandler \<times> (status + batch list)"
where
  "pipeline_handle_vector pipeline_handlers record_batches = pipeline_loop pipeline_handlers record_batches"

definition pipeline_handle :: "'s PipelineHandler \<Rightarrow> batch \<Rightarrow> 's PipelineHandler \<times> (status + batch list)" where
  "pipeline_handle pipeline_handlers record_batch = pipeline_handle_vector pipeline_handlers [record_batch]"

definition pushBackHandler :: "'s handler_object \<Rightarrow> 's PipelineHandler \<Rightarrow> 's PipelineHandler" where
  "pushBackHandler h pipeline_handlers = pipeline_handlers @ [h]"

text \<open>\<open>pop_back\<close> of an empty vector is undefined.\<close>

definition popBackHandler :: "'s PipelineHandler \<Rightarrow> status + 's PipelineHandler" where
  "popBackHandler pipeline_handlers =
     (if pipeline_handlers = [] then Inl UndefinedBehaviour else Inr (butlast pipeline_handlers))"

section \<open>Composition\<close>

lemma pop_push [simp]: "popBackHandler (pushBackHandler h p) = Inr p"
  by (simp add: popBackHandler_def pushBackHandler_def)

lemma pipeline_append:
  "pipeline_handle_vector (p @ q) bs =
     (case pipeline_handle_vector p bs of
        (p, Inl e) \<Rightarrow> (p @ q, Inl e)
      | (p, Inr r) \<Rightarrow> (p @ fst (pipeline_handle_vector q r), snd (pipeline_handle_vector q r)))"
  unfolding pipeline_handle_vector_def
  by (induction p bs rule: pipeline_loop.induct) (auto split: prod.splits sum.splits)

text \<open>The handlers themselves do not change.\<close>

lemma pipeline_handlers: "map fst (fst (pipeline_handle_vector p bs)) = map fst p"
  unfolding pipeline_handle_vector_def
proof (induction p arbitrary: bs)
  case (Cons hs p)
  then show ?case by (cases hs) (simp add: split_beta split: prod.split sum.split)
qed simp

lemma pipeline_nil:
  "\<forall>(h, s) \<in> set p. stream_handler h \<Longrightarrow> pipeline_handle_vector p [] = (p, Inr [])"
  unfolding pipeline_handle_vector_def
proof (induction p)
  case (Cons hs p)
  obtain h s where hs: "hs = (h, s)" by force
  with Cons.prems have "h s [] = (s, Inr [])" by (auto dest: stream_handler.run_Nil)
  with Cons hs show ?case by simp
qed simp

text \<open>A pipeline of stream handlers is a stream handler.\<close>

lemma pipeline_stream:
  assumes "\<forall>(h, s) \<in> set p. stream_handler h"
    and "pipeline_handle_vector p xs = (p', Inr r)" and "pipeline_handle_vector p' ys = (p'', Inr r')"
  shows "pipeline_handle_vector p (xs @ ys) = (p'', Inr (r @ r'))"
  using assms unfolding pipeline_handle_vector_def
proof (induction p arbitrary: xs ys p' p'')
  case (Cons hs p)
  obtain h s where hs: "hs = (h, s)" by force
  obtain s1 r1 q1 where 1: "h s xs = (s1, Inr r1)" and q1: "pipeline_loop p r1 = (q1, Inr r)"
    and p': "p' = (h, s1) # q1"
    using Cons.prems(2) hs by (auto split: prod.splits sum.splits)
  obtain s2 r2 q2 where 2: "h s1 ys = (s2, Inr r2)" and q2: "pipeline_loop q1 r2 = (q2, Inr r')"
    and p'': "p'' = (h, s2) # q2"
    using Cons.prems(3) p' by (auto split: prod.splits sum.splits)
  have "stream_handler h" using Cons.prems(1) hs by auto
  then have "h s (xs @ ys) = (s2, Inr (r1 @ r2))" using 1 2 by (rule stream_handler.run_append)
  moreover have "pipeline_loop p (r1 @ r2) = (q2, Inr (r @ r'))"
    using Cons.prems(1) q1 q2 by (intro Cons.IH) auto
  ultimately show ?case by (simp add: hs p'')
qed simp

text \<open>The handlers of a pipeline, for the interface: their states are the state, a state that does
  not fit the handlers is left alone.\<close>

definition pipeline_of :: "'s vector_handler list \<Rightarrow> 's list vector_handler" where
  "pipeline_of hs ss bs =
     (if length ss = length hs
      then let (p, r) = pipeline_handle_vector (zip hs ss) bs in (map snd p, r) else (ss, Inr []))"

lemma pipeline_of_run:
  assumes "length ss = length hs" and "pipeline_handle_vector (zip hs ss) bs = (p, r)"
  shows "p = zip hs (map snd p) \<and> length (map snd p) = length hs"
proof -
  have m: "map fst p = hs" using pipeline_handlers [of "zip hs ss" bs] assms by simp
  then have "length p = length hs" by (metis length_map)
  with m show ?thesis by (metis zip_map_fst_snd length_map)
qed

lemma pipeline_of_stream: "\<forall>h \<in> set hs. stream_handler h \<Longrightarrow> stream_handler (pipeline_of hs)"
proof (unfold_locales, goal_cases)
  case (1 s)
  have "\<forall>(h, x) \<in> set (zip hs s). stream_handler h" using 1 by (auto dest: set_zip_leftD)
  then show ?case by (simp add: pipeline_of_def pipeline_nil)
next
  case (2 s xs s' r ys s'' r')
  show ?case
  proof (cases "length s = length hs")
    case True
    obtain p1 where p1: "pipeline_handle_vector (zip hs s) xs = (p1, Inr r)" "s' = map snd p1"
      using 2(2) True by (auto simp: pipeline_of_def split: prod.splits)
    note z = pipeline_of_run [OF True p1(1)]
    obtain p2 where p2: "pipeline_handle_vector (zip hs s') ys = (p2, Inr r')" "s'' = map snd p2"
      using 2(3) z p1(2) by (auto simp: pipeline_of_def split: prod.splits)
    have "\<forall>(h, x) \<in> set (zip hs s). stream_handler h" using 2(1) by (auto dest: set_zip_leftD)
    from pipeline_stream [OF this p1(1)] p2 z p1(2) True show ?thesis by (simp add: pipeline_of_def)
  qed (use 2 in \<open>auto simp: pipeline_of_def\<close>)
qed

text \<open>A pipeline of handlers that inherit their vector overload.\<close>

interpretation handlers: stream_handler "pipeline_of (map handle_vector hs)" for hs
  by (rule pipeline_of_stream) (auto intro: vector.stream_handler_axioms)

end
