(* ===== verification/Group_Dispatcher.thy ===== *)
theory Group_Dispatcher
  imports Record_Batch_Handler
begin

text \<open>
  \<open>GroupDispatcher\<close> of \<open>src/src/record_batch_handlers/group_dispatcher.cpp\<close>: a handler for each
  group string of the batches, made by the factory when its first batch arrives. The handlers of a
  factory differ in their state only: the factory is the function \<open>h\<close> all of them run and the
  initial state \<open>create\<close>.
\<close>

type_synonym 's GroupDispatcher = "(string, 's) smap"

definition dispatcher_handle :: "arrow_lib \<Rightarrow> 's handler \<Rightarrow> 's \<Rightarrow> 's GroupDispatcher handler" where
  "dispatcher_handle A h create groups_states record_batch =
     (case extractGroupMetadata A record_batch of
        Inl e \<Rightarrow> (groups_states, Inl e)
      | Inr group_metadata \<Rightarrow>
          (let groups_states = (if map_of groups_states group_metadata = None
                                then smap_put group_metadata create groups_states else groups_states);
               (s, r) = h (the (map_of groups_states group_metadata)) record_batch
           in (smap_put group_metadata s groups_states, r)))"

section \<open>The groups do not interfere\<close>

text \<open>The state of a group, the initial one if it has not been seen; the batches of a group.\<close>

definition group_state :: "'s \<Rightarrow> 's GroupDispatcher \<Rightarrow> string \<Rightarrow> 's" where
  "group_state create groups_states g = (case map_of groups_states g of None \<Rightarrow> create | Some s \<Rightarrow> s)"

definition group_batches :: "arrow_lib \<Rightarrow> string \<Rightarrow> batch list \<Rightarrow> batch list" where
  "group_batches A g bs = filter (\<lambda>b. extractGroupMetadata A b = Inr g) bs"

lemma dispatcher_step:
  assumes "extractGroupMetadata A b = Inr g" and "h (group_state create st g) b = (s, r)"
  shows "\<exists>st'. dispatcher_handle A h create st b = (st', r) \<and>
    group_state create st' = (group_state create st)(g := s)"
  using assms by (auto simp: dispatcher_handle_def group_state_def fun_eq_iff Let_def split: option.splits)

lemma handle_vector_Inr_Cons:
  assumes "handle_vector h s (b # bs) = (s'', Inr r)"
  obtains s' x y where "h s b = (s', Inr x)" "handle_vector h s' bs = (s'', Inr y)" "r = x @ y"
  using assms
  by (cases "h s b"; cases "snd (h s b)"; cases "handle_vector h (fst (h s b)) bs")
    (auto simp: handle_vector_Cons rbind_eq_Inr_iff)

text \<open>When the inner handler succeeds on the batches of each group alone, the dispatcher succeeds on
  the stream: it leaves each group in the state the handler has after the batches of that group, and
  the results of the batches of a group are, in order, what the handler returns for them.\<close>

lemma dispatcher_isolates:
  assumes "\<forall>b \<in> set bs. \<exists>g. extractGroupMetadata A b = Inr g"
    and "\<forall>g. \<exists>r. handle_vector h (group_state create st g) (group_batches A g bs) = (final g, Inr r)"
  shows "\<exists>st' rss. handle_vector (dispatcher_handle A h create) st bs = (st', Inr (concat rss)) \<and>
    length rss = length bs \<and>
    (\<forall>g. group_state create st' g = final g \<and>
       handle_vector h (group_state create st g) (group_batches A g bs) =
         (final g, Inr (concat (map snd (filter (\<lambda>(b, _). extractGroupMetadata A b = Inr g) (zip bs rss))))))"
  using assms
proof (induction bs arbitrary: st)
  case Nil
  then show ?case by (simp add: group_batches_def)
next
  case (Cons b bs)
  obtain g where g: "extractGroupMetadata A b = Inr g" using Cons.prems(1) by auto
  obtain r where "handle_vector h (group_state create st g) (b # group_batches A g bs) = (final g, Inr r)"
    using Cons.prems(2) [rule_format, of g] g by (auto simp: group_batches_def)
  then obtain s x y where h: "h (group_state create st g) b = (s, Inr x)"
    and rest: "handle_vector h s (group_batches A g bs) = (final g, Inr y)"
    by (rule handle_vector_Inr_Cons)
  obtain st1 where d: "dispatcher_handle A h create st b = (st1, Inr x)"
    and st1: "group_state create st1 = (group_state create st)(g := s)"
    using dispatcher_step [of A b g h create st s "Inr x", OF g h] by blast
  have "\<exists>r. handle_vector h (group_state create st1 k) (group_batches A k bs) = (final k, Inr r)" for k
    using rest Cons.prems(2) [rule_format, of k] g by (cases "k = g") (simp_all add: st1 group_batches_def)
  then obtain st' rss where IH: "handle_vector (dispatcher_handle A h create) st1 bs = (st', Inr (concat rss))"
      "length rss = length bs"
    and groups: "\<And>k. group_state create st' k = final k \<and>
       handle_vector h (group_state create st1 k) (group_batches A k bs) =
         (final k, Inr (concat (map snd (filter (\<lambda>(b, _). extractGroupMetadata A b = Inr k) (zip bs rss)))))"
    using Cons.IH [of st1] Cons.prems(1) by auto
  have "handle_vector h (group_state create st k) (group_batches A k (b # bs)) =
      (final k, Inr (concat (map snd (filter (\<lambda>(b, _). extractGroupMetadata A b = Inr k) (zip (b # bs) (x # rss))))))"
    for k
    using groups [of k] h g
    by (cases "k = g") (simp_all add: st1 group_batches_def handle_vector_Cons)
  with IH groups d show ?case
    by (intro exI [of _ st'] exI [of _ "x # rss"]) (simp add: handle_vector_Cons)
qed

text \<open>A batch that fails leaves the other groups alone.\<close>

lemma dispatcher_error_local:
  assumes "dispatcher_handle A h create st b = (st', Inl e)" and "extractGroupMetadata A b \<noteq> Inr g"
  shows "group_state create st' g = group_state create st g"
proof (cases "extractGroupMetadata A b")
  case (Inr k)
  obtain s r where h: "h (group_state create st k) b = (s, r)" by force
  from dispatcher_step [of A b k h create, OF Inr h] assms Inr show ?thesis by auto
qed (use assms in \<open>simp add: dispatcher_handle_def\<close>)

end
