(* ===== verification/Simple_Handlers.thy ===== *)
theory Simple_Handlers
  imports Record_Batch_Handler Compute_Utils Metadata_Laws
begin

text \<open>
  The stateless handlers of \<open>src/src/record_batch_handlers/\<close>: \<open>GroupHandler\<close>, \<open>SortHandler\<close>,
  \<open>LogHandler\<close>, \<open>DefaultHandler\<close>, \<open>FilterHandler\<close>, \<open>MapHandler\<close>. Each is a function from its options
  and a batch to its result. Gandiva, which compiles and evaluates the conditions and expressions, is
  the record \<open>gandiva\<close> of its functions, passed as an argument.
\<close>

section \<open>Groups, sorting, logging\<close>

definition group_handle :: "arrow_lib \<Rightarrow> proto_lib \<Rightarrow> string list \<Rightarrow> batch \<Rightarrow> status + batch list" where
  "group_handle A P grouping_columns record_batch =
     rbind (groupSortingByColumns A grouping_columns record_batch) (\<lambda>grouped_record_batches.
       rmap (\<lambda>grp.
           rbind (fillGroupMetadata A P (copySchemaMetadata A record_batch grp) grouping_columns)
             (copyColumnTypes A record_batch))
         grouped_record_batches)"

definition sort_handle :: "arrow_lib \<Rightarrow> string list \<Rightarrow> batch \<Rightarrow> status + batch list" where
  "sort_handle A sort_by_columns record_batch =
     rbind (groupSortingByColumns A sort_by_columns record_batch) (\<lambda>sorted_record_batches.
     rbind (concatenateRecordBatches A sorted_record_batches) (\<lambda>sorted_record_batch.
     rbind (copyColumnTypes A record_batch (copySchemaMetadata A record_batch sorted_record_batch))
       (\<lambda>sorted_record_batch. Inr [sorted_record_batch])))"

definition log_handle :: "batch \<Rightarrow> status + batch list" where
  "log_handle record_batch = Inr [record_batch]"

section \<open>Default values\<close>

record 'v DefaultCase =
  default_value :: 'v
  default_column_type :: ColumnType

record DefaultHandlerOptions =
  int64_default_cases :: "(string, int DefaultCase) smap"
  double_default_cases :: "(string, double DefaultCase) smap"
  string_default_cases :: "(string, string DefaultCase) smap"
  bool_default_cases :: "(string, bool DefaultCase) smap"

text \<open>The body of the loop of \<open>addMissingColumn\<close>, the same in its four instances but for the builder
  and the type of the field.\<close>

definition add_missing_column ::
  "arrow_lib \<Rightarrow> arrow_type \<Rightarrow> ('v \<Rightarrow> scalar) \<Rightarrow> string \<times> 'v DefaultCase \<Rightarrow> batch \<Rightarrow> status + batch"
where
  "add_missing_column A ty scalar_of named_case record_batch =
     (let (column_name, default_case) = named_case in
      if GetFieldByName A (b_schema record_batch) column_name \<noteq> None then Inr record_batch
      else rbind (rfold (\<lambda>v b. Append A b (scalar_of v))
                   (replicate (b_num_rows record_batch) (default_value default_case)) (ty, [])) (\<lambda>builder.
           rbind (Finish A builder) (\<lambda>arr.
           rbind (setFieldTypeMetadata A (new_field column_name ty) (default_column_type default_case)) (\<lambda>field.
             AddColumn A record_batch (int (num_columns record_batch)) field arr))))"

definition addMissingColumn_int64 :: "arrow_lib \<Rightarrow> (string, int DefaultCase) smap \<Rightarrow> batch \<Rightarrow> status + batch" where
  "addMissingColumn_int64 A = rfold (add_missing_column A (Plain INT64) (int_scalar (Plain INT64)))"

definition addMissingColumn_double :: "arrow_lib \<Rightarrow> (string, double DefaultCase) smap \<Rightarrow> batch \<Rightarrow> status + batch" where
  "addMissingColumn_double A = rfold (add_missing_column A (Plain DOUBLE) double_scalar)"

definition addMissingColumn_string :: "arrow_lib \<Rightarrow> (string, string DefaultCase) smap \<Rightarrow> batch \<Rightarrow> status + batch" where
  "addMissingColumn_string A = rfold (add_missing_column A (Plain STRING) string_scalar)"

definition addMissingColumn_bool :: "arrow_lib \<Rightarrow> (string, bool DefaultCase) smap \<Rightarrow> batch \<Rightarrow> status + batch" where
  "addMissingColumn_bool A = rfold (add_missing_column A (Plain BOOL) bool_scalar)"

definition default_handle :: "arrow_lib \<Rightarrow> DefaultHandlerOptions \<Rightarrow> batch \<Rightarrow> status + batch list" where
  "default_handle A options record_batch =
     (let copy_record_batch = Make (b_schema record_batch) (b_num_rows record_batch) (b_columns record_batch) in
      rbind (addMissingColumn_int64 A (int64_default_cases options) copy_record_batch) (\<lambda>copy_record_batch.
      rbind (addMissingColumn_double A (double_default_cases options) copy_record_batch) (\<lambda>copy_record_batch.
      rbind (addMissingColumn_string A (string_default_cases options) copy_record_batch) (\<lambda>copy_record_batch.
      rbind (addMissingColumn_bool A (bool_default_cases options) copy_record_batch) (\<lambda>copy_record_batch.
      rbind (copyColumnTypes A record_batch (copySchemaMetadata A record_batch copy_record_batch))
        (\<lambda>copy_record_batch. Inr [copy_record_batch]))))))"

section \<open>Filters and maps\<close>

record ('node, 'condition, 'flt, 'selection, 'expression, 'projector) gandiva =
  condition_root :: "'condition \<Rightarrow> 'node"
  MakeAnd :: "'node list \<Rightarrow> 'node"
  MakeCondition :: "'node \<Rightarrow> 'condition"
  Filter_Make :: "schema \<Rightarrow> 'condition \<Rightarrow> status + 'flt"
  MakeInt64 :: "nat \<Rightarrow> status + 'selection"
  Filter_Evaluate :: "'flt \<Rightarrow> batch \<Rightarrow> 'selection \<Rightarrow> status + 'selection"
  ToArray :: "'selection \<Rightarrow> arrow_array"
  expression_result :: "'expression \<Rightarrow> arrow_field"
  Projector_Make :: "schema \<Rightarrow> 'expression list \<Rightarrow> status + 'projector"
  Projector_Evaluate :: "'projector \<Rightarrow> batch \<Rightarrow> status + arrow_array list"

definition createFilter :: "('n, 'c, 'f, 's, 'e, 'p) gandiva \<Rightarrow> 'c list \<Rightarrow> schema \<Rightarrow> status + 'f" where
  "createFilter G conditions sch =
     (if conditions = [] then Inl Invalid
      else if 1 < length conditions
      then Filter_Make G sch (MakeCondition G (MakeAnd G (map (condition_root G) conditions)))
      else Filter_Make G sch (last conditions))"

definition filter_handle ::
  "arrow_lib \<Rightarrow> ('n, 'c, 'f, 's, 'e, 'p) gandiva \<Rightarrow> 'c list \<Rightarrow> batch \<Rightarrow> status + batch list"
where
  "filter_handle A G conditions record_batch =
     rbind (createFilter G conditions (b_schema record_batch)) (\<lambda>flt.
     rbind (MakeInt64 G (b_num_rows record_batch)) (\<lambda>selection.
     rbind (Filter_Evaluate G flt record_batch selection) (\<lambda>selection.
     rbind (Take A record_batch (ToArray G selection)) (\<lambda>result_record_batch.
     rbind (copyColumnTypes A record_batch (copySchemaMetadata A record_batch result_record_batch))
       (\<lambda>result_record_batch. Inr [result_record_batch])))))"

text \<open>The members \<open>expressions_\<close> and \<open>column_types_\<close> of the map handler.\<close>

type_synonym 'e MapHandler = "'e list \<times> ColumnType list"

definition new_map_handler :: "('e \<times> ColumnType) list \<Rightarrow> 'e MapHandler" where
  "new_map_handler map_cases = (map fst map_cases, map snd map_cases)"

definition map_result_schema ::
  "arrow_lib \<Rightarrow> ('n, 'c, 'f, 's, 'e, 'p) gandiva \<Rightarrow> 'e MapHandler \<Rightarrow> schema \<Rightarrow> status + schema"
where
  "map_result_schema A G m input_schema =
     (let (expressions, column_types) = m in
      rbind (rfold (\<lambda>i result_fields.
           rbind (setFieldTypeMetadata A (expression_result G (expressions ! i)) (column_types ! i)) (\<lambda>field.
             Inr (result_fields @ [field])))
         [0..<length expressions] (sch_fields input_schema)) (\<lambda>result_fields.
       Inr \<lparr>sch_fields = result_fields, sch_metadata = None\<rparr>))"

text \<open>\<open>result_schema->field(i)\<close> beyond the end is undefined.\<close>

definition map_eval ::
  "arrow_lib \<Rightarrow> ('n, 'c, 'f, 's, 'e, 'p) gandiva \<Rightarrow> batch \<Rightarrow> 'p \<Rightarrow> schema \<Rightarrow> status + batch"
where
  "map_eval A G record_batch projector result_schema =
     (let input_schema_size = length (sch_fields (b_schema record_batch)) in
      rbind (Projector_Evaluate G projector record_batch) (\<lambda>result_arrays.
        rfold (\<lambda>i record_batch.
            if length (sch_fields result_schema) \<le> input_schema_size + i then Inl UndefinedBehaviour
            else AddColumn A record_batch (int (input_schema_size + i))
                   (sch_fields result_schema ! (input_schema_size + i)) (result_arrays ! i))
          [0..<length result_arrays] record_batch))"

definition map_handle ::
  "arrow_lib \<Rightarrow> ('n, 'c, 'f, 's, 'e, 'p) gandiva \<Rightarrow> 'e MapHandler \<Rightarrow> batch \<Rightarrow> status + batch list"
where
  "map_handle A G m record_batch =
     (let result_record_batch = Make (b_schema record_batch) (b_num_rows record_batch) (b_columns record_batch) in
      rbind (Projector_Make G (b_schema result_record_batch) (fst m)) (\<lambda>projector.
      rbind (map_result_schema A G m (b_schema result_record_batch)) (\<lambda>result_schema.
      rbind (map_eval A G result_record_batch projector result_schema) (\<lambda>result_record_batch.
        Inr [copySchemaMetadata A record_batch result_record_batch]))))"

section \<open>What the default handler adds\<close>

abbreviation field_names :: "batch \<Rightarrow> string list" where
  "field_names b \<equiv> map f_name (sch_fields (b_schema b))"

definition table_laws :: "arrow_lib \<Rightarrow> bool" where
  "table_laws A \<longleftrightarrow> metadata_laws A \<and> schema_laws A \<and> column_law A \<and> builder_laws A"

definition table :: "batch \<Rightarrow> bool" where
  "table b \<longleftrightarrow> wf_batch b \<and> distinct (field_names b)"

lemma append_all:
  "builder_laws A \<Longrightarrow> rfold (\<lambda>v b. Append A b (f v)) vs (ty, xs) = Inr (ty, xs @ map f vs)"
  by (induction vs arbitrary: xs) (simp_all add: builder_laws_def)

lemma column_lookup:
  assumes "table_laws A" and "table b"
  shows "GetColumnByName A b n = None \<longleftrightarrow> n \<notin> set (field_names b)"
    and "GetFieldByName A (b_schema b) n = None \<longleftrightarrow> n \<notin> set (field_names b)"
  using assms field_index_None [of "b_schema b" n] by (simp_all add: table_laws_def schema_laws_def table_def)

text \<open>A column appended under a new name.\<close>

definition append_field :: "arrow_field \<Rightarrow> arrow_array \<Rightarrow> batch \<Rightarrow> batch" where
  "append_field f a b =
     b\<lparr>b_schema := (b_schema b)\<lparr>sch_fields := sch_fields (b_schema b) @ [f]\<rparr>, b_columns := b_columns b @ [a]\<rparr>"

lemma append_field_table:
  assumes "table_laws A" and "table b" and "f_name f \<notin> set (field_names b)"
  shows "table (append_field f a b)" and "GetColumnByName A (append_field f a b) (f_name f) = Some a"
    and "\<And>n. n \<noteq> f_name f \<Longrightarrow> GetColumnByName A (append_field f a b) n = GetColumnByName A b n"
    and "field_names (append_field f a b) = field_names b @ [f_name f]"
    and "b_num_rows (append_field f a b) = b_num_rows b"
proof -
  let ?s = "(b_schema b)\<lparr>sch_fields := sch_fields (b_schema b) @ [f]\<rparr>"
  have l: "GetColumnByName A (append_field f a b) n = map_option ((!) (b_columns b @ [a])) (field_index ?s n)" for n
    using assms(1) by (simp add: table_laws_def schema_laws_def append_field_def)
  have len: "length (sch_fields (b_schema b)) = num_columns b" using assms(2) by (simp add: table_def wf_batch_def)
  show "table (append_field f a b)" using assms(2,3) by (auto simp: table_def append_field_def wf_batch_def)
  show "field_names (append_field f a b) = field_names b @ [f_name f]" "b_num_rows (append_field f a b) = b_num_rows b"
    by (simp_all add: append_field_def)
  show "GetColumnByName A (append_field f a b) (f_name f) = Some a"
    using assms(3) field_index_snoc_new [of f "b_schema b"] by (simp add: l len)
  fix n
  assume "n \<noteq> f_name f"
  then have i: "field_index ?s n = field_index (b_schema b) n" by (intro field_index_snoc_other) simp
  have "map_option ((!) (b_columns b @ [a])) (field_index (b_schema b) n) =
      map_option ((!) (b_columns b)) (field_index (b_schema b) n)"
    using field_index_Some(1) [of "b_schema b" n] len by (auto simp: nth_append intro!: option.map_cong0)
  moreover have "GetColumnByName A b n = map_option ((!) (b_columns b)) (field_index (b_schema b) n)"
    using assms(1) by (simp add: table_laws_def schema_laws_def)
  ultimately show "GetColumnByName A (append_field f a b) n = GetColumnByName A b n" by (simp only: l i)
qed

lemma add_missing_column_new:
  assumes "table_laws A" and "table b" and "n \<notin> set (field_names b)"
  shows "\<exists>f. add_missing_column A ty sc (n, c) b =
      Inr (append_field f \<lparr>a_type = ty, a_values = replicate (b_num_rows b) (sc (default_value c))\<rparr> b) \<and>
    f_name f = n \<and> getColumnType A f = Inr (default_column_type c)"
proof -
  have A: "metadata_laws A" "column_law A" "builder_laws A" using assms(1) by (simp_all add: table_laws_def)
  obtain f where f: "setFieldTypeMetadata A (new_field n ty) (default_column_type c) = Inr f"
    using setFieldTypeMetadata_total [OF A(1)] by blast
  then have k: "f_name f = n" "f_type f = ty" by (auto simp: setFieldTypeMetadata_def dest: setFieldMetadata_keeps)
  have t: "getColumnType A f = Inr (default_column_type c)" using setFieldTypeMetadata_type [OF A(1) f] .
  let ?a = "\<lparr>a_type = ty, a_values = replicate (b_num_rows b) (sc (default_value c))\<rparr>"
  have "AddColumn A b (int (num_columns b)) f ?a =
      Inr (b\<lparr>b_schema := (b_schema b)\<lparr>sch_fields := insert_at (num_columns b) f (sch_fields (b_schema b))\<rparr>,
             b_columns := insert_at (num_columns b) ?a (b_columns b)\<rparr>)"
    using A(2) k(2) by (auto simp: column_law_def)
  moreover have "insert_at (num_columns b) f (sch_fields (b_schema b)) = sch_fields (b_schema b) @ [f]"
    using assms(2) insert_at_end [of "sch_fields (b_schema b)" f] by (simp add: table_def wf_batch_def)
  ultimately have add: "AddColumn A b (int (num_columns b)) f ?a = Inr (append_field f ?a b)"
    by (simp add: append_field_def)
  have "GetFieldByName A (b_schema b) n = None" using column_lookup(2) [OF assms(1,2)] assms(3) by simp
  then have "add_missing_column A ty sc (n, c) b = Inr (append_field f ?a b)"
    using add f A(3) by (simp add: add_missing_column_def append_all builder_laws_def)
  with k t show ?thesis by blast
qed

lemma add_missing_column_present:
  "table_laws A \<Longrightarrow> table b \<Longrightarrow> n \<in> set (field_names b) \<Longrightarrow> add_missing_column A ty sc (n, c) b = Inr b"
  using column_lookup(2) by (auto simp: add_missing_column_def)

text \<open>The batch \<open>b'\<close> has the columns of \<open>b\<close>, and under the new names of \<open>cases\<close> the default values.\<close>

definition with_defaults ::
  "arrow_lib \<Rightarrow> arrow_type \<Rightarrow> ('v \<Rightarrow> scalar) \<Rightarrow> (string \<times> 'v DefaultCase) list \<Rightarrow> batch \<Rightarrow> batch \<Rightarrow> bool"
where
  "with_defaults A ty sc cases b b' \<longleftrightarrow>
     table b' \<and> b_num_rows b' = b_num_rows b \<and> set (field_names b') = set (field_names b) \<union> fst ` set cases \<and>
     (\<forall>n \<in> set (field_names b). GetColumnByName A b' n = GetColumnByName A b n) \<and>
     (\<forall>(n, c) \<in> set cases. n \<notin> set (field_names b) \<longrightarrow>
        GetColumnByName A b' n = Some \<lparr>a_type = ty, a_values = replicate (b_num_rows b) (sc (default_value c))\<rparr>)"

lemma add_missing_columns:
  assumes "table_laws A" and "table b" and "distinct (map fst cases)"
  shows "\<exists>b'. rfold (add_missing_column A ty sc) cases b = Inr b' \<and> with_defaults A ty sc cases b b'"
  using assms(2,3)
proof (induction cases arbitrary: b)
  case Nil
  then show ?case by (simp add: with_defaults_def)
next
  case (Cons nc cases)
  obtain n c where nc: "nc = (n, c)" by force
  show ?case
  proof (cases "n \<in> set (field_names b)")
    case True
    obtain b' where b': "rfold (add_missing_column A ty sc) cases b = Inr b'" "with_defaults A ty sc cases b b'"
      using Cons.IH [OF Cons.prems(1)] Cons.prems(2) by auto
    then have "with_defaults A ty sc (nc # cases) b b'" using True unfolding with_defaults_def nc by auto
    moreover have "rfold (add_missing_column A ty sc) (nc # cases) b = Inr b'"
      using add_missing_column_present [OF assms(1) Cons.prems(1) True, of ty sc c] b'(1) by (simp add: nc)
    ultimately show ?thesis by blast
  next
    case False
    let ?a = "\<lparr>a_type = ty, a_values = replicate (b_num_rows b) (sc (default_value c))\<rparr>"
    obtain f where f: "add_missing_column A ty sc (n, c) b = Inr (append_field f ?a b)" "f_name f = n"
      using add_missing_column_new [OF assms(1) Cons.prems(1) False] by blast
    have "f_name f \<notin> set (field_names b)" using f(2) False by simp
    note t = append_field_table [OF assms(1) Cons.prems(1) this, where a = ?a]
    obtain b' where b': "rfold (add_missing_column A ty sc) cases (append_field f ?a b) = Inr b'"
      and w: "with_defaults A ty sc cases (append_field f ?a b) b'"
      using Cons.IH [OF t(1)] Cons.prems(2) by auto
    have n: "n \<notin> fst ` set cases" using Cons.prems(2) by (simp add: nc)
    have old: "GetColumnByName A b' m = GetColumnByName A (append_field f ?a b) m"
      if "m = n \<or> m \<in> set (field_names b)" for m
      using w that f(2) unfolding with_defaults_def t(4) by auto
    have "GetColumnByName A b' m = GetColumnByName A b m" if "m \<in> set (field_names b)" for m
    proof -
      have "m \<noteq> f_name f" using that False f(2) by blast
      with old [of m] t(3) [of m] that show ?thesis by simp
    qed
    moreover have "GetColumnByName A b' n = Some ?a" using old [of n] t(2) f(2) by simp
    moreover have "GetColumnByName A b' m = Some \<lparr>a_type = ty, a_values = replicate (b_num_rows b) (sc (default_value d))\<rparr>"
      if "(m, d) \<in> set cases" and "m \<notin> set (field_names b)" for m d
    proof -
      have "m \<noteq> n" using n that(1) by force
      with that f(2) have "m \<notin> set (field_names (append_field f ?a b))" unfolding t(4) by simp
      with w that(1) show ?thesis unfolding with_defaults_def t(5) by blast
    qed
    moreover have "table b'" "b_num_rows b' = b_num_rows b"
      "set (field_names b') = set (field_names b) \<union> fst ` set (nc # cases)"
      using w f(2) unfolding with_defaults_def t(4,5) nc by auto
    ultimately have "with_defaults A ty sc (nc # cases) b b'"
      unfolding with_defaults_def nc by auto
    then show ?thesis using b' f by (simp add: nc)
  qed
qed

lemma copyColumnTypes_total:
  assumes "metadata_laws A" and "schema_laws A"
  shows "copyColumnTypes A src to = Inr to"
proof -
  have step: "(case GetFieldByName A (b_schema to) (f_name f) of
         None \<Rightarrow> Inr to
       | Some to_field \<Rightarrow>
           if field_Equals A to_field f
           then rbind (getColumnType A f) (\<lambda>ty.
                  rbind (setFieldTypeMetadata A to_field ty) (\<lambda>to_field.
                    rbind (SetField A (b_schema to) (GetFieldIndex A (b_schema to) (f_name f)) to_field)
                      (\<lambda>_. Inr to)))
           else Inr to) = Inr to" for f
  proof (cases "field_index (b_schema to) (f_name f)")
    case None
    then show ?thesis using assms(2) by (simp add: schema_laws_def)
  next
    case (Some i)
    obtain ty g where "getColumnType A f = Inr ty" "setFieldTypeMetadata A (sch_fields (b_schema to) ! i) ty = Inr g"
      using getColumnType_total [OF assms(1)] setFieldTypeMetadata_total [OF assms(1)] by metis
    with Some field_index_Some(1) [OF Some] assms(2) show ?thesis by (auto simp: schema_laws_def)
  qed
  show ?thesis unfolding copyColumnTypes_def by (rule rfold_const) (rule step)
qed

lemma with_defaults_old:
  "with_defaults A ty sc cases b b' \<Longrightarrow> n \<in> set (field_names b) \<Longrightarrow> GetColumnByName A b' n = GetColumnByName A b n"
  unfolding with_defaults_def by blast

lemma with_defaults_new:
  "with_defaults A ty sc cases b b' \<Longrightarrow> (n, c) \<in> set cases \<Longrightarrow> n \<notin> set (field_names b) \<Longrightarrow>
   GetColumnByName A b' n = Some \<lparr>a_type = ty, a_values = replicate (b_num_rows b) (sc (default_value c))\<rparr>"
  unfolding with_defaults_def by blast

lemma with_defaults_names:
  "with_defaults A ty sc cases b b' \<Longrightarrow> set (field_names b') = set (field_names b) \<union> fst ` set cases"
  by (simp add: with_defaults_def)

text \<open>The default handler keeps every column and fills in the missing ones, the kind of value that
  comes first in the order int64, double, string, bool deciding for a name given twice.\<close>

definition defaulted ::
  "DefaultHandlerOptions \<Rightarrow> nat \<Rightarrow> string \<Rightarrow> arrow_array option"
where
  "defaulted options n name =
     (case map_of (int64_default_cases options) name of
        Some c \<Rightarrow> Some \<lparr>a_type = Plain INT64, a_values = replicate n (int_scalar (Plain INT64) (default_value c))\<rparr>
      | None \<Rightarrow> (case map_of (double_default_cases options) name of
        Some c \<Rightarrow> Some \<lparr>a_type = Plain DOUBLE, a_values = replicate n (double_scalar (default_value c))\<rparr>
      | None \<Rightarrow> (case map_of (string_default_cases options) name of
        Some c \<Rightarrow> Some \<lparr>a_type = Plain STRING, a_values = replicate n (string_scalar (default_value c))\<rparr>
      | None \<Rightarrow> (case map_of (bool_default_cases options) name of
        Some c \<Rightarrow> Some \<lparr>a_type = Plain BOOL, a_values = replicate n (bool_scalar (default_value c))\<rparr>
      | None \<Rightarrow> None))))"

lemma with_defaults_lookup:
  assumes "table_laws A" and "table b" and "with_defaults A ty sc cases b b'" and "distinct (map fst cases)"
  shows "GetColumnByName A b' n =
    (case GetColumnByName A b n of
       Some a \<Rightarrow> Some a
     | None \<Rightarrow> (case map_of cases n of
         None \<Rightarrow> None
       | Some c \<Rightarrow> Some \<lparr>a_type = ty, a_values = replicate (b_num_rows b) (sc (default_value c))\<rparr>))"
proof (cases "n \<in> set (field_names b)")
  case True
  then obtain a where "GetColumnByName A b n = Some a" using column_lookup(1) [OF assms(1,2), of n] by auto
  with with_defaults_old [OF assms(3) True] show ?thesis by simp
next
  case False
  then have b: "GetColumnByName A b n = None" using column_lookup(1) [OF assms(1,2), of n] by simp
  show ?thesis
  proof (cases "map_of cases n")
    case None
    then have "n \<notin> set (field_names b')"
      using False with_defaults_names [OF assms(3)] by (auto simp: map_of_eq_None_iff)
    moreover have "table b'" using assms(3) by (simp add: with_defaults_def)
    ultimately have "GetColumnByName A b' n = None" using column_lookup(1) [OF assms(1)] by blast
    with None b show ?thesis by simp
  next
    case (Some c)
    with with_defaults_new [OF assms(3) map_of_SomeD [OF Some] False] b show ?thesis by simp
  qed
qed

lemma default_handle_columns:
  assumes "table_laws A" and "table b"
    and "smap (int64_default_cases options)" and "smap (double_default_cases options)"
    and "smap (string_default_cases options)" and "smap (bool_default_cases options)"
  shows "\<exists>b'. default_handle A options b = Inr [b'] \<and> b_num_rows b' = b_num_rows b \<and>
    (\<forall>n. GetColumnByName A b' n =
       (case GetColumnByName A b n of Some a \<Rightarrow> Some a | None \<Rightarrow> defaulted options (b_num_rows b) n))"
proof -
  note d = assms(3-6) [THEN smap_distinct]
  obtain b1 where b1: "addMissingColumn_int64 A (int64_default_cases options) b = Inr b1"
      "with_defaults A (Plain INT64) (int_scalar (Plain INT64)) (int64_default_cases options) b b1"
    unfolding addMissingColumn_int64_def using add_missing_columns [OF assms(1,2) d(1)] by blast
  then have t1: "table b1" "b_num_rows b1 = b_num_rows b" by (simp_all add: with_defaults_def)
  obtain b2 where b2: "addMissingColumn_double A (double_default_cases options) b1 = Inr b2"
      "with_defaults A (Plain DOUBLE) double_scalar (double_default_cases options) b1 b2"
    unfolding addMissingColumn_double_def using add_missing_columns [OF assms(1) t1(1) d(2)] by blast
  then have t2: "table b2" "b_num_rows b2 = b_num_rows b" using t1 by (simp_all add: with_defaults_def)
  obtain b3 where b3: "addMissingColumn_string A (string_default_cases options) b2 = Inr b3"
      "with_defaults A (Plain STRING) string_scalar (string_default_cases options) b2 b3"
    unfolding addMissingColumn_string_def using add_missing_columns [OF assms(1) t2(1) d(3)] by blast
  then have t3: "table b3" "b_num_rows b3 = b_num_rows b" using t2 by (simp_all add: with_defaults_def)
  obtain b4 where b4: "addMissingColumn_bool A (bool_default_cases options) b3 = Inr b4"
      "with_defaults A (Plain BOOL) bool_scalar (bool_default_cases options) b3 b4"
    unfolding addMissingColumn_bool_def using add_missing_columns [OF assms(1) t3(1) d(4)] by blast
  let ?b = "copySchemaMetadata A b b4"
  have "default_handle A options b = Inr [?b]"
    using b1(1) b2(1) b3(1) b4(1) assms(1) copyColumnTypes_total
    by (simp add: default_handle_def Let_def table_laws_def)
  moreover have "b_num_rows ?b = b_num_rows b"
    using b4(2) t3 by (simp add: copySchemaMetadata_def with_defaults_def)
  moreover have "GetColumnByName A ?b n = GetColumnByName A b4 n" for n
    using assms(1) by (simp add: copySchemaMetadata_def table_laws_def schema_laws_def field_index_def)
  moreover have "GetColumnByName A b4 n =
       (case GetColumnByName A b n of Some a \<Rightarrow> Some a | None \<Rightarrow> defaulted options (b_num_rows b) n)" for n
    using with_defaults_lookup [OF assms(1,2) b1(2) d(1), of n] with_defaults_lookup [OF assms(1) t1(1) b2(2) d(2), of n]
      with_defaults_lookup [OF assms(1) t2(1) b3(2) d(3), of n] with_defaults_lookup [OF assms(1) t3(1) b4(2) d(4), of n]
    by (simp add: t1 t2 t3 defaulted_def split: option.split)
  ultimately show ?thesis by (intro exI [of _ ?b]) simp
qed

end
