(* ===== verification/Group_Sort.thy ===== *)
theory Group_Sort
  imports Compute_Utils
begin

text \<open>
  What \<open>groupSortingByColumns\<close> (\<open>src/src/utils/compute_utils.cpp\<close>) computes: the rows of the batch,
  cut into groups of rows that agree in the columns, the groups in the order of their keys, the rows of
  a group in the order of the batch. \<open>rows b\<close> are the rows of the batch, \<open>key c r\<close> is the cell of the
  row in column \<open>c\<close>; a column is present when it is in \<open>present\<close>.
\<close>

section \<open>What the algorithm relies on in Arrow\<close>

text \<open>For each present column of a batch: sorting is stable and by the cells, the scalar of a cell is
  equal to another just when the cells are, and the comparison with the first cell selects the rows
  that have it.\<close>

definition group_column_ok ::
  "arrow_lib \<Rightarrow> (batch \<Rightarrow> bool) \<Rightarrow> (batch \<Rightarrow> 'r list) \<Rightarrow> (string \<Rightarrow> 'r \<Rightarrow> 'k::linorder) \<Rightarrow> string \<Rightarrow> batch \<Rightarrow> bool"
where
  "group_column_ok A good rows key c b \<longleftrightarrow>
     (\<exists>col. GetColumnByName A b c = Some col \<and> type_id (a_type col) \<noteq> TIMESTAMP \<and>
        (\<exists>idx b'. SortIndices A col = Inr idx \<and> Take A b idx = Inr b' \<and> good b' \<and>
           rows b' = sort_key (key c) (rows b)) \<and>
        a_length col = length (rows b) \<and>
        (rows b \<noteq> [] \<longrightarrow>
          (\<exists>lo hi eq ne b1 b2. GetScalar A col 0 = Inr lo \<and> GetScalar A col (int (length (rows b)) - 1) = Inr hi \<and>
             (scalar_Equals A lo hi \<longleftrightarrow> key c (hd (rows b)) = key c (last (rows b))) \<and>
             CompareEqual A col lo = Inr eq \<and> Filter A b eq = Inr b1 \<and> good b1 \<and>
             rows b1 = filter (\<lambda>r. key c r = key c (hd (rows b))) (rows b) \<and>
             CompareNotEqual A col lo = Inr ne \<and> Filter A b ne = Inr b2 \<and> good b2 \<and>
             rows b2 = filter (\<lambda>r. key c r \<noteq> key c (hd (rows b))) (rows b))))"

definition group_laws ::
  "arrow_lib \<Rightarrow> (batch \<Rightarrow> bool) \<Rightarrow> (batch \<Rightarrow> 'r list) \<Rightarrow> string set \<Rightarrow> (string \<Rightarrow> 'r \<Rightarrow> 'k::linorder) \<Rightarrow> bool"
where
  "group_laws A good rows present key \<longleftrightarrow>
     (\<forall>c \<in> present. \<forall>b. good b \<longrightarrow> group_column_ok A good rows key c b) \<and>
     (\<forall>b c. good b \<longrightarrow> c \<notin> present \<longrightarrow> GetColumnByName A b c = None)"

section \<open>Splitting by keys\<close>

text \<open>Splitting by one key after the other, as the recursion does.\<close>

fun split_rows :: "('r \<Rightarrow> 'k::linorder) list \<Rightarrow> 'r list \<Rightarrow> 'r list list" where
  "split_rows [] rs = [rs]"
| "split_rows (k # ks) rs =
     concat (map (\<lambda>x. split_rows ks (filter (\<lambda>r. k r = x) rs)) (sorted_list_of_set (k ` set rs)))"

definition tuple :: "('r \<Rightarrow> 'k) list \<Rightarrow> 'r \<Rightarrow> 'k list" where
  "tuple ks r = map (\<lambda>k. k r) ks"

lemma tuple_Cons [simp]: "tuple (k # ks) r = k r # tuple ks r"
  by (simp add: tuple_def)

text \<open>The groups by the tuple of keys, in lexicographic order.\<close>

definition key_groups :: "('r \<Rightarrow> 'k::linorder) list \<Rightarrow> 'r list \<Rightarrow> 'r list list" where
  "key_groups ks rs = map (\<lambda>t. filter (\<lambda>r. tuple ks r = t) rs) (sorted_list_of_set (tuple ks ` set rs))"

lemma sorted_concat_tuples:
  assumes "sorted_wrt (<) xs" and "\<And>x. x \<in> set xs \<Longrightarrow> sorted_wrt (<) (ts x)"
  shows "sorted_wrt (<) (concat (map (\<lambda>x. map ((#) x) (ts x)) (xs :: 'k::linorder list)))"
  using assms
proof (induction xs)
  case (Cons x xs)
  have "sorted_wrt (<) (map ((#) x) (ts x))" using Cons.prems(2) [of x] by (simp add: sorted_wrt_map)
  moreover have "\<forall>u \<in> set (map ((#) x) (ts x)). \<forall>v \<in> set (concat (map (\<lambda>x. map ((#) x) (ts x)) xs)). u < v"
    using Cons.prems(1) by auto
  ultimately show ?case using Cons by (simp add: sorted_wrt_append)
qed simp

lemma tuples_by_head:
  "sorted_list_of_set (tuple (k # ks) ` set rs) =
   concat (map (\<lambda>x. map ((#) x) (sorted_list_of_set (tuple ks ` set (filter (\<lambda>r. k r = x) rs))))
     (sorted_list_of_set (k ` set rs)))"
proof (rule sorted_distinct_set_unique)
  let ?xs = "sorted_list_of_set (k ` set rs)"
  let ?ts = "\<lambda>x. sorted_list_of_set (tuple ks ` set (filter (\<lambda>r. k r = x) rs))"
  have s: "sorted_wrt (<) (concat (map (\<lambda>x. map ((#) x) (?ts x)) ?xs))"
    by (intro sorted_concat_tuples) (simp_all add: strict_sorted_iff)
  then show "sorted (concat (map (\<lambda>x. map ((#) x) (?ts x)) ?xs))"
    and "distinct (concat (map (\<lambda>x. map ((#) x) (?ts x)) ?xs))"
    by (simp_all add: strict_sorted_iff)
  show "set (sorted_list_of_set (tuple (k # ks) ` set rs)) = set (concat (map (\<lambda>x. map ((#) x) (?ts x)) ?xs))"
    by (auto simp: image_iff) metis
qed simp_all

lemma split_rows_groups: "rs \<noteq> [] \<Longrightarrow> split_rows ks rs = key_groups ks rs"
proof (induction ks arbitrary: rs)
  case Nil
  then have t: "tuple [] ` set rs = {[]}" by (cases rs) (auto simp: tuple_def)
  show ?case unfolding key_groups_def t by (simp add: tuple_def)
next
  case (Cons k ks)
  have "split_rows ks (filter (\<lambda>r. k r = x) rs) = key_groups ks (filter (\<lambda>r. k r = x) rs)" if "x \<in> k ` set rs" for x
    using that by (intro Cons.IH) (auto simp: filter_empty_conv)
  then have "split_rows (k # ks) rs =
      concat (map (\<lambda>x. key_groups ks (filter (\<lambda>r. k r = x) rs)) (sorted_list_of_set (k ` set rs)))"
    by (auto intro!: arg_cong [where f = concat])
  also have "\<dots> = key_groups (k # ks) rs"
    unfolding key_groups_def tuples_by_head map_concat map_map comp_def
    by (simp add: conj_commute eq_commute)
  finally show ?case .
qed

text \<open>The groups are a partition of the rows into non-empty groups with different keys.\<close>

lemma key_groups_nonempty: "g \<in> set (key_groups ks rs) \<Longrightarrow> g \<noteq> []"
  by (auto simp: key_groups_def filter_empty_conv)

lemma key_groups_length: "sum_list (map length (key_groups ks rs)) = length rs"
proof -
  let ?T = "tuple ks ` set rs"
  have "sum_list (map length (key_groups ks rs)) = (\<Sum>t \<in> ?T. length (filter (\<lambda>r. tuple ks r = t) rs))"
    by (simp add: key_groups_def comp_def sum_list_distinct_conv_sum_set)
  also have "\<dots> = length rs"
    using sum_count_set [of "map (tuple ks) rs" "?T"] by (simp add: count_list_eq_length_filter filter_map comp_def eq_commute [of "tuple ks _"])
  finally show ?thesis .
qed

section \<open>The algorithm\<close>

lemma group_column:
  assumes "group_laws A good rows present key" and "c \<in> present" and "good b"
  obtains col idx b' where "GetColumnByName A b c = Some col" and "sortByColumn A c b = Inr b'" and "good b'"
    and "rows b' = sort_key (key c) (rows b)"
proof -
  from assms obtain col idx b' where "GetColumnByName A b c = Some col" "type_id (a_type col) \<noteq> TIMESTAMP"
      "SortIndices A col = Inr idx" "Take A b idx = Inr b'" "good b'" "rows b' = sort_key (key c) (rows b)"
    unfolding group_laws_def group_column_ok_def by (elim conjE) (drule (1) bspec, drule spec, drule (1) mp, blast)
  then show thesis by (intro that [of col b']) (simp_all add: sortByColumn_def)
qed

lemma group_absent: "group_laws A good rows present key \<Longrightarrow> good b \<Longrightarrow> c \<notin> present \<Longrightarrow> GetColumnByName A b c = None"
  by (simp add: group_laws_def)

lemma least_key:
  assumes "sorted (map f rs)" and "rs \<noteq> []"
  shows "sorted_list_of_set (f ` set rs) =
    f (hd rs) # sorted_list_of_set (f ` set (filter (\<lambda>r. f r \<noteq> f (hd rs)) rs))"
proof (rule sorted_distinct_set_unique)
  have le: "\<forall>r \<in> set rs. f (hd rs) \<le> f r" using assms by (cases rs) auto
  then show "sorted (f (hd rs) # sorted_list_of_set (f ` set (filter (\<lambda>r. f r \<noteq> f (hd rs)) rs)))" by auto
  show "distinct (f (hd rs) # sorted_list_of_set (f ` set (filter (\<lambda>r. f r \<noteq> f (hd rs)) rs)))" by auto
  show "set (sorted_list_of_set (f ` set rs)) =
      set (f (hd rs) # sorted_list_of_set (f ` set (filter (\<lambda>r. f r \<noteq> f (hd rs)) rs)))"
    using assms(2) hd_in_set [OF assms(2)] by (auto simp: image_iff)
qed simp_all

lemma split_rows_head:
  assumes "sorted (map f rs)" and "rs \<noteq> []"
  shows "split_rows (f # fs) rs =
    split_rows fs (filter (\<lambda>r. f r = f (hd rs)) rs) @
    split_rows (f # fs) (filter (\<lambda>r. f r \<noteq> f (hd rs)) rs)"
proof -
  have "filter (\<lambda>r. f r = x) (filter (\<lambda>r. f r \<noteq> f (hd rs)) rs) = filter (\<lambda>r. f r = x) rs"
    if "x \<in> f ` set (filter (\<lambda>r. f r \<noteq> f (hd rs)) rs)" for x
    using that by (auto intro!: filter_cong)
  then show ?thesis
    unfolding split_rows.simps least_key [OF assms] by (auto intro!: arg_cong [where f = concat])
qed

lemma sorted_one_key:
  assumes "sorted (map f rs)" and "rs \<noteq> []" and "f (hd rs) = f (last rs)"
  shows "filter (\<lambda>r. f r \<noteq> f (hd rs)) rs = []"
proof -
  have "f r = f (hd rs)" if r: "r \<in> set rs" for r
  proof (rule antisym)
    obtain i where i: "i < length rs" "rs ! i = r" using r by (metis in_set_conv_nth)
    then have "map f rs ! i \<le> map f rs ! (length rs - 1)" using assms(1) by (intro sorted_nth_mono) auto
    with i assms(2,3) show "f r \<le> f (hd rs)" by (simp add: last_conv_nth)
    show "f (hd rs) \<le> f r" using assms(1) r by (cases rs) auto
  qed
  then show ?thesis by (simp add: filter_empty_conv)
qed

text \<open>The loop over the values of a column, with a recursive call that splits by the other columns.\<close>

lemma sort_loop_splits:
  assumes "group_laws A good rows present key" and "c \<in> present"
    and "\<And>b targets. good b \<Longrightarrow> rows b \<noteq> [] \<Longrightarrow>
      \<exists>bs. k b targets = Inr (targets @ bs) \<and> list_all good bs \<and> map rows bs = split_rows ks (rows b)"
    and "good b" and "rows b \<noteq> []" and "sorted (map (key c) (rows b))"
  shows "\<exists>bs. sort_loop A c k b targets = Some (Inr (targets @ bs)) \<and> list_all good bs \<and>
    map rows bs = split_rows (key c # ks) (rows b)"
  using assms(4-)
proof (induction "length (rows b)" arbitrary: b targets rule: less_induct)
  case less
  let ?f = "key c" and ?x = "key c (hd (rows b))"
  have ok: "group_column_ok A good rows key c b" using assms(1,2) less.prems(1) by (simp add: group_laws_def)
  obtain col lo hi eq ne b1 b2 where col: "GetColumnByName A b c = Some col" "a_length col = length (rows b)"
    and g: "GetScalar A col 0 = Inr lo" "GetScalar A col (int (length (rows b)) - 1) = Inr hi"
      "scalar_Equals A lo hi \<longleftrightarrow> ?x = ?f (last (rows b))"
    and b1: "CompareEqual A col lo = Inr eq" "Filter A b eq = Inr b1" "good b1" "rows b1 = filter (\<lambda>r. ?f r = ?x) (rows b)"
    and b2: "CompareNotEqual A col lo = Inr ne" "Filter A b ne = Inr b2" "good b2" "rows b2 = filter (\<lambda>r. ?f r \<noteq> ?x) (rows b)"
    using ok less.prems(2) unfolding group_column_ok_def
    by - (elim exE conjE, erule impE, assumption, elim exE conjE, rule that; assumption)
  have "rows b1 \<noteq> []" using less.prems(2) hd_in_set by (force simp: b1(4) filter_empty_conv)
  then obtain bs1 where k: "k b1 targets = Inr (targets @ bs1)" "list_all good bs1" "map rows bs1 = split_rows ks (rows b1)"
    using assms(3) [OF b1(3)] by blast
  note split = split_rows_head [OF less.prems(3,2), of ks]
  show ?case
  proof (cases "?x = ?f (last (rows b))")
    case True
    then have "map rows bs1 = split_rows (?f # ks) (rows b)"
      using sorted_one_key [OF less.prems(3,2)] split k(3) by (simp add: b1(4))
    moreover have "sort_loop A c k b targets = Some (Inr (targets @ bs1))"
      using True by (subst sort_loop.simps) (simp add: col g b1 k)
    ultimately show ?thesis using k(2) by blast
  next
    case False
    have last: "last (rows b) \<in> set (rows b2)" using False less.prems(2) by (simp add: b2(4))
    then have ne: "rows b2 \<noteq> []" by auto
    have "length (rows b2) < length (rows b)"
      unfolding b2(4) by (rule length_filter_less [of "hd (rows b)"]) (use less.prems(2) in simp_all)
    moreover have "sorted (map ?f (rows b2))" unfolding b2(4) using less.prems(3) by (rule sorted_filter)
    ultimately obtain bs2 where r: "sort_loop A c k b2 (targets @ bs1) = Some (Inr ((targets @ bs1) @ bs2))"
        "list_all good bs2" "map rows bs2 = split_rows (?f # ks) (rows b2)"
      using less.hyps [of b2 "targets @ bs1"] b2(3) ne by blast
    have "sort_loop A c k b targets = sort_loop A c k b2 (targets @ bs1)"
      using False by (subst sort_loop.simps) (simp add: col g b1 b2 k)
    with r k split show ?thesis by (intro exI [of _ "bs1 @ bs2"]) (simp add: b1(4) b2(4))
  qed
qed

lemma filter_sort_key: "filter (\<lambda>r. f r = x) (sort_key f rs) = filter (\<lambda>r. f r = x) rs"
  by (rule sort_key_stable)

lemma split_rows_sort: "split_rows (f # fs) (sort_key f rs) = split_rows (f # fs) rs"
  by (simp add: filter_sort_key)

lemma sort_columns_splits:
  assumes "group_laws A good rows present key" and "good b" and "rows b \<noteq> []"
  shows "\<exists>bs. sort_columns A cs b targets = Inr (targets @ bs) \<and> list_all good bs \<and>
    map rows bs = split_rows (map key (filter (\<lambda>c. c \<in> present) cs)) (rows b)"
  using assms(2,3)
proof (induction cs arbitrary: b targets)
  case Nil
  then show ?case by (intro exI [of _ "[b]"]) simp
next
  case (Cons c cs)
  show ?case
  proof (cases "c \<in> present")
    case False
    then show ?thesis using group_absent [OF assms(1) Cons.prems(1) False] Cons.IH [OF Cons.prems] by simp
  next
    case True
    obtain col b' where s: "GetColumnByName A b c = Some col" "sortByColumn A c b = Inr b'" "good b'"
        "rows b' = sort_key (key c) (rows b)"
      using group_column [OF assms(1) True Cons.prems(1)] by metis
    have ne: "rows b' \<noteq> []" using Cons.prems(2) s(4) by (metis length_0_conv length_sort)
    have "sorted (map (key c) (rows b'))" by (simp add: s(4))
    from sort_loop_splits [OF assms(1) True Cons.IH s(3) ne this]
    obtain bs where "sort_loop A c (sort_columns A cs) b' targets = Some (Inr (targets @ bs))" "list_all good bs"
        "map rows bs = split_rows (key c # map key (filter (\<lambda>c. c \<in> present) cs)) (rows b')"
      by blast
    with True s show ?thesis by (simp only: split_rows_sort) simp
  qed
qed

text \<open>The groups of the batch: for each tuple of keys that occurs, in lexicographic order, the rows
  that have it, in the order of the batch.\<close>

lemma groupSortingByColumns_groups:
  assumes "group_laws A good rows present key" and "good b" and "rows b \<noteq> []"
  shows "\<exists>bs. groupSortingByColumns A cs b = Inr bs \<and> list_all good bs \<and>
    map rows bs = key_groups (map key (filter (\<lambda>c. c \<in> present) cs)) (rows b)"
  using sort_columns_splits [OF assms, of cs "[]"]
  by (simp only: groupSortingByColumns_def append_Nil split_rows_groups [OF assms(3)])

end
