(* ===== verification/Aggregate_Functions.thy ===== *)
theory Aggregate_Functions
  imports Metadata Compute_Utils Handler_Options
begin

text \<open>
  \<open>src/src/record_batch_handlers/aggregate_functions/\<close>. \<open>MinMax\<close> returns the pair of the struct
  scalar's members, minimum first.
\<close>

definition first_last_rows :: "arrow_lib \<Rightarrow> batch \<Rightarrow> status + int \<times> int" where
  "first_last_rows A data =
     rbind (getTimeColumnNameMetadata A data) (\<lambda>time_column_name.
       case GetColumnByName A data time_column_name of
         None \<Rightarrow> Inl Invalid
       | Some ts_column \<Rightarrow> argMinMax A ts_column)"

definition FirstAggregateFunction :: "arrow_lib \<Rightarrow> batch \<Rightarrow> string \<Rightarrow> status + scalar" where
  "FirstAggregateFunction A data column_name =
     rbind (first_last_rows A data) (\<lambda>arg_min_max.
       deref (GetColumnByName A data column_name) (\<lambda>c. GetScalar A c (fst arg_min_max)))"

definition LastAggregateFunction :: "arrow_lib \<Rightarrow> batch \<Rightarrow> string \<Rightarrow> status + scalar" where
  "LastAggregateFunction A data column_name =
     rbind (first_last_rows A data) (\<lambda>arg_min_max.
       deref (GetColumnByName A data column_name) (\<lambda>c. GetScalar A c (snd arg_min_max)))"

definition MaxAggregateFunction :: "arrow_lib \<Rightarrow> batch \<Rightarrow> string \<Rightarrow> status + scalar" where
  "MaxAggregateFunction A data column_name =
     deref (GetColumnByName A data column_name) (\<lambda>c. rbind (MinMax A c) (\<lambda>min_max. Inr (snd min_max)))"

definition MinAggregateFunction :: "arrow_lib \<Rightarrow> batch \<Rightarrow> string \<Rightarrow> status + scalar" where
  "MinAggregateFunction A data column_name =
     deref (GetColumnByName A data column_name) (\<lambda>c. rbind (MinMax A c) (\<lambda>min_max. Inr (fst min_max)))"

definition MeanAggregateFunction :: "arrow_lib \<Rightarrow> batch \<Rightarrow> string \<Rightarrow> status + scalar" where
  "MeanAggregateFunction A data column_name = deref (GetColumnByName A data column_name) (Mean A)"

fun TYPES_TO_FUNCTIONS :: "AggregateFunctionEnumType \<Rightarrow> arrow_lib \<Rightarrow> batch \<Rightarrow> string \<Rightarrow> status + scalar" where
  "TYPES_TO_FUNCTIONS kFirst = FirstAggregateFunction"
| "TYPES_TO_FUNCTIONS kLast = LastAggregateFunction"
| "TYPES_TO_FUNCTIONS kMax = MaxAggregateFunction"
| "TYPES_TO_FUNCTIONS kMin = MinAggregateFunction"
| "TYPES_TO_FUNCTIONS kMean = MeanAggregateFunction"

section \<open>The rows of the first and the last time stamp\<close>

text \<open>The time stamps \<open>ts\<close> of a column, viewed as integers; \<open>MinMax\<close> finds the extrema and the
  equality of scalars is that of the values.\<close>

definition reads_extrema :: "arrow_lib \<Rightarrow> arrow_array \<Rightarrow> int list \<Rightarrow> bool" where
  "reads_extrema A c ts \<longleftrightarrow>
     (\<exists>v lo hi. (if type_id (a_type c) = TIMESTAMP then ViewInt64 A c else Inr c) = Inr v \<and> a_length v = length ts \<and>
        MinMax A v = Inr (lo, hi) \<and>
        (\<forall>i < length ts. \<exists>x. GetScalar A v (int i) = Inr x \<and>
           (scalar_Equals A x lo \<longleftrightarrow> ts ! i = Min (set ts)) \<and> (scalar_Equals A x hi \<longleftrightarrow> ts ! i = Max (set ts))))"

text \<open>The position of the first element that satisfies \<open>P\<close>.\<close>

definition index_of :: "('a \<Rightarrow> bool) \<Rightarrow> 'a list \<Rightarrow> nat" where
  "index_of P xs = length (takeWhile (\<lambda>x. \<not> P x) xs)"

lemma index_of_less: "\<exists>x \<in> set xs. P x \<Longrightarrow> index_of P xs < length xs"
  unfolding index_of_def by (metis length_takeWhile_le nat_less_le takeWhile_eq_all_conv takeWhile_eq_take take_all_iff)

lemma index_of_holds: "\<exists>x \<in> set xs. P x \<Longrightarrow> P (xs ! index_of P xs)"
  using nth_length_takeWhile [of "\<lambda>x. \<not> P x" xs] index_of_less [of xs P] by (simp add: index_of_def)

lemma index_of_first: "i < index_of P xs \<Longrightarrow> \<not> P (xs ! i)"
  unfolding index_of_def by (metis nth_mem set_takeWhileD takeWhile_nth)

text \<open>The loop of \<open>argMinMax\<close> ends when both positions are found. Until then a position that has
  been found is overwritten by later equal elements: the last hit before the end of the loop counts.\<close>

fun last_hit :: "('a \<Rightarrow> bool) \<Rightarrow> 'a list \<Rightarrow> nat \<Rightarrow> int" where
  "last_hit P xs 0 = - 1"
| "last_hit P xs (Suc n) = (if P (xs ! n) then int n else last_hit P xs n)"

lemma last_hit_none: "last_hit P xs n = - 1 \<longleftrightarrow> (\<forall>i < n. \<not> P (xs ! i))"
  by (induction n) (auto simp: less_Suc_eq)

lemma last_hit_some:
  "i < n \<Longrightarrow> P (xs ! i) \<Longrightarrow>
     \<exists>j. last_hit P xs n = int j \<and> i \<le> j \<and> j < n \<and> P (xs ! j) \<and> (\<forall>k. j < k \<and> k < n \<longrightarrow> \<not> P (xs ! k))"
proof (induction n)
  case (Suc n)
  show ?case
  proof (cases "P (xs ! n)")
    case True
    then show ?thesis using Suc.prems by (intro exI [of _ n]) auto
  next
    case False
    with Suc.prems have "i < n" by (auto simp: less_Suc_eq)
    with Suc.IH Suc.prems(2) False show ?thesis by (auto simp: less_Suc_eq)
  qed
qed simp

lemma last_hit_searching:
  assumes "\<exists>x \<in> set xs. P x"
  shows "last_hit P xs n = - 1 \<longleftrightarrow> n \<le> index_of P xs"
proof
  assume "last_hit P xs n = - 1"
  then show "n \<le> index_of P xs" using index_of_holds [OF assms] by (meson last_hit_none not_less)
next
  assume "n \<le> index_of P xs"
  then show "last_hit P xs n = - 1" unfolding last_hit_none by (meson index_of_first less_le_trans)
qed

definition min_time :: "int list \<Rightarrow> int \<Rightarrow> bool" where "min_time ts t \<longleftrightarrow> t = Min (set ts)"
definition max_time :: "int list \<Rightarrow> int \<Rightarrow> bool" where "max_time ts t \<longleftrightarrow> t = Max (set ts)"

text \<open>The position at which the loop stops, and what it returns.\<close>

definition both_found :: "int list \<Rightarrow> nat" where
  "both_found ts = Suc (max (index_of (min_time ts) ts) (index_of (max_time ts) ts))"

lemma extrema_occur:
  "ts \<noteq> [] \<Longrightarrow> \<exists>t \<in> set ts. min_time ts t" "ts \<noteq> [] \<Longrightarrow> \<exists>t \<in> set ts. max_time ts t"
  by (auto simp: min_time_def max_time_def)

lemma argMinMax_loop_hits:
  assumes "ts \<noteq> []" and "a_length v = length ts"
    and "\<forall>i < length ts. \<exists>x. GetScalar A v (int i) = Inr x \<and>
      (scalar_Equals A x lo \<longleftrightarrow> min_time ts (ts ! i)) \<and> (scalar_Equals A x hi \<longleftrightarrow> max_time ts (ts ! i))"
    and "i \<le> both_found ts"
  shows "argMinMax_loop A v (lo, hi) i (last_hit (min_time ts) ts i, last_hit (max_time ts) ts i) =
    Inr (last_hit (min_time ts) ts (both_found ts), last_hit (max_time ts) ts (both_found ts))"
  using assms(4)
proof (induction "both_found ts - i" arbitrary: i)
  case 0
  then have i: "i = both_found ts" by simp
  have "\<not> (last_hit (min_time ts) ts i = - 1 \<or> last_hit (max_time ts) ts i = - 1)"
    unfolding last_hit_searching [OF extrema_occur(1) [OF assms(1)]] last_hit_searching [OF extrema_occur(2) [OF assms(1)]]
    unfolding i both_found_def by linarith
  then show ?case by (subst argMinMax_loop.simps) (simp add: i)
next
  case (Suc n)
  then have i: "i \<le> max (index_of (min_time ts) ts) (index_of (max_time ts) ts)" by (simp add: both_found_def)
  then have less: "i < length ts"
    using index_of_less [OF extrema_occur(1) [OF assms(1)]] index_of_less [OF extrema_occur(2) [OF assms(1)]] by linarith
  obtain x where x: "GetScalar A v (int i) = Inr x" "scalar_Equals A x lo \<longleftrightarrow> min_time ts (ts ! i)"
      "scalar_Equals A x hi \<longleftrightarrow> max_time ts (ts ! i)"
    using assms(3) less by blast
  have "last_hit (min_time ts) ts i = - 1 \<or> last_hit (max_time ts) ts i = - 1"
    unfolding last_hit_searching [OF extrema_occur(1) [OF assms(1)]] last_hit_searching [OF extrema_occur(2) [OF assms(1)]]
    using i by linarith
  then have "argMinMax_loop A v (lo, hi) i (last_hit (min_time ts) ts i, last_hit (max_time ts) ts i) =
      argMinMax_loop A v (lo, hi) (Suc i) (last_hit (min_time ts) ts (Suc i), last_hit (max_time ts) ts (Suc i))"
    using less x assms(2) by (subst argMinMax_loop.simps) simp
  with Suc.hyps(1) [of "Suc i"] Suc.hyps(2) Suc.prems show ?case by (simp add: Suc_leI)
qed

lemma argMinMax_hits:
  assumes "reads_extrema A c ts" and "ts \<noteq> []"
  shows "argMinMax A c =
    Inr (last_hit (min_time ts) ts (both_found ts), last_hit (max_time ts) ts (both_found ts))"
proof -
  obtain v lo hi where v: "(if type_id (a_type c) = TIMESTAMP then ViewInt64 A c else Inr c) = Inr v"
      "a_length v = length ts" "MinMax A v = Inr (lo, hi)"
    and r: "\<forall>i < length ts. \<exists>x. GetScalar A v (int i) = Inr x \<and>
      (scalar_Equals A x lo \<longleftrightarrow> min_time ts (ts ! i)) \<and> (scalar_Equals A x hi \<longleftrightarrow> max_time ts (ts ! i))"
    using assms(1) unfolding reads_extrema_def min_time_def max_time_def by blast
  show ?thesis
    using argMinMax_loop_hits [OF assms(2) v(2) r, of 0] by (simp add: argMinMax_def v(1,3))
qed

text \<open>The two positions: a row of the least and a row of the greatest time. If the times are not all
  the same and sorted, it is the last row of the least and the first row of the greatest time.\<close>

lemma argMinMax_extrema:
  assumes "reads_extrema A c ts" and "ts \<noteq> []"
  obtains i j where "argMinMax A c = Inr (int i, int j)" and "i < length ts" and "j < length ts"
    and "ts ! i = Min (set ts)" and "ts ! j = Max (set ts)"
    and "sorted ts \<Longrightarrow> Min (set ts) \<noteq> Max (set ts) \<Longrightarrow>
      (\<forall>k < length ts. ts ! k = Min (set ts) \<longrightarrow> k \<le> i) \<and> (\<forall>k < length ts. ts ! k = Max (set ts) \<longrightarrow> j \<le> k)"
proof -
  let ?p = "index_of (min_time ts) ts" and ?q = "index_of (max_time ts) ts"
  have p: "?p < length ts" "min_time ts (ts ! ?p)" and q: "?q < length ts" "max_time ts (ts ! ?q)"
    using extrema_occur [OF assms(2)] by (simp_all add: index_of_less index_of_holds)
  obtain i where i: "last_hit (min_time ts) ts (both_found ts) = int i" "?p \<le> i" "i < both_found ts" "min_time ts (ts ! i)"
      "\<And>k. i < k \<Longrightarrow> k < both_found ts \<Longrightarrow> \<not> min_time ts (ts ! k)"
    using last_hit_some [of ?p "both_found ts" "min_time ts" ts] p(2) unfolding both_found_def by (metis less_Suc_eq_le max.cobounded1)
  obtain j where j: "last_hit (max_time ts) ts (both_found ts) = int j" "?q \<le> j" "j < both_found ts" "max_time ts (ts ! j)"
    using last_hit_some [of ?q "both_found ts" "max_time ts" ts] q(2) unfolding both_found_def by (metis less_Suc_eq_le max.cobounded2)
  have b: "both_found ts \<le> length ts" using p(1) q(1) by (simp add: both_found_def)
  show thesis
  proof (rule that)
    show "argMinMax A c = Inr (int i, int j)" using argMinMax_hits [OF assms] i(1) j(1) by simp
    show "i < length ts" "j < length ts" using i(3) j(3) b by auto
    show "ts ! i = Min (set ts)" "ts ! j = Max (set ts)" using i(4) j(4) by (simp_all add: min_time_def max_time_def)
  next
    assume s: "sorted ts" and ne: "Min (set ts) \<noteq> Max (set ts)"
    have below: "k < ?q" if "k < length ts" "ts ! k = Min (set ts)" for k
    proof (rule ccontr)
      assume "\<not> k < ?q"
      then have "ts ! ?q \<le> ts ! k" using s that(1) by (intro sorted_nth_mono) auto
      then have "Max (set ts) \<le> Min (set ts)" using q(2) that(2) by (simp add: max_time_def)
      moreover have "Min (set ts) \<le> Max (set ts)" using assms(2) by (intro Min_le) (auto simp: Max_in)
      ultimately show False using ne by simp
    qed
    have pq: "?p < ?q" using below p by (simp add: min_time_def)
    then have stop: "both_found ts = Suc ?q" by (simp add: both_found_def)
    have "k \<le> i" if "k < length ts" "ts ! k = Min (set ts)" for k
      using i(5) [of k] below [OF that] that(2) stop by (fastforce simp: min_time_def)
    moreover have "j = ?q" using j(2,3) stop by simp
    moreover have "?q \<le> k" if "k < length ts" "ts ! k = Max (set ts)" for k
      using index_of_first [of k "max_time ts" ts] that by (fastforce simp: max_time_def)
    ultimately show "(\<forall>k < length ts. ts ! k = Min (set ts) \<longrightarrow> k \<le> i) \<and> (\<forall>k < length ts. ts ! k = Max (set ts) \<longrightarrow> j \<le> k)"
      by simp
  qed
qed

end
