(* ===== verification/Aggregate_Handler.thy ===== *)
theory Aggregate_Handler
  imports Aggregate_Functions Metadata_Laws Record_Batch_Handler
begin

text \<open>
  \<open>AggregateHandler\<close> of \<open>src/src/record_batch_handlers/aggregate_handler.cpp\<close>. The vector overload
  splits the batches by their group metadata and makes one record batch for each group, with one row
  for each batch of the group; the overload for a single batch calls it. The handler keeps nothing but
  its options. A null array that \<open>GetColumnByName\<close> returns is kept as \<open>None\<close> until
  \<open>RecordBatch::Make\<close> dereferences it.
\<close>

definition splitByGroups :: "arrow_lib \<Rightarrow> batch list \<Rightarrow> status + (string, batch list) smap" where
  "splitByGroups A record_batches =
     rfold (\<lambda>record_batch grouped.
         rbind (extractGroupMetadata A record_batch) (\<lambda>group_string.
           (let grouped = (if map_of grouped group_string = None then smap_put group_string [] grouped else grouped)
            in Inr (smap_put group_string (the (map_of grouped group_string) @ [record_batch]) grouped))))
       record_batches []"

definition isValid :: "arrow_lib \<Rightarrow> batch list \<Rightarrow> status + unit" where
  "isValid A record_batches =
     rbind (rfold (\<lambda>record_batch time_column_name.
         rbind (if time_column_name = [] then getTimeColumnNameMetadata A record_batch else Inr time_column_name)
           (\<lambda>time_column_name.
             case GetColumnByName A record_batch time_column_name of
               None \<Rightarrow> Inl Invalid
             | Some time_column \<Rightarrow>
                 if type_id (a_type time_column) \<noteq> TIMESTAMP then Inl NotImplemented else Inr time_column_name))
       record_batches []) (\<lambda>_. Inr ())"

text \<open>The type of an aggregated column: that of the first batch that has it, or \<open>null\<close>.\<close>

definition aggregated_type :: "arrow_lib \<Rightarrow> batch list \<Rightarrow> string \<Rightarrow> arrow_type" where
  "aggregated_type A record_batches column_name =
     (case List.find (\<lambda>b. GetColumnByName A b column_name \<noteq> None) record_batches of
        None \<Rightarrow> Plain NA
      | Some b \<Rightarrow> a_type (the (GetColumnByName A b column_name)))"

definition createResultSchema ::
  "arrow_lib \<Rightarrow> AggregateOptions \<Rightarrow> batch list \<Rightarrow> string list \<Rightarrow> bool \<Rightarrow> string \<Rightarrow> string \<Rightarrow> status + schema"
where
  "createResultSchema A options record_batches grouping_columns explicitly_add_measurement
     measurement_column_name time_column_name =
     deref (GetColumnByName A (hd record_batches) time_column_name) (\<lambda>time_column.
     rbind (setFieldTypeMetadata A
              (new_field (result_column_name (result_time_column_rule options)) (a_type time_column)) TIME)
       (\<lambda>time_field.
     rbind (if explicitly_add_measurement
            then rbind (setFieldTypeMetadata A (new_field measurement_column_name (Plain STRING)) MEASUREMENT)
                   (\<lambda>f. Inr [time_field, f])
            else Inr [time_field]) (\<lambda>result_fields.
     (let result_fields = result_fields @ List.map_filter (\<lambda>grouping_column_name.
            map_option (\<lambda>column_field. \<lparr>f_name = grouping_column_name, f_type = f_type column_field,
                          f_metadata = f_metadata column_field\<rparr>)
              (GetFieldByName A (b_schema (hd record_batches)) grouping_column_name)) grouping_columns
      in rbind (rfold (\<lambda>(column_name, aggregate_cases) result_fields.
             (let column_type = aggregated_type A record_batches column_name in
              rfold (\<lambda>aggregate_case result_fields.
                  rbind (setFieldTypeMetadata A (new_field (result_column_name aggregate_case) column_type)
                           (result_column_type aggregate_case))
                    (\<lambda>f. Inr (result_fields @ [f])))
                aggregate_cases result_fields))
           (aggregate_columns options) result_fields) (\<lambda>result_fields.
         Inr \<lparr>sch_fields = result_fields, sch_metadata = None\<rparr>)))))"

definition aggregate :: "arrow_lib \<Rightarrow> batch list \<Rightarrow> string \<Rightarrow> AggregateFunctionEnumType \<Rightarrow> status + arrow_array" where
  "aggregate A groups aggregate_column_name function =
     (case GetFieldByName A (b_schema (hd groups)) aggregate_column_name of
        None \<Rightarrow> rbind (rfold (\<lambda>_ b. AppendNull A b) groups (Plain NA, [])) (Finish A)
      | Some aggregate_column_field \<Rightarrow>
          (let column_type = f_type aggregate_column_field in
           rbind (if type_id column_type = TIMESTAMP then createTimestampArrayBuilder column_type
                  else createArrayBuilder (type_id column_type)) (\<lambda>builder.
           rbind (rfold (\<lambda>grp builder.
               rbind (TYPES_TO_FUNCTIONS function A grp aggregate_column_name) (\<lambda>aggregated_value.
                 if type_id column_type = TIMESTAMP
                 then appendToTimestampBuilder A aggregated_value builder column_type
                 else appendToBuilder A aggregated_value builder (type_id column_type)))
             groups builder) (Finish A))))"

definition aggregateTimeColumn :: "arrow_lib \<Rightarrow> AggregateOptions \<Rightarrow> batch list \<Rightarrow> status + arrow_array" where
  "aggregateTimeColumn A options record_batch_vector =
     rbind (getTimeColumnNameMetadata A (hd record_batch_vector)) (\<lambda>time_column_name.
     deref (GetColumnByName A (hd record_batch_vector) time_column_name) (\<lambda>time_column.
       (let ts_column_type = a_type time_column in
        rbind (rfold (\<lambda>grp ts_builder.
            rbind (TYPES_TO_FUNCTIONS (aggregate_function (result_time_column_rule options)) A grp time_column_name) (\<lambda>ts.
            rbind (CastTo A ts ts_column_type) (\<lambda>ts.
              Append A ts_builder (int_scalar ts_column_type (s_int ts)))))
          record_batch_vector (ts_column_type, [])) (Finish A))))"

definition fillMeasurementColumn :: "arrow_lib \<Rightarrow> batch list \<Rightarrow> string \<Rightarrow> status + arrow_array" where
  "fillMeasurementColumn A grouped measurement_column_name =
     rbind (rfold (\<lambda>record_batch measurement_column_builder.
         case GetColumnByName A record_batch measurement_column_name of
           None \<Rightarrow> Inl Invalid
         | Some measurement_column \<Rightarrow>
             rbind (GetScalar A measurement_column 0) (\<lambda>measurement_value.
               Append A measurement_column_builder (string_scalar (ToString A measurement_value))))
       grouped (Plain STRING, [])) (Finish A)"

text \<open>The columns of the first batch that are not grouping columns are removed, \<open>i\<close> being the
  position in the batch left so far.\<close>

definition crop :: "arrow_lib \<Rightarrow> string list \<Rightarrow> string \<Rightarrow> batch \<times> int \<Rightarrow> status + batch \<times> int" where
  "crop A grouping_columns column_name st =
     (let (cropped_record_batch, i) = st in
      if column_name \<notin> set grouping_columns
      then rbind (RemoveColumn A cropped_record_batch i) (\<lambda>cropped_record_batch. Inr (cropped_record_batch, i - 1 + 1))
      else Inr (cropped_record_batch, i + 1))"

definition fillGroupingColumns :: "arrow_lib \<Rightarrow> batch list \<Rightarrow> string list \<Rightarrow> status + arrow_array option list" where
  "fillGroupingColumns A grouped grouping_columns =
     rbind (rfold (crop A grouping_columns) (map f_name (sch_fields (b_schema (hd grouped)))) (hd grouped, 0))
       (\<lambda>(cropped_record_batch, _).
         (let cropped_record_batch = Slice A cropped_record_batch 0 1;
              cropped_groups = replicate (length grouped)
                (Make (b_schema cropped_record_batch) (b_num_rows cropped_record_batch) (b_columns cropped_record_batch))
          in rbind (concatenateRecordBatches A cropped_groups) (\<lambda>unique_record_batch.
               Inr (map (GetColumnByName A unique_record_batch) grouping_columns))))"

text \<open>\<open>RecordBatch::Make\<close> dereferences every array.\<close>

definition make_batch :: "schema \<Rightarrow> nat \<Rightarrow> arrow_array option list \<Rightarrow> status + batch" where
  "make_batch sch n arrays = (if None \<in> set arrays then Inl UndefinedBehaviour else Inr (Make sch n (map the arrays)))"

text \<open>What the metadata says of the measurement: whether it is to be added, whether there is one, its
  name.\<close>

definition measurement_of :: "arrow_lib \<Rightarrow> batch \<Rightarrow> string list \<Rightarrow> bool \<times> bool \<times> string" where
  "measurement_of A record_batch grouping_columns =
     (case getMeasurementColumnNameMetadata A record_batch of
        Inl _ \<Rightarrow> (False, False, [])
      | Inr name \<Rightarrow> (name \<notin> set grouping_columns, True, name))"

text \<open>The arrays of the result, in the order of the schema's fields.\<close>

definition result_arrays ::
  "arrow_lib \<Rightarrow> AggregateOptions \<Rightarrow> batch list \<Rightarrow> string list \<Rightarrow> bool \<Rightarrow> string \<Rightarrow> status + arrow_array option list"
where
  "result_arrays A options record_batches_group grouping_columns explicitly_add_measurement_field
     measurement_column_name =
     rbind (aggregateTimeColumn A options record_batches_group) (\<lambda>time_array.
     rbind (if explicitly_add_measurement_field
            then rbind (fillMeasurementColumn A record_batches_group measurement_column_name) (\<lambda>a. Inr [Some a])
            else Inr []) (\<lambda>measurement_arrays.
     rbind (fillGroupingColumns A record_batches_group grouping_columns) (\<lambda>grouping_arrays.
       rfold (\<lambda>(column_name, aggregate_cases) arrays.
           rfold (\<lambda>aggregate_case arrays.
               rbind (aggregate A record_batches_group column_name (aggregate_function aggregate_case)) (\<lambda>a.
                 Inr (arrays @ [Some a])))
             aggregate_cases arrays)
         (aggregate_columns options) (Some time_array # measurement_arrays @ grouping_arrays))))"

definition aggregate_group ::
  "arrow_lib \<Rightarrow> proto_lib \<Rightarrow> AggregateOptions \<Rightarrow> batch list \<Rightarrow> batch list \<Rightarrow> status + batch"
where
  "aggregate_group A P options record_batches record_batches_group =
     (if record_batches_group = [] then Inl ExecutionError
      else
        rbind (extractGroupingColumnsNames A P (hd record_batches_group)) (\<lambda>names.
        rbind (getTimeColumnNameMetadata A (hd record_batches)) (\<lambda>time_column_name.
        (let grouping_columns = remove1 time_column_name names;
             (explicitly_add_measurement_field, has_measurement, measurement_column_name) =
               measurement_of A (hd record_batches) grouping_columns
         in
         rbind (createResultSchema A options record_batches grouping_columns explicitly_add_measurement_field
                  measurement_column_name time_column_name) (\<lambda>result_schema.
         rbind (result_arrays A options record_batches_group grouping_columns explicitly_add_measurement_field
                  measurement_column_name) (\<lambda>arrays.
         rbind (make_batch result_schema (length record_batches_group) arrays) (\<lambda>result_batch.
         rbind (fillGroupMetadata A P result_batch grouping_columns) (\<lambda>result_batch.
         rbind (setTimeColumnNameMetadata A result_batch (result_column_name (result_time_column_rule options)))
           (\<lambda>result_batch.
           if has_measurement then setMeasurementColumnNameMetadata A result_batch measurement_column_name
           else Inr result_batch)))))))))"

definition aggregate_handle_vector ::
  "arrow_lib \<Rightarrow> proto_lib \<Rightarrow> AggregateOptions \<Rightarrow> batch list \<Rightarrow> status + batch list"
where
  "aggregate_handle_vector A P options record_batches =
     (if record_batches = [] then Inr []
      else rbind (isValid A record_batches) (\<lambda>_.
           rbind (splitByGroups A record_batches) (\<lambda>grouped.
             rmap (\<lambda>(_, record_batches_group). aggregate_group A P options record_batches record_batches_group) grouped)))"

definition aggregate_handle :: "arrow_lib \<Rightarrow> proto_lib \<Rightarrow> AggregateOptions \<Rightarrow> batch \<Rightarrow> status + batch list" where
  "aggregate_handle A P options record_batch =
     (if b_num_rows record_batch = 0 then Inr []
      else rbind (aggregate_handle_vector A P options [record_batch]) (\<lambda>result_vector.
             if length result_vector \<noteq> 1 then Inl ExecutionError else Inr result_vector))"

section \<open>One record batch for each group, one row for each batch\<close>

text \<open>The batches of a vector that have the group string \<open>g\<close>.\<close>

definition batches_of :: "arrow_lib \<Rightarrow> string \<Rightarrow> batch list \<Rightarrow> batch list" where
  "batches_of A g bs = filter (\<lambda>b. extractGroupMetadata A b = Inr g) bs"

definition groups_of :: "arrow_lib \<Rightarrow> batch list \<Rightarrow> (string, batch list) smap \<Rightarrow> bool" where
  "groups_of A bs m \<longleftrightarrow> smap m \<and>
     (\<forall>g. map_of m g = (if batches_of A g bs = [] then None else Some (batches_of A g bs)))"

lemma splitByGroups_step:
  assumes "groups_of A bs m" and "extractGroupMetadata A b = Inr g"
  shows "groups_of A (bs @ [b])
    (let m = (if map_of m g = None then smap_put g [] m else m) in smap_put g (the (map_of m g) @ [b]) m)"
proof -
  let ?m = "if map_of m g = None then smap_put g [] m else m"
  have "smap ?m" using assms(1) by (simp add: groups_of_def)
  moreover have "the (map_of ?m g) = batches_of A g bs" using assms(1) by (simp add: groups_of_def)
  moreover have "batches_of A k (bs @ [b]) = (if k = g then batches_of A g bs @ [b] else batches_of A k bs)" for k
    using assms(2) by (auto simp: batches_of_def)
  ultimately show ?thesis using assms(1) unfolding groups_of_def Let_def by (simp split: if_splits)
qed

lemma splitByGroups_spec:
  assumes "splitByGroups A bs = Inr m"
  shows "groups_of A bs m"
proof -
  let ?f = "\<lambda>record_batch grouped.
         rbind (extractGroupMetadata A record_batch) (\<lambda>group_string.
           (let grouped = (if map_of grouped group_string = None then smap_put group_string [] grouped else grouped)
            in Inr (smap_put group_string (the (map_of grouped group_string) @ [record_batch]) grouped)))"
  have "rfold ?f ys m0 = Inr m \<Longrightarrow> groups_of A xs m0 \<Longrightarrow> groups_of A (xs @ ys) m" for xs ys m0
  proof (induction ys arbitrary: xs m0)
    case (Cons b ys)
    obtain g where g: "extractGroupMetadata A b = Inr g" using Cons.prems(1) by (auto simp: rbind_eq_Inr_iff)
    let ?m1 = "let m = (if map_of m0 g = None then smap_put g [] m0 else m0) in smap_put g (the (map_of m g) @ [b]) m"
    have "rfold ?f ys ?m1 = Inr m" using Cons.prems(1) g by (simp add: Let_def)
    from Cons.IH [OF this splitByGroups_step [OF Cons.prems(2) g]] show ?case by simp
  qed simp
  from this [of bs "[]" "[]"] assms show ?thesis by (simp add: splitByGroups_def groups_of_def batches_of_def)
qed

lemma splitByGroups_total:
  assumes "\<forall>b \<in> set bs. \<exists>g. extractGroupMetadata A b = Inr g"
  shows "\<exists>m. splitByGroups A bs = Inr m"
proof -
  have "\<exists>m. rfold (\<lambda>record_batch grouped.
         rbind (extractGroupMetadata A record_batch) (\<lambda>group_string.
           (let grouped = (if map_of grouped group_string = None then smap_put group_string [] grouped else grouped)
            in Inr (smap_put group_string (the (map_of grouped group_string) @ [record_batch]) grouped)))) bs m0 = Inr m" for m0
    using assms by (induction bs arbitrary: m0) (auto simp: Let_def)
  then show ?thesis by (simp add: splitByGroups_def)
qed

text \<open>The metadata functions keep the rows.\<close>

lemma replaceField_rows: "replaceField A b f = Inr b' \<Longrightarrow> b_num_rows b' = b_num_rows b \<and> b_columns b' = b_columns b"
  by (auto simp: replaceField_def Let_def rbind_eq_Inr_iff split: if_splits)

lemma setColumnMetadata_rows:
  "setColumnMetadata A b c k v = Inr b' \<Longrightarrow> b_num_rows b' = b_num_rows b \<and> b_columns b' = b_columns b"
  by (auto simp: setColumnMetadata_def setColumnMetadata_at_def Let_def rbind_eq_Inr_iff dest!: replaceField_rows split: if_splits)

lemma setSchemaMetadata_rows:
  "setSchemaMetadata A b k v = Inr b' \<Longrightarrow> b_num_rows b' = b_num_rows b \<and> b_columns b' = b_columns b"
  by (auto simp: setSchemaMetadata_def Let_def rbind_eq_Inr_iff)

lemma setColumnNameMetadata_rows:
  "setColumnNameMetadata A b c k t ty = Inr b' \<Longrightarrow> b_num_rows b' = b_num_rows b \<and> b_columns b' = b_columns b"
  by (auto simp: setColumnNameMetadata_def setColumnTypeMetadata_def rbind_eq_Inr_iff
      dest!: setColumnMetadata_rows setSchemaMetadata_rows split: option.splits if_splits)

lemma fillGroupMetadata_rows:
  "fillGroupMetadata A P b cs = Inr b' \<Longrightarrow> b_num_rows b' = b_num_rows b \<and> b_columns b' = b_columns b"
  by (auto simp: fillGroupMetadata_def setGroupMetadata_def rbind_eq_Inr_iff dest!: setSchemaMetadata_rows)

lemmas metadata_rows = setColumnNameMetadata_rows fillGroupMetadata_rows

lemma make_batch_rows: "make_batch sch n arrays = Inr b \<Longrightarrow> b_num_rows b = n"
  by (auto simp: make_batch_def split: if_splits)

lemma aggregate_group_rows:
  assumes "aggregate_group A P options bs grp = Inr b"
  shows "b_num_rows b = length grp"
proof -
  obtain names tn where n: "grp \<noteq> []" "extractGroupingColumnsNames A P (hd grp) = Inr names"
      "getTimeColumnNameMetadata A (hd bs) = Inr tn"
    using assms by (auto simp: aggregate_group_def rbind_eq_Inr_iff split: if_splits)
  obtain e h mn where m: "measurement_of A (hd bs) (remove1 tn names) = (e, h, mn)" by (metis prod_cases3)
  obtain sch arrays b1 b2 b3 where "make_batch sch (length grp) arrays = Inr b1"
      "fillGroupMetadata A P b1 (remove1 tn names) = Inr b2"
      "setTimeColumnNameMetadata A b2 (result_column_name (result_time_column_rule options)) = Inr b3"
      "(if h then setMeasurementColumnNameMetadata A b3 mn else Inr b3) = Inr b"
    using assms by (simp add: aggregate_group_def n m rbind_eq_Inr_iff Let_def) blast
  then show ?thesis
    by (auto simp: setTimeColumnNameMetadata_def setMeasurementColumnNameMetadata_def
        dest!: metadata_rows make_batch_rows split: if_splits)
qed

lemma aggregate_vector_groups:
  assumes "aggregate_handle_vector A P options bs = Inr res" and "bs \<noteq> []"
  obtains m where "groups_of A bs m" and "length res = length m"
    and "\<And>i. i < length m \<Longrightarrow> aggregate_group A P options bs (snd (m ! i)) = Inr (res ! i)"
    and "\<And>i. i < length m \<Longrightarrow> b_num_rows (res ! i) = length (snd (m ! i))"
proof -
  obtain m where m: "splitByGroups A bs = Inr m"
    and r: "rmap (\<lambda>(_, g). aggregate_group A P options bs g) m = Inr res"
    using assms by (auto simp: aggregate_handle_vector_def rbind_eq_Inr_iff)
  have "aggregate_group A P options bs (snd (m ! i)) = Inr (res ! i)" if "i < length m" for i
    using rmap_nth [OF r that] by (simp add: split_beta)
  moreover from this have "b_num_rows (res ! i) = length (snd (m ! i))" if "i < length m" for i
    using that aggregate_group_rows by blast
  ultimately show thesis using splitByGroups_spec [OF m] rmap_Inr_length [OF r] that by blast
qed

text \<open>A single batch is one group: the overload for it never sees a result of another size.\<close>

lemma single_group:
  assumes "splitByGroups A [b] = Inr m"
  shows "\<exists>g. m = [(g, [b])]"
  using assms by (auto simp: splitByGroups_def rbind_eq_Inr_iff Let_def)

lemma aggregate_handle_single:
  assumes "b_num_rows b \<noteq> 0"
  shows "aggregate_handle A P options b = aggregate_handle_vector A P options [b]"
proof (cases "aggregate_handle_vector A P options [b]")
  case (Inl e)
  then show ?thesis using assms by (simp add: aggregate_handle_def)
next
  case (Inr res)
  then obtain m where "splitByGroups A [b] = Inr m" "rmap (\<lambda>(_, g). aggregate_group A P options [b] g) m = Inr res"
    by (auto simp: aggregate_handle_vector_def rbind_eq_Inr_iff)
  with single_group have "length res = 1" by (metis One_nat_def length_Cons list.size(3) rmap_Inr_length)
  with Inr assms show ?thesis by (simp add: aggregate_handle_def)
qed

text \<open>The mean of an integer column is a double scalar, which the builder of the column's type casts
  to an integer scalar: the behaviour is undefined.\<close>

lemma mean_of_integers:
  assumes "GetFieldByName A (b_schema b) c = Some f" and "f_type f = Plain INT64"
    and "GetColumnByName A b c = Some col" and "Mean A col = Inr (double_scalar d)"
  shows "aggregate A (b # bs) c kMean = Inl UndefinedBehaviour"
  using assms
  by (simp add: aggregate_def createArrayBuilder_def MeanAggregateFunction_def appendToBuilder_def double_scalar_def)

end
