(* ===== verification/Join_Handler.thy ===== *)
theory Join_Handler
  imports Metadata_Laws Compute_Utils Record_Batch_Handler
begin

text \<open>
  \<open>JoinHandler\<close> of \<open>src/src/record_batch_handlers/join_handler.h\<close> and \<open>.cpp\<close>. All rows of the
  vector that agree in the join columns are ordered by time; those within \<open>tolerance_\<close> of the first of
  a run make one row of the result, a column taking the value of the first row that has it. The
  \<open>std::set\<close> of join values is the list of its elements in order, the unordered maps are sorted.
\<close>

record JoinHandler =
  join_on_columns :: "string list"
  tolerance :: int

record JoinKey =
  key_string :: string
  jk_time :: int

record JoinValue =
  record_batch_idx :: nat
  row_idx :: nat
  jv_time :: int

definition JoinValueCompare :: "JoinValue \<Rightarrow> JoinValue \<Rightarrow> bool" where
  "JoinValueCompare v1 v2 \<longleftrightarrow>
     (if jv_time v1 = jv_time v2
      then if record_batch_idx v1 = record_batch_idx v2 then row_idx v1 < row_idx v2
           else record_batch_idx v1 < record_batch_idx v2
      else jv_time v1 < jv_time v2)"

text \<open>\<open>std::set::insert\<close>.\<close>

fun set_insert :: "JoinValue \<Rightarrow> JoinValue list \<Rightarrow> JoinValue list" where
  "set_insert v [] = [v]"
| "set_insert v (w # ws) =
     (if JoinValueCompare v w then v # w # ws
      else if JoinValueCompare w v then w # set_insert v ws
      else w # ws)"

definition getJoinKey :: "arrow_lib \<Rightarrow> JoinHandler \<Rightarrow> batch \<Rightarrow> nat \<Rightarrow> string \<Rightarrow> status + JoinKey" where
  "getJoinKey A j record_batch row time_column_name =
     rbind (rfold (\<lambda>join_column_name key_string_builder.
         rbind (deref (GetColumnByName A record_batch join_column_name) (\<lambda>c. GetScalar A c (int row))) (\<lambda>value_scalar.
           Inr (key_string_builder @ join_column_name @ ''='' @ ToString A value_scalar @ '','')))
       (join_on_columns j) []) (\<lambda>key.
     case GetColumnByName A record_batch time_column_name of
       None \<Rightarrow> Inl Invalid
     | Some time_column \<Rightarrow>
         rbind (GetScalar A time_column (int row)) (\<lambda>value_scalar.
           if type_id (s_type value_scalar) = TIMESTAMP
           then rbind (CastTo A value_scalar (Timestamp UNIT_SECOND)) (\<lambda>value_scalar.
                  Inr \<lparr>key_string = key, jk_time = s_int value_scalar\<rparr>)
           else if type_id (s_type value_scalar) \<noteq> INT64 then Inl NotImplemented
           else rbind (getTimeUnitMetadata A record_batch time_column_name) (\<lambda>value_time_unit.
                rbind (convertTime (s_int value_scalar) value_time_unit SECOND) (\<lambda>t.
                  Inr \<lparr>key_string = key, jk_time = t\<rparr>))))"

section \<open>Columns and rows of the input\<close>

text \<open>The builders and the types of the columns, by name.\<close>

definition add_column_builder ::
  "arrow_field \<Rightarrow> (string, builder) smap \<times> (string, arrow_type) smap
     \<Rightarrow> status + (string, builder) smap \<times> (string, arrow_type) smap"
where
  "add_column_builder field st =
     (let (column_builders, column_types) = st in
      if map_of column_builders (f_name field) = None
      then rbind (if type_id (f_type field) = TIMESTAMP then createTimestampArrayBuilder (f_type field)
                  else createArrayBuilder (type_id (f_type field))) (\<lambda>b.
             Inr (smap_put (f_name field) b column_builders, smap_put (f_name field) (f_type field) column_types))
      else Inr st)"

definition add_join_row ::
  "arrow_lib \<Rightarrow> JoinHandler \<Rightarrow> string \<Rightarrow> nat \<Rightarrow> batch \<Rightarrow> nat \<Rightarrow> (string, JoinValue list) smap
     \<Rightarrow> status + (string, JoinValue list) smap"
where
  "add_join_row A j time_column_name i record_batch row keys_to_rows =
     rbind (getJoinKey A j record_batch row time_column_name) (\<lambda>join_key.
       (let k = key_string join_key;
            keys_to_rows = (if map_of keys_to_rows k = None then smap_put k [] keys_to_rows else keys_to_rows)
        in Inr (smap_put k (set_insert \<lparr>record_batch_idx = i, row_idx = row, jv_time = jk_time join_key\<rparr>
                              (the (map_of keys_to_rows k))) keys_to_rows)))"

type_synonym join_input =
  "((string, builder) smap \<times> (string, arrow_type) smap) \<times> (string, JoinValue list) smap"

definition add_join_batch ::
  "arrow_lib \<Rightarrow> JoinHandler \<Rightarrow> string \<Rightarrow> batch list \<Rightarrow> nat \<Rightarrow> join_input \<Rightarrow> status + join_input"
where
  "add_join_batch A j time_column_name record_batches i st =
     (let (columns, keys_to_rows) = st; record_batch = record_batches ! i in
      rbind (rfold add_column_builder (sch_fields (b_schema record_batch)) columns) (\<lambda>columns.
      rbind (rfold (add_join_row A j time_column_name i record_batch) [0..<b_num_rows record_batch] keys_to_rows)
        (\<lambda>keys_to_rows. Inr (columns, keys_to_rows))))"

section \<open>Rows of the result\<close>

text \<open>The builders, \<open>filled\<close> and \<open>row_count\<close>.\<close>

record join_state =
  js_builders :: "(string, builder) smap"
  js_filled :: "(string, bool) smap"
  js_row_count :: nat

definition builder_of :: "(string, builder) smap \<Rightarrow> string \<Rightarrow> status + builder" where
  "builder_of column_builders name =
     (case map_of column_builders name of None \<Rightarrow> Inl UndefinedBehaviour | Some b \<Rightarrow> Inr b)"

text \<open>The end of a row of the result: the columns without a value get a null.\<close>

definition finish_column ::
  "arrow_lib \<Rightarrow> string \<times> bool \<Rightarrow> (string, builder) smap \<Rightarrow> status + (string, builder) smap"
where
  "finish_column A column column_builders =
     (if \<not> snd column
      then rbind (builder_of column_builders (fst column)) (\<lambda>b.
           rbind (AppendNull A b) (\<lambda>b. Inr (smap_put (fst column) b column_builders)))
      else Inr column_builders)"

definition finish_row :: "arrow_lib \<Rightarrow> join_state \<Rightarrow> status + join_state" where
  "finish_row A st =
     rbind (rfold (finish_column A) (js_filled st) (js_builders st)) (\<lambda>bs.
       Inr (st\<lparr>js_builders := bs, js_filled := map (\<lambda>(n, _). (n, False)) (js_filled st),
               js_row_count := Suc (js_row_count st)\<rparr>))"

text \<open>The values of an input row; \<open>filled[name]\<close> of an unknown name is false.\<close>

definition join_cell :: "arrow_lib \<Rightarrow> batch \<Rightarrow> nat \<Rightarrow> nat \<Rightarrow> join_state \<Rightarrow> status + join_state" where
  "join_cell A record_batch row i st =
     (let field = sch_fields (b_schema record_batch) ! i; column_name = f_name field in
      if map_of (js_filled st) column_name = Some True then Inr st
      else rbind (GetScalar A (b_columns record_batch ! i) (int row)) (\<lambda>value_scalar.
           rbind (builder_of (js_builders st) column_name) (\<lambda>b.
           rbind (if type_id (f_type field) = TIMESTAMP
                  then appendToTimestampBuilder A value_scalar b (f_type field)
                  else appendToBuilder A value_scalar b (type_id (f_type field))) (\<lambda>b.
             Inr (st\<lparr>js_builders := smap_put column_name b (js_builders st),
                     js_filled := smap_put column_name True (js_filled st)\<rparr>)))))"

definition join_row :: "arrow_lib \<Rightarrow> batch list \<Rightarrow> JoinValue \<Rightarrow> join_state \<Rightarrow> status + join_state" where
  "join_row A record_batches v st =
     (let record_batch = record_batches ! record_batch_idx v in
      rfold (join_cell A record_batch (row_idx v)) [0..<num_columns record_batch] st)"

text \<open>The loop over the values of a key, with \<open>last_ts\<close>.\<close>

fun join_values ::
  "arrow_lib \<Rightarrow> int \<Rightarrow> batch list \<Rightarrow> JoinValue list \<Rightarrow> int \<Rightarrow> join_state \<Rightarrow> status + join_state"
where
  "join_values A tol record_batches [] last_ts st = Inr st"
| "join_values A tol record_batches (v # vs) last_ts st =
     rbind (if tol < \<bar>jv_time v - last_ts\<bar>
            then rbind (finish_row A st) (\<lambda>st. Inr (jv_time v, st)) else Inr (last_ts, st)) (\<lambda>(last_ts, st).
     rbind (join_row A record_batches v st) (\<lambda>st.
       join_values A tol record_batches vs last_ts st))"

definition join_key :: "arrow_lib \<Rightarrow> int \<Rightarrow> batch list \<Rightarrow> JoinValue list \<Rightarrow> join_state \<Rightarrow> status + join_state" where
  "join_key A tol record_batches joined_values st =
     (case joined_values of
        [] \<Rightarrow> Inr st
      | v # _ \<Rightarrow>
          (let st = st\<lparr>js_filled := map (\<lambda>(n, _). (n, False)) (js_builders st)\<rparr> in
           rbind (join_values A tol record_batches joined_values (jv_time v) st) (finish_row A)))"

definition join_handle_vector :: "arrow_lib \<Rightarrow> JoinHandler \<Rightarrow> batch list \<Rightarrow> status + batch list" where
  "join_handle_vector A j record_batches =
     (if record_batches = [] then Inr []
      else
        rbind (getTimeColumnNameMetadata A (hd record_batches)) (\<lambda>time_column_name.
        rbind (rfold (add_join_batch A j time_column_name record_batches) [0..<length record_batches] (([], []), []))
          (\<lambda>((column_builders, column_types), keys_to_rows).
        rbind (rfold (\<lambda>(_, joined_values). join_key A (tolerance j) record_batches joined_values) keys_to_rows
                \<lparr>js_builders = column_builders, js_filled = map (\<lambda>(n, _). (n, False)) column_builders,
                 js_row_count = 0\<rparr>) (\<lambda>st.
        rbind (rmap (\<lambda>(_, b). Finish A b) (js_builders st)) (\<lambda>result_arrays.
          (let fields = map (\<lambda>(n, _). new_field n (the (map_of column_types n))) (js_builders st);
               result_record_batch = Make \<lparr>sch_fields = fields, sch_metadata = None\<rparr> (js_row_count st) result_arrays
           in rbind (sortByColumn A time_column_name result_record_batch) (\<lambda>result_record_batch.
              rbind (setTimeColumnNameMetadata A result_record_batch time_column_name) (\<lambda>result_record_batch.
                Inr [result_record_batch]))))))))"

definition join_handle :: "arrow_lib \<Rightarrow> JoinHandler \<Rightarrow> batch \<Rightarrow> status + batch list" where
  "join_handle A j record_batch = join_handle_vector A j [record_batch]"

section \<open>What the result holds\<close>

text \<open>The runs of the values of a key: a run is closed by a value more than \<open>tol\<close> away from its
  first one.\<close>

fun runs :: "int \<Rightarrow> int \<Rightarrow> JoinValue list \<Rightarrow> JoinValue list \<Rightarrow> JoinValue list list" where
  "runs tol last_ts run [] = [run]"
| "runs tol last_ts run (v # vs) =
     (if tol < \<bar>jv_time v - last_ts\<bar> then run # runs tol (jv_time v) [v] vs
      else runs tol last_ts (run @ [v]) vs)"

definition key_runs :: "int \<Rightarrow> JoinValue list \<Rightarrow> JoinValue list list" where
  "key_runs tol vs = (case vs of [] \<Rightarrow> [] | v # _ \<Rightarrow> runs tol (jv_time v) [] vs)"

lemma runs_nonempty [simp]: "runs tol last_ts run vs \<noteq> []"
  by (induction tol last_ts run vs rule: runs.induct) auto

lemma concat_runs: "concat (runs tol last_ts run vs) = run @ vs"
  by (induction tol last_ts run vs rule: runs.induct) auto

text \<open>The value of a column in a run, \<open>val v n\<close> being that of an input row: the first one there is.\<close>

fun first_value :: "(JoinValue \<Rightarrow> string \<Rightarrow> scalar option) \<Rightarrow> string \<Rightarrow> JoinValue list \<Rightarrow> scalar option" where
  "first_value val n [] = None"
| "first_value val n (v # vs) = (case val v n of None \<Rightarrow> first_value val n vs | Some x \<Rightarrow> Some x)"

lemma first_value_snoc:
  "first_value val n (vs @ [v]) = (case first_value val n vs of None \<Rightarrow> val v n | Some x \<Rightarrow> Some x)"
  by (induction vs) (auto split: option.splits)

definition run_cell :: "(JoinValue \<Rightarrow> string \<Rightarrow> scalar option) \<Rightarrow> (string \<Rightarrow> arrow_type) \<Rightarrow> string \<Rightarrow> JoinValue list \<Rightarrow> scalar" where
  "run_cell val types n run = (case first_value val n run of None \<Rightarrow> null_scalar (types n) | Some x \<Rightarrow> x)"

text \<open>The cell of an input row can be read and appended to a builder; the names of the columns of a
  batch are distinct.\<close>

definition join_cells ::
  "arrow_lib \<Rightarrow> batch list \<Rightarrow> (string \<Rightarrow> arrow_type) \<Rightarrow> (JoinValue \<Rightarrow> string \<Rightarrow> scalar option) \<Rightarrow> JoinValue \<Rightarrow> bool"
where
  "join_cells A bs types val v \<longleftrightarrow>
     (let b = bs ! record_batch_idx v; fs = sch_fields (b_schema b) in
      length fs = num_columns b \<and> distinct (map f_name fs) \<and>
      (\<forall>n. n \<notin> f_name ` set fs \<longrightarrow> val v n = None) \<and>
      (\<forall>i < num_columns b. \<exists>s x. GetScalar A (b_columns b ! i) (int (row_idx v)) = Inr s \<and>
         val v (f_name (fs ! i)) = Some x \<and>
         (\<forall>vs. (if type_id (f_type (fs ! i)) = TIMESTAMP
               then appendToTimestampBuilder A s (types (f_name (fs ! i)), vs) (f_type (fs ! i))
               else appendToBuilder A s (types (f_name (fs ! i)), vs) (type_id (f_type (fs ! i)))) =
              Inr (types (f_name (fs ! i)), vs @ [x]))))"

text \<open>The invariant: \<open>names\<close> are the columns, \<open>base n\<close> the finished rows of column \<open>n\<close>, \<open>fill n\<close> its value
  in the current row.\<close>

definition opt_list :: "'a option \<Rightarrow> 'a list" where
  "opt_list x = (case x of None \<Rightarrow> [] | Some y \<Rightarrow> [y])"

lemma opt_list_simps [simp]: "opt_list None = []" "opt_list (Some x) = [x]"
  by (simp_all add: opt_list_def)

definition join_inv ::
  "string set \<Rightarrow> (string \<Rightarrow> arrow_type) \<Rightarrow> (string \<Rightarrow> scalar list) \<Rightarrow> (string \<Rightarrow> scalar option) \<Rightarrow> join_state \<Rightarrow> bool"
where
  "join_inv names types base fill st \<longleftrightarrow>
     smap (js_builders st) \<and> smap (js_filled st) \<and>
     fst ` set (js_builders st) = names \<and> fst ` set (js_filled st) = names \<and>
     (\<forall>n \<in> names. map_of (js_builders st) n = Some (types n, base n @ opt_list (fill n)) \<and>
        map_of (js_filled st) n = Some (fill n \<noteq> None))"

text \<open>Finishing a row.\<close>

lemma finish_columns:
  assumes "builder_laws A" and "distinct (map fst cols)" and "smap bs" and "fst ` set cols \<subseteq> fst ` set bs"
    and "\<And>n b. map_of bs n = Some b \<Longrightarrow> fst b = types n"
  shows "\<exists>bs'. rfold (finish_column A) cols bs = Inr bs' \<and> smap bs' \<and> fst ` set bs' = fst ` set bs \<and>
    (\<forall>n. map_of bs' n = (case map_of bs n of None \<Rightarrow> None
       | Some b \<Rightarrow> Some (if (n, False) \<in> set cols then (fst b, snd b @ [null_scalar (types n)]) else b)))"
  using assms(2-)
proof (induction cols arbitrary: bs)
  case Nil
  then show ?case by (auto split: option.splits)
next
  case (Cons nf cols)
  obtain n f where nf: "nf = (n, f)" by force
  show ?case
  proof (cases f)
    case True
    have "\<exists>bs'. rfold (finish_column A) cols bs = Inr bs' \<and> smap bs' \<and> fst ` set bs' = fst ` set bs \<and>
      (\<forall>n. map_of bs' n = (case map_of bs n of None \<Rightarrow> None
         | Some b \<Rightarrow> Some (if (n, False) \<in> set cols then (fst b, snd b @ [null_scalar (types n)]) else b)))"
      using Cons.prems by (intro Cons.IH) auto
    moreover have "finish_column A nf bs = Inr bs" using True by (simp add: nf finish_column_def)
    moreover have "(m, False) \<in> set (nf # cols) \<longleftrightarrow> (m, False) \<in> set cols" for m using True by (simp add: nf)
    ultimately show ?thesis by (simp only: rfold.simps rbind_simps)
  next
    case False
    obtain ty vs where b: "map_of bs n = Some (ty, vs)"
      using Cons.prems(3) nf by (cases "map_of bs n") (auto simp: map_of_eq_None_iff)
    then have ty: "ty = types n" using Cons.prems(4) by fastforce
    let ?bs = "smap_put n (ty, vs @ [null_scalar ty]) bs"
    have "finish_column A nf bs = Inr ?bs"
      using False b assms(1) by (simp add: nf finish_column_def builder_of_def builder_laws_def)
    moreover have p: "distinct (map fst cols)" "smap ?bs" "fst ` set cols \<subseteq> fst ` set ?bs"
      using Cons.prems(1-3) nf by auto
    have q: "fst c = types m" if "map_of ?bs m = Some c" for m c
      using that ty Cons.prems(4) [of m c] by (cases "m = n") auto
    obtain bs' where bs': "rfold (finish_column A) cols ?bs = Inr bs'" "smap bs'" "fst ` set bs' = fst ` set ?bs"
      and l: "\<And>m. map_of bs' m = (case map_of ?bs m of None \<Rightarrow> None
         | Some b \<Rightarrow> Some (if (m, False) \<in> set cols then (fst b, snd b @ [null_scalar (types m)]) else b))"
      using Cons.IH [OF p q] by blast
    moreover have "(n, False) \<notin> set cols" using Cons.prems(1) by (force simp: nf)
    moreover have "fst ` set ?bs = fst ` set bs" using Cons.prems(3) nf by auto
    moreover have "map_of bs' m = (case map_of bs m of None \<Rightarrow> None
         | Some b \<Rightarrow> Some (if (m, False) \<in> set (nf # cols) then (fst b, snd b @ [null_scalar (types m)]) else b))" for m
      using l [of m] b ty False \<open>(n, False) \<notin> set cols\<close> by (cases "m = n") (simp_all add: nf split: option.split)
    ultimately show ?thesis by (intro exI [of _ bs']) simp
  qed
qed

lemma finish_row_inv:
  assumes "builder_laws A" and "join_inv names types base fill st"
  shows "\<exists>st'. finish_row A st = Inr st' \<and> js_row_count st' = Suc (js_row_count st) \<and>
    join_inv names types (\<lambda>n. base n @ [case fill n of None \<Rightarrow> null_scalar (types n) | Some x \<Rightarrow> x]) (\<lambda>_. None) st'"
proof -
  have s: "smap (js_builders st)" "smap (js_filled st)" "fst ` set (js_builders st) = names" "fst ` set (js_filled st) = names"
    and m: "\<And>n. n \<in> names \<Longrightarrow> map_of (js_builders st) n = Some (types n, base n @ opt_list (fill n))"
      "\<And>n. n \<in> names \<Longrightarrow> map_of (js_filled st) n = Some (fill n \<noteq> None)"
    using assms(2) by (simp_all add: join_inv_def)
  have d: "distinct (map fst (js_filled st))" using s(2) by (rule smap_distinct)
  have ty: "fst b = types n" if b: "map_of (js_builders st) n = Some b" for n b
  proof -
    have "n \<in> names" using map_of_SomeD [OF b] s(3) by force
    from m(1) [OF this] b show ?thesis by auto
  qed
  obtain bs where bs: "rfold (finish_column A) (js_filled st) (js_builders st) = Inr bs" "smap bs" "fst ` set bs = names"
    and l: "\<And>n. map_of bs n = (case map_of (js_builders st) n of None \<Rightarrow> None
       | Some b \<Rightarrow> Some (if (n, False) \<in> set (js_filled st) then (fst b, snd b @ [null_scalar (types n)]) else b))"
    using finish_columns [OF assms(1) d s(1), of types] s(3,4) ty by auto
  have f: "(n, False) \<in> set (js_filled st) \<longleftrightarrow> fill n = None" if "n \<in> names" for n
    by (simp add: map_of_eq_Some_iff [OF d, symmetric] m(2) [OF that])
  let ?f = "map (\<lambda>(n, _). (n, False)) (js_filled st)"
  have fst: "map fst ?f = map fst (js_filled st)" by (simp add: comp_def split_beta)
  have "map_of ?f n = Some False" if "n \<in> names" for n
  proof -
    have "(n, False) \<in> set ?f" using that s(4) by force
    then show ?thesis using d fst by (metis map_of_is_SomeI)
  qed
  moreover have "fst ` set ?f = names" using fst s(4) by (metis set_map)
  moreover have "smap ?f" using s(2) fst by (simp only: smap_def)
  moreover have "map_of bs n = Some (types n, base n @ [case fill n of None \<Rightarrow> null_scalar (types n) | Some x \<Rightarrow> x])"
    if "n \<in> names" for n
    using m(1) [OF that] f [OF that] by (simp add: l split: option.splits)
  ultimately have "join_inv names types (\<lambda>n. base n @ [case fill n of None \<Rightarrow> null_scalar (types n) | Some x \<Rightarrow> x]) (\<lambda>_. None)
      (st\<lparr>js_builders := bs, js_filled := ?f, js_row_count := Suc (js_row_count st)\<rparr>)"
    using bs by (simp add: join_inv_def)
  with bs(1) show ?thesis by (simp add: finish_row_def)
qed

text \<open>Reading an input row.\<close>

lemma join_cell_inv:
  assumes "join_inv names types base fill st" and "n = f_name (sch_fields (b_schema b) ! i)" and "n \<in> names"
    and "GetScalar A (b_columns b ! i) (int row) = Inr s"
    and "\<forall>vs. (if type_id (f_type (sch_fields (b_schema b) ! i)) = TIMESTAMP
               then appendToTimestampBuilder A s (types n, vs) (f_type (sch_fields (b_schema b) ! i))
               else appendToBuilder A s (types n, vs) (type_id (f_type (sch_fields (b_schema b) ! i)))) =
              Inr (types n, vs @ [x])"
  shows "\<exists>st'. join_cell A b row i st = Inr st' \<and> js_row_count st' = js_row_count st \<and>
    join_inv names types base (fill(n := Some (case fill n of None \<Rightarrow> x | Some y \<Rightarrow> y))) st'"
proof (cases "fill n")
  case (Some y)
  then have "fill(n := Some (case fill n of None \<Rightarrow> x | Some y \<Rightarrow> y)) = fill" by auto
  moreover have "map_of (js_filled st) n = Some True" using Some assms(1,3) by (auto simp: join_inv_def)
  ultimately show ?thesis using assms(1,2) by (simp add: join_cell_def)
next
  case None
  let ?st = "st\<lparr>js_builders := smap_put n (types n, base n @ [x]) (js_builders st), js_filled := smap_put n True (js_filled st)\<rparr>"
  have m: "map_of (js_builders st) n = Some (types n, base n)" "map_of (js_filled st) n = Some False"
    using None assms(1,3) by (simp_all add: join_inv_def)
  have "join_cell A b row i st = Inr ?st"
    using m assms(5) [rule_format, of "base n"] assms(4)
    by (simp add: join_cell_def builder_of_def Let_def flip: assms(2) split: if_splits)
  moreover have "join_inv names types base (fill(n := Some x)) ?st"
    using assms(1,3) unfolding join_inv_def by (auto simp: insert_absorb)
  ultimately show ?thesis using None by simp
qed

lemma join_row_inv:
  assumes "join_inv names types base fill st" and "join_cells A bs types val v"
    and "f_name ` set (sch_fields (b_schema (bs ! record_batch_idx v))) \<subseteq> names"
  shows "\<exists>st'. join_row A bs v st = Inr st' \<and> js_row_count st' = js_row_count st \<and>
    join_inv names types base (\<lambda>n. case fill n of None \<Rightarrow> val v n | Some y \<Rightarrow> Some y) st'"
proof -
  define b where "b = bs ! record_batch_idx v"
  let ?fs = "sch_fields (b_schema b)"
  have len: "length ?fs = num_columns b" and d: "distinct (map f_name ?fs)"
    and none: "\<And>n. n \<notin> f_name ` set ?fs \<Longrightarrow> val v n = None"
    and cell: "\<And>i. i < num_columns b \<Longrightarrow> \<exists>s x. GetScalar A (b_columns b ! i) (int (row_idx v)) = Inr s \<and>
         val v (f_name (?fs ! i)) = Some x \<and>
         (\<forall>vs. (if type_id (f_type (?fs ! i)) = TIMESTAMP
               then appendToTimestampBuilder A s (types (f_name (?fs ! i)), vs) (f_type (?fs ! i))
               else appendToBuilder A s (types (f_name (?fs ! i)), vs) (type_id (f_type (?fs ! i)))) =
              Inr (types (f_name (?fs ! i)), vs @ [x]))"
    using assms(2) unfolding join_cells_def Let_def b_def [symmetric] by blast+
  let ?fill = "\<lambda>k n. case fill n of Some y \<Rightarrow> Some y | None \<Rightarrow> if n \<in> f_name ` set (take k ?fs) then val v n else None"
  have "\<exists>st'. rfold (join_cell A b (row_idx v)) [0..<k] st = Inr st' \<and> js_row_count st' = js_row_count st \<and>
      join_inv names types base (?fill k) st'" if "k \<le> num_columns b" for k
    using that
  proof (induction k)
    case 0
    have "?fill 0 = fill" by (auto split: option.splits)
    with assms(1) show ?case by simp
  next
    case (Suc k)
    then obtain st1 where st1: "rfold (join_cell A b (row_idx v)) [0..<k] st = Inr st1" "js_row_count st1 = js_row_count st"
        "join_inv names types base (?fill k) st1"
      by auto
    let ?n = "f_name (?fs ! k)"
    have k: "k < length ?fs" using Suc.prems len by simp
    then have n: "?n \<in> names" using assms(3) by (auto simp: b_def)
    obtain s x where s: "GetScalar A (b_columns b ! k) (int (row_idx v)) = Inr s" and x: "val v ?n = Some x"
      and a: "\<forall>vs. (if type_id (f_type (?fs ! k)) = TIMESTAMP
               then appendToTimestampBuilder A s (types ?n, vs) (f_type (?fs ! k))
               else appendToBuilder A s (types ?n, vs) (type_id (f_type (?fs ! k)))) = Inr (types ?n, vs @ [x])"
      using cell [of k] Suc.prems by auto
    obtain st2 where st2: "join_cell A b (row_idx v) k st1 = Inr st2" "js_row_count st2 = js_row_count st1"
        "join_inv names types base ((?fill k)(?n := Some (case ?fill k ?n of None \<Rightarrow> x | Some y \<Rightarrow> y))) st2"
      using join_cell_inv [OF st1(3) refl n s a] by blast
    have "(?fill k)(?n := Some (case ?fill k ?n of None \<Rightarrow> x | Some y \<Rightarrow> y)) = ?fill (Suc k)"
      using x by (auto simp: fun_eq_iff take_Suc_conv_app_nth [OF k] split: option.splits)
    with st1 st2 show ?case by (simp add: rfold_append)
  qed
  from this [of "num_columns b"] obtain st' where st': "join_row A bs v st = Inr st'" "js_row_count st' = js_row_count st"
      "join_inv names types base (?fill (num_columns b)) st'"
    by (auto simp: join_row_def b_def [symmetric])
  moreover have "?fill (num_columns b) = (\<lambda>n. case fill n of None \<Rightarrow> val v n | Some y \<Rightarrow> Some y)"
    using none len by (auto simp: fun_eq_iff split: option.splits)
  ultimately show ?thesis by auto
qed

text \<open>The values of a key: every run becomes a row.\<close>

definition batch_names :: "batch list \<Rightarrow> JoinValue \<Rightarrow> string set" where
  "batch_names bs v = f_name ` set (sch_fields (b_schema (bs ! record_batch_idx v)))"

lemma join_values_runs:
  assumes "builder_laws A" and "\<forall>v \<in> set vs. join_cells A bs types val v \<and> batch_names bs v \<subseteq> names"
    and "join_inv names types base (\<lambda>n. first_value val n run) st"
  shows "\<exists>st'. rbind (join_values A tol bs vs last_ts st) (finish_row A) = Inr st' \<and>
    js_row_count st' = js_row_count st + length (runs tol last_ts run vs) \<and>
    join_inv names types (\<lambda>n. base n @ map (run_cell val types n) (runs tol last_ts run vs)) (\<lambda>_. None) st'"
  using assms(2,3)
proof (induction vs arbitrary: last_ts run base st)
  case Nil
  then show ?case using finish_row_inv [OF assms(1) Nil.prems(2)] by (simp add: run_cell_def)
next
  case (Cons v vs)
  have v: "join_cells A bs types val v" "f_name ` set (sch_fields (b_schema (bs ! record_batch_idx v))) \<subseteq> names"
    using Cons.prems(1) by (auto simp: batch_names_def)
  have rest: "\<forall>v \<in> set vs. join_cells A bs types val v \<and> batch_names bs v \<subseteq> names" using Cons.prems(1) by simp
  show ?case
  proof (cases "tol < \<bar>jv_time v - last_ts\<bar>")
    case True
    obtain st1 where st1: "finish_row A st = Inr st1" "js_row_count st1 = Suc (js_row_count st)"
      and inv1: "join_inv names types (\<lambda>n. base n @ [run_cell val types n run]) (\<lambda>_. None) st1"
      using finish_row_inv [OF assms(1) Cons.prems(2)] by (auto simp: run_cell_def)
    obtain st2 where st2: "join_row A bs v st1 = Inr st2" "js_row_count st2 = js_row_count st1"
      and "join_inv names types (\<lambda>n. base n @ [run_cell val types n run]) (\<lambda>n. val v n) st2"
      using join_row_inv [OF inv1 v] by auto
    moreover have one: "first_value val n [v] = val v n" for n by (simp split: option.split)
    ultimately have inv2: "join_inv names types (\<lambda>n. base n @ [run_cell val types n run]) (\<lambda>n. first_value val n [v]) st2"
      by (simp only: one)
    obtain st' where "rbind (join_values A tol bs vs (jv_time v) st2) (finish_row A) = Inr st'"
        "js_row_count st' = js_row_count st2 + length (runs tol (jv_time v) [v] vs)"
        "join_inv names types (\<lambda>n. (base n @ [run_cell val types n run]) @ map (run_cell val types n) (runs tol (jv_time v) [v] vs))
          (\<lambda>_. None) st'"
      using Cons.IH [OF rest inv2] by blast
    with True st1 st2 show ?thesis by (intro exI [of _ st']) (simp add: rbind_assoc)
  next
    case False
    obtain st2 where st2: "join_row A bs v st = Inr st2" "js_row_count st2 = js_row_count st"
      and "join_inv names types base (\<lambda>n. case first_value val n run of None \<Rightarrow> val v n | Some y \<Rightarrow> Some y) st2"
      using join_row_inv [OF Cons.prems(2) v] by auto
    then have inv2: "join_inv names types base (\<lambda>n. first_value val n (run @ [v])) st2"
      by (simp only: first_value_snoc)
    have "join_values A tol bs (v # vs) last_ts st = join_values A tol bs vs last_ts st2"
      using False st2(1) by simp
    moreover have "runs tol last_ts run (v # vs) = runs tol last_ts (run @ [v]) vs" using False by simp
    ultimately show ?thesis using Cons.IH [OF rest inv2, of last_ts] by (simp only: st2(2))
  qed
qed

lemma join_key_rows:
  assumes "builder_laws A" and "\<forall>v \<in> set vs. join_cells A bs types val v \<and> batch_names bs v \<subseteq> names"
    and "join_inv names types base (\<lambda>_. None) st"
  shows "\<exists>st'. join_key A tol bs vs st = Inr st' \<and>
    js_row_count st' = js_row_count st + length (key_runs tol vs) \<and>
    join_inv names types (\<lambda>n. base n @ map (run_cell val types n) (key_runs tol vs)) (\<lambda>_. None) st'"
proof (cases vs)
  case Nil
  with assms(3) show ?thesis by (simp add: join_key_def key_runs_def)
next
  case (Cons v rest)
  let ?f = "map (\<lambda>(n, _). (n, False)) (js_builders st)"
  let ?st = "st\<lparr>js_filled := ?f\<rparr>"
  have fst: "map fst ?f = map fst (js_builders st)" by (simp add: comp_def split_beta)
  have s: "smap (js_builders st)" "fst ` set (js_builders st) = names" using assms(3) by (simp_all add: join_inv_def)
  have "map_of ?f n = Some False" if "n \<in> names" for n
  proof -
    have "(n, False) \<in> set ?f" using that s(2) by force
    then show ?thesis using smap_distinct [OF s(1)] fst by (metis map_of_is_SomeI)
  qed
  moreover have "fst ` set ?f = names" using fst s(2) by (metis set_map)
  moreover have "smap ?f" using s(1) fst by (simp only: smap_def)
  ultimately have "join_inv names types base (\<lambda>n. first_value val n []) ?st"
    using assms(3) by (simp add: join_inv_def)
  from join_values_runs [OF assms(1,2) this, of tol "jv_time v"] Cons show ?thesis
    by (simp add: join_key_def key_runs_def Let_def)
qed

lemma join_keys_rows:
  assumes "builder_laws A"
    and "\<forall>(k, vs) \<in> set keys. \<forall>v \<in> set vs. join_cells A bs types val v \<and> batch_names bs v \<subseteq> names"
    and "join_inv names types base (\<lambda>_. None) st"
  shows "\<exists>st'. rfold (\<lambda>(_, joined_values). join_key A tol bs joined_values) keys st = Inr st' \<and>
    js_row_count st' = js_row_count st + length (concat (map (\<lambda>kv. key_runs tol (snd kv)) keys)) \<and>
    join_inv names types (\<lambda>n. base n @ map (run_cell val types n) (concat (map (\<lambda>kv. key_runs tol (snd kv)) keys))) (\<lambda>_. None) st'"
  using assms(2,3)
proof (induction keys arbitrary: base st)
  case Nil
  then show ?case by simp
next
  case (Cons kv keys)
  obtain k vs where kv: "kv = (k, vs)" by force
  have vs: "\<forall>v \<in> set vs. join_cells A bs types val v \<and> batch_names bs v \<subseteq> names"
    and rest: "\<forall>(k, vs) \<in> set keys. \<forall>v \<in> set vs. join_cells A bs types val v \<and> batch_names bs v \<subseteq> names"
    using Cons.prems(1) by (simp_all add: kv)
  obtain st1 where st1: "join_key A tol bs vs st = Inr st1" "js_row_count st1 = js_row_count st + length (key_runs tol vs)"
    and inv1: "join_inv names types (\<lambda>n. base n @ map (run_cell val types n) (key_runs tol vs)) (\<lambda>_. None) st1"
    using join_key_rows [OF assms(1) vs Cons.prems(2)] by blast
  obtain st' where "rfold (\<lambda>(_, joined_values). join_key A tol bs joined_values) keys st1 = Inr st'"
      "js_row_count st' = js_row_count st1 + length (concat (map (\<lambda>kv. key_runs tol (snd kv)) keys))"
      "join_inv names types (\<lambda>n. (base n @ map (run_cell val types n) (key_runs tol vs)) @
         map (run_cell val types n) (concat (map (\<lambda>kv. key_runs tol (snd kv)) keys))) (\<lambda>_. None) st'"
    using Cons.IH [OF rest inv1] by blast
  with st1 kv show ?case by (intro exI [of _ st']) simp
qed

section \<open>The rows of the keys\<close>

lemma compare_trans: "JoinValueCompare u v \<Longrightarrow> JoinValueCompare v w \<Longrightarrow> JoinValueCompare u w"
  by (auto simp: JoinValueCompare_def split: if_splits)

lemma compare_total: "\<not> JoinValueCompare v w \<Longrightarrow> \<not> JoinValueCompare w v \<Longrightarrow> v = w"
  by (cases v; cases w) (auto simp: JoinValueCompare_def split: if_splits)

lemma set_insert_set [simp]: "set (set_insert v ws) = insert v (set ws)"
  using compare_total by (induction ws) auto

lemma set_insert_sorted: "sorted_wrt JoinValueCompare ws \<Longrightarrow> sorted_wrt JoinValueCompare (set_insert v ws)"
  by (induction ws) (auto intro: compare_trans)

text \<open>The rows of the input in \<open>rs\<close>, by key.\<close>

definition keyed :: "(JoinValue \<Rightarrow> string) \<Rightarrow> JoinValue set \<Rightarrow> (string, JoinValue list) smap \<Rightarrow> bool" where
  "keyed key rs keys \<longleftrightarrow> smap keys \<and>
     (\<forall>k. case map_of keys k of
        None \<Rightarrow> {v \<in> rs. key v = k} = {}
      | Some vs \<Rightarrow> sorted_wrt JoinValueCompare vs \<and> set vs = {v \<in> rs. key v = k} \<and> vs \<noteq> [])"

definition key_known ::
  "arrow_lib \<Rightarrow> JoinHandler \<Rightarrow> string \<Rightarrow> batch list \<Rightarrow> (JoinValue \<Rightarrow> string) \<Rightarrow> JoinValue \<Rightarrow> bool"
where
  "key_known A j tn bs key v \<longleftrightarrow>
     getJoinKey A j (bs ! record_batch_idx v) (row_idx v) tn = Inr \<lparr>key_string = key v, jk_time = jv_time v\<rparr>"

lemma add_join_row_keyed:
  assumes "key_known A j tn bs key v" and "keyed key rs keys"
  shows "\<exists>keys'. add_join_row A j tn (record_batch_idx v) (bs ! record_batch_idx v) (row_idx v) keys = Inr keys' \<and>
    keyed key (insert v rs) keys'"
proof -
  let ?keys = "if map_of keys (key v) = None then smap_put (key v) [] keys else keys"
  let ?keys' = "smap_put (key v) (set_insert v (the (map_of ?keys (key v)))) ?keys"
  have vs: "sorted_wrt JoinValueCompare (the (map_of ?keys (key v)))"
    "set (the (map_of ?keys (key v))) = {w \<in> rs. key w = key v}"
    using assms(2) [unfolded keyed_def, THEN conjunct2, rule_format, of "key v"] by (auto split: option.splits)
  have v: "\<lparr>record_batch_idx = record_batch_idx v, row_idx = row_idx v, jv_time = jv_time v\<rparr> = v" by simp
  have "add_join_row A j tn (record_batch_idx v) (bs ! record_batch_idx v) (row_idx v) keys = Inr ?keys'"
    using assms(1) by (simp add: add_join_row_def key_known_def Let_def v del: JoinValue.surjective)
  moreover have "keyed key (insert v rs) ?keys'"
    unfolding keyed_def
  proof (intro conjI allI)
    show "smap ?keys'" using assms(2) by (simp add: keyed_def)
    fix k
    show "case map_of ?keys' k of
        None \<Rightarrow> {w \<in> insert v rs. key w = k} = {}
      | Some vs \<Rightarrow> sorted_wrt JoinValueCompare vs \<and> set vs = {w \<in> insert v rs. key w = k} \<and> vs \<noteq> []"
    proof (cases "k = key v")
      case True
      have ne: "set_insert v ws \<noteq> []" for ws by (cases ws) auto
      have "map_of ?keys' k = Some (set_insert v (the (map_of ?keys (key v))))" using True by simp
      moreover have "{w \<in> insert v rs. key w = k} = insert v {w \<in> rs. key w = key v}" using True by auto
      ultimately show ?thesis using vs set_insert_sorted ne by (simp only: option.case set_insert_set simp_thms)
    next
      case False
      then have "map_of ?keys' k = map_of keys k" by simp
      moreover have "{w \<in> insert v rs. key w = k} = {w \<in> rs. key w = k}" using False by auto
      ultimately show ?thesis
        using assms(2) [unfolded keyed_def, THEN conjunct2, rule_format, of k] by (simp only:)
    qed
  qed
  ultimately show ?thesis by blast
qed

text \<open>Row \<open>r\<close> of batch \<open>i\<close>, with the time its key has.\<close>

definition join_value :: "(nat \<Rightarrow> nat \<Rightarrow> int) \<Rightarrow> nat \<Rightarrow> nat \<Rightarrow> JoinValue" where
  "join_value time i r = \<lparr>record_batch_idx = i, row_idx = r, jv_time = time i r\<rparr>"

lemma join_value_simps [simp]:
  "record_batch_idx (join_value time i r) = i" "row_idx (join_value time i r) = r" "jv_time (join_value time i r) = time i r"
  by (simp_all add: join_value_def)

definition join_rows :: "(nat \<Rightarrow> nat \<Rightarrow> int) \<Rightarrow> batch list \<Rightarrow> nat \<Rightarrow> JoinValue set" where
  "join_rows time bs n = {join_value time i r | i r. i < n \<and> r < b_num_rows (bs ! i)}"

lemma add_join_rows_keyed:
  assumes "\<forall>r < b_num_rows (bs ! i). key_known A j tn bs key (join_value time i r)" and "keyed key rs keys"
    and "n \<le> b_num_rows (bs ! i)"
  shows "\<exists>keys'. rfold (add_join_row A j tn i (bs ! i)) [0..<n] keys = Inr keys' \<and>
    keyed key (rs \<union> join_value time i ` {..<n}) keys'"
  using assms(3)
proof (induction n)
  case (Suc n)
  then obtain keys1 where 1: "rfold (add_join_row A j tn i (bs ! i)) [0..<n] keys = Inr keys1"
      "keyed key (rs \<union> join_value time i ` {..<n}) keys1"
    by auto
  have "key_known A j tn bs key (join_value time i n)" using assms(1) Suc.prems by simp
  from add_join_row_keyed [OF this 1(2)] obtain keys2
    where "add_join_row A j tn i (bs ! i) n keys1 = Inr keys2"
      "keyed key (insert (join_value time i n) (rs \<union> join_value time i ` {..<n})) keys2"
    by auto
  with 1(1) show ?case by (intro exI [of _ keys2]) (simp add: rfold_append lessThan_Suc)
qed (use assms(2) in simp)

section \<open>The columns\<close>

text \<open>The fields of the input have the type \<open>types\<close> of their name, one of those that have a builder.\<close>

definition field_ok :: "(string \<Rightarrow> arrow_type) \<Rightarrow> arrow_field \<Rightarrow> bool" where
  "field_ok types f \<longleftrightarrow> f_type f = types (f_name f) \<and> type_id (f_type f) \<in> {TIMESTAMP, INT64, DOUBLE, STRING, BOOL}"

definition columns_inv ::
  "string set \<Rightarrow> (string \<Rightarrow> arrow_type) \<Rightarrow> (string, builder) smap \<times> (string, arrow_type) smap \<Rightarrow> bool"
where
  "columns_inv names types st \<longleftrightarrow>
     smap (fst st) \<and> fst ` set (fst st) = names \<and>
     (\<forall>n \<in> names. map_of (fst st) n = Some (types n, []) \<and> map_of (snd st) n = Some (types n))"

lemma createArrayBuilder_type: "type_id ty \<in> {INT64, DOUBLE, STRING, BOOL} \<Longrightarrow> createArrayBuilder (type_id ty) = Inr (ty, [])"
  by (cases ty) (auto simp: createArrayBuilder_def)

lemma add_column_builder_inv:
  assumes "columns_inv names types st" and "field_ok types f"
  shows "\<exists>st'. add_column_builder f st = Inr st' \<and> columns_inv (insert (f_name f) names) types st'"
proof (cases "f_name f \<in> names")
  case True
  then have "map_of (fst st) (f_name f) \<noteq> None" using assms(1) by (simp add: columns_inv_def)
  then have "add_column_builder f st = Inr st" by (cases st) (auto simp: add_column_builder_def)
  with True assms(1) show ?thesis by (intro exI [of _ st]) (simp add: insert_absorb)
next
  case False
  have b: "(if type_id (f_type f) = TIMESTAMP then createTimestampArrayBuilder (f_type f)
      else createArrayBuilder (type_id (f_type f))) = Inr (types (f_name f), [])"
    using assms(2) createArrayBuilder_type [of "f_type f"] by (auto simp: field_ok_def createTimestampArrayBuilder_def)
  have "map_of (fst st) (f_name f) = None" using False assms(1) by (simp add: columns_inv_def map_of_eq_None_iff)
  then have "add_column_builder f st =
      Inr (smap_put (f_name f) (types (f_name f), []) (fst st), smap_put (f_name f) (f_type f) (snd st))"
    by (cases st) (simp add: add_column_builder_def b)
  moreover have "columns_inv (insert (f_name f) names) types
      (smap_put (f_name f) (types (f_name f), []) (fst st), smap_put (f_name f) (f_type f) (snd st))"
    using assms by (auto simp: columns_inv_def field_ok_def)
  ultimately show ?thesis by blast
qed

lemma add_column_builders_inv:
  assumes "columns_inv names types st" and "\<forall>f \<in> set fs. field_ok types f"
  shows "\<exists>st'. rfold add_column_builder fs st = Inr st' \<and> columns_inv (names \<union> f_name ` set fs) types st'"
  using assms
proof (induction fs arbitrary: names st)
  case (Cons f fs)
  have f: "field_ok types f" "\<forall>f \<in> set fs. field_ok types f" using Cons.prems(2) by simp_all
  obtain st1 where st1: "add_column_builder f st = Inr st1" "columns_inv (insert (f_name f) names) types st1"
    using add_column_builder_inv [OF Cons.prems(1) f(1)] by blast
  from Cons.IH [OF st1(2) f(2)] st1(1) show ?case by simp
qed simp

text \<open>The whole input.\<close>

definition join_input_ok ::
  "arrow_lib \<Rightarrow> JoinHandler \<Rightarrow> string \<Rightarrow> batch list \<Rightarrow> (JoinValue \<Rightarrow> string) \<Rightarrow> (nat \<Rightarrow> nat \<Rightarrow> int)
     \<Rightarrow> (string \<Rightarrow> arrow_type) \<Rightarrow> (JoinValue \<Rightarrow> string \<Rightarrow> scalar option) \<Rightarrow> bool"
where
  "join_input_ok A j tn bs key time types val \<longleftrightarrow>
     (\<forall>i < length bs. (\<forall>f \<in> set (sch_fields (b_schema (bs ! i))). field_ok types f) \<and>
        (\<forall>r < b_num_rows (bs ! i). key_known A j tn bs key (join_value time i r) \<and>
           join_cells A bs types val (join_value time i r)))"

definition input_names :: "batch list \<Rightarrow> nat \<Rightarrow> string set" where
  "input_names bs n = (\<Union>i < n. f_name ` set (sch_fields (b_schema (bs ! i))))"

lemma add_join_batches:
  assumes "join_input_ok A j tn bs key time types val" and "n \<le> length bs"
  shows "\<exists>cols keys. rfold (add_join_batch A j tn bs) [0..<n] (([], []), []) = Inr (cols, keys) \<and>
    columns_inv (input_names bs n) types cols \<and> keyed key (join_rows time bs n) keys"
  using assms(2)
proof (induction n)
  case 0
  then show ?case by (simp add: columns_inv_def keyed_def input_names_def join_rows_def)
next
  case (Suc n)
  then obtain cols keys where 1: "rfold (add_join_batch A j tn bs) [0..<n] (([], []), []) = Inr (cols, keys)"
      "columns_inv (input_names bs n) types cols" "keyed key (join_rows time bs n) keys"
    by auto
  have n: "n < length bs" using Suc.prems by simp
  have f: "\<forall>f \<in> set (sch_fields (b_schema (bs ! n))). field_ok types f"
    and r: "\<forall>r < b_num_rows (bs ! n). key_known A j tn bs key (join_value time n r)"
    using assms(1) n by (auto simp: join_input_ok_def)
  obtain cols' where c: "rfold add_column_builder (sch_fields (b_schema (bs ! n))) cols = Inr cols'"
      "columns_inv (input_names bs n \<union> f_name ` set (sch_fields (b_schema (bs ! n)))) types cols'"
    using add_column_builders_inv [OF 1(2) f] by blast
  obtain keys' where k: "rfold (add_join_row A j tn n (bs ! n)) [0..<b_num_rows (bs ! n)] keys = Inr keys'"
      "keyed key (join_rows time bs n \<union> join_value time n ` {..<b_num_rows (bs ! n)}) keys'"
    using add_join_rows_keyed [OF r 1(3) order_refl] by blast
  have "join_rows time bs n \<union> join_value time n ` {..<b_num_rows (bs ! n)} = join_rows time bs (Suc n)"
    by (auto simp: join_rows_def less_Suc_eq)
  moreover have "input_names bs n \<union> f_name ` set (sch_fields (b_schema (bs ! n))) = input_names bs (Suc n)"
    by (simp add: input_names_def lessThan_Suc Un_commute)
  moreover have "add_join_batch A j tn bs n (cols, keys) = Inr (cols', keys')"
    using c(1) k(1) by (simp add: add_join_batch_def)
  ultimately show ?case using 1(1) c(2) k(2) by (intro exI [of _ cols'] exI [of _ keys']) (simp add: rfold_append)
qed

section \<open>The join\<close>

text \<open>The table that is then sorted by time: a column for each name, in it the values of the runs of
  all keys.\<close>

definition joined_table ::
  "int \<Rightarrow> (string \<Rightarrow> arrow_type) \<Rightarrow> (JoinValue \<Rightarrow> string \<Rightarrow> scalar option) \<Rightarrow> string list \<Rightarrow>
   (string, JoinValue list) smap \<Rightarrow> batch"
where
  "joined_table tol types val names keys =
     (let rs = concat (map (\<lambda>kv. key_runs tol (snd kv)) keys) in
      Make \<lparr>sch_fields = map (\<lambda>n. new_field n (types n)) names, sch_metadata = None\<rparr> (length rs)
        (map (\<lambda>n. \<lparr>a_type = types n, a_values = map (run_cell val types n) rs\<rparr>) names))"

lemma join_handle_table:
  assumes "join_input_ok A j tn bs key time types val" and "builder_laws A" and "bs \<noteq> []"
    and "getTimeColumnNameMetadata A (hd bs) = Inr tn"
  shows "\<exists>keys. keyed key (join_rows time bs (length bs)) keys \<and>
    join_handle_vector A j bs =
      rbind (sortByColumn A tn
               (joined_table (tolerance j) types val (sorted_list_of_set (input_names bs (length bs))) keys)) (\<lambda>b.
      rbind (setTimeColumnNameMetadata A b tn) (\<lambda>b. Inr [b]))"
proof -
  let ?names = "input_names bs (length bs)"
  obtain builders ctypes keys where 1: "rfold (add_join_batch A j tn bs) [0..<length bs] (([], []), []) = Inr ((builders, ctypes), keys)"
    and c: "columns_inv ?names types (builders, ctypes)" and k: "keyed key (join_rows time bs (length bs)) keys"
    using add_join_batches [OF assms(1) order_refl] by (metis prod.collapse)
  let ?st = "\<lparr>js_builders = builders, js_filled = map (\<lambda>(n, _). (n, False)) builders, js_row_count = 0\<rparr>"
  have s: "smap builders" "fst ` set builders = ?names"
    and m: "\<And>n. n \<in> ?names \<Longrightarrow> map_of builders n = Some (types n, []) \<and> map_of ctypes n = Some (types n)"
    using c by (simp_all add: columns_inv_def)
  have fst: "map fst (map (\<lambda>(n, _). (n, False)) builders) = map fst builders" by (simp add: comp_def split_beta)
  have "map_of (map (\<lambda>(n, _). (n, False)) builders) n = Some False" if "n \<in> ?names" for n
  proof -
    have "(n, False) \<in> set (map (\<lambda>(n, _). (n, False)) builders)" using that s(2) by force
    then show ?thesis using smap_distinct [OF s(1)] fst by (metis map_of_is_SomeI)
  qed
  moreover have "fst ` set (map (\<lambda>(n, _). (n, False)) builders) = ?names" using fst s(2) by (metis set_map)
  moreover have "smap (map (\<lambda>(n, _). (n, False)) builders)" using s(1) fst by (simp only: smap_def)
  ultimately have inv: "join_inv ?names types (\<lambda>_. []) (\<lambda>_. None) ?st" using s m by (simp add: join_inv_def)
  have cells: "\<forall>(k, vs) \<in> set keys. \<forall>v \<in> set vs. join_cells A bs types val v \<and> batch_names bs v \<subseteq> ?names"
  proof (intro ballI, clarify)
    fix k vs v
    assume "(k, vs) \<in> set keys" and v: "v \<in> set vs"
    then have "map_of keys k = Some vs" using k by (simp add: keyed_def smap_distinct)
    with k v have "v \<in> join_rows time bs (length bs)"
      unfolding keyed_def by (metis (mono_tags, lifting) mem_Collect_eq option.simps(5))
    then show "join_cells A bs types val v \<and> batch_names bs v \<subseteq> ?names"
      using assms(1) by (auto simp: join_rows_def join_input_ok_def batch_names_def input_names_def)
  qed
  let ?rs = "concat (map (\<lambda>kv. key_runs (tolerance j) (snd kv)) keys)"
  obtain st' where st': "rfold (\<lambda>(_, joined_values). join_key A (tolerance j) bs joined_values) keys ?st = Inr st'"
      "js_row_count st' = length ?rs"
    and inv': "join_inv ?names types (\<lambda>n. map (run_cell val types n) ?rs) (\<lambda>_. None) st'"
    using join_keys_rows [OF assms(2) cells inv, of "tolerance j"] by auto
  have s': "smap (js_builders st')" "fst ` set (js_builders st') = ?names"
    using inv' by (simp_all add: join_inv_def)
  have names: "map fst (js_builders st') = sorted_list_of_set ?names"
    using s' by (intro sorted_distinct_set_unique) (simp_all add: smap_def strict_sorted_iff input_names_def)
  have b: "snd nb = (types (fst nb), map (run_cell val types (fst nb)) ?rs)" if "nb \<in> set (js_builders st')" for nb
  proof -
    have "map_of (js_builders st') (fst nb) = Some (snd nb)" using that s'(1) by (simp add: smap_distinct)
    moreover have "fst nb \<in> ?names" using that s'(2) by blast
    ultimately show ?thesis using inv' by (simp add: join_inv_def)
  qed
  have "rmap (\<lambda>(_, b). Finish A b) (js_builders st') =
      Inr (map (\<lambda>nb. \<lparr>a_type = types (fst nb), a_values = map (run_cell val types (fst nb)) ?rs\<rparr>) (js_builders st'))"
    by (rule rmap_all_Inr) (use b assms(2) in \<open>auto simp: builder_laws_def\<close>)
  moreover have "map (\<lambda>(n, _). new_field n (the (map_of ctypes n))) (js_builders st') =
      map (\<lambda>nb. new_field (fst nb) (types (fst nb))) (js_builders st')"
  proof (rule map_cong [OF refl])
    fix nb
    assume "nb \<in> set (js_builders st')"
    then have "fst nb \<in> ?names" using s'(2) by blast
    with m show "(case nb of (n, _) \<Rightarrow> new_field n (the (map_of ctypes n))) = new_field (fst nb) (types (fst nb))"
      by (simp add: split_beta)
  qed
  ultimately have "join_handle_vector A j bs =
      rbind (sortByColumn A tn (joined_table (tolerance j) types val (map fst (js_builders st')) keys)) (\<lambda>b.
      rbind (setTimeColumnNameMetadata A b tn) (\<lambda>b. Inr [b]))"
    using assms(3,4) 1 st' by (simp add: join_handle_vector_def joined_table_def Let_def comp_def del: map_eq_conv)
  with k names show ?thesis by auto
qed

end
