(* ===== verification/Derivative_Handler.thy ===== *)
theory Derivative_Handler
  imports Metadata_Laws Compute_Utils Handler_Options Record_Batch_Handler
begin

text \<open>
  \<open>FDDerivativeCalculator\<close> of \<open>src/src/utils/compute_utils.cpp\<close> and \<open>DerivativeHandler\<close> of
  \<open>src/src/record_batch_handlers/stateful_handlers/derivative_handler.cpp\<close>. Eigen's solvers of a linear
  system are the argument \<open>solve\<close>. A calculator is a function of the arguments, the values, the point
  and the order; \<open>None\<close> stands for the \<open>ComputeException\<close> it throws. The loops of the handler change
  its buffers as they go, so each of them returns the buffers it leaves also when it fails.
\<close>

section \<open>The finite difference calculator\<close>

datatype LinearSolver = AUTO | PARTIAL_PIV_LU | HOUSEHOLDER_QR | COL_PIV_HOUSEHOLDER_QR

type_synonym linear_solve = "LinearSolver \<Rightarrow> double list list \<Rightarrow> double list \<Rightarrow> double list"
type_synonym DerivativeCalculator = "double list \<Rightarrow> double list \<Rightarrow> double \<Rightarrow> nat \<Rightarrow> double option"

text \<open>The column of the Taylor matrix for an argument at distance \<open>delta\<close>: \<open>delta ^ n / n!\<close>.\<close>

fun taylor_column :: "double \<Rightarrow> nat \<Rightarrow> nat \<Rightarrow> double \<Rightarrow> double list" where
  "taylor_column delta 0 n coeff = []"
| "taylor_column delta (Suc k) n coeff =
     coeff # taylor_column delta k (Suc n) (dmul coeff (ddiv_rat delta (of_nat (Suc n))))"

definition taylor_matrix :: "double list \<Rightarrow> double \<Rightarrow> double list list" where
  "taylor_matrix xs x_der =
     (let cols = map (\<lambda>x. taylor_column (dsub x x_der) (length xs) 0 (Fin 1)) xs
      in map (\<lambda>n. map (\<lambda>c. c ! n) cols) [0..<length xs])"

text \<open>An element equal to an earlier one; NaN is not equal to itself.\<close>

definition repeats :: "double list \<Rightarrow> bool" where
  "repeats xs \<longleftrightarrow> \<not> distinct (filter (\<lambda>x. x \<noteq> NaN) xs)"

definition calculateDerivative :: "linear_solve \<Rightarrow> LinearSolver \<Rightarrow> DerivativeCalculator" where
  "calculateDerivative solve linear_solver xs ys x_der order =
     (if length xs \<noteq> length ys then None
      else if length xs < order + 1 then None
      else if repeats xs then None
      else
        (let result_vector = (replicate (length xs) (Fin 0))[order := Fin 1];
             der_coeffs = solve (if linear_solver = AUTO then PARTIAL_PIV_LU else linear_solver)
                            (taylor_matrix xs x_der) result_vector
         in Some (fold (\<lambda>(y, c) der_result. dadd der_result (dmul y c)) (zip ys der_coeffs) (Fin 0))))"

section \<open>The handler\<close>

record BufferedValues =
  bv_times :: "double list"
  bv_values :: "double list"

record DerivativeHandler =
  dh_options :: DerivativeOptions
  all_buffered_times :: "double list"
  buffered_values :: "(string, BufferedValues) smap"
  buffered_batch :: "batch option"

definition createDerivativeHandler :: "DerivativeOptions \<Rightarrow> DerivativeHandler" where
  "createDerivativeHandler options =
     \<lparr>dh_options = options, all_buffered_times = [], buffered_values = [], buffered_batch = None\<rparr>"

text \<open>The quotient is that of the integers.\<close>

definition getScaledPositionTime ::
  "arrow_lib \<Rightarrow> DerivativeOptions \<Rightarrow> int \<Rightarrow> arrow_array \<Rightarrow> status + double"
where
  "getScaledPositionTime A options row time_column =
     rbind (castTimestampScalar A (GetScalar A time_column row) UNIT_NANO) (\<lambda>time_scalar.
       if unit_time_segment options = 0 then Inl UndefinedBehaviour
       else Inr (double_of_int (trunc_div (s_int time_scalar) (unit_time_segment options))))"

text \<open>\<open>(a - b) * unit_time_segment > derivative_neighbourhood\<close>.\<close>

definition beyond :: "DerivativeOptions \<Rightarrow> double \<Rightarrow> double \<Rightarrow> bool" where
  "beyond options a b \<longleftrightarrow>
     dlt (double_of_int (derivative_neighbourhood options)) (dmul (dsub a b) (double_of_int (unit_time_segment options)))"

text \<open>\<open>(a - b) * unit_time_segment <= derivative_neighbourhood\<close>.\<close>

definition nearby :: "DerivativeOptions \<Rightarrow> double \<Rightarrow> double \<Rightarrow> bool" where
  "nearby options a b \<longleftrightarrow>
     dle (dmul (dsub a b) (double_of_int (unit_time_segment options))) (double_of_int (derivative_neighbourhood options))"

text \<open>The first inner loop: times that are too old leave the buffers.\<close>

fun evict_values :: "DerivativeOptions \<Rightarrow> double \<Rightarrow> double list \<Rightarrow> double list \<Rightarrow> double list \<times> double list" where
  "evict_values options derivative_time [] vs = ([], vs)"
| "evict_values options derivative_time (t # ts) vs =
     (if beyond options derivative_time t then evict_values options derivative_time ts (tl vs) else (t # ts, vs))"

definition evict_all :: "DerivativeOptions \<Rightarrow> double \<Rightarrow> (string, BufferedValues) smap \<Rightarrow> (string, BufferedValues) smap" where
  "evict_all options derivative_time buffers =
     map (\<lambda>(n, b). (n, let (ts, vs) = evict_values options derivative_time (bv_times b) (bv_values b)
                       in \<lparr>bv_times = ts, bv_values = vs\<rparr>)) buffers"

fun evict ::
  "DerivativeOptions \<Rightarrow> double \<Rightarrow> double \<Rightarrow> double list \<Rightarrow> (string, BufferedValues) smap
     \<Rightarrow> status + double \<times> double list \<times> (string, BufferedValues) smap"
where
  "evict options derivative_time left_bound_time [] buffers =
     (if beyond options derivative_time left_bound_time then Inl UndefinedBehaviour
      else Inr (left_bound_time, [], buffers))"
| "evict options derivative_time left_bound_time (t # ts) buffers =
     (if beyond options derivative_time left_bound_time
      then evict options derivative_time (if ts = [] then derivative_time else hd ts) ts
             (evict_all options derivative_time buffers)
      else Inr (left_bound_time, t # ts, buffers))"

text \<open>A row enters the buffers: its time, and the valid values of its columns.\<close>

fun push_values ::
  "arrow_lib \<Rightarrow> int \<Rightarrow> double \<Rightarrow> (string, arrow_array) smap \<Rightarrow> (string, BufferedValues) smap
     \<Rightarrow> (string, BufferedValues) smap \<times> (status + unit)"
where
  "push_values A row t [] buffers = (buffers, Inr ())"
| "push_values A row t ((column_name, column) # cols) buffers =
     (case GetScalar A column row of
        Inl e \<Rightarrow> (buffers, Inl e)
      | Inr value_scalar \<Rightarrow>
          if \<not> s_is_valid value_scalar then push_values A row t cols buffers
          else
            (case CastTo A value_scalar (Plain DOUBLE) of
               Inl e \<Rightarrow> (buffers, Inl e)
             | Inr value_scalar \<Rightarrow>
                 (let b = (case map_of buffers column_name of
                             None \<Rightarrow> \<lparr>bv_times = [], bv_values = []\<rparr> | Some b \<Rightarrow> b)
                  in push_values A row t cols
                       (smap_put column_name \<lparr>bv_times = bv_times b @ [t], bv_values = bv_values b @ [s_double value_scalar]\<rparr>
                          buffers))))"

text \<open>The second inner loop: \<open>right_bound_row_id\<close>, \<open>right_bound_time\<close> and the buffers.\<close>

function enter ::
  "arrow_lib \<Rightarrow> arrow_array \<Rightarrow> (string, arrow_array) smap \<Rightarrow> double \<Rightarrow> nat \<Rightarrow> nat \<Rightarrow> double \<Rightarrow> DerivativeHandler
     \<Rightarrow> DerivativeHandler \<times> (status + nat \<times> double)"
where
  "enter A time_column value_columns derivative_time total_rows right_row right_bound_time d =
     (if right_row < total_rows \<and> nearby (dh_options d) right_bound_time derivative_time
      then
        (case push_values A (int right_row) right_bound_time value_columns (buffered_values d) of
           (buffers, r) \<Rightarrow>
             (let d = d\<lparr>all_buffered_times := all_buffered_times d @ [right_bound_time], buffered_values := buffers\<rparr> in
              case r of
                Inl e \<Rightarrow> (d, Inl e)
              | Inr _ \<Rightarrow>
                  if total_rows \<le> Suc right_row then (d, Inr (Suc right_row, right_bound_time))
                  else
                    (case getScaledPositionTime A (dh_options d) (int (Suc right_row)) time_column of
                       Inl e \<Rightarrow> (d, Inl e)
                     | Inr t \<Rightarrow> enter A time_column value_columns derivative_time total_rows (Suc right_row) t d)))
      else (d, Inr (right_row, right_bound_time)))"
  by pat_completeness auto
termination
  by (relation "measure (\<lambda>(A, tc, vc, dt, n, r, t, d). n - r)") auto

declare enter.simps [simp del]

text \<open>The derivatives of a row; \<open>at\<close> throws when no value of the column has been buffered yet.\<close>

fun append_derivatives ::
  "arrow_lib \<Rightarrow> DerivativeCalculator \<Rightarrow> double \<Rightarrow> (string, BufferedValues) smap \<Rightarrow> (string, DerivativeCase) smap
     \<Rightarrow> (string, builder) smap \<Rightarrow> status + (string, builder) smap"
where
  "append_derivatives A calc derivative_time buffers [] builders = Inr builders"
| "append_derivatives A calc derivative_time buffers ((result_column, c) # cases) builders =
     (case map_of buffers (values_column_name c) of
        None \<Rightarrow> Inl ThrownOutOfRange
      | Some b \<Rightarrow>
          (let builder = the (map_of builders result_column) in
           rbind (case calc (bv_times b) (bv_values b) derivative_time (der_order c) of
                    Some der \<Rightarrow> Append A builder (double_scalar der)
                  | None \<Rightarrow> AppendNull A builder) (\<lambda>builder.
             append_derivatives A calc derivative_time buffers cases (smap_put result_column builder builders))))"

text \<open>The outer loop, with \<open>derivative_row_id\<close>, \<open>left_bound_time\<close>, the right bound and the builders.\<close>

function derive ::
  "arrow_lib \<Rightarrow> DerivativeCalculator \<Rightarrow> arrow_array \<Rightarrow> (string, arrow_array) smap \<Rightarrow> nat \<Rightarrow> nat \<Rightarrow> double \<Rightarrow> nat \<Rightarrow> double
     \<Rightarrow> (string, builder) smap \<Rightarrow> DerivativeHandler \<Rightarrow> DerivativeHandler \<times> (status + nat \<times> (string, builder) smap)"
where
  "derive A calc time_column value_columns total_rows derivative_row left_bound_time right_row right_bound_time builders d =
     (if derivative_row < total_rows
      then
        (case rbind (getScaledPositionTime A (dh_options d) (int derivative_row) time_column) (\<lambda>derivative_time.
                rbind (evict (dh_options d) derivative_time left_bound_time (all_buffered_times d) (buffered_values d))
                  (\<lambda>r. Inr (derivative_time, r))) of
           Inl e \<Rightarrow> (d, Inl e)
         | Inr (derivative_time, left_bound_time, kept, buffers) \<Rightarrow>
             (case enter A time_column value_columns derivative_time total_rows right_row right_bound_time
                     (d\<lparr>all_buffered_times := kept, buffered_values := buffers\<rparr>) of
                (d, Inl e) \<Rightarrow> (d, Inl e)
              | (d, Inr (right_row, right_bound_time)) \<Rightarrow>
                  if \<not> no_wait_future (dh_options d) \<and> nearby (dh_options d) right_bound_time derivative_time
                  then (d, Inr (derivative_row, builders))
                  else
                    (case append_derivatives A calc derivative_time (buffered_values d)
                            (derivative_cases (dh_options d)) builders of
                       Inl e \<Rightarrow> (d, Inl e)
                     | Inr builders \<Rightarrow>
                         derive A calc time_column value_columns total_rows (Suc derivative_row) left_bound_time
                           right_row right_bound_time builders d)))
      else (d, Inr (derivative_row, builders)))"
  by pat_completeness auto
termination
  by (relation "measure (\<lambda>(A, calc, tc, vc, n, r, lt, rr, rt, bs, d). n - r)") auto

declare derive.simps [simp del]

text \<open>The columns to derive, and an empty builder for each result.\<close>

definition value_column ::
  "arrow_lib \<Rightarrow> batch \<Rightarrow> string \<times> DerivativeCase \<Rightarrow> (string, arrow_array) smap \<times> (string, builder) smap
     \<Rightarrow> status + (string, arrow_array) smap \<times> (string, builder) smap"
where
  "value_column A concat_record_batch kc st =
     (let (result_column, derivative_case) = kc; (value_columns, builders) = st; name = values_column_name derivative_case in
      rbind (if map_of value_columns name = None
             then (case GetColumnByName A concat_record_batch name of
                     None \<Rightarrow> Inl KeyError | Some c \<Rightarrow> Inr (smap_put name c value_columns))
             else Inr value_columns) (\<lambda>value_columns.
        Inr (value_columns, smap_emplace result_column (Plain DOUBLE, []) builders)))"

text \<open>The result columns appended to the rows whose derivatives are known.\<close>

definition add_result_column :: "arrow_lib \<Rightarrow> string \<times> builder \<Rightarrow> batch \<Rightarrow> status + batch" where
  "add_result_column A nb calculated_batch =
     rbind (Finish A (snd nb)) (\<lambda>result_column.
     rbind (setFieldTypeMetadata A (new_field (fst nb) (Plain DOUBLE)) FIELD) (\<lambda>result_field.
       AddColumn A calculated_batch (int (num_columns calculated_batch)) result_field result_column))"

definition derivative_handle ::
  "arrow_lib \<Rightarrow> DerivativeCalculator \<Rightarrow> DerivativeHandler \<Rightarrow> batch \<Rightarrow> DerivativeHandler \<times> (status + batch list)"
where
  "derivative_handle A calc d record_batch =
     (case rbind (getTimeColumnNameMetadata A record_batch) (\<lambda>time_column_name.
           rbind (sortByColumn A time_column_name record_batch) (\<lambda>sorted_record_batch.
           rbind (case buffered_batch d of
                    None \<Rightarrow> Inr sorted_record_batch
                  | Some b \<Rightarrow> concatenateRecordBatches A [b, sorted_record_batch]) (\<lambda>concat_record_batch.
           case GetColumnByName A concat_record_batch time_column_name of
             None \<Rightarrow> Inl Invalid
           | Some time_column \<Rightarrow>
               rbind (rfold (value_column A concat_record_batch) (derivative_cases (dh_options d)) ([], []))
                 (\<lambda>(value_columns, builders).
               rbind (if all_buffered_times d = [] then getScaledPositionTime A (dh_options d) 0 time_column
                      else Inr (hd (all_buffered_times d))) (\<lambda>left_bound_time.
               let right_row = (case buffered_batch d of None \<Rightarrow> 0 | Some b \<Rightarrow> b_num_rows b) in
               rbind (getScaledPositionTime A (dh_options d) (int right_row) time_column) (\<lambda>right_bound_time.
                 Inr (concat_record_batch, time_column, value_columns, builders, left_bound_time, right_row,
                      right_bound_time))))))) of
        Inl e \<Rightarrow> (d, Inl e)
      | Inr (concat_record_batch, time_column, value_columns, builders, left_bound_time, right_row, right_bound_time) \<Rightarrow>
          (case derive A calc time_column value_columns (a_length time_column) 0 left_bound_time right_row right_bound_time
                  builders d of
             (d, Inl e) \<Rightarrow> (d, Inl e)
           | (d, Inr (derivative_row, builders)) \<Rightarrow>
               (d\<lparr>buffered_batch := Some (SliceFrom A concat_record_batch (int derivative_row))\<rparr>,
                rbind (copyColumnTypes A record_batch
                         (copySchemaMetadata A record_batch (Slice A concat_record_batch 0 (int derivative_row))))
                  (\<lambda>calculated_batch.
                rbind (rfold (add_result_column A) builders calculated_batch) (\<lambda>calculated_batch.
                  Inr [calculated_batch])))))"

lemma repeats_None: "repeats xs \<Longrightarrow> calculateDerivative solve s xs ys x n = None"
  by (simp add: calculateDerivative_def)

end
