(* ===== verification/Group_Windows.thy ===== *)
theory Group_Windows
  imports Group_Dispatcher Window_Handler
begin

text \<open>
  The window function as the server runs it: a \<open>GroupDispatcher\<close> over \<open>WindowHandler\<close>s
  (\<open>src/src/record_batch_handlers/group_dispatcher.cpp\<close>,
  \<open>src/src/record_batch_handlers/stateful_handlers/window_handler.cpp\<close>). The batches of a group
  form a stream; how the groups interleave has no effect on the windows of a group.
\<close>

text \<open>The batches are a stream the window handler can cut into windows: they follow each other in time
  and the library does on them what \<open>stream_laws\<close> says.\<close>

definition window_stream_ok ::
  "arrow_lib \<Rightarrow> string \<Rightarrow> (batch \<Rightarrow> 'r list) \<Rightarrow> ('r \<Rightarrow> int) \<Rightarrow> ('r \<Rightarrow> int) \<Rightarrow> batch list \<Rightarrow> bool"
where
  "window_stream_ok A tn rows key ts bs \<longleftrightarrow>
     (\<exists>good. stream_laws A tn good rows key ts \<and> (\<forall>b \<in> set bs. good b \<and> rows b \<noteq> [])) \<and>
     sorted (map ts (stream_rows rows key bs)) \<and> (\<forall>b \<in> set bs. \<forall>r \<in> set (rows b). 0 < ts r) \<and>
     length (stream_rows rows key bs) < 2 ^ 64"

text \<open>The windows of a stream of batches.\<close>

definition stream_windows ::
  "WindowOptions \<Rightarrow> (batch \<Rightarrow> 'r list) \<Rightarrow> ('r \<Rightarrow> int) \<Rightarrow> ('r \<Rightarrow> int) \<Rightarrow> batch list \<Rightarrow> 'r list list"
where
  "stream_windows options rows key ts bs =
     (let rs = stream_rows rows key bs in
      windows ts (wo_period options) (wo_every options) (first_emit options (ts (hd rs))) (ts (last rs)) rs)"

lemma window_handler_windows:
  assumes "window_stream_ok A tn rows key ts bs" and "bs \<noteq> []" and "0 < wo_every options" and "0 \<le> wo_period options"
  shows "\<exists>w' res. handle_vector (window_handle A) (new_window_handler options) bs = (w', Inr res) \<and>
    map rows res = stream_windows options rows key ts bs"
  using assms handle_stream_from_start unfolding window_stream_ok_def stream_windows_def Let_def by metis

lemma dispatcher_windows:
  assumes g: "\<forall>b \<in> set bs. \<exists>g. extractGroupMetadata A b = Inr g"
    and ok: "\<forall>g. group_batches A g bs \<noteq> [] \<longrightarrow> window_stream_ok A tn rows key ts (group_batches A g bs)"
    and options: "0 < wo_every options" "0 \<le> wo_period options"
  shows "\<exists>st' rss. handle_vector (dispatcher_handle A (window_handle A) (new_window_handler options)) [] bs =
      (st', Inr (concat rss)) \<and> length rss = length bs \<and>
    (\<forall>g. group_batches A g bs \<noteq> [] \<longrightarrow>
       map rows (concat (map snd (filter (\<lambda>(b, _). extractGroupMetadata A b = Inr g) (zip bs rss)))) =
         stream_windows options rows key ts (group_batches A g bs))"
proof -
  let ?h = "window_handle A" and ?new = "new_window_handler options"
  have start: "group_state ?new [] g = ?new" for g by (simp add: group_state_def)
  have run: "\<exists>w' res. handle_vector ?h ?new (group_batches A g bs) = (w', Inr res) \<and>
      (group_batches A g bs \<noteq> [] \<longrightarrow> map rows res = stream_windows options rows key ts (group_batches A g bs))" for g
  proof (cases "group_batches A g bs = []")
    case False
    with ok have "window_stream_ok A tn rows key ts (group_batches A g bs)" by blast
    from window_handler_windows [OF this False options] show ?thesis by blast
  qed simp
  define final where "final g = fst (handle_vector ?h ?new (group_batches A g bs))" for g
  have "\<forall>g. \<exists>r. handle_vector ?h (group_state ?new [] g) (group_batches A g bs) = (final g, Inr r)"
    using run by (metis final_def fst_conv start)
  from dispatcher_isolates [OF g this] obtain st' rss
    where 1: "handle_vector (dispatcher_handle A ?h ?new) [] bs = (st', Inr (concat rss))" "length rss = length bs"
    and 2: "\<And>g. handle_vector ?h ?new (group_batches A g bs) =
      (final g, Inr (concat (map snd (filter (\<lambda>(b, _). extractGroupMetadata A b = Inr g) (zip bs rss)))))"
    unfolding start by blast
  have "map rows (concat (map snd (filter (\<lambda>(b, _). extractGroupMetadata A b = Inr g) (zip bs rss)))) =
      stream_windows options rows key ts (group_batches A g bs)" if "group_batches A g bs \<noteq> []" for g
    using run [of g] 2 [of g] that by auto
  with 1 show ?thesis by blast
qed

end
