(* ===== verification/Reference_Tables.thy ===== *)
theory Reference_Tables
  imports Reference_Arrow Group_Sort Simple_Handlers Join_Handler Aggregate_Handler
begin

text \<open>
  Tables on the concrete library of \<open>Reference_Arrow\<close>: batches with two integer columns for the
  theorems on grouping and on default values, batches with a time, a host and a value for the join and
  the aggregation, and the laws these theorems assume.
\<close>

lemma ref_table_laws [simp]: "table_laws ref_arrow"
  by (simp add: table_laws_def)

section \<open>Two integer columns\<close>

definition int_array :: "int list \<Rightarrow> arrow_array" where
  "int_array xs = \<lparr>a_type = Plain INT64, a_values = map (int_scalar (Plain INT64)) xs\<rparr>"

definition pair_batch :: "(int \<times> int) list \<Rightarrow> batch" where
  "pair_batch rs = Make \<lparr>sch_fields = [new_field ''a'' (Plain INT64), new_field ''b'' (Plain INT64)], sch_metadata = None\<rparr>
     (length rs) [int_array (map fst rs), int_array (map snd rs)]"

definition pair_good :: "batch \<Rightarrow> bool" where
  "pair_good b \<longleftrightarrow> (\<exists>rs. b = pair_batch rs)"

definition pair_rows :: "batch \<Rightarrow> (int \<times> int) list" where
  "pair_rows b = zip (map s_int (a_values (b_columns b ! 0))) (map s_int (a_values (b_columns b ! 1)))"

definition pair_key :: "string \<Rightarrow> int \<times> int \<Rightarrow> int" where
  "pair_key c r = (if c = ''a'' then fst r else snd r)"

lemma pair_rows_batch [simp]: "pair_rows (pair_batch rs) = rs"
  by (simp add: pair_rows_def pair_batch_def int_array_def comp_def zip_map_fst_snd)

lemma pair_good_batch [simp]: "pair_good (pair_batch rs)"
  by (auto simp: pair_good_def)

lemma pair_keys: "pair_key ''a'' = fst" "pair_key ''b'' = snd"
  by (simp_all add: pair_key_def fun_eq_iff)

lemma pair_column:
  "c \<in> {''a'', ''b''} \<Longrightarrow> GetColumnByName ref_arrow (pair_batch rs) c = Some (int_array (map (pair_key c) rs))"
  "c \<notin> {''a'', ''b''} \<Longrightarrow> GetColumnByName ref_arrow (pair_batch rs) c = None"
  by (auto simp: ref_arrow_def pair_batch_def field_index_def pair_keys)

text \<open>A choice of rows is the batch of these rows.\<close>

lemma pick_int_array: "list_all (\<lambda>i. i < length xs) idx \<Longrightarrow> pick idx (int_array xs) = int_array (map ((!) xs) idx)"
  by (induction idx) (simp_all add: pick_def int_array_def)

lemma pick_pair_batch:
  assumes "list_all (\<lambda>i. i < length rs) idx"
  shows "map_columns (pick idx) (length idx) (pair_batch rs) = pair_batch (map ((!) rs) idx)"
proof -
  have "map f (map ((!) rs) idx) = map ((!) (map f rs)) idx" for f :: "int \<times> int \<Rightarrow> int"
    using assms by (simp add: list_all_iff)
  with assms show ?thesis by (simp add: map_columns_def pair_batch_def pick_int_array del: map_map)
qed

lemma filter_pair_batch:
  assumes "a_values flags = map (\<lambda>r. bool_scalar (P r)) rs"
  shows "Filter ref_arrow (pair_batch rs) flags = Inr (pair_batch (filter P rs))"
proof -
  let ?idx = "filter (\<lambda>i. P (rs ! i)) [0..<length rs]"
  have "filter (\<lambda>i. s_bool (a_values flags ! i)) [0..<length rs] = ?idx"
    by (rule filter_cong) (simp_all add: assms bool_scalar_def)
  moreover have "map ((!) rs) ?idx = filter P rs"
    using filter_map [of P "(!) rs" "[0..<length rs]"] by (simp add: comp_def map_nth)
  moreover have "map_columns (pick ?idx) (length ?idx) (pair_batch rs) = pair_batch (map ((!) rs) ?idx)"
    by (rule pick_pair_batch) (simp add: list_all_iff)
  moreover have "b_num_rows (pair_batch rs) = length rs" by (simp add: pair_batch_def)
  ultimately show ?thesis by (simp add: ref_arrow_def filter_batch_def Let_def)
qed

lemma int_scalar_inject [simp]: "int_scalar ty i = int_scalar ty j \<longleftrightarrow> i = j"
  by (simp add: int_scalar_def)

lemma insort_key_cong:
  "f x = g x \<Longrightarrow> (\<And>y. y \<in> set ys \<Longrightarrow> f y = g y) \<Longrightarrow> insort_key f x ys = insort_key g x ys"
  by (induction ys) auto

lemma sort_key_cong: "(\<And>x. x \<in> set xs \<Longrightarrow> f x = g x) \<Longrightarrow> sort_key f xs = sort_key g xs"
proof (induction xs)
  case (Cons x xs)
  then show ?case using insort_key_cong [of f x g "sort_key g xs"] by simp
qed simp

lemma pair_sort:
  assumes "c \<in> {''a'', ''b''}" and "col = int_array (map (pair_key c) rs)"
  shows "Take ref_arrow (pair_batch rs) (index_array (sort_permutation col)) = Inr (pair_batch (sort_key (pair_key c) rs))"
proof -
  let ?p = "sort_permutation col"
  have p: "?p = sort_key (\<lambda>i. pair_key c (rs ! i)) [0..<length rs]"
    unfolding sort_permutation_def assms(2) int_array_def by (simp, rule sort_key_cong) simp
  have "list_all (\<lambda>i. i < length rs) ?p" by (simp add: list_all_iff p)
  from pick_pair_batch [OF this]
  have "map_columns (pick ?p) (length ?p) (pair_batch rs) = pair_batch (sort_key (pair_key c) rs)"
    by (simp add: p sort_key_nth)
  then show ?thesis by (simp add: ref_arrow_def index_array_def comp_def)
qed

lemma pair_group_laws: "group_laws ref_arrow pair_good pair_rows {''a'', ''b''} pair_key"
  unfolding group_laws_def
proof (intro conjI ballI allI impI)
  fix c b
  assume c: "c \<in> {''a'', ''b''}" and "pair_good b"
  then obtain rs where b: "b = pair_batch rs" by (auto simp: pair_good_def)
  let ?col = "int_array (map (pair_key c) rs)" and ?k = "pair_key c"
  have col: "GetColumnByName ref_arrow b c = Some ?col" using c by (simp add: b pair_column)
  have sort: "SortIndices ref_arrow ?col = Inr (index_array (sort_permutation ?col))" by (simp add: ref_arrow_def)
  have s: "GetScalar ref_arrow ?col (int i) = Inr (int_scalar (Plain INT64) (?k (rs ! i)))" if "i < length rs" for i
    using that by (simp add: ref_arrow_def int_array_def)
  let ?eq = "\<lambda>x. \<lparr>a_type = Plain BOOL, a_values = map (\<lambda>r. bool_scalar (?k r = x)) rs\<rparr>"
  let ?ne = "\<lambda>x. \<lparr>a_type = Plain BOOL, a_values = map (\<lambda>r. bool_scalar (?k r \<noteq> x)) rs\<rparr>"
  have cmp: "CompareEqual ref_arrow ?col (int_scalar (Plain INT64) x) = Inr (?eq x)"
    "CompareNotEqual ref_arrow ?col (int_scalar (Plain INT64) x) = Inr (?ne x)" for x
    by (simp_all add: ref_arrow_def int_array_def comp_def)
  show "group_column_ok ref_arrow pair_good pair_rows pair_key c b"
    unfolding group_column_ok_def
  proof (rule exI [of _ ?col], intro conjI impI)
    show "\<exists>idx b'. SortIndices ref_arrow ?col = Inr idx \<and> Take ref_arrow b idx = Inr b' \<and> pair_good b' \<and>
        pair_rows b' = sort_key ?k (pair_rows b)"
      using sort pair_sort [OF c, of _ rs] by (simp add: b)
    assume "pair_rows b \<noteq> []"
    then have ne: "0 < length rs" by (simp add: b)
    have eq: "scalar_Equals ref_arrow = (=)" by (simp add: ref_arrow_def)
    have h: "GetScalar ref_arrow ?col 0 = Inr (int_scalar (Plain INT64) (?k (hd rs)))"
      "GetScalar ref_arrow ?col (int (length rs) - 1) = Inr (int_scalar (Plain INT64) (?k (last rs)))"
      using s [of 0] s [of "length rs - 1"] ne by (simp_all add: hd_conv_nth last_conv_nth of_nat_diff)
    show "\<exists>lo hi eq ne b1 b2. GetScalar ref_arrow ?col 0 = Inr lo \<and>
        GetScalar ref_arrow ?col (int (length (pair_rows b)) - 1) = Inr hi \<and>
        (scalar_Equals ref_arrow lo hi \<longleftrightarrow> ?k (hd (pair_rows b)) = ?k (last (pair_rows b))) \<and>
        CompareEqual ref_arrow ?col lo = Inr eq \<and> Filter ref_arrow b eq = Inr b1 \<and> pair_good b1 \<and>
        pair_rows b1 = filter (\<lambda>r. ?k r = ?k (hd (pair_rows b))) (pair_rows b) \<and>
        CompareNotEqual ref_arrow ?col lo = Inr ne \<and> Filter ref_arrow b ne = Inr b2 \<and> pair_good b2 \<and>
        pair_rows b2 = filter (\<lambda>r. ?k r \<noteq> ?k (hd (pair_rows b))) (pair_rows b)"
      using filter_pair_batch [of "?eq (?k (hd rs))" "\<lambda>r. ?k r = ?k (hd rs)" rs]
        filter_pair_batch [of "?ne (?k (hd rs))" "\<lambda>r. ?k r \<noteq> ?k (hd rs)" rs]
      by (simp add: b h cmp eq)
  qed (use col in \<open>simp_all add: int_array_def b\<close>)
next
  fix b c
  assume "pair_good b" and "c \<notin> {''a'', ''b''}"
  then show "GetColumnByName ref_arrow b c = None" by (auto simp: pair_good_def pair_column)
qed

section \<open>A join\<close>

text \<open>A column of time stamps, one of host names and one of integers.\<close>

definition host_batch :: "string \<Rightarrow> (int \<times> string \<times> int) list \<Rightarrow> batch" where
  "host_batch name rs =
     Make (ts_schema\<lparr>sch_fields := [new_field ''time'' (Timestamp UNIT_SECOND), new_field ''host'' (Plain STRING),
                                     new_field name (Plain INT64)]\<rparr>)
       (length rs)
       [ts_array (map fst rs), \<lparr>a_type = Plain STRING, a_values = map (\<lambda>r. string_scalar (fst (snd r))) rs\<rparr>,
        int_array (map (snd \<circ> snd) rs)]"

definition example_join :: "batch list" where
  "example_join = [host_batch ''cpu'' [(1, ''x'', 10), (5, ''x'', 50)], host_batch ''mem'' [(2, ''x'', 20)]]"

definition example_types :: "string \<Rightarrow> arrow_type" where
  "example_types n = (if n = ''time'' then Timestamp UNIT_SECOND else if n = ''host'' then Plain STRING else Plain INT64)"

text \<open>The cell of an input row in a column, if its batch has the column.\<close>

definition ref_cell :: "batch list \<Rightarrow> JoinValue \<Rightarrow> string \<Rightarrow> scalar option" where
  "ref_cell bs v n = map_option (\<lambda>c. a_values c ! row_idx v) (GetColumnByName ref_arrow (bs ! record_batch_idx v) n)"

definition ref_time :: "batch list \<Rightarrow> nat \<Rightarrow> nat \<Rightarrow> int" where
  "ref_time bs i r = s_int (a_values (hd (b_columns (bs ! i))) ! r)"

lemma host_batch_columns:
  assumes "name \<noteq> ''time''" and "name \<noteq> ''host''"
  shows "GetColumnByName ref_arrow (host_batch name rs) n =
    (if n = ''time'' then Some (ts_array (map fst rs))
     else if n = ''host'' then Some \<lparr>a_type = Plain STRING, a_values = map (\<lambda>r. string_scalar (fst (snd r))) rs\<rparr>
     else if n = name then Some (int_array (map (snd \<circ> snd) rs)) else None)"
  using assms by (simp add: ref_arrow_def host_batch_def ts_schema_def gts_schema_def field_index_def)

lemma host_batch_cells:
  assumes "bs ! record_batch_idx v = host_batch name rs" and "row_idx v < length rs" and "name \<noteq> ''time''" and "name \<noteq> ''host''"
  shows "join_cells ref_arrow bs example_types (ref_cell bs) v"
proof -
  have c: "b_columns (host_batch name rs) = [ts_array (map fst rs),
      \<lparr>a_type = Plain STRING, a_values = map (\<lambda>r. string_scalar (fst (snd r))) rs\<rparr>, int_array (map (snd \<circ> snd) rs)]"
    and f: "sch_fields (b_schema (host_batch name rs)) = [new_field ''time'' (Timestamp UNIT_SECOND),
      new_field ''host'' (Plain STRING), new_field name (Plain INT64)]"
    by (simp_all add: host_batch_def)
  have g: "GetScalar ref_arrow a (int i) = Inr (a_values a ! i)" if "i < length (a_values a)" for a i
    using that by (simp add: ref_arrow_def)
  have app: "Append ref_arrow (ty, vs) s = Inr (ty, vs @ [s])" for ty vs s by (simp add: ref_arrow_def)
  have cast: "CastTo ref_arrow s (Timestamp UNIT_SECOND) = Inr (int_scalar (Timestamp UNIT_SECOND) (s_int s))"
    if "s_type s = Timestamp UNIT_SECOND" for s using that by (simp add: ref_arrow_def)
  have nn: "ref_cell bs v n = None" if "n \<notin> {''time'', ''host'', name}" for n
    using that assms by (simp add: ref_cell_def host_batch_columns)
  show ?thesis
    unfolding join_cells_def Let_def assms(1) c f
    using assms nn
    by (simp add: All_less_Suc numeral_eq_Suc g ts_array_def int_array_def ref_cell_def host_batch_columns example_types_def
        appendToBuilder_def appendToTimestampBuilder_def app)
      (simp add: scalar_defs cast)
qed

lemma example_join_cells:
  assumes "i < 2" and "r < b_num_rows (example_join ! i)"
  shows "key_known ref_arrow \<lparr>join_on_columns = [''host''], tolerance = 1\<rparr> ''time'' example_join (\<lambda>_. ''host=x,'') (join_value (ref_time example_join) i r)"
    and "join_cells ref_arrow example_join example_types (ref_cell example_join) (join_value (ref_time example_join) i r)"
proof -
  have "(i, r) \<in> {(0, 0), (0, 1), (1, 0)}"
    using assms by (auto simp: example_join_def host_batch_def less_2_cases_iff less_Suc_eq)
  then consider "i = 0" "r = 0" | "i = 0" "r = 1" | "i = 1" "r = 0" by auto
  note cases = this
  show "key_known ref_arrow \<lparr>join_on_columns = [''host''], tolerance = 1\<rparr> ''time'' example_join (\<lambda>_. ''host=x,'') (join_value (ref_time example_join) i r)"
    using cases by (cases; simp only:) code_simp+
  show "join_cells ref_arrow example_join example_types (ref_cell example_join) (join_value (ref_time example_join) i r)"
    using cases
  proof cases
    case 1
    then show ?thesis by (intro host_batch_cells [of _ _ "''cpu''" "[(1, ''x'', 10), (5, ''x'', 50)]"]) (simp_all add: example_join_def)
  next
    case 2
    then show ?thesis by (intro host_batch_cells [of _ _ "''cpu''" "[(1, ''x'', 10), (5, ''x'', 50)]"]) (simp_all add: example_join_def)
  next
    case 3
    then show ?thesis by (intro host_batch_cells [of _ _ "''mem''" "[(2, ''x'', 20)]"]) (simp_all add: example_join_def)
  qed
qed

lemma example_join_fields: "i < 2 \<Longrightarrow> \<forall>f \<in> set (sch_fields (b_schema (example_join ! i))). field_ok example_types f"
  by (auto simp: less_2_cases_iff example_join_def host_batch_def field_ok_def example_types_def)

section \<open>An aggregation\<close>

text \<open>A serialisation of messages: the group is written as its column names.\<close>

definition ref_proto :: proto_lib where
  "ref_proto = \<lparr>SerializeGroup = \<lambda>g. concat (group_columns_names g), ParseGroup = \<lambda>_. empty_group,
     SerializeColumnsNames = concat, SerializePoints = \<lambda>_. [], ParsePoints = \<lambda>_. ([], True), SerializePoint = \<lambda>_. []\<rparr>"

definition example_aggregate :: AggregateOptions where
  "example_aggregate = default_aggregate_options\<lparr>aggregate_columns :=
     [(''value'', [\<lparr>aggregate_function = kFirst, result_column_name = ''first'', result_column_type = FIELD\<rparr>])]\<rparr>"

end
