(* ===== verification/Window_Termination.thy ===== *)
theory Window_Termination
  imports Window_Handler Dynamic_Window_Options
begin

text \<open>
  The loop of \<open>WindowHandler::handle\<close> (\<open>src/src/record_batch_handlers/stateful_handlers/window_handler.cpp\<close>)
  advances the emission time by the every option. With the option zero it does not return once a window
  is due: the state it comes back to is one from which the next iteration succeeds in the same way.
\<close>

text \<open>The states of the loop in which a window is due and no progress is made.\<close>

definition stuck ::
  "(batch \<Rightarrow> bool) \<Rightarrow> (batch \<Rightarrow> 'r list) \<Rightarrow> ('r \<Rightarrow> int) \<Rightarrow> int \<Rightarrow> WindowHandler \<Rightarrow> batch \<Rightarrow> bool"
where
  "stuck good rows ts max_ts w b \<longleftrightarrow>
     buffer_ok good rows ts (buffered_record_batches w) \<and> good b \<and> rows b \<noteq> [] \<and> max_ts = ts (last (rows b)) \<and>
     sorted (map ts (buffer_rows rows (buffered_record_batches w) @ rows b)) \<and>
     (\<forall>r \<in> set (buffer_rows rows (buffered_record_batches w)). ts r < next_emit w) \<and>
     next_emit w \<le> max_ts \<and> getEveryOption w = 0 \<and>
     length (buffer_rows rows (buffered_record_batches w) @ rows b) < 2 ^ 64"

lemma stuck_iteration:
  assumes "stream_laws A tn good rows key ts" and "stuck good rows ts max_ts w b"
  shows "\<exists>w' b' result'. window_iteration A tn w b result = (w', Inr (b', result')) \<and> stuck good rows ts max_ts w' b'"
proof -
  let ?X = "buffer_rows rows (buffered_record_batches w) @ rows b"
  have s: "buffer_ok good rows ts (buffered_record_batches w)" "good b" "rows b \<noteq> []" "sorted (map ts ?X)"
    "\<forall>r \<in> set (buffer_rows rows (buffered_record_batches w)). ts r < next_emit w"
    "next_emit w \<le> ts (last (rows b))" "0 \<le> getEveryOption w" "length ?X < 2 ^ 64"
    and m: "max_ts = ts (last (rows b))" and e: "getEveryOption w = 0"
    using assms(2) by (simp_all add: stuck_def)
  obtain w' b' window k where it: "window_iteration A tn w b result = (w', Inr (b', result @ window))"
    and o': "wh_options w' = wh_options w" and n: "next_emit w' = next_emit w + getEveryOption w"
    and ok: "buffer_ok good rows ts (buffered_record_batches w')" and b': "good b'" "rows b' \<noteq> []"
      "last (rows b') = last (rows b)"
    and x: "buffer_rows rows (buffered_record_batches w') @ rows b' = drop k ?X"
    and old: "\<forall>r \<in> set (buffer_rows rows (buffered_record_batches w')). ts r < next_emit w"
    using window_iteration_rows [OF assms(1) s(1-6) s(7,8)] by blast
  have "sorted (map ts (drop k ?X))" unfolding drop_map [symmetric] using s(4) by (rule sorted_wrt_drop)
  moreover have "getEveryOption w' = 0" using o' e by (simp add: getEveryOption_def)
  ultimately have "stuck good rows ts max_ts w' b'"
    unfolding stuck_def x using ok b' m n e old s(6,8) by simp
  with it show ?thesis by blast
qed

lemma window_loop_returns_not_stuck:
  assumes "window_loop A tn max_ts w b result = Some r" and "stream_laws A tn good rows key ts"
  shows "\<not> stuck good rows ts max_ts w b"
  using assms
proof (induction rule: window_loop.raw_induct [rotated, consumes 1])
  case (1 loop A tn max_ts w b result r)
  show ?case
  proof
    assume st: "stuck good rows ts max_ts w b"
    then obtain w' b' result' where it: "window_iteration A tn w b result = (w', Inr (b', result'))"
        "stuck good rows ts max_ts w' b'"
      using stuck_iteration [OF 1(3)] by blast
    have "next_emit w \<le> max_ts" using st by (simp add: stuck_def)
    then have "loop A tn max_ts w' b' result' = Some r" using 1(2) it(1) by simp
    from 1(1) [OF this 1(3)] it(2) show False by contradiction
  qed
qed

lemma window_loop_stuck:
  assumes "stream_laws A tn good rows key ts" and "stuck good rows ts max_ts w b"
  shows "window_loop A tn max_ts w b result = None"
proof (rule ccontr)
  assume "window_loop A tn max_ts w b result \<noteq> None"
  then obtain r where "window_loop A tn max_ts w b result = Some r" by blast
  then show False using window_loop_returns_not_stuck [OF _ assms(1)] assms(2) by blast
qed

text \<open>A fresh handler with the every option zero: it returns from its first batch when no window is due
  yet, and otherwise never.\<close>

lemma window_handle_zero_every:
  assumes laws: "stream_laws A tn good rows key ts" and b: "good b" "rows b \<noteq> []"
    and o: "wo_every options = 0" and small: "length (rows b) < 2 ^ 64"
    and so: "sorted (map ts (sort_key key (rows b)))"
  shows "snd (window_handle A (new_window_handler options) b) = Inl NoReturn \<longleftrightarrow>
    first_emit options (ts (hd (sort_key key (rows b)))) \<le> ts (last (sort_key key (rows b)))"
    (is "?L \<longleftrightarrow> ?N \<le> ?M")
proof -
  let ?w = "(new_window_handler options)\<lparr>next_emit := ?N\<rparr>"
  have n: "next_emit (new_window_handler options) = 0" "wh_options (new_window_handler options) = options"
    by (simp_all add: new_window_handler_def)
  obtain sb where g: "good sb" and rs: "rows sb = sort_key key (rows b)"
    and h: "window_handle A (new_window_handler options) b =
      (case window_loop A tn ?M ?w sb [] of
         None \<Rightarrow> (?w, Inl NoReturn)
       | Some (w, Inl e) \<Rightarrow> (w, Inl e)
       | Some (w, Inr (sorted_record_batch, result)) \<Rightarrow>
           (w\<lparr>buffered_record_batches := buffered_record_batches w @ [sorted_record_batch]\<rparr>, Inr result))"
    using window_handle_start [OF laws b, of "new_window_handler options"]
    unfolding n by (simp only: if_True refl) blast
  show ?thesis
  proof (cases "?N \<le> ?M")
    case True
    have "stuck good rows ts ?M ?w sb"
      using g rs b(2) o so small True
      by (simp add: stuck_def new_window_handler_def buffer_ok_def getEveryOption_def sort_key_facts)
    then have "window_loop A tn ?M ?w sb [] = None" by (rule window_loop_stuck [OF laws])
    then show ?thesis using True h by simp
  next
    case False
    then have "window_loop A tn ?M ?w sb [] = Some (?w, Inr (sb, []))"
      by (subst window_loop.simps) simp
    then show ?thesis using False h by simp
  qed
qed

text \<open>The options of the window function without columns: durations shorter than a second become zero.\<close>

lemma parse_static_window:
  "parseWindowOptions memory
     [duration_option STATIC_PERIOD p, duration_option STATIC_EVERY e, duration_option EMIT_TIMEOUT t] =
   Inr (memory\<lparr>convert_options := \<lparr>period_option = None, every_option = None\<rparr>,
     window_handler_options := (window_handler_options memory)\<lparr>wo_fill_period := False,
       wo_period := nanoseconds_to_seconds p, wo_every := nanoseconds_to_seconds e\<rparr>,
     pw_emit_timeout := nanoseconds_to_seconds t\<rparr>)"
  by (simp add: parseWindowOptions_def parse_window_option_def assign_window_option_def OPTIONS_SIZE_def
    WINDOW_OPTIONS_TYPES_def duration_option_def durationvalue_def map_at_def PRESENTED_OPTIONS_EXCLUSIVE_CNF_def
    check_disjunction_def window_option_names Let_def)

lemma nanoseconds_below_second: "\<bar>d\<bar> < 1000000000 \<Longrightarrow> nanoseconds_to_seconds d = 0"
  by (simp add: nanoseconds_to_seconds_def trunc_div_def)

lemma short_every_hangs:
  assumes laws: "stream_laws A tn good rows key ts" and b: "good b" "rows b \<noteq> []"
    and e: "\<bar>every\<bar> < 1000000000" and small: "length (rows b) < 2 ^ 64"
    and so: "sorted (map ts (sort_key key (rows b)))"
  shows "\<exists>w. parseWindowOptions memory
      [duration_option STATIC_PERIOD period, duration_option STATIC_EVERY every, duration_option EMIT_TIMEOUT t] =
      Inr w \<and>
    snd (window_handle A (new_window_handler (window_handler_options w)) b) = Inl NoReturn"
proof -
  let ?R = "sort_key key (rows b)"
  have "?R \<noteq> []" using b(2) by (simp add: sort_key_facts)
  then have "ts (hd ?R) \<le> ts (last ?R)" using so by (cases ?R) auto
  then show ?thesis
    unfolding parse_static_window
    by (simp add: window_handle_zero_every [OF laws b _ small so] nanoseconds_below_second [OF e] first_emit_def)
qed

end
