(* ===== verification/Points_Converter.thy ===== *)
theory Points_Converter
  imports Metadata_Laws Grouping_Utils Arrow_Utils Handler_Options Dynamic_Window_Options
begin

text \<open>
  \<open>src/src/kapacitor_udf/utils/points_converter.h\<close> and \<open>.cpp\<close>: points of Kapacitor to record
  batches, a batch for each group string, and back. A group string that cannot be parsed is an error, an
  exception other than \<open>GroupParserException\<close> would leave the converter. The protobuf maps of a
  point are sorted, a map field of a point is written with \<open>smap_put\<close>.

  \<open>WindowOptionsConverterDecorator\<close> of
  \<open>src/src/kapacitor_udf/request_handlers/dynamic_window_request_handler.cpp\<close> adds the time units of the
  option columns to the batches.
\<close>

record PointsToRecordBatchesConversionOptions =
  pc_time_column_name :: string
  pc_measurement_column_name :: string

type_synonym PointsConverter = "(PointBatch \<Rightarrow> status + batch list) \<times> (batch list \<Rightarrow> status + PointBatch)"

section \<open>Points to record batches\<close>

definition addBuilders ::
  "arrow_type \<Rightarrow> (string, 'v) smap \<Rightarrow> (string, builder) smap \<Rightarrow> (string, builder) smap"
where
  "addBuilders ty data_map builders = fold (\<lambda>v. smap_emplace (fst v) (ty, [])) data_map builders"

definition appendValues ::
  "arrow_lib \<Rightarrow> ('v \<Rightarrow> scalar) \<Rightarrow> (string, 'v) smap \<Rightarrow> (string, builder) smap \<Rightarrow> status + (string, builder) smap"
where
  "appendValues A sc data_map builders =
     rmap (\<lambda>(field_name, builder).
       rbind (case map_of data_map field_name of
                Some v \<Rightarrow> Append A builder (sc v)
              | None \<Rightarrow> AppendNull A builder) (\<lambda>builder. Inr (field_name, builder))) builders"

definition buildColumnArrays ::
  "arrow_lib \<Rightarrow> arrow_type \<Rightarrow> ColumnType \<Rightarrow> (string, builder) smap \<Rightarrow> arrow_field list \<times> arrow_array list
     \<Rightarrow> status + arrow_field list \<times> arrow_array list"
where
  "buildColumnArrays A data_type column_type builders =
     rfold (\<lambda>(field_name, builder) (schema_fields, column_arrays).
       rbind (setFieldTypeMetadata A (new_field field_name data_type) column_type) (\<lambda>field.
       rbind (Finish A builder) (\<lambda>column_array.
         Inr (schema_fields @ [field], column_arrays @ [column_array])))) builders"

text \<open>The builders of a group: times, measurements, tags and the four kinds of fields.\<close>

record group_builders =
  timestamp_builder :: builder
  measurement_builder :: builder
  tags_builders :: "(string, builder) smap"
  int_fields_builders :: "(string, builder) smap"
  double_fields_builders :: "(string, builder) smap"
  string_fields_builders :: "(string, builder) smap"
  bool_fields_builders :: "(string, builder) smap"

definition new_group_builders :: group_builders where
  "new_group_builders =
     \<lparr>timestamp_builder = (Timestamp UNIT_NANO, []), measurement_builder = (Plain STRING, []), tags_builders = [],
      int_fields_builders = [], double_fields_builders = [], string_fields_builders = [], bool_fields_builders = []\<rparr>"

definition add_point_builders :: "Point \<Rightarrow> group_builders \<Rightarrow> group_builders" where
  "add_point_builders point g =
     g\<lparr>tags_builders := addBuilders (Plain STRING) (p_tags point) (tags_builders g),
       int_fields_builders := addBuilders (Plain INT64) (p_fieldsInt point) (int_fields_builders g),
       double_fields_builders := addBuilders (Plain DOUBLE) (p_fieldsDouble point) (double_fields_builders g),
       string_fields_builders := addBuilders (Plain STRING) (p_fieldsString point) (string_fields_builders g),
       bool_fields_builders := addBuilders (Plain BOOL) (p_fieldsBool point) (bool_fields_builders g)\<rparr>"

definition append_point :: "arrow_lib \<Rightarrow> Point \<Rightarrow> group_builders \<Rightarrow> status + group_builders" where
  "append_point A point g =
     rbind (Append A (timestamp_builder g) (int_scalar (Timestamp UNIT_NANO) (p_time point))) (\<lambda>ts.
     rbind (Append A (measurement_builder g) (string_scalar (p_name point))) (\<lambda>ms.
     rbind (appendValues A string_scalar (p_tags point) (tags_builders g)) (\<lambda>tags.
     rbind (appendValues A (int_scalar (Plain INT64)) (p_fieldsInt point) (int_fields_builders g)) (\<lambda>ints.
     rbind (appendValues A double_scalar (p_fieldsDouble point) (double_fields_builders g)) (\<lambda>doubles.
     rbind (appendValues A string_scalar (p_fieldsString point) (string_fields_builders g)) (\<lambda>strings.
     rbind (appendValues A bool_scalar (p_fieldsBool point) (bool_fields_builders g)) (\<lambda>bools.
       Inr \<lparr>timestamp_builder = ts, measurement_builder = ms, tags_builders = tags, int_fields_builders = ints,
            double_fields_builders = doubles, string_fields_builders = strings, bool_fields_builders = bools\<rparr>)))))))"

text \<open>The schema fields and the arrays, in the order of the code.\<close>

definition group_columns ::
  "arrow_lib \<Rightarrow> PointsToRecordBatchesConversionOptions \<Rightarrow> group_builders
     \<Rightarrow> status + arrow_field list \<times> arrow_array list"
where
  "group_columns A options g =
     rbind (setFieldTypeMetadata A (new_field (pc_time_column_name options) (Timestamp UNIT_NANO)) TIME) (\<lambda>tf.
     rbind (Finish A (timestamp_builder g)) (\<lambda>ta.
     rbind (setFieldTypeMetadata A (new_field (pc_measurement_column_name options) (Plain STRING)) MEASUREMENT) (\<lambda>mf.
     rbind (Finish A (measurement_builder g)) (\<lambda>ma.
     rbind (buildColumnArrays A (Plain STRING) TAG (tags_builders g) ([tf, mf], [ta, ma])) (\<lambda>cols.
     rbind (buildColumnArrays A (Plain INT64) FIELD (int_fields_builders g) cols) (\<lambda>cols.
     rbind (buildColumnArrays A (Plain DOUBLE) FIELD (double_fields_builders g) cols) (\<lambda>cols.
     rbind (buildColumnArrays A (Plain STRING) FIELD (string_fields_builders g) cols) (\<lambda>cols.
       buildColumnArrays A (Plain BOOL) FIELD (bool_fields_builders g) cols))))))))"

definition convertPointsGroup ::
  "arrow_lib \<Rightarrow> proto_lib \<Rightarrow> PointsToRecordBatchesConversionOptions \<Rightarrow> PointBatch \<Rightarrow> string \<Rightarrow> nat list
     \<Rightarrow> status + batch"
where
  "convertPointsGroup A P options points group_string group_indexes =
     (let builders = fold (\<lambda>i. add_point_builders (points ! i)) group_indexes new_group_builders in
      rbind (rfold (\<lambda>i. append_point A (points ! i)) group_indexes builders) (\<lambda>builders.
      rbind (group_columns A options builders) (\<lambda>(schema_fields, column_arrays).
        (let record_batch = Make \<lparr>sch_fields = schema_fields, sch_metadata = None\<rparr> (length group_indexes) column_arrays in
         case parse group_string (pc_measurement_column_name options) of
           Inl GroupParserException \<Rightarrow> Inl Invalid
         | Inl _ \<Rightarrow> Inl ThrownOutOfRange
         | Inr grp \<Rightarrow>
             rbind (setGroupMetadata A P record_batch grp) (\<lambda>record_batch.
             rbind (setTimeColumnNameMetadata A record_batch (pc_time_column_name options)) (\<lambda>record_batch.
               setMeasurementColumnNameMetadata A record_batch (pc_measurement_column_name options)))))))"

text \<open>\<open>groups_indexes\<close>: the positions of the points of each group.\<close>

definition points_groups :: "PointBatch \<Rightarrow> (string, nat list) smap" where
  "points_groups points =
     fold (\<lambda>i groups_indexes.
         (let g = p_group (points ! i) in
          case map_of groups_indexes g of
            None \<Rightarrow> smap_put g [i] groups_indexes
          | Some is \<Rightarrow> smap_put g (is @ [i]) groups_indexes))
       [0..<length points] []"

definition convertToRecordBatches ::
  "arrow_lib \<Rightarrow> proto_lib \<Rightarrow> PointsToRecordBatchesConversionOptions \<Rightarrow> PointBatch \<Rightarrow> status + batch list"
where
  "convertToRecordBatches A P options points =
     rmap (\<lambda>(group_string, group_indexes). convertPointsGroup A P options points group_string group_indexes)
       (points_groups points)"

section \<open>Record batches to points\<close>

definition empty_point :: Point where
  "empty_point =
     \<lparr>p_time = 0, p_name = [], p_database = [], p_retentionPolicy = [], p_group = [], p_dimensions = [], p_tags = [],
      p_fieldsDouble = [], p_fieldsInt = [], p_fieldsString = [], p_fieldsBool = [], p_byName = False\<rparr>"

text \<open>A point as it is added for a row of the first column.\<close>

definition group_point :: "string \<Rightarrow> RecordBatchGroup \<Rightarrow> string \<Rightarrow> Point" where
  "group_point group_string grp measurement_column_name =
     fold (\<lambda>grouping_column point.
         if grouping_column = measurement_column_name then point\<lparr>p_byName := True\<rparr>
         else point\<lparr>p_dimensions := p_dimensions point @ [grouping_column]\<rparr>)
       (group_columns_names grp) (empty_point\<lparr>p_group := group_string\<rparr>)"

text \<open>A value of a row, and \<open>skip_column\<close>.\<close>

definition put_value ::
  "arrow_lib \<Rightarrow> ColumnType \<Rightarrow> arrow_type_id \<Rightarrow> string \<Rightarrow> scalar \<Rightarrow> Point \<Rightarrow> status + Point \<times> bool"
where
  "put_value A column_type ty column_name scalar_value point =
     (case column_type of
        MEASUREMENT \<Rightarrow> Inr (point\<lparr>p_name := ToString A scalar_value\<rparr>, False)
      | TIME \<Rightarrow> rbind (castTimestampScalar A (Inr scalar_value) UNIT_NANO) (\<lambda>timestamp_scalar.
          Inr (point\<lparr>p_time := s_int timestamp_scalar\<rparr>, False))
      | TAG \<Rightarrow> Inr (point\<lparr>p_tags := smap_put column_name (ToString A scalar_value) (p_tags point)\<rparr>, False)
      | FIELD \<Rightarrow>
          (case ty of
             INT64 \<Rightarrow> Inr (point\<lparr>p_fieldsInt := smap_put column_name (s_int scalar_value) (p_fieldsInt point)\<rparr>, False)
           | DOUBLE \<Rightarrow> Inr (point\<lparr>p_fieldsDouble := smap_put column_name (s_double scalar_value) (p_fieldsDouble point)\<rparr>, False)
           | STRING \<Rightarrow> Inr (point\<lparr>p_fieldsString := smap_put column_name (ToString A scalar_value) (p_fieldsString point)\<rparr>, False)
           | BOOL \<Rightarrow> Inr (point\<lparr>p_fieldsBool := smap_put column_name (s_bool scalar_value) (p_fieldsBool point)\<rparr>, False)
           | NA \<Rightarrow> Inr (point, False)
           | _ \<Rightarrow> Inr (point, True))
      | UNKNOWN \<Rightarrow> Inl Invalid)"

text \<open>The loop over the rows of column \<open>i\<close>; the points of the batch start at \<open>points_count\<close>.\<close>

fun convert_column ::
  "arrow_lib \<Rightarrow> Point \<Rightarrow> ColumnType \<Rightarrow> string \<Rightarrow> arrow_array \<Rightarrow> nat \<Rightarrow> nat \<Rightarrow> nat list \<Rightarrow> PointBatch \<Rightarrow> status + PointBatch"
where
  "convert_column A new_point column_type column_name column i points_count [] points = Inr points"
| "convert_column A new_point column_type column_name column i points_count (j # js) points =
     rbind (GetScalar A column (int j)) (\<lambda>scalar_value.
       (let points = (if i = 0 then points @ [new_point] else points) in
        if length points \<le> points_count + j then Inl UndefinedBehaviour
        else rbind (put_value A column_type (type_id (a_type column)) column_name scalar_value (points ! (points_count + j)))
          (\<lambda>(point, skip_column).
            (let points = points[points_count + j := point] in
             if skip_column then Inr points
             else convert_column A new_point column_type column_name column i points_count js points))))"

definition convert_batch :: "arrow_lib \<Rightarrow> proto_lib \<Rightarrow> batch \<Rightarrow> PointBatch \<times> nat \<Rightarrow> status + PointBatch \<times> nat" where
  "convert_batch A P record_batch st =
     (let (points, points_count) = st in
      rbind (getTimeColumnNameMetadata A record_batch) (\<lambda>time_column_name.
      rbind (getMeasurementColumnNameMetadata A record_batch) (\<lambda>measurement_column_name.
      rbind (getColumnTypes A record_batch) (\<lambda>column_types.
      rbind (extractGroup A P record_batch) (\<lambda>grp.
      rbind (encode_group grp measurement_column_name (map_of column_types)) (\<lambda>group_string.
      rbind (rfold (\<lambda>i points.
          (let column_name = f_name (sch_fields (b_schema record_batch) ! i);
               column = b_columns record_batch ! i;
               column_type = (case map_of column_types column_name of None \<Rightarrow> UNKNOWN | Some ty \<Rightarrow> ty)
           in convert_column A (group_point group_string grp measurement_column_name) column_type column_name column i
                points_count [0..<a_length column] points))
        [0..<num_columns record_batch] points) (\<lambda>points.
        Inr (points, points_count + b_num_rows record_batch))))))))"

definition convertToPoints :: "arrow_lib \<Rightarrow> proto_lib \<Rightarrow> batch list \<Rightarrow> status + PointBatch" where
  "convertToPoints A P record_batches =
     rbind (rfold (convert_batch A P) record_batches ([], 0)) (\<lambda>(points, _). Inr points)"

definition BasePointsConverter :: "arrow_lib \<Rightarrow> proto_lib \<Rightarrow> PointsToRecordBatchesConversionOptions \<Rightarrow> PointsConverter" where
  "BasePointsConverter A P options = (convertToRecordBatches A P options, convertToPoints A P)"

section \<open>The decorator of the window function\<close>

definition add_time_unit :: "arrow_lib \<Rightarrow> (string \<times> TimeUnit) option \<Rightarrow> batch \<Rightarrow> status + batch" where
  "add_time_unit A option record_batch =
     (case option of
        None \<Rightarrow> Inr record_batch
      | Some (name, unit) \<Rightarrow>
          if GetColumnByName A record_batch name \<noteq> None then setTimeUnitMetadata A record_batch name unit
          else Inr record_batch)"

definition WindowOptionsConverterDecorator ::
  "arrow_lib \<Rightarrow> WindowConvertOptions \<Rightarrow> PointsConverter \<Rightarrow> PointsConverter"
where
  "WindowOptionsConverterDecorator A options wrappee =
     (\<lambda>points. rbind (fst wrappee points) (rmap (\<lambda>record_batch.
          rbind (add_time_unit A (every_option options) record_batch) (add_time_unit A (period_option options)))),
      snd wrappee)"

end
