(* ===== verification/Points_Storage.thy ===== *)
theory Points_Storage
  imports Points_Converter Pipeline_Handler Aggregate_Functions
begin

text \<open>
  \<open>src/src/kapacitor_udf/utils/points_storage.h\<close> and \<open>.cpp\<close>: the points a request handler has
  collected, the converter and the record batch handler they go through, and the responses the result
  makes. An operation returns the responses it has written to the agent besides its state and status;
  what it writes before an error stays written. The record batch handler is a handler object: its vector
  overload of \<open>handle\<close> and its state, which changes although \<open>handleBatch\<close> is \<open>const\<close>.

  A status that stands for an execution the code cannot go on from (\<open>abnormal\<close>) is not one that
  \<open>!ok()\<close> tests for.
\<close>

type_synonym response = "option_error Response"

record 's PointsStorage =
  points_converter :: "PointsConverter option"
  ps_handler :: "'s handler_object option"
  provides_batch :: bool
  points :: PointBatch

definition new_points_storage ::
  "PointsConverter option \<Rightarrow> 's handler_object option \<Rightarrow> bool \<Rightarrow> 's PointsStorage"
where
  "new_points_storage conv h provides =
     \<lparr>points_converter = conv, ps_handler = h, provides_batch = provides, points = []\<rparr>"

definition abnormal :: "status \<Rightarrow> bool" where
  "abnormal e \<longleftrightarrow> e \<in> {ThrownOutOfRange, UndefinedBehaviour, NoReturn}"

section \<open>The messages around a batch\<close>

definition getGroupString :: "arrow_lib \<Rightarrow> proto_lib \<Rightarrow> batch \<Rightarrow> status + string" where
  "getGroupString A P record_batch =
     rbind (getMeasurementColumnNameMetadata A record_batch) (\<lambda>measurement_column_name.
     rbind (getColumnTypes A record_batch) (\<lambda>column_types.
     rbind (extractGroup A P record_batch) (\<lambda>grp.
       encode_group grp measurement_column_name (map_of column_types))))"

text \<open>The tags and the flag \<open>byname\<close> of a begin or end message.\<close>

definition setGroupTagsAndByName ::
  "arrow_lib \<Rightarrow> proto_lib \<Rightarrow> batch \<Rightarrow> status + (string, string) smap \<times> bool"
where
  "setGroupTagsAndByName A P record_batch =
     rbind (getMeasurementColumnNameMetadata A record_batch) (\<lambda>measurement_column_name.
     rbind (extractGroup A P record_batch) (\<lambda>grp.
       rfold (\<lambda>i (tags, byname).
           if length (group_columns_names grp) \<le> i then Inl UndefinedBehaviour
           else
             (let group_key = group_columns_names grp ! i in
              if group_key \<noteq> measurement_column_name
              then Inr (smap_put group_key (group_columns_values grp ! i) tags, byname)
              else Inr (tags, True)))
         [0..<length (group_columns_values grp)] ([], False)))"

definition getTMax :: "arrow_lib \<Rightarrow> batch \<Rightarrow> status + int" where
  "getTMax A record_batch =
     rbind (getTimeColumnNameMetadata A record_batch) (\<lambda>time_column_name.
     rbind (castTimestampScalar A (LastAggregateFunction A record_batch time_column_name) UNIT_NANO) (\<lambda>tmax_scalar.
       Inr (s_int tmax_scalar)))"

definition getBeginBatchResponse :: "arrow_lib \<Rightarrow> proto_lib \<Rightarrow> batch \<Rightarrow> status + BeginBatch" where
  "getBeginBatchResponse A P record_batch =
     rbind (getMeasurementAndValidate A record_batch) (\<lambda>name.
     rbind (getGroupString A P record_batch) (\<lambda>group_string.
     rbind (setGroupTagsAndByName A P record_batch) (\<lambda>(tags, byname).
       Inr \<lparr>bb_name = name, bb_group = group_string, bb_tags = tags, bb_size = int (b_num_rows record_batch),
            bb_byName = byname\<rparr>)))"

definition getEndBatchResponse :: "arrow_lib \<Rightarrow> proto_lib \<Rightarrow> batch \<Rightarrow> status + EndBatch" where
  "getEndBatchResponse A P record_batch =
     rbind (getMeasurementAndValidate A record_batch) (\<lambda>name.
     rbind (getGroupString A P record_batch) (\<lambda>group_string.
     rbind (setGroupTagsAndByName A P record_batch) (\<lambda>(tags, byname).
     rbind (getTMax A record_batch) (\<lambda>tmax_value.
       Inr \<lparr>eb_name = name, eb_group = group_string, eb_tmax = tmax_value, eb_tags = tags, eb_byName = byname\<rparr>))))"

section \<open>The operations\<close>

definition addPoint :: "Point \<Rightarrow> 's PointsStorage \<Rightarrow> 's PointsStorage" where
  "addPoint point s = s\<lparr>points := points s @ [point]\<rparr>"

text \<open>The responses for one batch of the result: a batch whose begin or end message cannot be made is
  left out (\<open>continue\<close>).\<close>

definition batch_responses ::
  "arrow_lib \<Rightarrow> proto_lib \<Rightarrow> PointsConverter \<Rightarrow> bool \<Rightarrow> batch \<Rightarrow> status + response list"
where
  "batch_responses A P conv provides result_batch =
     rbind (snd conv [result_batch]) (\<lambda>response_points.
       if \<not> provides then Inr (map ResponsePoint response_points)
       else
         (case getBeginBatchResponse A P result_batch of
            Inl e \<Rightarrow> if abnormal e then Inl e else Inr []
          | Inr begin_result \<Rightarrow>
              (case getEndBatchResponse A P result_batch of
                 Inl e \<Rightarrow> if abnormal e then Inl e else Inr []
               | Inr end_result \<Rightarrow>
                   Inr (ResponseBegin begin_result # map ResponsePoint response_points @ [ResponseEnd end_result]))))"

fun write_batches ::
  "arrow_lib \<Rightarrow> proto_lib \<Rightarrow> PointsConverter \<Rightarrow> bool \<Rightarrow> batch list \<Rightarrow> response list \<times> (status + unit)"
where
  "write_batches A P conv provides [] = ([], Inr ())"
| "write_batches A P conv provides (result_batch # result_batches) =
     (case batch_responses A P conv provides result_batch of
        Inl e \<Rightarrow> ([], Inl e)
      | Inr written \<Rightarrow>
          (let (later, status) = write_batches A P conv provides result_batches in (written @ later, status)))"

definition storage_handleBatch ::
  "arrow_lib \<Rightarrow> proto_lib \<Rightarrow> 's PointsStorage \<Rightarrow> 's PointsStorage \<times> response list \<times> (status + unit)"
where
  "storage_handleBatch A P s =
     (case points_converter s of
        None \<Rightarrow> (s, [ErrorResponse ''PointsConverter is not provided''], Inl Invalid)
      | Some conv \<Rightarrow>
          (case ps_handler s of
             None \<Rightarrow> (s, [ErrorResponse ''RecordBatchHandler is not provided''], Inl Invalid)
           | Some (h, st) \<Rightarrow>
               if points s = [] then (s, [], Inr ())
               else
                 (case fst conv (points s) of
                    Inl e \<Rightarrow> (s, [], Inl e)
                  | Inr record_batches \<Rightarrow>
                      (case h st record_batches of
                         (st, Inl e) \<Rightarrow> (s\<lparr>ps_handler := Some (h, st)\<rparr>, [], Inl e)
                       | (st, Inr result_batches) \<Rightarrow>
                           (s\<lparr>ps_handler := Some (h, st)\<rparr>,
                            write_batches A P conv (provides_batch s) result_batches)))))"

definition storage_clear :: "'s PointsStorage \<Rightarrow> 's PointsStorage" where
  "storage_clear s = s\<lparr>points := []\<rparr>"

definition storage_snapshot :: "proto_lib \<Rightarrow> 's PointsStorage \<Rightarrow> bytes" where
  "storage_snapshot P s = SerializePoints P (points s)"

text \<open>A failed \<open>ParseFromString\<close> leaves in the message what it has read so far.\<close>

definition storage_restore :: "proto_lib \<Rightarrow> bytes \<Rightarrow> 's PointsStorage \<Rightarrow> 's PointsStorage \<times> bool" where
  "storage_restore P data s = (let (ps, ok) = ParsePoints P data in (s\<lparr>points := ps\<rparr>, ok))"

definition setPointsName :: "string \<Rightarrow> 's PointsStorage \<Rightarrow> 's PointsStorage" where
  "setPointsName name s = s\<lparr>points := map (\<lambda>point. point\<lparr>p_name := name\<rparr>) (points s)\<rparr>"

section \<open>What the operations keep\<close>

text \<open>The operations on the points leave the converter, the handler and the flag alone.\<close>

lemma storage_simps [simp]:
  "points (addPoint p s) = points s @ [p]" "points (storage_clear s) = []"
  "points (setPointsName n s) = map (\<lambda>point. point\<lparr>p_name := n\<rparr>) (points s)"
  "ps_handler (addPoint p s) = ps_handler s" "ps_handler (storage_clear s) = ps_handler s"
  "ps_handler (setPointsName n s) = ps_handler s"
  "points_converter (addPoint p s) = points_converter s" "points_converter (storage_clear s) = points_converter s"
  "points_converter (setPointsName n s) = points_converter s"
  "provides_batch (addPoint p s) = provides_batch s" "provides_batch (storage_clear s) = provides_batch s"
  "provides_batch (setPointsName n s) = provides_batch s"
  by (simp_all add: addPoint_def storage_clear_def setPointsName_def)

lemma handleBatch_keeps:
  assumes "storage_handleBatch A P s = (s', rs, r)"
  shows "points s' = points s \<and> points_converter s' = points_converter s \<and> provides_batch s' = provides_batch s"
  using assms
  by (auto simp: storage_handleBatch_def split: option.splits prod.splits if_splits sum.splits)

lemma handleBatch_empty [simp]:
  "points_converter s \<noteq> None \<Longrightarrow> ps_handler s \<noteq> None \<Longrightarrow> points s = [] \<Longrightarrow> storage_handleBatch A P s = (s, [], Inr ())"
  by (auto simp: storage_handleBatch_def)

text \<open>What is written is bracketed: it is a sequence of points without begin and end, or of begin, points
  and end, according to the flag.\<close>

fun bracketed :: "bool \<Rightarrow> bool \<Rightarrow> response list \<Rightarrow> bool" where
  "bracketed provides inside [] \<longleftrightarrow> \<not> inside"
| "bracketed provides inside (ResponseBegin b # rs) \<longleftrightarrow> provides \<and> \<not> inside \<and> bracketed provides True rs"
| "bracketed provides inside (ResponsePoint p # rs) \<longleftrightarrow> inside = provides \<and> bracketed provides inside rs"
| "bracketed provides inside (ResponseEnd e # rs) \<longleftrightarrow> provides \<and> inside \<and> bracketed provides False rs"
| "bracketed provides inside (_ # rs) \<longleftrightarrow> False"

lemma bracketed_points:
  "inside = provides \<Longrightarrow> bracketed provides inside (map ResponsePoint ps @ rs) \<longleftrightarrow> bracketed provides inside rs"
  by (induction ps) auto

lemma bracketed_append:
  "bracketed provides inside xs \<Longrightarrow> bracketed provides False ys \<Longrightarrow> bracketed provides inside (xs @ ys)"
  by (induction provides inside xs rule: bracketed.induct) auto

lemma batch_responses_bracketed:
  "batch_responses A P conv provides b = Inr rs \<Longrightarrow> bracketed provides False rs"
  by (auto simp: batch_responses_def rbind_eq_Inr_iff bracketed_points [where rs = "[]", simplified]
      bracketed_points split: if_splits sum.splits)

lemma write_batches_bracketed:
  "bracketed provides False (fst (write_batches A P conv provides bs))"
  by (induction bs) (auto split: sum.split prod.split intro!: bracketed_append dest: batch_responses_bracketed)

end
