(* ===== verification/Reference_Proto.thy ===== *)
theory Reference_Proto
  imports Arrow Agent_Proto "HOL-Library.Countable"
begin

text \<open>
  A concrete protobuf for the witnesses: every message is read back as it was written. Groups are
  written with an escape character, so that the model computes with them; points, which have
  fractions in them, through an injection into the natural numbers.
\<close>

section \<open>Groups\<close>

abbreviation (input) escape :: char where "escape \<equiv> CHR 0x01"
abbreviation (input) string_end :: char where "string_end \<equiv> CHR 0x02"
abbreviation (input) list_end :: char where "list_end \<equiv> CHR 0x03"

fun write_string :: "string \<Rightarrow> string" where
  "write_string [] = [string_end]"
| "write_string (c # cs) = escape # c # write_string cs"

fun write_strings :: "string list \<Rightarrow> string" where
  "write_strings [] = [list_end]"
| "write_strings (s # ss) = write_string s @ write_strings ss"

text \<open>\<open>acc\<close> is the string being read, \<open>accs\<close> the strings before it.\<close>

fun read_strings :: "string \<Rightarrow> string list \<Rightarrow> string \<Rightarrow> string list \<times> string" where
  "read_strings acc accs [] = (accs, [])"
| "read_strings acc accs (x # xs) =
     (if x = string_end then read_strings [] (accs @ [acc]) xs
      else if x = list_end then (accs, xs)
      else (case xs of [] \<Rightarrow> (accs, []) | c # xs \<Rightarrow> read_strings (acc @ [c]) accs xs))"

lemma read_write_string:
  "read_strings acc accs (write_string s @ rest) = read_strings [] (accs @ [acc @ s]) rest"
  by (induction s arbitrary: acc) auto

lemma read_write_strings:
  "read_strings [] accs (write_strings ss @ rest) = (accs @ ss, rest)"
  by (induction ss arbitrary: accs) (auto simp: read_write_string)

definition write_group :: "RecordBatchGroup \<Rightarrow> string" where
  "write_group g = write_strings (group_columns_names g) @ write_strings (group_columns_values g)"

definition read_group :: "string \<Rightarrow> RecordBatchGroup" where
  "read_group s =
     (let (names, rest) = read_strings [] [] s
      in \<lparr>group_columns_names = names, group_columns_values = fst (read_strings [] [] rest)\<rparr>)"

lemma read_write_group: "read_group (write_group g) = g"
  using read_write_strings [of "[]" "group_columns_values g" "[]"]
  by (simp add: read_group_def write_group_def read_write_strings)

section \<open>Points\<close>

instance double :: countable by countable_datatype

definition point_tuple where
  "point_tuple p = (p_time p, p_name p, p_database p, p_retentionPolicy p, p_group p, p_dimensions p, p_tags p,
     p_fieldsDouble p, p_fieldsInt p, p_fieldsString p, p_fieldsBool p, p_byName p)"

definition tuple_point where
  "tuple_point = (\<lambda>(time, name, database, rp, grp, dims, tags, doubles, ints, strings, bools, byname).
     \<lparr>p_time = time, p_name = name, p_database = database, p_retentionPolicy = rp, p_group = grp, p_dimensions = dims,
      p_tags = tags, p_fieldsDouble = doubles, p_fieldsInt = ints, p_fieldsString = strings, p_fieldsBool = bools,
      p_byName = byname\<rparr>)"

lemma tuple_point_tuple [simp]: "tuple_point (point_tuple p) = p"
  by (simp add: tuple_point_def point_tuple_def)

definition write_points :: "PointBatch \<Rightarrow> bytes" where
  "write_points ps = replicate (to_nat (map point_tuple ps)) 0"

definition read_points :: "bytes \<Rightarrow> PointBatch \<times> bool" where
  "read_points data = (map tuple_point (from_nat (length data)), True)"

lemma read_write_points: "read_points (write_points ps) = (ps, True)"
  by (simp add: read_points_def write_points_def comp_def)

text \<open>\<open>group_proto\<close> computes; it writes no points.\<close>

definition group_proto :: proto_lib where
  "group_proto =
     \<lparr>SerializeGroup = write_group, ParseGroup = read_group, SerializeColumnsNames = write_strings,
      SerializePoints = (\<lambda>_. []), ParsePoints = (\<lambda>_. ([], True)), SerializePoint = (\<lambda>_. [])\<rparr>"

definition codec_proto :: proto_lib where
  "codec_proto = group_proto
     \<lparr>SerializePoints := write_points, ParsePoints := read_points, SerializePoint := (\<lambda>p. write_points [p])\<rparr>"

text \<open>What protobuf promises.\<close>

definition points_codec :: "proto_lib \<Rightarrow> bool" where
  "points_codec P \<longleftrightarrow> (\<forall>ps. ParsePoints P (SerializePoints P ps) = (ps, True))"

definition group_codec :: "proto_lib \<Rightarrow> bool" where
  "group_codec P \<longleftrightarrow> (\<forall>g. ParseGroup P (SerializeGroup P g) = g)"

lemma codec_proto_laws [simp]: "points_codec codec_proto" "group_codec codec_proto" "group_codec group_proto"
  by (simp_all add: points_codec_def group_codec_def codec_proto_def group_proto_def read_write_points read_write_group)

end
