(* ===== verification/Request_Handler.thy ===== *)
theory Request_Handler
  imports Points_Storage Reference_Proto
begin

text \<open>
  \<open>src/src/kapacitor_udf/request_handlers/request_handler.h\<close> and \<open>.cpp\<close>, and the three base
  classes of \<open>record_batch_request_handler.h\<close> and \<open>.cpp\<close>: handlers of batches, of a stream, and
  of a stream with a timer.

  A method is a function from the state \<open>'h\<close> of the handler to the state it leaves, the responses
  it writes to the agent, and its result; \<open>Inl\<close> is an execution that does not come back from the
  method (an exception that leaves it, undefined behaviour, a loop that does not end). The statuses that the methods log
  are dropped.
\<close>

type_synonym ('h, 'a) handler_op = "'h \<Rightarrow> 'h \<times> response list \<times> (status + 'a)"

text \<open>The interface \<open>RequestHandler\<close>.\<close>

record 'h RequestHandler =
  rh_info :: "('h, response) handler_op"
  rh_init :: "Option list \<Rightarrow> ('h, response) handler_op"
  rh_snapshot :: "('h, response) handler_op"
  rh_restore :: "bytes \<Rightarrow> ('h, response) handler_op"
  rh_beginBatch :: "BeginBatch \<Rightarrow> ('h, unit) handler_op"
  rh_point :: "Point \<Rightarrow> ('h, unit) handler_op"
  rh_endBatch :: "EndBatch \<Rightarrow> ('h, unit) handler_op"
  rh_start :: "('h, unit) handler_op"
  rh_stop :: "('h, unit) handler_op"

definition return :: "'a \<Rightarrow> ('h, 'a) handler_op" where
  "return x h = (h, [], Inr x)"

definition write_error :: "string \<Rightarrow> ('h, unit) handler_op" where
  "write_error message h = (h, [ErrorResponse message], Inr ())"

text \<open>\<open>if (!status.ok()) log(status)\<close>.\<close>

definition logged :: "status + unit \<Rightarrow> status + unit" where
  "logged status = (case status of Inl e \<Rightarrow> if abnormal e then Inl e else Inr () | Inr _ \<Rightarrow> Inr ())"

text \<open>Bytes in the text of a message.\<close>

definition text_of :: "bytes \<Rightarrow> string" where
  "text_of = map (\<lambda>b. char_of (unat b))"

section \<open>Batches\<close>

record 's BatchHandler =
  points_storage :: "'s PointsStorage option"
  in_batch :: bool

definition new_batch_handler :: "'s BatchHandler" where
  "new_batch_handler = \<lparr>points_storage = None, in_batch = False\<rparr>"

definition batch_snapshot :: "proto_lib \<Rightarrow> ('s BatchHandler, response) handler_op" where
  "batch_snapshot P h =
     (case points_storage h of
        None \<Rightarrow>
          (h, [ErrorResponse ''Can't provide snapshot. PointsStorage is not provided''], Inr (SnapshotResponse []))
      | Some s \<Rightarrow> (h, [], Inr (SnapshotResponse ((if in_batch h then 49 else 48) # storage_snapshot P s))))"

definition batch_restore :: "proto_lib \<Rightarrow> bytes \<Rightarrow> ('s BatchHandler, response) handler_op" where
  "batch_restore P restore_snapshot h =
     (case points_storage h of
        None \<Rightarrow> (h, [], Inr (RestoreResponse False
          (Some ''Can't restore from snapshot. PointsStorage is not provided'')))
      | Some s \<Rightarrow>
          (case restore_snapshot of
             [] \<Rightarrow> (h, [], Inr (RestoreResponse False (Some ''Can't restore from empty snapshot'')))
           | flag # data \<Rightarrow>
               (let invalid = RestoreResponse False (Some (''Invalid snapshot: '' @ text_of restore_snapshot)) in
                if flag \<noteq> 48 \<and> flag \<noteq> 49 then (h, [], Inr invalid)
                else
                  (let (s, ok) = storage_restore P data s; h = h\<lparr>points_storage := Some s\<rparr> in
                   if \<not> ok then (h, [], Inr invalid)
                   else (h\<lparr>in_batch := (flag = 49)\<rparr>, [], Inr (RestoreResponse True None))))))"

definition batch_beginBatch :: "BeginBatch \<Rightarrow> ('s BatchHandler, unit) handler_op" where
  "batch_beginBatch batch h = (h\<lparr>in_batch := True\<rparr>, [], Inr ())"

definition batch_point :: "Point \<Rightarrow> ('s BatchHandler, unit) handler_op" where
  "batch_point point h =
     (case points_storage h of
        None \<Rightarrow> write_error ''Can't handle point. PointsStorage is not provided'' h
      | Some s \<Rightarrow>
          if in_batch h then (h\<lparr>points_storage := Some (addPoint point s)\<rparr>, [], Inr ())
          else write_error ''Can't add point: not in batch'' h)"

text \<open>Outside a batch the error is written, and the method goes on.\<close>

definition batch_endBatch :: "arrow_lib \<Rightarrow> proto_lib \<Rightarrow> EndBatch \<Rightarrow> ('s BatchHandler, unit) handler_op" where
  "batch_endBatch A P batch h =
     (case points_storage h of
        None \<Rightarrow> write_error ''Can't handle EndBatch message. PointsStorage is not provided'' h
      | Some s \<Rightarrow>
          (let written = (if in_batch h then [] else [ErrorResponse ''Can't end batch: currently not in batch'']);
               (s, responses, handle_status) = storage_handleBatch A P (setPointsName (eb_name batch) s)
           in case logged handle_status of
                Inl e \<Rightarrow> (h\<lparr>points_storage := Some s\<rparr>, written @ responses, Inl e)
              | Inr _ \<Rightarrow> (h\<lparr>points_storage := Some (storage_clear s), in_batch := False\<rparr>, written @ responses, Inr ())))"

section \<open>Streams\<close>

definition stream_beginBatch :: "BeginBatch \<Rightarrow> ('h, unit) handler_op" where
  "stream_beginBatch batch = write_error ''Invalid BeginBatch request, UDF wants stream data''"

definition stream_endBatch :: "EndBatch \<Rightarrow> ('h, unit) handler_op" where
  "stream_endBatch batch = write_error ''Invalid EndBatch request, UDF wants stream data''"

text \<open>The state of a \<open>StreamRecordBatchRequestHandlerBase\<close> is its storage.\<close>

type_synonym 's StreamHandler = "'s PointsStorage option"

definition stream_snapshot :: "proto_lib \<Rightarrow> ('s StreamHandler, response) handler_op" where
  "stream_snapshot P h =
     (case h of
        None \<Rightarrow>
          (h, [ErrorResponse ''Can't provide snapshot. PointsStorage is not provided''], Inr (SnapshotResponse []))
      | Some s \<Rightarrow> (h, [], Inr (SnapshotResponse (storage_snapshot P s))))"

definition stream_restore :: "proto_lib \<Rightarrow> bytes \<Rightarrow> ('s StreamHandler, response) handler_op" where
  "stream_restore P restore_snapshot h =
     (case h of
        None \<Rightarrow> (h, [], Inr (RestoreResponse False
          (Some ''Can't restore from snapshot. PointsStorage is not provided'')))
      | Some s \<Rightarrow>
          (case storage_restore P restore_snapshot s of
             (s, False) \<Rightarrow> (Some s, [], Inr (RestoreResponse False
               (Some (''Can't restore from snapshot: '' @ text_of restore_snapshot))))
           | (s, True) \<Rightarrow> (Some s, [], Inr (RestoreResponse True None))))"

definition stream_handleBatch :: "arrow_lib \<Rightarrow> proto_lib \<Rightarrow> ('s StreamHandler, unit) handler_op" where
  "stream_handleBatch A P h =
     (case h of
        None \<Rightarrow> write_error ''Can't handle batch. PointsStorage is not provided'' h
      | Some s \<Rightarrow>
          (let (s, responses, handle_status) = storage_handleBatch A P s
           in case logged handle_status of
                Inl e \<Rightarrow> (Some s, responses, Inl e)
              | Inr _ \<Rightarrow> (Some (storage_clear s), responses, Inr ())))"

section \<open>Streams with a timer\<close>

text \<open>The timer of the event loop is a parameter: its state \<open>'t\<close> and the calls the code makes.\<close>

record 't timer_lib =
  timer_active :: "'t \<Rightarrow> bool"
  timer_start :: "int \<Rightarrow> int \<Rightarrow> 't \<Rightarrow> 't"
  timer_repeat :: "int \<Rightarrow> 't \<Rightarrow> 't"
  timer_again :: "'t \<Rightarrow> 't"
  timer_stop :: "'t \<Rightarrow> 't"

record ('s, 't) TimerHandler =
  base_handler :: "'s StreamHandler"
  emit_timer :: 't
  emit_timeout :: int

text \<open>A method of the base class.\<close>

definition on_stream :: "('s StreamHandler, 'a) handler_op \<Rightarrow> (('s, 't) TimerHandler, 'a) handler_op" where
  "on_stream f h = (let (s, responses, r) = f (base_handler h) in (h\<lparr>base_handler := s\<rparr>, responses, r))"

definition timer_point :: "'t timer_lib \<Rightarrow> Point \<Rightarrow> (('s, 't) TimerHandler, unit) handler_op" where
  "timer_point T point h =
     (case base_handler h of
        None \<Rightarrow> write_error ''Can't handle point. PointsStorage is not provided'' h
      | Some s \<Rightarrow>
          (let h = h\<lparr>base_handler := Some (addPoint point s)\<rparr> in
           (if timer_active T (emit_timer h) then h
            else h\<lparr>emit_timer := timer_start T (emit_timeout h) (emit_timeout h) (emit_timer h)\<rparr>, [], Inr ())))"

text \<open>The callback of the timer.\<close>

definition emit_callback :: "arrow_lib \<Rightarrow> proto_lib \<Rightarrow> (('s, 't) TimerHandler, unit) handler_op" where
  "emit_callback A P = on_stream (stream_handleBatch A P)"

definition timer_handler_stop ::
  "arrow_lib \<Rightarrow> proto_lib \<Rightarrow> 't timer_lib \<Rightarrow> (('s, 't) TimerHandler, unit) handler_op"
where
  "timer_handler_stop A P T h =
     (case (if base_handler h \<noteq> None then on_stream (stream_handleBatch A P) h else (h, [], Inr ())) of
        (h, responses, Inl e) \<Rightarrow> (h, responses, Inl e)
      | (h, responses, Inr _) \<Rightarrow> (h\<lparr>emit_timer := timer_stop T (emit_timer h)\<rparr>, responses, Inr ()))"

definition setEmitTimeout :: "'t timer_lib \<Rightarrow> int \<Rightarrow> ('s, 't) TimerHandler \<Rightarrow> ('s, 't) TimerHandler" where
  "setEmitTimeout T new_timeout h =
     (let h = h\<lparr>emit_timeout := new_timeout\<rparr> in
      if timer_active T (emit_timer h)
      then h\<lparr>emit_timer := timer_again T (timer_repeat T new_timeout (emit_timer h))\<rparr>
      else h)"

section \<open>The batch handler as a state machine\<close>

lemma logged_Inr [simp]: "logged (Inr u) = Inr ()"
  by (simp add: logged_def)

lemma logged_Inr_iff: "logged r = Inr () \<longleftrightarrow> (\<forall>e. r = Inl e \<longrightarrow> \<not> abnormal e)"
  by (auto simp: logged_def split: sum.split)

text \<open>A handler as \<open>init\<close> leaves it, and the states it gets into by requests it comes back from; the
  snapshots it is restored from are its own.\<close>

definition ready :: "'s PointsStorage \<Rightarrow> bool" where
  "ready s \<longleftrightarrow> points_converter s \<noteq> None \<and> ps_handler s \<noteq> None"

inductive batch_reach :: "arrow_lib \<Rightarrow> proto_lib \<Rightarrow> 's BatchHandler \<Rightarrow> bool" for A P where
  reach_init: "ready s \<Longrightarrow> points s = [] \<Longrightarrow> batch_reach A P \<lparr>points_storage = Some s, in_batch = False\<rparr>"
| reach_begin: "batch_reach A P h \<Longrightarrow> batch_beginBatch b h = (h', rs, Inr u) \<Longrightarrow> batch_reach A P h'"
| reach_point: "batch_reach A P h \<Longrightarrow> batch_point p h = (h', rs, Inr u) \<Longrightarrow> batch_reach A P h'"
| reach_end: "batch_reach A P h \<Longrightarrow> batch_endBatch A P e h = (h', rs, Inr u) \<Longrightarrow> batch_reach A P h'"
| reach_restore: "batch_reach A P h0 \<Longrightarrow> batch_snapshot P h0 = (h0', [], Inr (SnapshotResponse data)) \<Longrightarrow>
    batch_reach A P h \<Longrightarrow> batch_restore P data h = (h', rs, Inr r) \<Longrightarrow> batch_reach A P h'"

definition batch_inv :: "'s BatchHandler \<Rightarrow> bool" where
  "batch_inv h \<longleftrightarrow> (\<exists>s. points_storage h = Some s \<and> ready s \<and> (\<not> in_batch h \<longrightarrow> points s = []))"

lemma ready_simps [simp]:
  "ready (addPoint p s) = ready s" "ready (storage_clear s) = ready s" "ready (setPointsName n s) = ready s"
  "ready (s\<lparr>points := ps\<rparr>) = ready s"
  by (simp_all add: ready_def)

lemma handleBatch_ready:
  assumes "storage_handleBatch A P s = (s', rs, r)" and "ready s"
  shows "ready s'"
  using assms
  by (auto simp: ready_def storage_handleBatch_def split: option.splits prod.splits if_splits sum.splits)

lemma restore_own_snapshot:
  assumes "points_codec P" and "points_storage h0 = Some s0" and "points_storage h = Some s"
    and "batch_snapshot P h0 = (h0', rs0, Inr (SnapshotResponse data))"
  shows "batch_restore P data h =
    (h\<lparr>points_storage := Some (s\<lparr>points := points s0\<rparr>), in_batch := in_batch h0\<rparr>, [], Inr (RestoreResponse True None))"
  using assms
  by (auto simp: batch_snapshot_def batch_restore_def storage_restore_def storage_snapshot_def points_codec_def)

lemma batch_reach_inv:
  assumes "batch_reach A P h" and "points_codec P"
  shows "batch_inv h"
  using assms
proof (induction rule: batch_reach.induct)
  case (reach_init s)
  then show ?case by (simp add: batch_inv_def)
next
  case (reach_begin h b h' rs u)
  then show ?case by (auto simp: batch_inv_def batch_beginBatch_def)
next
  case (reach_point h p h' rs u)
  then obtain s where s: "points_storage h = Some s" "ready s" "\<not> in_batch h \<longrightarrow> points s = []"
    by (auto simp: batch_inv_def)
  then have "h' = (if in_batch h then h\<lparr>points_storage := Some (addPoint p s)\<rparr> else h)"
    using reach_point.hyps(2) by (simp add: batch_point_def write_error_def split: if_splits)
  with s show ?case by (simp add: batch_inv_def)
next
  case (reach_end h e h' rs u)
  then obtain s where s: "points_storage h = Some s" "ready s" by (auto simp: batch_inv_def)
  obtain s' rs' r where hb: "storage_handleBatch A P (setPointsName (eb_name e) s) = (s', rs', r)"
    by (metis prod_cases3)
  have "ready s'" using handleBatch_ready [OF hb] s(2) by simp
  with reach_end.hyps(2) s(1) hb show ?case
    by (auto simp: batch_inv_def batch_endBatch_def Let_def split: sum.splits)
next
  case (reach_restore h0 h0' data h h' rs r)
  then obtain s0 s where "points_storage h0 = Some s0" "\<not> in_batch h0 \<longrightarrow> points s0 = []"
    "points_storage h = Some s" "ready s" by (auto simp: batch_inv_def)
  with restore_own_snapshot [OF reach_restore.prems this(1) this(3) reach_restore.hyps(2)] reach_restore.hyps(4)
  show ?case by (auto simp: batch_inv_def)
qed

text \<open>So an end message outside a batch, after which the method goes on, writes its error only.\<close>

lemma end_outside_batch:
  assumes "batch_reach A P h" and "points_codec P" and "\<not> in_batch h"
  shows "batch_endBatch A P e h = (h, [ErrorResponse ''Can't end batch: currently not in batch''], Inr ())"
proof -
  obtain s where s: "points_storage h = Some s" "ready s" "points s = []"
    using batch_reach_inv [OF assms(1,2)] assms(3) by (auto simp: batch_inv_def)
  have "storage_handleBatch A P (setPointsName (eb_name e) s) = (setPointsName (eb_name e) s, [], Inr ())"
    using s by (simp add: ready_def)
  then show ?thesis
    using s assms(3) by (cases h) (simp add: batch_endBatch_def storage_clear_def setPointsName_def)
qed

text \<open>A whole batch: the points go through the handler once, with the name of the end message.\<close>

fun batch_points :: "Point list \<Rightarrow> 's BatchHandler \<Rightarrow> 's BatchHandler \<times> response list" where
  "batch_points [] h = (h, [])"
| "batch_points (p # ps) h =
     (let (h, rs, _) = batch_point p h; (h, later) = batch_points ps h in (h, rs @ later))"

lemma batch_points_in_batch:
  assumes "points_storage h = Some s" and "in_batch h"
  shows "batch_points ps h = (h\<lparr>points_storage := Some (s\<lparr>points := points s @ ps\<rparr>)\<rparr>, [])"
  using assms
proof (induction ps arbitrary: h s)
  case (Cons p ps)
  let ?h = "h\<lparr>points_storage := Some (addPoint p s)\<rparr>"
  have "batch_points ps ?h = (?h\<lparr>points_storage := Some ((addPoint p s)\<lparr>points := points (addPoint p s) @ ps\<rparr>)\<rparr>, [])"
    using Cons.prems by (intro Cons.IH) simp_all
  with Cons.prems show ?case by (simp add: batch_point_def addPoint_def)
qed simp

lemma batch_points_outside:
  assumes "points_storage h = Some s" and "\<not> in_batch h"
  shows "batch_points ps h = (h, replicate (length ps) (ErrorResponse ''Can't add point: not in batch''))"
  using assms by (induction ps) (simp_all add: batch_point_def write_error_def)

end
