(* ===== verification/Udf_Handlers.thy ===== *)
theory Udf_Handlers
  imports Request_Handler Group_Dispatcher Dynamic_Window_Handler Threshold_State_Machine Derivative_Handler
    Aggregate_Handler Uvarint Aggregate_Options_Parser Threshold_Options Derivative_Options
begin

text \<open>
  The request handlers of \<open>src/src/kapacitor_udf/request_handlers/\<close>: what each announces in
  \<open>info\<close>, how \<open>init\<close> turns its options into a points storage, and the methods it takes from its
  base class. Structures the parsers fill without initialising them are the arguments \<open>memory\<close>.
\<close>

section \<open>Shared steps\<close>

text \<open>\<open>DEFAULT_TO_RECORD_BATCHES_OPTIONS\<close>, the same for all handlers.\<close>

definition DEFAULT_TO_RECORD_BATCHES_OPTIONS :: PointsToRecordBatchesConversionOptions where
  "DEFAULT_TO_RECORD_BATCHES_OPTIONS =
     \<lparr>pc_time_column_name = ''time'', pc_measurement_column_name = ''name''\<rparr>"

definition info_response ::
  "EdgeType \<Rightarrow> EdgeType \<Rightarrow> parse_error + (string, ValueType list) smap \<Rightarrow> ('h, response) handler_op"
where
  "info_response wants provides options h =
     (h, [], case options of Inl _ \<Rightarrow> Inl ThrownOutOfRange | Inr m \<Rightarrow> Inr (InfoResponse wants provides m))"

text \<open>\<open>try\<close>, the parser, and the \<open>catch\<close> of \<open>InvalidOptionException\<close>; then the rest of \<open>init\<close>.\<close>

definition init_parsed :: "parse_error + 'o \<Rightarrow> ('o \<Rightarrow> 'h \<Rightarrow> 'h) \<Rightarrow> ('h, response) handler_op" where
  "init_parsed parsed configure h =
     (case parsed of
        Inl (InvalidOptionException exc) \<Rightarrow> (h, [], Inr (InitResponse False (Some exc)))
      | Inl StdOutOfRange \<Rightarrow> (h, [], Inl ThrownOutOfRange)
      | Inr options \<Rightarrow> (configure options h, [], Inr (InitResponse True None)))"

text \<open>A stateless handler of vectors, and a dispatcher with its groups.\<close>

definition dispatcher_object :: "arrow_lib \<Rightarrow> 's handler \<Rightarrow> 's \<Rightarrow> 's GroupDispatcher handler_object" where
  "dispatcher_object A h create = (handle_vector (dispatcher_handle A h create), [])"

definition aggregate_object :: "arrow_lib \<Rightarrow> proto_lib \<Rightarrow> AggregateOptions \<Rightarrow> 's \<Rightarrow> 's handler_object" where
  "aggregate_object A P options s = (\<lambda>s bs. (s, aggregate_handle_vector A P options bs), s)"

section \<open>The inherited methods\<close>

definition batch_methods ::
  "arrow_lib \<Rightarrow> proto_lib \<Rightarrow> ('s BatchHandler, response) handler_op \<Rightarrow>
   (Option list \<Rightarrow> ('s BatchHandler, response) handler_op) \<Rightarrow> 's BatchHandler RequestHandler"
where
  "batch_methods A P info init =
     \<lparr>rh_info = info, rh_init = init, rh_snapshot = batch_snapshot P, rh_restore = batch_restore P,
      rh_beginBatch = batch_beginBatch, rh_point = batch_point, rh_endBatch = batch_endBatch A P,
      rh_start = return (), rh_stop = return ()\<rparr>"

definition timer_methods ::
  "arrow_lib \<Rightarrow> proto_lib \<Rightarrow> 't timer_lib \<Rightarrow> (('s, 't) TimerHandler, response) handler_op \<Rightarrow>
   (Option list \<Rightarrow> (('s, 't) TimerHandler, response) handler_op) \<Rightarrow> ('s, 't) TimerHandler RequestHandler"
where
  "timer_methods A P T info init =
     \<lparr>rh_info = info, rh_init = init, rh_snapshot = on_stream (stream_snapshot P),
      rh_restore = (\<lambda>restore_request. on_stream (stream_restore P restore_request)),
      rh_beginBatch = stream_beginBatch, rh_point = timer_point T, rh_endBatch = stream_endBatch,
      rh_start = return (), rh_stop = timer_handler_stop A P T\<rparr>"

section \<open>The dynamic window function\<close>

type_synonym 't DynamicWindowRequestHandler = "((string, WindowHandler) smap, 't) TimerHandler"

definition dynamic_window_storage ::
  "arrow_lib \<Rightarrow> proto_lib \<Rightarrow> ParsedWindowOptions \<Rightarrow> (string, WindowHandler) smap PointsStorage"
where
  "dynamic_window_storage A P window_options =
     (let dynamic_window_options =
            \<lparr>period_column_name = map_option fst (period_option (convert_options window_options)),
             every_column_name = map_option fst (every_option (convert_options window_options))\<rparr>;
          handler = dispatcher_object A (dynamic_window_handle A (window_handler_ops A) dynamic_window_options)
            (createDynamicWindowHandler (window_handler_options window_options))
      in new_points_storage
           (Some (WindowOptionsConverterDecorator A (convert_options window_options)
              (BasePointsConverter A P DEFAULT_TO_RECORD_BATCHES_OPTIONS)))
           (Some handler) True)"

definition dynamic_window_init ::
  "arrow_lib \<Rightarrow> proto_lib \<Rightarrow> 't timer_lib \<Rightarrow> ParsedWindowOptions \<Rightarrow> Option list \<Rightarrow>
   ('t DynamicWindowRequestHandler, response) handler_op"
where
  "dynamic_window_init A P T memory options =
     init_parsed (parseWindowOptions memory options) (\<lambda>window_options h.
       (setEmitTimeout T (pw_emit_timeout window_options) h)
         \<lparr>base_handler := Some (dynamic_window_storage A P window_options)\<rparr>)"

definition DynamicWindowRequestHandler ::
  "arrow_lib \<Rightarrow> proto_lib \<Rightarrow> 't timer_lib \<Rightarrow> ParsedWindowOptions \<Rightarrow> 't DynamicWindowRequestHandler RequestHandler"
where
  "DynamicWindowRequestHandler A P T memory =
     timer_methods A P T (info_response EDGE_STREAM EDGE_BATCH getWindowOptionsMap)
       (dynamic_window_init A P T memory)"

section \<open>The derivative function\<close>

type_synonym 't DerivativeRequestHandler = "((string, DerivativeHandler) smap, 't) TimerHandler"

definition derivative_storage ::
  "arrow_lib \<Rightarrow> proto_lib \<Rightarrow> linear_solve \<Rightarrow> DerivativeOptions \<Rightarrow> (string, DerivativeHandler) smap PointsStorage"
where
  "derivative_storage A P solve options =
     new_points_storage (Some (BasePointsConverter A P DEFAULT_TO_RECORD_BATCHES_OPTIONS))
       (Some (dispatcher_object A (derivative_handle A (calculateDerivative solve AUTO))
          (createDerivativeHandler options))) False"

definition derivative_init ::
  "arrow_lib \<Rightarrow> proto_lib \<Rightarrow> 't timer_lib \<Rightarrow> linear_solve \<Rightarrow> DerivativeParser \<Rightarrow> string \<Rightarrow> Option list \<Rightarrow>
   ('t DerivativeRequestHandler, response) handler_op"
where
  "derivative_init A P T solve memory moved_string options =
     init_parsed (parseDerivativeOptions memory moved_string options) (\<lambda>(derivative_options, timeout) h.
       (setEmitTimeout T timeout h)\<lparr>base_handler := Some (derivative_storage A P solve derivative_options)\<rparr>)"

definition DerivativeRequestHandler ::
  "arrow_lib \<Rightarrow> proto_lib \<Rightarrow> 't timer_lib \<Rightarrow> linear_solve \<Rightarrow> DerivativeParser \<Rightarrow> string \<Rightarrow>
   't DerivativeRequestHandler RequestHandler"
where
  "DerivativeRequestHandler A P T solve memory moved_string =
     timer_methods A P T (info_response EDGE_STREAM EDGE_STREAM (Inr getDerivativeOptionsMap))
       (derivative_init A P T solve memory moved_string)"

section \<open>The stream aggregate function\<close>

text \<open>The pipeline: a window handler whose period and every option are the tolerance, then the
  aggregates. The state of its handlers is a window handler or nothing.\<close>

type_synonym aggregate_pipeline = "(WindowHandler + unit) PipelineHandler"
type_synonym 't StreamAggregateRequestHandler = "(aggregate_pipeline, 't) TimerHandler"

fun window_object_handle :: "arrow_lib \<Rightarrow> (WindowHandler + unit) vector_handler" where
  "window_object_handle A (Inl w) bs = (let (w, r) = handle_vector (window_handle A) w bs in (Inl w, r))"
| "window_object_handle A (Inr u) bs = (Inr u, Inl UndefinedBehaviour)"

definition aggregate_pipeline :: "arrow_lib \<Rightarrow> proto_lib \<Rightarrow> WindowOptions \<Rightarrow> AggregateOptions \<Rightarrow> aggregate_pipeline" where
  "aggregate_pipeline A P window_options aggregate_options =
     pushBackHandler (aggregate_object A P aggregate_options (Inr ()))
       (pushBackHandler (window_object_handle A, Inl (new_window_handler window_options)) [])"

definition stream_aggregate_init ::
  "arrow_lib \<Rightarrow> proto_lib \<Rightarrow> 't timer_lib \<Rightarrow> Option list \<Rightarrow> ('t StreamAggregateRequestHandler, response) handler_op"
where
  "stream_aggregate_init A P T options =
     init_parsed
       (rbind (parseAggregateOptions options) (\<lambda>aggregate_options.
        rbind (parseStreamAggregateOptions options) (\<lambda>stream_aggregate_options.
          Inr (aggregate_options, stream_aggregate_options))))
       (\<lambda>(aggregate_options, stream_aggregate_options) h.
          (let option_of = (\<lambda>name. case map_of stream_aggregate_options name of None \<Rightarrow> 0 | Some d \<Rightarrow> d);
               window_options = \<lparr>wo_period = option_of SA_TOLERANCE, wo_every = option_of SA_TOLERANCE, wo_fill_period = True\<rparr>;
               pipeline_handler = aggregate_pipeline A P window_options aggregate_options
           in (setEmitTimeout T (option_of SA_EMIT_TIMEOUT) h)
                \<lparr>base_handler := Some (new_points_storage
                   (Some (BasePointsConverter A P DEFAULT_TO_RECORD_BATCHES_OPTIONS))
                   (Some (pipeline_handle_vector, pipeline_handler)) False)\<rparr>))"

definition StreamAggregateRequestHandler ::
  "arrow_lib \<Rightarrow> proto_lib \<Rightarrow> 't timer_lib \<Rightarrow> 't StreamAggregateRequestHandler RequestHandler"
where
  "StreamAggregateRequestHandler A P T =
     timer_methods A P T
       (info_response EDGE_STREAM EDGE_STREAM (Inr (addResponseOptions getStreamAggregateOptionsMap)))
       (stream_aggregate_init A P T)"

section \<open>The batch aggregate function\<close>

definition batch_aggregate_init ::
  "arrow_lib \<Rightarrow> proto_lib \<Rightarrow> Option list \<Rightarrow> (unit BatchHandler, response) handler_op"
where
  "batch_aggregate_init A P options =
     init_parsed (parseAggregateOptions options) (\<lambda>aggregate_options h.
       h\<lparr>points_storage := Some (new_points_storage (Some (BasePointsConverter A P DEFAULT_TO_RECORD_BATCHES_OPTIONS))
           (Some (aggregate_object A P aggregate_options ())) False)\<rparr>)"

definition BatchAggregateRequestHandler :: "arrow_lib \<Rightarrow> proto_lib \<Rightarrow> unit BatchHandler RequestHandler" where
  "BatchAggregateRequestHandler A P =
     batch_methods A P (info_response EDGE_BATCH EDGE_STREAM (Inr getResponseOptionsMap)) (batch_aggregate_init A P)"

section \<open>The adaptive threshold function\<close>

type_synonym StatefulThresholdRequestHandler = "(string, ThresholdStateMachine) smap StreamHandler"

definition threshold_storage ::
  "arrow_lib \<Rightarrow> proto_lib \<Rightarrow> ThresholdOptions \<Rightarrow> (string, ThresholdStateMachine) smap PointsStorage"
where
  "threshold_storage A P options =
     new_points_storage (Some (BasePointsConverter A P DEFAULT_TO_RECORD_BATCHES_OPTIONS))
       (Some (dispatcher_object A (threshold_handle A) (createThresholdHandler options))) False"

definition threshold_init ::
  "arrow_lib \<Rightarrow> proto_lib \<Rightarrow> ThresholdOptions \<Rightarrow> Option list \<Rightarrow> (StatefulThresholdRequestHandler, response) handler_op"
where
  "threshold_init A P memory options =
     init_parsed (parseThresholdOptions memory options) (\<lambda>threshold_options _.
       Some (threshold_storage A P threshold_options))"

text \<open>The storage is not tested for being null.\<close>

definition threshold_point :: "arrow_lib \<Rightarrow> proto_lib \<Rightarrow> Point \<Rightarrow> ('s StreamHandler, unit) handler_op" where
  "threshold_point A P point h =
     (case h of
        None \<Rightarrow> (h, [], Inl UndefinedBehaviour)
      | Some s \<Rightarrow> stream_handleBatch A P (Some (addPoint point s)))"

definition StatefulThresholdRequestHandler ::
  "arrow_lib \<Rightarrow> proto_lib \<Rightarrow> ThresholdOptions \<Rightarrow> StatefulThresholdRequestHandler RequestHandler"
where
  "StatefulThresholdRequestHandler A P memory =
     \<lparr>rh_info = info_response EDGE_STREAM EDGE_STREAM (Inr getThresholdOptionsMap),
      rh_init = threshold_init A P memory, rh_snapshot = stream_snapshot P, rh_restore = stream_restore P,
      rh_beginBatch = stream_beginBatch, rh_point = threshold_point A P, rh_endBatch = stream_endBatch,
      rh_start = return (), rh_stop = return ()\<rparr>"

section \<open>Handlers with a storage of the caller\<close>

text \<open>\<open>info\<close> reads the storage without a test.\<close>

definition storage_info :: "EdgeType \<Rightarrow> ('h \<Rightarrow> 's PointsStorage option) \<Rightarrow> ('h, response) handler_op" where
  "storage_info wants storage h =
     (case storage h of
        None \<Rightarrow> (h, [], Inl UndefinedBehaviour)
      | Some s \<Rightarrow> info_response wants (if provides_batch s then EDGE_BATCH else EDGE_STREAM) (Inr []) h)"

definition accept_options :: "Option list \<Rightarrow> ('h, response) handler_op" where
  "accept_options options = return (InitResponse True None)"

definition BatchRequestHandler :: "arrow_lib \<Rightarrow> proto_lib \<Rightarrow> 's BatchHandler RequestHandler" where
  "BatchRequestHandler A P = batch_methods A P (storage_info EDGE_BATCH points_storage) accept_options"

definition new_batch_request_handler :: "'s PointsStorage option \<Rightarrow> 's BatchHandler" where
  "new_batch_request_handler storage = new_batch_handler\<lparr>points_storage := storage\<rparr>"

definition StreamRequestHandler ::
  "arrow_lib \<Rightarrow> proto_lib \<Rightarrow> 't timer_lib \<Rightarrow> ('s, 't) TimerHandler RequestHandler"
where
  "StreamRequestHandler A P T = timer_methods A P T (storage_info EDGE_STREAM base_handler) accept_options"

definition new_stream_request_handler :: "'t \<Rightarrow> int \<Rightarrow> 's PointsStorage option \<Rightarrow> ('s, 't) TimerHandler" where
  "new_stream_request_handler timer batch_interval storage =
     \<lparr>base_handler = storage, emit_timer = timer, emit_timeout = batch_interval\<rparr>"

section \<open>The logging handler\<close>

record LoggingRequestHandler =
  logging_stream :: bytes
  is_logging :: bool

definition logging_point :: "proto_lib \<Rightarrow> Point \<Rightarrow> (LoggingRequestHandler, unit) handler_op" where
  "logging_point P point h =
     ((if is_logging h
       then h\<lparr>logging_stream := logging_stream h @ encode (of_nat (length (SerializePoint P point))) @ SerializePoint P point\<rparr>
       else h), [ResponsePoint point], Inr ())"

definition logging_methods :: "proto_lib \<Rightarrow> LoggingRequestHandler RequestHandler" where
  "logging_methods P =
     \<lparr>rh_info = info_response EDGE_STREAM EDGE_STREAM (Inr []), rh_init = accept_options,
      rh_snapshot = return (SnapshotResponse []), rh_restore = (\<lambda>_. return (RestoreResponse True None)),
      rh_beginBatch = stream_beginBatch, rh_point = logging_point P, rh_endBatch = stream_endBatch,
      rh_start = return (), rh_stop = return ()\<rparr>"

section \<open>What init does\<close>

text \<open>It succeeds just when the options are accepted, reports the first error otherwise, and then leaves
  the handler as it was.\<close>

lemma init_parsed_cases:
  "init_parsed parsed configure h =
     (case parsed of
        Inr options \<Rightarrow> (configure options h, [], Inr (InitResponse True None))
      | Inl (InvalidOptionException exc) \<Rightarrow> (h, [], Inr (InitResponse False (Some exc)))
      | Inl StdOutOfRange \<Rightarrow> (h, [], Inl ThrownOutOfRange))"
  by (simp add: init_parsed_def split: sum.split parse_error.split)

lemma init_success:
  "snd (snd (init_parsed parsed configure h)) = Inr (InitResponse True None) \<longleftrightarrow> (\<exists>options. parsed = Inr options)"
  by (auto simp: init_parsed_def split: sum.split parse_error.split)

lemma init_failure:
  "init_parsed parsed configure h = (h', rs, Inr (InitResponse False e)) \<Longrightarrow> h' = h \<and> rs = []"
  by (auto simp: init_parsed_def split: sum.splits parse_error.splits)

text \<open>A storage made by \<open>init\<close> has a converter and a handler, and no points.\<close>

lemma new_points_storage_ready [simp]:
  "ready (new_points_storage (Some c) (Some h) b)" "points (new_points_storage c' h' b) = []"
  by (simp_all add: new_points_storage_def ready_def)

lemma aggregate_init_reach:
  assumes "batch_aggregate_init A P options new_batch_handler = (h, rs, Inr (InitResponse True None))"
  shows "batch_reach A P h"
  using assms
  by (auto simp: batch_aggregate_init_def init_parsed_def new_batch_handler_def split: sum.splits parse_error.splits
      intro!: reach_init)

section \<open>The threshold handler handles every point at once\<close>

lemma threshold_point_empties:
  assumes "threshold_point A P p (Some s) = (h', rs, Inr ())"
  shows "\<exists>s'. h' = Some s' \<and> points s' = []"
  using assms by (auto simp: threshold_point_def stream_handleBatch_def Let_def split: prod.splits sum.splits)

end
