(* ===== verification/Udf_Agent.thy ===== *)
theory Udf_Agent
  imports Request_Handler Rw_Utils
begin

text \<open>
  \<open>src/src/kapacitor_udf/udf_agent.h\<close> and \<open>.cpp\<close>: the agent between Kapacitor and a request
  handler. A data event carries a chunk of the input; the reader cuts it into requests, which the
  handler answers; the responses are framed and written to the output. The state of the agent is the
  reader, the handler, the bytes passed to the output so far, whether the streams are still open, and the
  status of a call that did not come back, after which nothing happens any more. The messages are
  parsed and serialised by the parameter \<open>M\<close>; \<open>what\<close> is the text of an exception.
\<close>

record message_lib =
  ParseRequest :: "bytes \<Rightarrow> Request"
  SerializeResponse :: "response \<Rightarrow> bytes"
  what :: "cpp_exn \<Rightarrow> string"

record 'h UDFAgent =
  kapacitor_request_reader :: reader
  request_handler :: 'h
  out :: bytes
  opened :: bool
  halted :: "status option"

definition new_agent :: "'h \<Rightarrow> 'h UDFAgent" where
  "new_agent h = \<lparr>kapacitor_request_reader = new_reader, request_handler = h, out = [], opened = False, halted = None\<rparr>"

definition writeResponse :: "message_lib \<Rightarrow> response \<Rightarrow> bytes" where
  "writeResponse M response = writeToStreamWithUvarintLength (SerializeResponse M response)"

abbreviation writeResponses :: "message_lib \<Rightarrow> response list \<Rightarrow> bytes" where
  "writeResponses M rs \<equiv> concat (map (writeResponse M) rs)"

text \<open>The response of a method is written after what the method has written itself.\<close>

definition respond :: "'h \<times> response list \<times> (status + response) \<Rightarrow> 'h \<times> response list \<times> (status + unit)" where
  "respond m =
     (case m of
        (h, rs, Inl e) \<Rightarrow> (h, rs, Inl e)
      | (h, rs, Inr response) \<Rightarrow> (h, rs @ [response], Inr ()))"

definition handleRequest :: "'h RequestHandler \<Rightarrow> Request \<Rightarrow> ('h, unit) handler_op" where
  "handleRequest ops request h =
     (case request of
        InfoRequest \<Rightarrow> respond (rh_info ops h)
      | InitRequest options \<Rightarrow> respond (rh_init ops options h)
      | KeepaliveRequest time \<Rightarrow> (h, [KeepaliveResponse time], Inr ())
      | SnapshotRequest \<Rightarrow> respond (rh_snapshot ops h)
      | RestoreRequest data \<Rightarrow> respond (rh_restore ops data h)
      | RequestBegin batch \<Rightarrow> rh_beginBatch ops batch h
      | RequestPoint point \<Rightarrow> rh_point ops point h
      | RequestEnd batch \<Rightarrow> rh_endBatch ops batch h
      | RequestNotSet \<Rightarrow> (h, [], Inr ()))"

text \<open>The function the reader calls for a request, on the handler, the output and the halt status. A
  \<open>std::out_of_range\<close> goes on to the reader.\<close>

definition handle_function ::
  "message_lib \<Rightarrow> 'h RequestHandler \<Rightarrow> ('h \<times> bytes \<times> status option) request_handler"
where
  "handle_function M ops data s =
     (let (h, written, halt) = s in
      if halt \<noteq> None then (s, None)
      else
        (case handleRequest ops (ParseRequest M data) h of
           (h, rs, Inr _) \<Rightarrow> ((h, written @ writeResponses M rs, None), None)
         | (h, rs, Inl e) \<Rightarrow>
             if e = ThrownOutOfRange then ((h, written @ writeResponses M rs, None), Some OutOfRange)
             else ((h, written @ writeResponses M rs, Some e), None)))"

definition agent_start :: "'h RequestHandler \<Rightarrow> message_lib \<Rightarrow> 'h UDFAgent \<Rightarrow> 'h UDFAgent" where
  "agent_start ops M a =
     (let (h, rs, r) = rh_start ops (request_handler a);
          a = a\<lparr>request_handler := h, out := out a @ writeResponses M rs\<rparr>
      in case r of Inl e \<Rightarrow> a\<lparr>halted := Some e\<rparr> | Inr _ \<Rightarrow> a\<lparr>opened := True\<rparr>)"

definition agent_stop :: "'h RequestHandler \<Rightarrow> message_lib \<Rightarrow> 'h UDFAgent \<Rightarrow> 'h UDFAgent" where
  "agent_stop ops M a =
     (let (h, rs, r) = rh_stop ops (request_handler a);
          a = a\<lparr>request_handler := h, out := out a @ writeResponses M rs\<rparr>
      in case r of Inl e \<Rightarrow> a\<lparr>halted := Some e\<rparr> | Inr _ \<Rightarrow> a\<lparr>opened := False\<rparr>)"

definition reportError :: "message_lib \<Rightarrow> string \<Rightarrow> 'h UDFAgent \<Rightarrow> 'h UDFAgent" where
  "reportError M error_message a = a\<lparr>out := out a @ writeResponse M (ErrorResponse error_message)\<rparr>"

text \<open>The callback of a \<open>DataEvent\<close>; the events come while the input is open.\<close>

definition data_event :: "message_lib \<Rightarrow> 'h RequestHandler \<Rightarrow> bytes \<Rightarrow> 'h UDFAgent \<Rightarrow> 'h UDFAgent" where
  "data_event M ops data a =
     (if \<not> opened a \<or> halted a \<noteq> None then a
      else
        (let (rd, (h, written, halt), exc) =
               readRequests (handle_function M ops) data (kapacitor_request_reader a) (request_handler a, out a, None);
             a = a\<lparr>kapacitor_request_reader := rd, request_handler := h, out := written, halted := halt\<rparr>
         in case exc of
              None \<Rightarrow> a
            | Some e \<Rightarrow>
                if halt \<noteq> None then a
                else agent_stop ops M (reportError M (''error processing request: '' @ what M e) a)))"

text \<open>The callbacks of \<open>EndEvent\<close> and \<open>ErrorEvent\<close>.\<close>

definition end_event :: "message_lib \<Rightarrow> 'h RequestHandler \<Rightarrow> 'h UDFAgent \<Rightarrow> 'h UDFAgent" where
  "end_event M ops a = (if \<not> opened a \<or> halted a \<noteq> None then a else agent_stop ops M a)"

section \<open>The agent answers its requests in order\<close>

text \<open>What a handler answers to a sequence of requests.\<close>

fun answers :: "'h RequestHandler \<Rightarrow> Request list \<Rightarrow> ('h, unit) handler_op" where
  "answers ops [] h = (h, [], Inr ())"
| "answers ops (q # qs) h =
     (case handleRequest ops q h of
        (h, rs, Inl e) \<Rightarrow> (h, rs, Inl e)
      | (h, rs, Inr _) \<Rightarrow> (let (h, later, r) = answers ops qs h in (h, rs @ later, r)))"

lemma answers_append:
  "answers ops (ps @ qs) h =
     (case answers ops ps h of
        (h, rs, Inl e) \<Rightarrow> (h, rs, Inl e)
      | (h, rs, Inr _) \<Rightarrow> (let (h, later, r) = answers ops qs h in (h, rs @ later, r)))"
  by (induction ps arbitrary: h) (auto split: prod.splits sum.splits)

lemma deliver_answers:
  assumes "answers ops (map (ParseRequest M) fs) h = (h', rs, Inr u)"
  shows "deliver (handle_function M ops) fs (h, written, None) = ((h', written @ writeResponses M rs, None), None)"
  using assms
proof (induction fs arbitrary: h rs written)
  case (Cons f fs)
  obtain h1 rs1 u1 where 1: "handleRequest ops (ParseRequest M f) h = (h1, rs1, Inr u1)"
    using Cons.prems by (auto split: prod.splits sum.splits)
  obtain rs2 where 2: "answers ops (map (ParseRequest M) fs) h1 = (h', rs2, Inr u)" "rs = rs1 @ rs2"
    using Cons.prems 1 by (auto split: prod.splits)
  from Cons.IH [OF 2(1)] show ?case using 1 2(2) by (simp add: handle_function_def)
qed simp

text \<open>A chunk of whole frames.\<close>

lemma data_event_answers:
  assumes "list_all sendable fs" and "opened a" and "halted a = None" and "kapacitor_request_reader a = new_reader"
    and "answers ops (map (ParseRequest M) fs) (request_handler a) = (h', rs, Inr u)"
  shows "data_event M ops (messages fs) a = a\<lparr>request_handler := h', out := out a @ writeResponses M rs\<rparr>"
proof -
  have "readRequests (handle_function M ops) (messages fs) new_reader (request_handler a, out a, None) =
      (new_reader, (h', out a @ writeResponses M rs, None), None)"
    using readRequests_messages [OF assms(1), of "handle_function M ops" "[]"] deliver_answers [OF assms(5), of "out a"]
    by (simp add: readRequests_def readRequests_empty)
  with assms(2-4) show ?thesis by (cases a) (simp add: data_event_def)
qed

text \<open>A sequence of such chunks, and what the peer reads back.\<close>

lemma data_events_answers:
  assumes "\<forall>fs \<in> set chunks. list_all sendable fs" and "opened a" and "halted a = None"
    and "kapacitor_request_reader a = new_reader"
    and "answers ops (map (ParseRequest M) (concat chunks)) (request_handler a) = (h', rs, Inr u)"
  shows "fold (\<lambda>fs. data_event M ops (messages fs)) chunks a =
    a\<lparr>request_handler := h', out := out a @ writeResponses M rs\<rparr>"
  using assms
proof (induction chunks arbitrary: a rs)
  case Nil
  then show ?case by (cases a) simp
next
  case (Cons fs chunks)
  obtain h1 rs1 u1 where 1: "answers ops (map (ParseRequest M) fs) (request_handler a) = (h1, rs1, Inr u1)"
    using Cons.prems(5) by (auto simp: answers_append split: prod.splits sum.splits)
  obtain rs2 where 2: "answers ops (map (ParseRequest M) (concat chunks)) h1 = (h', rs2, Inr u)" "rs = rs1 @ rs2"
    using Cons.prems(5) 1 by (auto simp: answers_append split: prod.splits)
  have "data_event M ops (messages fs) a = a\<lparr>request_handler := h1, out := out a @ writeResponses M rs1\<rparr>"
    using Cons.prems 1 by (intro data_event_answers) simp_all
  with Cons.IH [of "a\<lparr>request_handler := h1, out := out a @ writeResponses M rs1\<rparr>" rs2] Cons.prems 2
  show ?case by simp
qed

lemma peer_reads:
  assumes "\<forall>r \<in> set rs. sendable (SerializeResponse M r)"
  shows "readRequests (\<lambda>data got. (got @ [data], None)) (writeResponses M rs) new_reader [] =
    (new_reader, map (SerializeResponse M) rs, None)"
proof -
  have d: "deliver (\<lambda>data got. (got @ [data], None)) fs got = (got @ fs, None)" for fs and got :: "bytes list"
    by (induction fs arbitrary: got) simp_all
  have "writeResponses M rs = messages (map (SerializeResponse M) rs)"
    by (induction rs) (simp_all add: writeResponse_def)
  then show ?thesis
    using readRequests_messages [of "map (SerializeResponse M) rs" "\<lambda>data got. (got @ [data], None)" "[]"] assms d
    by (simp add: readRequests_def readRequests_empty list_all_iff)
qed

text \<open>An exception that leaves the handler is reported, and the agent stops.\<close>

lemma data_event_out_of_range:
  assumes "sendable f" and "opened a" and "halted a = None" and "kapacitor_request_reader a = new_reader"
    and "handleRequest ops (ParseRequest M f) (request_handler a) = (h', rs, Inl ThrownOutOfRange)"
    and "rh_stop ops h' = (h'', rs', Inr u)"
  shows "data_event M ops (writeToStreamWithUvarintLength f @ later) a =
    a\<lparr>request_handler := h'', opened := False,
      out := out a @ writeResponses M rs @
        writeResponse M (ErrorResponse (''error processing request: '' @ what M OutOfRange)) @ writeResponses M rs'\<rparr>"
proof -
  have "readRequests (handle_function M ops) (writeToStreamWithUvarintLength f @ later) new_reader
      (request_handler a, out a, None) =
      (new_reader, (h', out a @ writeResponses M rs, None), Some OutOfRange)"
    using assms(1,5) by (simp add: readRequests_def readRequests_message handle_function_def)
  with assms(2-4,6) show ?thesis
    by (cases a) (simp add: data_event_def reportError_def agent_stop_def)
qed

end
