(* ===== verification/Agent_Protocol.thy ===== *)
theory Agent_Protocol
  imports Udf_Handlers Udf_Agent
begin

text \<open>
  The agent (\<open>src/src/kapacitor_udf/udf_agent.cpp\<close>) with the batch handlers of
  \<open>src/src/kapacitor_udf/request_handlers/record_batch_request_handler.cpp\<close>: what the messages of a
  batch, of a snapshot and of a restored handler make of the points.
\<close>

abbreviation batch_requests :: "BeginBatch \<Rightarrow> Point list \<Rightarrow> EndBatch \<Rightarrow> Request list" where
  "batch_requests b ps e \<equiv> RequestBegin b # map RequestPoint ps @ [RequestEnd e]"

lemma batch_methods_simps [simp]:
  "rh_info (batch_methods A P info init) = info" "rh_init (batch_methods A P info init) = init"
  "rh_snapshot (batch_methods A P info init) = batch_snapshot P"
  "rh_restore (batch_methods A P info init) = batch_restore P"
  "rh_beginBatch (batch_methods A P info init) = batch_beginBatch"
  "rh_point (batch_methods A P info init) = batch_point"
  "rh_endBatch (batch_methods A P info init) = batch_endBatch A P"
  by (simp_all add: batch_methods_def)

lemma answers_points:
  assumes "points_storage h = Some s" and "in_batch h"
  shows "answers (batch_methods A P info init) (map RequestPoint ps) h =
    (h\<lparr>points_storage := Some (s\<lparr>points := points s @ ps\<rparr>)\<rparr>, [], Inr ())"
  using assms
proof (induction ps arbitrary: h s)
  case (Cons p ps)
  let ?h = "h\<lparr>points_storage := Some (addPoint p s)\<rparr>"
  have "answers (batch_methods A P info init) (map RequestPoint ps) ?h =
      (?h\<lparr>points_storage := Some ((addPoint p s)\<lparr>points := points (addPoint p s) @ ps\<rparr>)\<rparr>, [], Inr ())"
    using Cons.prems by (intro Cons.IH) simp_all
  with Cons.prems show ?case by (simp add: handleRequest_def batch_point_def addPoint_def)
qed simp

text \<open>A begin message and points.\<close>

lemma answers_open_batch:
  assumes "points_storage h = Some s"
  shows "answers (batch_methods A P info init) (RequestBegin b # map RequestPoint ps) h =
    (h\<lparr>points_storage := Some (s\<lparr>points := points s @ ps\<rparr>), in_batch := True\<rparr>, [], Inr ())"
proof -
  let ?h = "h\<lparr>in_batch := True\<rparr>"
  have "answers (batch_methods A P info init) (map RequestPoint ps) ?h =
      (?h\<lparr>points_storage := Some (s\<lparr>points := points s @ ps\<rparr>)\<rparr>, [], Inr ())"
    using assms by (intro answers_points) simp_all
  then show ?thesis by (simp add: handleRequest_def batch_beginBatch_def)
qed

text \<open>The end message: the points, under its name, go through the storage once, and the handler is ready
  for the next batch whatever status the storage has logged.\<close>

lemma answers_batch:
  assumes "points_storage h = Some s" and "points s = []"
    and "storage_handleBatch A P (s\<lparr>points := map (\<lambda>point. point\<lparr>p_name := eb_name e\<rparr>) ps\<rparr>) = (s', rs, r)"
    and "logged r = Inr ()"
  shows "answers (batch_methods A P info init) (batch_requests b ps e) h =
    (h\<lparr>points_storage := Some (s'\<lparr>points := []\<rparr>), in_batch := False\<rparr>, rs, Inr ())"
proof -
  let ?h = "h\<lparr>points_storage := Some (s\<lparr>points := ps\<rparr>), in_batch := True\<rparr>"
  have 1: "answers (batch_methods A P info init) (RequestBegin b # map RequestPoint ps) h = (?h, [], Inr ())"
    using answers_open_batch [OF assms(1), of A P info init b ps] assms(2) by simp
  have 2: "batch_endBatch A P e ?h =
      (h\<lparr>points_storage := Some (s'\<lparr>points := []\<rparr>), in_batch := False\<rparr>, rs, Inr ())"
    using assms(3,4) by (simp add: batch_endBatch_def setPointsName_def storage_clear_def)
  have "batch_requests b ps e = (RequestBegin b # map RequestPoint ps) @ [RequestEnd e]" by simp
  then show ?thesis unfolding answers_append using 1 2 by (simp only: answers_append) (simp add: handleRequest_def)
qed

text \<open>What is written for a batch is bracketed.\<close>

lemma handleBatch_bracketed:
  assumes "storage_handleBatch A P s = (s', rs, r)" and "ready s"
  shows "bracketed (provides_batch s) False rs"
  using assms write_batches_bracketed
  by (auto simp: storage_handleBatch_def ready_def split: if_splits sum.splits prod.splits)
    (metis fst_conv write_batches_bracketed)

text \<open>A handler that is restored from a snapshot taken in the middle of a batch goes on as the first one
  would have.\<close>

lemma answers_snapshot:
  assumes "points_storage h = Some s"
  shows "answers (batch_methods A P info init) [SnapshotRequest] h =
    (h, [SnapshotResponse ((if in_batch h then 49 else 48) # storage_snapshot P s)], Inr ())"
  using assms by (simp add: handleRequest_def respond_def batch_snapshot_def)

lemma answers_restored:
  assumes "points_codec P" and "points_storage h = Some s" and "points_storage h' = Some s'"
    and "s' = s\<lparr>points := points s'\<rparr>"
  shows "answers (batch_methods A P info init)
      (RestoreRequest ((if in_batch h then 49 else 48) # storage_snapshot P s) # qs) h' =
    (let (h'', rs, r) = answers (batch_methods A P info init) qs h in (h'', RestoreResponse True None # rs, r))"
proof -
  let ?data = "(if in_batch h then 49 else 48) # storage_snapshot P s"
  have "batch_restore P ?data h' = (h'\<lparr>points_storage := Some (s'\<lparr>points := points s\<rparr>), in_batch := in_batch h\<rparr>, [],
      Inr (RestoreResponse True None))"
    using assms(2) by (intro restore_own_snapshot [OF assms(1,2,3)]) (simp add: batch_snapshot_def)
  moreover have "s'\<lparr>points := points s\<rparr> = s" using assms(4) by (cases s; cases s') simp
  moreover have "h'\<lparr>points_storage := Some s, in_batch := in_batch h\<rparr> = h" using assms(2) by (cases h; cases h') simp
  ultimately have "batch_restore P ?data h' = (h, [], Inr (RestoreResponse True None))" by simp
  then show ?thesis by (simp add: handleRequest_def respond_def split: prod.split)
qed

end
