(* ===== verification/Reference_Agent.thy ===== *)
theory Reference_Agent
  imports Agent_Protocol Reference_Tables Reference_Proto
begin

text \<open>
  Concrete messages, points and handlers for the witnesses of the agent and of the request handlers:
  messages of one byte, and the batch aggregate function that takes the last value of the column \<open>x\<close>.
\<close>

definition keepalive_messages :: message_lib where
  "keepalive_messages =
     \<lparr>ParseRequest = \<lambda>data. case data of [] \<Rightarrow> RequestNotSet | b # _ \<Rightarrow> KeepaliveRequest (uint b),
      SerializeResponse = \<lambda>r. case r of KeepaliveResponse t \<Rightarrow> [of_int t] | _ \<Rightarrow> [], what = \<lambda>_. []\<rparr>"

definition example_last :: AggregateOptions where
  "example_last = default_aggregate_options\<lparr>aggregate_columns :=
     [(''x'', [\<lparr>aggregate_function = kLast, result_column_name = ''y'', result_column_type = FIELD\<rparr>])]\<rparr>"

definition example_storage :: "unit PointsStorage" where
  "example_storage =
     new_points_storage (Some (BasePointsConverter ref_arrow group_proto DEFAULT_TO_RECORD_BATCHES_OPTIONS))
       (Some (aggregate_object ref_arrow group_proto example_last ())) False"

definition example_point :: "int \<Rightarrow> int \<Rightarrow> Point" where
  "example_point t x = empty_point\<lparr>p_time := t, p_group := ''host=a'', p_fieldsInt := [(''x'', x)],
     p_tags := [(''host'', ''a'')]\<rparr>"

definition example_begin :: BeginBatch where
  "example_begin = \<lparr>bb_name = ''m'', bb_group = ''host=a'', bb_tags = [], bb_size = 2, bb_byName = False\<rparr>"

definition example_end :: EndBatch where
  "example_end = \<lparr>eb_name = ''m'', eb_group = ''host=a'', eb_tmax = 7, eb_tags = [], eb_byName = False\<rparr>"

end
