(* ===== verification/Std_Numbers.thy ===== *)
theory Std_Numbers
  imports Double Prelude
begin

text \<open>
  \<open>std::strtoll\<close> with base 10 and \<open>std::strtod\<close> in the C locale: the value, the number of
  characters taken (the distance of \<open>str_end\<close> from the start; 0 when nothing could be converted) and
  whether \<open>errno\<close> is set to \<open>ERANGE\<close>; neither function resets \<open>errno\<close>. The argument is
  the text up to its first NUL: a NUL is no part of a number. Where the standard leaves it open whether
  underflow sets \<open>errno\<close>, it does so for inexact results below the normal range.
\<close>

definition is_space :: "char \<Rightarrow> bool" where
  "is_space c \<longleftrightarrow> c = CHR '' '' \<or> (9 \<le> (of_char c :: nat) \<and> (of_char c :: nat) \<le> 13)"

definition is_digit :: "char \<Rightarrow> bool" where
  "is_digit c \<longleftrightarrow> 48 \<le> (of_char c :: nat) \<and> (of_char c :: nat) \<le> 57"

definition digits_value :: "string \<Rightarrow> int" where
  "digits_value ds = foldl (\<lambda>n c. 10 * n + (of_char c - 48)) 0 ds"

text \<open>White space and a sign: whether the sign is negative, and the rest.\<close>

definition read_sign :: "string \<Rightarrow> bool \<times> string" where
  "read_sign s =
     (case s of
        [] \<Rightarrow> (False, [])
      | c # cs \<Rightarrow> if c = CHR ''-'' then (True, cs) else if c = CHR ''+'' then (False, cs) else (False, s))"

definition strtoll :: "string \<Rightarrow> int \<times> nat \<times> bool" where
  "strtoll s =
     (let (negative, rest) = read_sign (dropWhile is_space s);
          ds = takeWhile is_digit rest;
          v = (if negative then - digits_value ds else digits_value ds)
      in if ds = [] then (0, 0, False)
         else (max INT64_MIN (min INT64_MAX v), length s - length (drop (length ds) rest), v < INT64_MIN \<or> INT64_MAX < v))"

section \<open>Floating point\<close>

definition lower :: "char \<Rightarrow> char" where
  "lower c = (if 65 \<le> (of_char c :: nat) \<and> (of_char c :: nat) \<le> 90 then char_of ((of_char c :: nat) + 32) else c)"

definition prefix_nocase :: "string \<Rightarrow> string \<Rightarrow> bool" where
  "prefix_nocase p s \<longleftrightarrow> map lower (take (length p) s) = p"

definition is_hex :: "char \<Rightarrow> bool" where
  "is_hex c \<longleftrightarrow> is_digit c \<or> (97 \<le> (of_char (lower c) :: nat) \<and> (of_char (lower c) :: nat) \<le> 102)"

definition hex_value :: "string \<Rightarrow> int" where
  "hex_value ds = foldl (\<lambda>n c. 16 * n + (if is_digit c then of_char c - 48 else of_char (lower c) - 87)) 0 ds"

text \<open>Digits with at most one point: the digits, the number of those behind the point, and the rest.\<close>

definition read_mantissa :: "(char \<Rightarrow> bool) \<Rightarrow> string \<Rightarrow> string \<times> nat \<times> string" where
  "read_mantissa digit s =
     (let whole = takeWhile digit s; rest = dropWhile digit s in
      case rest of
        [] \<Rightarrow> (whole, 0, rest)
      | c # cs \<Rightarrow>
          if c = CHR ''.'' \<and> (whole \<noteq> [] \<or> takeWhile digit cs \<noteq> [])
          then (whole @ takeWhile digit cs, length (takeWhile digit cs), dropWhile digit cs)
          else (whole, 0, rest))"

text \<open>The exponent after its letter, if there is a complete one.\<close>

definition read_exponent :: "char \<Rightarrow> string \<Rightarrow> int \<times> string" where
  "read_exponent letter s =
     (case s of
        [] \<Rightarrow> (0, s)
      | c # cs \<Rightarrow>
          if lower c \<noteq> letter then (0, s)
          else
            (let (negative, rest) = read_sign cs; ds = takeWhile is_digit rest in
             if ds = [] then (0, s)
             else ((if negative then - digits_value ds else digits_value ds), dropWhile is_digit rest)))"

definition out_of_range :: "rat \<Rightarrow> bool" where
  "out_of_range x \<longleftrightarrow>
     (case round64 x of Fin y \<Rightarrow> y \<noteq> x \<and> \<bar>y\<bar> < 2 powi (- 1022) | _ \<Rightarrow> True)"

text \<open>The magnitude after white space and sign, and the rest; \<open>None\<close> if there is no number.\<close>

definition read_magnitude :: "string \<Rightarrow> ((double + rat) \<times> string) option" where
  "read_magnitude s =
     (if prefix_nocase ''infinity'' s then Some (Inl PInf, drop 8 s)
      else if prefix_nocase ''inf'' s then Some (Inl PInf, drop 3 s)
      else if prefix_nocase ''nan'' s then
        (let rest = drop 3 s;
             chars = takeWhile (\<lambda>c. is_digit c \<or> (97 \<le> (of_char (lower c) :: nat) \<and> (of_char (lower c) :: nat) \<le> 122) \<or> c = CHR ''_'')
               (drop 1 rest) in
         if take 1 rest = ''('' \<and> take 1 (drop (length chars) (drop 1 rest)) = '')''
         then Some (Inl NaN, drop (Suc (length chars)) (drop 1 rest))
         else Some (Inl NaN, rest))
      else
        (let (hex, hex_places, hex_rest) = read_mantissa is_hex (drop 2 s) in
         if prefix_nocase ''0x'' s \<and> hex \<noteq> [] then
           (let (e, rest) = read_exponent (CHR ''p'') hex_rest
            in Some (Inr (of_int (hex_value hex) * 2 powi (e - 4 * int hex_places)), rest))
         else
           (let (ds, places, ds_rest) = read_mantissa is_digit s in
            if ds = [] then None
            else
              (let (e, rest) = read_exponent (CHR ''e'') ds_rest
               in Some (Inr (of_int (digits_value ds) * 10 powi (e - int places)), rest)))))"

definition strtod :: "string \<Rightarrow> double \<times> nat \<times> bool" where
  "strtod s =
     (let (negative, rest) = read_sign (dropWhile is_space s) in
      case read_magnitude rest of
        None \<Rightarrow> (Fin 0, 0, False)
      | Some (Inl d, rest) \<Rightarrow> ((if negative then dneg d else d), length s - length rest, False)
      | Some (Inr x, rest) \<Rightarrow>
          (let d = round64 x in ((if negative then dneg d else d), length s - length rest, x \<noteq> 0 \<and> out_of_range x)))"

section \<open>Decimal texts\<close>

text \<open>\<open>std::to_string\<close>, and that \<open>strtoll\<close> reads it back.\<close>

fun decimal :: "nat \<Rightarrow> string" where
  "decimal n = (if n < 10 then [char_of (48 + n)] else decimal (n div 10) @ [char_of (48 + n mod 10)])"

declare decimal.simps [simp del]

definition decimal_int :: "int \<Rightarrow> string" where
  "decimal_int i = (if i < 0 then CHR ''-'' # decimal (nat (- i)) else decimal (nat i))"

lemma digit_char [simp]:
  assumes "d < 10"
  shows "is_digit (char_of (48 + d :: nat))" "of_char (char_of (48 + d :: nat) :: char) = (48 + int d)"
proof -
  have n: "(of_char (char_of (48 + d) :: char) :: nat) = 48 + d" using assms by simp
  then show "is_digit (char_of (48 + d :: nat))" using assms by (simp add: is_digit_def)
  show "of_char (char_of (48 + d :: nat) :: char) = (48 + int d)"
    using n of_nat_of_char [of "char_of (48 + d) :: char", where ?'a = int] by simp
qed

lemma decimal_digits: "list_all is_digit (decimal n) \<and> decimal n \<noteq> []"
proof (induction n rule: decimal.induct)
  case (1 n)
  show ?case
  proof (cases "n < 10")
    case True
    then show ?thesis by (subst (1 2) decimal.simps) simp
  next
    case False
    then show ?thesis using 1 by (subst (1 2) decimal.simps) simp
  qed
qed

lemma digits_value_snoc: "digits_value (ds @ [c]) = 10 * digits_value ds + (of_char c - 48)"
  by (simp add: digits_value_def)

lemma digits_value_decimal: "digits_value (decimal n) = int n"
proof (induction n rule: decimal.induct)
  case (1 n)
  show ?case
  proof (cases "n < 10")
    case True
    then show ?thesis by (subst decimal.simps) (simp add: digits_value_def)
  next
    case False
    then have "digits_value (decimal n) = 10 * int (n div 10) + int (n mod 10)"
      using 1 by (subst decimal.simps) (simp add: digits_value_snoc)
    then show ?thesis by (metis mult_div_mod_eq of_nat_add of_nat_mult of_nat_numeral)
  qed
qed

lemma decimal_hd: "is_digit (hd (decimal n))" "hd (decimal n) \<noteq> CHR ''-''" "hd (decimal n) \<noteq> CHR ''+''"
    "\<not> is_space (hd (decimal n))"
proof -
  show d: "is_digit (hd (decimal n))" using decimal_digits [of n] by (cases "decimal n") auto
  show "hd (decimal n) \<noteq> CHR ''-''" "hd (decimal n) \<noteq> CHR ''+''" using d by (auto simp: is_digit_def)
  have "is_digit c \<Longrightarrow> \<not> is_space c" for c by (auto simp: is_digit_def is_space_def)
  with d show "\<not> is_space (hd (decimal n))" by blast
qed

lemma strtoll_decimal:
  assumes "INT64_MIN \<le> i" and "i \<le> INT64_MAX"
  shows "strtoll (decimal_int i) = (i, length (decimal_int i), False)"
proof -
  have tw: "takeWhile is_digit (decimal n) = decimal n" for n
    using decimal_digits [of n] by (simp add: list_all_iff)
  show ?thesis
  proof (cases "i < 0")
    case True
    have "\<not> is_space CHR ''-''" by (simp add: is_space_def)
    then show ?thesis using True assms decimal_digits [of "nat (- i)"]
      by (simp add: tw strtoll_def decimal_int_def read_sign_def digits_value_decimal Let_def)
  next
    case False
    let ?d = "decimal (nat i)"
    obtain c cs where c: "?d = c # cs" using decimal_digits [of "nat i"] by (cases ?d) auto
    have "dropWhile is_space ?d = ?d" using decimal_hd(4) [of "nat i"] by (simp add: c)
    moreover have "read_sign ?d = (False, ?d)" using decimal_hd(2,3) [of "nat i"] by (simp add: c read_sign_def)
    ultimately show ?thesis using False assms decimal_digits [of "nat i"]
      by (simp add: tw strtoll_def decimal_int_def digits_value_decimal Let_def)
  qed
qed

lemma decimal_length: "length (decimal n) \<le> Suc k \<longleftrightarrow> n < 10 ^ Suc k"
proof (induction k arbitrary: n)
  case 0
  show ?case by (subst decimal.simps) (simp add: decimal_digits)
next
  case (Suc k)
  show ?case
  proof (cases "n < 10")
    case True
    moreover have "(10::nat) \<le> 10 ^ Suc (Suc k)" by simp
    ultimately show ?thesis by (subst decimal.simps) (simp del: power_Suc)
  next
    case False
    then have "length (decimal n) = Suc (length (decimal (n div 10)))" by (subst decimal.simps) simp
    moreover have "n div 10 < 10 ^ Suc k \<longleftrightarrow> n < 10 ^ Suc (Suc k)" by (simp add: div_less_iff_less_mult mult.commute)
    ultimately show ?thesis using Suc.IH [of "n div 10"] by simp
  qed
qed

lemma decimal_leading: "0 < n \<Longrightarrow> hd (decimal n) \<noteq> CHR ''0''"
proof (induction n rule: decimal.induct)
  case (1 n)
  show ?case
  proof (cases "n < 10")
    case True
    have "char_of (48 + n) \<noteq> CHR ''0''"
    proof
      assume "char_of (48 + n) = CHR ''0''"
      then have "(of_char (char_of (48 + n) :: char) :: nat) = of_char CHR ''0''" by (rule arg_cong)
      then show False using True 1(2) by simp
    qed
    then show ?thesis using True by (subst decimal.simps) simp
  next
    case False
    then show ?thesis using 1 decimal_digits [of "n div 10"] by (subst decimal.simps) simp
  qed
qed

end
