(* ===== verification/Graphite_Parser.thy ===== *)
theory Graphite_Parser
  imports Points_Converter String_Utils Std_Numbers
begin

text \<open>
  \<open>src/src/nodes/data_handlers/parsers/graphite_parser.h\<close> and \<open>.cpp\<close>: lines of the Graphite
  protocol, cut by templates into a measurement name, tags and a field, to a record batch. The regular
  expression of a filter is built and matched by the parameter \<open>regex\<close> (\<open>None\<close> when
  \<open>std::regex\<close> throws), the current time is the parameter \<open>clock\<close>, by the number of the call.

  \<open>determineFieldType\<close> tests \<open>errno\<close> without having reset it: whether \<open>errno\<close> holds
  \<open>ERANGE\<close> is a state of the model, which the conversions set and nothing clears.
\<close>

section \<open>Metrics\<close>

record Metric =
  measurement_name :: string
  m_tags :: "(string, string) smap"
  m_fields :: "(string, string) smap"
  timestamp :: int

definition new_metric :: "string \<Rightarrow> (string, string) smap \<Rightarrow> Metric" where
  "new_metric name tags = \<lparr>measurement_name = name, m_tags = tags, m_fields = [], timestamp = - 1\<rparr>"

definition getKeyString :: "Metric \<Rightarrow> string" where
  "getKeyString metric =
     concatenateStrings (measurement_name metric # map (\<lambda>(k, v). k @ ''='' @ v) (m_tags metric)) ''.''"

definition mergeWith :: "Metric \<Rightarrow> Metric \<Rightarrow> Metric" where
  "mergeWith other metric =
     (if getKeyString metric \<noteq> getKeyString other then metric
      else
        metric\<lparr>m_fields := fold (\<lambda>(k, v) fields. if map_of fields k = None then smap_put k v fields else fields)
                 (m_fields other) (m_fields metric),
               timestamp := (if timestamp metric = - 1 then timestamp other else timestamp metric)\<rparr>)"

definition metric_less :: "Metric \<Rightarrow> Metric \<Rightarrow> bool" where
  "metric_less metric1 metric2 =
     (if timestamp metric1 = timestamp metric2 then getKeyString metric1 < getKeyString metric2
      else if timestamp metric1 = - 1 then False
      else if timestamp metric2 = - 1 then True
      else timestamp metric1 < timestamp metric2)"

text \<open>\<open>find\<close> in the ordered set, then \<open>mergeWith\<close> or \<open>insert\<close>.\<close>

fun add_metric :: "Metric \<Rightarrow> Metric list \<Rightarrow> Metric list" where
  "add_metric metric [] = [metric]"
| "add_metric metric (m # ms) =
     (if metric_less metric m then metric # m # ms
      else if metric_less m metric then m # add_metric metric ms
      else mergeWith metric m # ms)"

section \<open>Templates\<close>

datatype TemplatePartType = PART_MEASUREMENT | PART_TAG | PART_FIELD

record TemplatePart =
  part_type :: TemplatePartType
  part_id :: string

record MetricTemplate =
  template_filter :: "(string \<Rightarrow> bool) option"
  parts :: "TemplatePart list"
  additional_tags :: "(string, string) smap"
  multiple_last_part :: bool

definition MEASUREMENT_PART_ID :: string where "MEASUREMENT_PART_ID = ''measurement''"
definition FIELD_PART_ID :: string where "FIELD_PART_ID = ''field''"
definition DEFAULT_FIELD_NAME :: string where "DEFAULT_FIELD_NAME = ''value''"

definition prepareFilterRegex :: "string \<Rightarrow> string" where
  "prepareFilterRegex filter_string =
     concat (map (\<lambda>c. if c = CHR ''.'' then [CHR 0x5C, CHR ''.''] else if c = CHR ''*'' then ''.+'' else [c]) filter_string)"

definition addTemplatePart :: "string \<Rightarrow> TemplatePart list \<Rightarrow> TemplatePart list" where
  "addTemplatePart template_part ps =
     ps @ [if template_part = MEASUREMENT_PART_ID then \<lparr>part_type = PART_MEASUREMENT, part_id = []\<rparr>
           else if template_part = FIELD_PART_ID then \<lparr>part_type = PART_FIELD, part_id = []\<rparr>
           else \<lparr>part_type = PART_TAG, part_id = template_part\<rparr>]"

definition prepareTemplateParts :: "string \<Rightarrow> MetricTemplate \<Rightarrow> cpp_exn + MetricTemplate" where
  "prepareTemplateParts template_string t =
     (if template_string = [] then Inr t
      else
        rbind (split template_string ''.'') (\<lambda>template_string_parts.
          if template_string_parts = [] then Inl GraphiteParserException
          else
            (let ps = fold addTemplatePart (butlast template_string_parts) (parts t);
                 last_part = last template_string_parts;
                 multiple = (last_part \<noteq> [] \<and> last last_part = CHR ''*'' \<and>
                   (butlast last_part = MEASUREMENT_PART_ID \<or> butlast last_part = FIELD_PART_ID))
             in Inr (t\<lparr>multiple_last_part := multiple,
                       parts := addTemplatePart (if multiple then butlast last_part else last_part) ps\<rparr>))))"

definition prepareAdditionalTags :: "string \<Rightarrow> MetricTemplate \<Rightarrow> cpp_exn + MetricTemplate" where
  "prepareAdditionalTags additional_tags_string t =
     rbind (split additional_tags_string '','') (\<lambda>additional_tags_parts.
       rfold (\<lambda>part t.
           rbind (split part ''='') (\<lambda>tag.
             if length tag \<noteq> 2 then Inl GraphiteParserException
             else Inr (t\<lparr>additional_tags := smap_put (tag ! 0) (tag ! 1) (additional_tags t)\<rparr>)))
         additional_tags_parts t)"

definition empty_template :: MetricTemplate where
  "empty_template = \<lparr>template_filter = None, parts = [], additional_tags = [], multiple_last_part = False\<rparr>"

definition new_template :: "(string \<Rightarrow> (string \<Rightarrow> bool) option) \<Rightarrow> string \<Rightarrow> cpp_exn + MetricTemplate" where
  "new_template regex template_string =
     rbind (split template_string '' '') (\<lambda>template_string_parts.
       if template_string_parts = [] then Inr empty_template
       else
         rbind
           (if length template_string_parts = 3 \<or>
               (length template_string_parts = 2 \<and> CHR ''='' \<notin> set (template_string_parts ! 1))
            then (case regex (prepareFilterRegex (template_string_parts ! 0)) of
                    None \<Rightarrow> Inl RegexError
                  | Some matches \<Rightarrow> Inr (empty_template\<lparr>template_filter := Some matches\<rparr>, 1))
            else Inr (empty_template, 0)) (\<lambda>(t, part_idx).
         rbind (prepareTemplateParts (template_string_parts ! part_idx) t) (\<lambda>t.
           if Suc part_idx < length template_string_parts
           then prepareAdditionalTags (template_string_parts ! Suc part_idx) t
           else Inr t)))"

definition template_match :: "MetricTemplate \<Rightarrow> string \<Rightarrow> cpp_exn + bool" where
  "template_match t metric_string =
     rbind (split metric_string '' '') (\<lambda>metric_parts.
       if length metric_parts < 2 \<or>
          (case template_filter t of None \<Rightarrow> False | Some matches \<Rightarrow> \<not> matches (metric_parts ! 0))
       then Inr False
       else
         rbind (split (metric_parts ! 0) ''.'') (\<lambda>metric_description_parts.
           Inr (length metric_description_parts = length (parts t) \<or>
                (length (parts t) < length metric_description_parts \<and> multiple_last_part t))))"

text \<open>The values of the parts so far: measurement name, tags and field.\<close>

record part_values =
  measurement_name_parts :: "string list"
  tags_parts :: "(string, string list) smap"
  field_parts :: "string list"

definition put_part :: "TemplatePart \<times> string \<Rightarrow> part_values \<Rightarrow> part_values" where
  "put_part p v =
     (let (part, text) = p in
      case part_type part of
        PART_MEASUREMENT \<Rightarrow> v\<lparr>measurement_name_parts := measurement_name_parts v @ [text]\<rparr>
      | PART_FIELD \<Rightarrow> v\<lparr>field_parts := field_parts v @ [text]\<rparr>
      | PART_TAG \<Rightarrow>
          (let ts = (if map_of (tags_parts v) (part_id part) = None then smap_put (part_id part) [] (tags_parts v)
                     else tags_parts v)
           in v\<lparr>tags_parts := smap_put (part_id part) (the (map_of ts (part_id part)) @ [text]) ts\<rparr>))"

definition put_rest :: "TemplatePart list \<Rightarrow> string \<Rightarrow> part_values \<Rightarrow> cpp_exn + part_values" where
  "put_rest ps text v =
     (case part_type (last ps) of
        PART_MEASUREMENT \<Rightarrow> Inr (v\<lparr>measurement_name_parts := measurement_name_parts v @ [text]\<rparr>)
      | PART_FIELD \<Rightarrow> Inr (v\<lparr>field_parts := field_parts v @ [text]\<rparr>)
      | PART_TAG \<Rightarrow> Inl RuntimeError)"

text \<open>The metric of a line, and whether converting its time stamp sets \<open>errno\<close>.\<close>

definition buildMetric :: "MetricTemplate \<Rightarrow> string \<Rightarrow> string \<Rightarrow> cpp_exn + (Metric \<times> bool) option" where
  "buildMetric t metric_string separator =
     rbind (template_match t metric_string) (\<lambda>matches.
     if \<not> matches then Inr None
     else
       rbind (split metric_string '' '') (\<lambda>metric_parts.
       if metric_parts = [] then Inl GraphiteParserException
       else
         rbind (split (metric_parts ! 0) ''.'') (\<lambda>metric_description_parts.
         if length metric_description_parts < length (parts t) then Inl GraphiteParserException
         else
           (let v = fold put_part (zip (parts t) metric_description_parts)
                      \<lparr>measurement_name_parts = [], tags_parts = [], field_parts = []\<rparr> in
            rbind (if length (parts t) < length metric_description_parts \<and> multiple_last_part t
                   then rfold (put_rest (parts t)) (drop (length (parts t)) metric_description_parts) v
                   else Inr v) (\<lambda>v.
              (let tags = fold (\<lambda>(k, texts). smap_emplace k (concatenateStrings texts separator)) (tags_parts v) [];
                   tags = fold (\<lambda>(k, text). smap_emplace k text) (additional_tags t) tags;
                   metric = new_metric (concatenateStrings (measurement_name_parts v) separator) tags;
                   field_name = (if field_parts v \<noteq> [] then concatenateStrings (field_parts v) separator
                                 else DEFAULT_FIELD_NAME);
                   metric = metric\<lparr>m_fields := smap_put field_name (metric_parts ! 1) (m_fields metric)\<rparr>
               in if length metric_parts = 3
                  then (let (time, _, erange) = strtoll (metric_parts ! 2) in Inr (Some (metric\<lparr>timestamp := time\<rparr>, erange)))
                  else Inr (Some (metric, False))))))))"

section \<open>The parser\<close>

record GraphiteParser =
  gp_separator :: string
  gp_time_column_name :: string
  gp_measurement_column_name :: string
  gp_templates :: "MetricTemplate list"
  parsed_metrics :: "Metric list"

definition new_graphite_parser ::
  "(string \<Rightarrow> (string \<Rightarrow> bool) option) \<Rightarrow> string list \<Rightarrow> string \<Rightarrow> string \<Rightarrow> string \<Rightarrow> cpp_exn + GraphiteParser"
where
  "new_graphite_parser regex template_strings time_column_name separator measurement_column_name =
     rbind (rmap (new_template regex) template_strings) (\<lambda>ts.
       Inr \<lparr>gp_separator = separator, gp_time_column_name = time_column_name,
            gp_measurement_column_name = measurement_column_name, gp_templates = ts, parsed_metrics = []\<rparr>)"

text \<open>The type of a value and the state of \<open>errno\<close> after it.\<close>

definition determineFieldType :: "bool \<Rightarrow> string \<Rightarrow> arrow_type_id \<times> bool" where
  "determineFieldType errno v =
     (if v = ''0'' then (INT64, errno)
      else
        (let (int64_value, str_end, erange) = strtoll v; errno = (errno \<or> erange) in
         if \<not> errno \<and> int64_value \<noteq> 0 \<and> str_end = length v then (INT64, errno)
         else
           (let (double_value, str_end, erange) = strtod v; errno = (errno \<or> erange) in
            if \<not> errno \<and> double_value \<noteq> Fin 0 \<and> str_end = length v then (DOUBLE, errno)
            else (STRING, errno))))"

text \<open>The first template that matches a line.\<close>

fun first_metric :: "MetricTemplate list \<Rightarrow> string \<Rightarrow> string \<Rightarrow> cpp_exn + (Metric \<times> bool) option" where
  "first_metric [] metric_string separator = Inr None"
| "first_metric (t # ts) metric_string separator =
     rbind (buildMetric t metric_string separator) (\<lambda>metric.
       case metric of None \<Rightarrow> first_metric ts metric_string separator | Some m \<Rightarrow> Inr (Some m))"

fun parseMetricStrings ::
  "MetricTemplate list \<Rightarrow> string \<Rightarrow> string list \<Rightarrow> Metric list \<times> bool \<Rightarrow> (Metric list \<times> bool) \<times> cpp_exn option"
where
  "parseMetricStrings ts separator [] st = (st, None)"
| "parseMetricStrings ts separator (metric_string # metric_strings) st =
     (case first_metric ts metric_string separator of
        Inl exc \<Rightarrow> (st, Some exc)
      | Inr None \<Rightarrow> parseMetricStrings ts separator metric_strings st
      | Inr (Some (m, erange)) \<Rightarrow>
          parseMetricStrings ts separator metric_strings (add_metric m (fst st), snd st \<or> erange))"

text \<open>The builders of the tags, and the types of the fields, over all metrics.\<close>

definition field_type_step ::
  "string \<times> string \<Rightarrow> (string, arrow_type_id) smap \<times> bool \<Rightarrow> (string, arrow_type_id) smap \<times> bool"
where
  "field_type_step metric_field st =
     (let (fields_types, errno) = st; (name, v) = metric_field;
          (metric_field_type, errno) = determineFieldType errno v;
          old = map_of fields_types name
      in (if old = None \<or> (old = Some INT64 \<and> metric_field_type \<noteq> INT64) \<or>
             (old \<noteq> Some STRING \<and> metric_field_type = STRING)
          then smap_put name metric_field_type fields_types else fields_types, errno))"

definition determine_columns ::
  "Metric list \<Rightarrow> bool \<Rightarrow> (string, builder) smap \<times> (string, arrow_type_id) smap \<times> bool"
where
  "determine_columns metrics errno =
     (fold (\<lambda>metric. addBuilders (Plain STRING) (m_tags metric)) metrics [],
      fold (\<lambda>metric. fold field_type_step (m_fields metric)) metrics ([], errno))"

definition new_field_builders :: "(string, arrow_type_id) smap \<Rightarrow> status + (string, builder) smap" where
  "new_field_builders fields_types =
     rfold (\<lambda>(name, ty) field_builders.
         if ty \<in> {INT64, DOUBLE, STRING} then Inr (smap_put name (Plain ty, []) field_builders)
         else Inl ExecutionError)
       fields_types []"

text \<open>The scalar a value is appended as. The conversions cannot set \<open>errno\<close> here, where they come
  after \<open>determineFieldType\<close> of the same values.\<close>

definition append_field_value :: "arrow_lib \<Rightarrow> arrow_type_id \<Rightarrow> string \<Rightarrow> builder \<Rightarrow> status + builder" where
  "append_field_value A ty v b =
     (case ty of
        INT64 \<Rightarrow> Append A b (int_scalar (Plain INT64) (fst (strtoll v)))
      | DOUBLE \<Rightarrow> Append A b (double_scalar (fst (strtod v)))
      | STRING \<Rightarrow> Append A b (string_scalar v)
      | _ \<Rightarrow> Inl ExecutionError)"

record metric_builders =
  mb_timestamps :: builder
  mb_names :: builder
  mb_tags :: "(string, builder) smap"
  mb_fields :: "(string, builder) smap"

definition append_metric ::
  "arrow_lib \<Rightarrow> (nat \<Rightarrow> int) \<Rightarrow> (string, arrow_type_id) smap \<Rightarrow> nat \<times> Metric \<Rightarrow> metric_builders
     \<Rightarrow> status + metric_builders"
where
  "append_metric A clock fields_types im b =
     (let (i, metric) = im in
      rbind (Append A (mb_timestamps b)
               (int_scalar (Timestamp UNIT_SECOND) (if timestamp metric \<noteq> - 1 then timestamp metric else clock i))) (\<lambda>ts.
      rbind (Append A (mb_names b) (string_scalar (measurement_name metric))) (\<lambda>names.
      rbind (appendValues A string_scalar (m_tags metric) (mb_tags b)) (\<lambda>tags.
      rbind (rmap (\<lambda>(name, b).
               rbind (case map_of (m_fields metric) name of
                        Some v \<Rightarrow> append_field_value A (the (map_of fields_types name)) v b
                      | None \<Rightarrow> AppendNull A b) (\<lambda>b. Inr (name, b))) (mb_fields b)) (\<lambda>fields.
        Inr \<lparr>mb_timestamps = ts, mb_names = names, mb_tags = tags, mb_fields = fields\<rparr>)))))"

definition field_columns ::
  "arrow_lib \<Rightarrow> (string, arrow_type_id) smap \<Rightarrow> (string, builder) smap \<Rightarrow> arrow_field list \<times> arrow_array list
     \<Rightarrow> status + arrow_field list \<times> arrow_array list"
where
  "field_columns A fields_types =
     rfold (\<lambda>(name, b) (fields, column_arrays).
       rbind (Finish A b) (\<lambda>column_array.
       (let ty = the (map_of fields_types name) in
        if ty \<notin> {INT64, DOUBLE, STRING} then Inl ExecutionError
        else rbind (setFieldTypeMetadata A (new_field name (Plain ty)) FIELD) (\<lambda>field.
               Inr (fields @ [field], column_arrays @ [column_array])))))"

definition metrics_batch ::
  "arrow_lib \<Rightarrow> (nat \<Rightarrow> int) \<Rightarrow> GraphiteParser \<Rightarrow> (string, builder) smap \<Rightarrow> (string, arrow_type_id) smap \<Rightarrow> status + batch"
where
  "metrics_batch A clock p tag_builders fields_types =
     rbind (new_field_builders fields_types) (\<lambda>field_builders.
     rbind (rfold (append_metric A clock fields_types) (enumerate 0 (parsed_metrics p))
              \<lparr>mb_timestamps = (Timestamp UNIT_SECOND, []), mb_names = (Plain STRING, []), mb_tags = tag_builders,
               mb_fields = field_builders\<rparr>) (\<lambda>b.
     rbind (Finish A (mb_timestamps b)) (\<lambda>ta.
     rbind (setFieldTypeMetadata A (new_field (gp_time_column_name p) (Timestamp UNIT_SECOND)) TIME) (\<lambda>tf.
     rbind (setFieldTypeMetadata A (new_field (gp_measurement_column_name p) (Plain STRING)) MEASUREMENT) (\<lambda>mf.
     rbind (Finish A (mb_names b)) (\<lambda>ma.
     rbind (buildColumnArrays A (Plain STRING) TAG (mb_tags b) ([tf, mf], [ta, ma])) (\<lambda>cols.
     rbind (field_columns A fields_types (mb_fields b) cols) (\<lambda>(fields, column_arrays).
       (let record_batch = Make \<lparr>sch_fields = fields, sch_metadata = None\<rparr> (length (parsed_metrics p)) column_arrays in
        rbind (setTimeColumnNameMetadata A record_batch (gp_time_column_name p)) (\<lambda>record_batch.
          setMeasurementColumnNameMetadata A record_batch (gp_measurement_column_name p)))))))))))"

text \<open>The metrics are kept when the method fails after they have been parsed.\<close>

definition graphite_parseRecordBatches ::
  "arrow_lib \<Rightarrow> (nat \<Rightarrow> int) \<Rightarrow> string \<Rightarrow> GraphiteParser \<times> bool
     \<Rightarrow> (GraphiteParser \<times> bool) \<times> (cpp_exn + (status + batch list))"
where
  "graphite_parseRecordBatches A clock buffer st =
     (let (p, errno) = st in
      case split buffer [newline] of
        Inl exc \<Rightarrow> (st, Inl exc)
      | Inr metric_strings \<Rightarrow>
          if metric_strings = [] then (st, Inr (Inr []))
          else
            (let ((metrics, errno), exc) =
                   parseMetricStrings (gp_templates p) (gp_separator p) metric_strings (parsed_metrics p, errno);
                 p = p\<lparr>parsed_metrics := metrics\<rparr>
             in case exc of
                  Some e \<Rightarrow> ((p, errno), Inl e)
                | None \<Rightarrow>
                    (let (tag_builders, fields_types, errno) = determine_columns metrics errno
                     in case metrics_batch A clock p tag_builders fields_types of
                          Inl e \<Rightarrow> ((p, errno), Inr (Inl e))
                        | Inr record_batch \<Rightarrow> ((p\<lparr>parsed_metrics := []\<rparr>, errno), Inr (Inr [record_batch])))))"

end
