(* ===== verification/Graphite_Laws.thy ===== *)
theory Graphite_Laws
  imports Graphite_Parser
begin

text \<open>
  The templates a parser is built from never throw later; what a line means; the types of the values,
  with \<open>errno\<close> clear and with \<open>errno\<close> set by an earlier value.
\<close>

section \<open>No exception leaves the parser\<close>

definition template_ok :: "MetricTemplate \<Rightarrow> bool" where
  "template_ok t \<longleftrightarrow> (multiple_last_part t \<longrightarrow> parts t \<noteq> [] \<and> part_type (last (parts t)) \<noteq> PART_TAG)"

lemma prepareTemplateParts_ok:
  assumes "prepareTemplateParts s t = Inr t'" and "template_ok t"
  shows "template_ok t'"
  using assms
  by (auto simp: prepareTemplateParts_def template_ok_def split_char addTemplatePart_def Let_def split: if_splits)

lemma prepareAdditionalTags_keeps:
  assumes "prepareAdditionalTags s t = Inr t'"
  shows "parts t' = parts t \<and> multiple_last_part t' = multiple_last_part t \<and> template_filter t' = template_filter t"
proof -
  let ?f = "\<lambda>part t. rbind (split part ''='') (\<lambda>tag.
      if length tag \<noteq> 2 then Inl GraphiteParserException
      else Inr (t\<lparr>additional_tags := smap_put (tag ! 0) (tag ! 1) (additional_tags t)\<rparr>))"
  have "rfold ?f ps t = Inr t' \<Longrightarrow>
      parts t' = parts t \<and> multiple_last_part t' = multiple_last_part t \<and> template_filter t' = template_filter t" for ps
    by (rule rfold_invariant [where I = "\<lambda>u. parts u = parts t \<and> multiple_last_part u = multiple_last_part t \<and>
          template_filter u = template_filter t" and f = ?f, rotated 2]) (auto simp: rbind_eq_Inr_iff split: if_splits)
  with assms show ?thesis by (auto simp: prepareAdditionalTags_def rbind_eq_Inr_iff)
qed

lemma new_template_ok:
  assumes "new_template regex s = Inr t"
  shows "template_ok t"
proof -
  have e: "template_ok empty_template" "template_ok (empty_template\<lparr>template_filter := f\<rparr>)" for f
    by (simp_all add: template_ok_def empty_template_def)
  have k: "template_ok t'" if "prepareAdditionalTags a u = Inr t'" "template_ok u" for a u t'
    using prepareAdditionalTags_keeps [OF that(1)] that(2) by (simp add: template_ok_def)
  show ?thesis using assms e unfolding new_template_def
    by (auto simp: rbind_eq_Inr_iff split: if_splits option.splits intro: k dest: prepareTemplateParts_ok)
qed

lemma put_rest_returns:
  assumes "template_ok t" and "multiple_last_part t"
  shows "\<exists>v'. rfold (put_rest (parts t)) ds v = Inr v'"
  using assms by (induction ds arbitrary: v) (auto simp: template_ok_def put_rest_def split: TemplatePartType.split)

lemma buildMetric_returns:
  assumes "template_ok t"
  shows "\<exists>r. buildMetric t line sep = Inr r"
proof -
  obtain ps where ps: "split line '' '' = Inr ps" by (simp add: split_char)
  obtain ds where ds: "split (ps ! 0) ''.'' = Inr ds" by (simp add: split_char)
  show ?thesis
  proof (cases "template_match t line")
    case (Inl e)
    then show ?thesis by (auto simp: template_match_def ps ds split: if_splits)
  next
    case (Inr b)
    show ?thesis
    proof (cases b)
      case True
      then have m: "ps \<noteq> []" "length ds = length (parts t) \<or> length (parts t) < length ds \<and> multiple_last_part t"
        using Inr by (auto simp: template_match_def ps ds split: if_splits)
      have "\<exists>v'. (if length (parts t) < length ds \<and> multiple_last_part t
          then rfold (put_rest (parts t)) (drop (length (parts t)) ds) v else Inr v) = Inr v'" for v
        using put_rest_returns [OF assms] by auto
      then obtain v' where v': "(if length (parts t) < length ds \<and> multiple_last_part t
          then rfold (put_rest (parts t)) (drop (length (parts t)) ds)
            (fold put_part (zip (parts t) ds) \<lparr>measurement_name_parts = [], tags_parts = [], field_parts = []\<rparr>)
          else Inr (fold put_part (zip (parts t) ds) \<lparr>measurement_name_parts = [], tags_parts = [], field_parts = []\<rparr>)) =
          Inr v'" by blast
      have "\<not> length ds < length (parts t)" using m(2) by auto
      then show ?thesis using m(1) Inr True v' unfolding buildMetric_def
        by (simp only: ps ds rbind_simps if_False not_True_eq_False Let_def) (simp split: prod.split)
    qed (use Inr in \<open>simp add: buildMetric_def\<close>)
  qed
qed

lemma parseMetricStrings_returns:
  assumes "list_all template_ok ts"
  shows "snd (parseMetricStrings ts sep lines st) = None"
proof (induction lines arbitrary: st)
  case (Cons l lines)
  have "\<exists>r. first_metric ts l sep = Inr r"
    using assms
  proof (induction ts)
    case (Cons t ts)
    with buildMetric_returns [of t l sep] show ?case by (auto split: option.split)
  qed simp
  with Cons.IH show ?case by (cases st) (auto split: option.split)
qed simp

lemma graphite_returns:
  assumes "new_graphite_parser regex templates tc sep mc = Inr p0" and "gp_templates p = gp_templates p0"
  shows "\<exists>p' errno' r. graphite_parseRecordBatches A clock buffer (p, errno) = ((p', errno'), Inr r) \<and>
    gp_templates p' = gp_templates p0"
proof -
  have "list_all template_ok (gp_templates p)"
  proof -
    obtain ts where ts: "rmap (new_template regex) templates = Inr ts" "gp_templates p = ts"
      using assms by (auto simp: new_graphite_parser_def rbind_eq_Inr_iff)
    have "template_ok (ts ! i)" if "i < length ts" for i
      using rmap_nth [OF ts(1), of i] rmap_Inr_length [OF ts(1)] that new_template_ok by auto
    then show ?thesis using ts(2) by (simp add: list_all_length)
  qed
  from parseMetricStrings_returns [OF this] show ?thesis using assms(2)
    by (auto simp: graphite_parseRecordBatches_def split_char Let_def split: prod.splits sum.splits option.splits)
      (metis option.distinct(1) snd_conv)+
qed

section \<open>What a line means\<close>

text \<open>The texts of a kind of part, and those of a tag.\<close>

definition texts_of :: "TemplatePartType \<Rightarrow> (TemplatePart \<times> string) list \<Rightarrow> string list" where
  "texts_of ty zs = map snd (filter (\<lambda>z. part_type (fst z) = ty) zs)"

definition tag_texts :: "string \<Rightarrow> (TemplatePart \<times> string) list \<Rightarrow> string list" where
  "tag_texts k zs = map snd (filter (\<lambda>z. part_type (fst z) = PART_TAG \<and> part_id (fst z) = k) zs)"

definition parts_of :: "part_values \<Rightarrow> (TemplatePart \<times> string) list \<Rightarrow> part_values \<Rightarrow> bool" where
  "parts_of v zs v' \<longleftrightarrow>
     measurement_name_parts v' = measurement_name_parts v @ texts_of PART_MEASUREMENT zs \<and>
     field_parts v' = field_parts v @ texts_of PART_FIELD zs \<and> smap (tags_parts v') \<and>
     (\<forall>k. map_of (tags_parts v') k =
       (if map_of (tags_parts v) k = None \<and> tag_texts k zs = [] then None
        else Some ((case map_of (tags_parts v) k of None \<Rightarrow> [] | Some ts \<Rightarrow> ts) @ tag_texts k zs)))"

lemma fold_put_part: "smap (tags_parts v) \<Longrightarrow> parts_of v zs (fold put_part zs v)"
proof (induction zs arbitrary: v)
  case (Cons z zs)
  obtain part t where z: "z = (part, t)" by force
  have "smap (tags_parts (put_part z v))"
    using Cons.prems by (simp add: z put_part_def Let_def split: TemplatePartType.split)
  from Cons.IH [OF this] show ?case
    unfolding parts_of_def
    by (cases "part_type part") (auto simp: z put_part_def texts_of_def tag_texts_def Let_def split: option.split)
qed (auto simp: parts_of_def texts_of_def tag_texts_def split: option.split)

lemma fold_emplace:
  assumes "smap m" and "smap xs"
  shows "smap (fold (\<lambda>(k, x). smap_emplace k (f x)) xs m) \<and>
    map_of (fold (\<lambda>(k, x). smap_emplace k (f x)) xs m) k =
      (case map_of m k of Some y \<Rightarrow> Some y | None \<Rightarrow> map_option f (map_of xs k))"
  using assms
proof (induction xs arbitrary: m)
  case (Cons x xs)
  obtain k' y where x: "x = (k', y)" by force
  have m': "smap (smap_emplace k' (f y) m)" and xs: "smap xs"
    using Cons.prems by (simp_all add: x smap_Cons)
  from Cons.IH [OF m' xs] show ?case by (auto simp: x map_of_smap_emplace split: option.split)
qed (auto split: option.split)

text \<open>A line of a description and a value, for a template with as many parts.\<close>

lemma graphite_line:
  assumes ds: "\<forall>d \<in> set ds. CHR ''.'' \<notin> set d \<and> CHR '' '' \<notin> set d" "concatenateStrings ds ''.'' \<noteq> []"
    and v: "CHR '' '' \<notin> set v" and len: "length ds = length (parts t)"
    and f: "case template_filter t of None \<Rightarrow> True | Some matches \<Rightarrow> matches (concatenateStrings ds ''.'')"
    and at: "smap (additional_tags t)"
  shows "\<exists>m. buildMetric t (concatenateStrings ds ''.'' @ '' '' @ v) sep = Inr (Some (m, False)) \<and>
    measurement_name m = concatenateStrings (texts_of PART_MEASUREMENT (zip (parts t) ds)) sep \<and>
    m_fields m = [(if texts_of PART_FIELD (zip (parts t) ds) = [] then DEFAULT_FIELD_NAME
                   else concatenateStrings (texts_of PART_FIELD (zip (parts t) ds)) sep, v)] \<and>
    timestamp m = - 1 \<and> smap (m_tags m) \<and>
    (\<forall>k. map_of (m_tags m) k =
      (if tag_texts k (zip (parts t) ds) \<noteq> [] then Some (concatenateStrings (tag_texts k (zip (parts t) ds)) sep)
       else map_of (additional_tags t) k))"
proof -
  let ?desc = "concatenateStrings ds ''.''" and ?zs = "zip (parts t) ds"
  let ?line = "?desc @ '' '' @ v"
  let ?start = "\<lparr>measurement_name_parts = [], tags_parts = [], field_parts = []\<rparr>"
  have nd: "ds \<noteq> []" using ds(2) by auto
  have sub: "set (concatenateStrings xs ''.'') \<subseteq> insert CHR ''.'' (\<Union> (set ` set xs))" for xs
  proof (induction xs)
    case (Cons x xs)
    then show ?case by (cases "xs = []") auto
  qed simp
  have "CHR '' '' \<notin> set ?desc" using sub [of ds] ds(1) by auto
  then have ps: "split ?line '' '' = Inr [?desc, v]"
    using v by (simp add: split_char split_on_append split_on_no_delim)
  have dsplit: "split ?desc ''.'' = Inr ds"
    using ds nd by (simp add: split_char split_on_concat)
  have tm: "template_match t ?line = Inr True"
    using f len unfolding template_match_def ps by (simp add: dsplit split: option.splits)
  let ?v = "fold put_part ?zs ?start"
  have po: "parts_of ?start ?zs ?v" by (rule fold_put_part) simp
  let ?tags1 = "fold (\<lambda>(k, texts). smap_emplace k (concatenateStrings texts sep)) (tags_parts ?v) []"
  let ?tags = "fold (\<lambda>(k, x). smap_emplace k (id x)) (additional_tags t) ?tags1"
  have t1: "smap ?tags1 \<and> map_of ?tags1 k = map_option (\<lambda>texts. concatenateStrings texts sep) (map_of (tags_parts ?v) k)" for k
    using fold_emplace [of "[]" "tags_parts ?v" "\<lambda>texts. concatenateStrings texts sep" k] po by (simp add: parts_of_def)
  have t2: "smap ?tags \<and> map_of ?tags k =
      (case map_of ?tags1 k of Some y \<Rightarrow> Some y | None \<Rightarrow> map_of (additional_tags t) k)" for k
    using fold_emplace [OF conjunct1 [OF t1] at, of id k] unfolding option.map_id .
  let ?m = "(new_metric (concatenateStrings (measurement_name_parts ?v) sep) ?tags)
      \<lparr>m_fields := smap_put (if field_parts ?v \<noteq> [] then concatenateStrings (field_parts ?v) sep else DEFAULT_FIELD_NAME) v []\<rparr>"
  have "buildMetric t ?line sep = Inr (Some (?m, False))"
    unfolding buildMetric_def tm ps using len by (simp add: dsplit Let_def new_metric_def)
  moreover have "\<forall>k. map_of ?tags k =
      (if tag_texts k ?zs \<noteq> [] then Some (concatenateStrings (tag_texts k ?zs) sep) else map_of (additional_tags t) k)"
    using t1 t2 po by (simp add: parts_of_def)
  ultimately show ?thesis using po t2 by (intro exI [of _ ?m]) (simp add: parts_of_def new_metric_def)
qed

section \<open>The types of values\<close>

text \<open>While \<open>errno\<close> is clear, the decimal text of an integer gets the type INT64 and is appended as
  that integer.\<close>

lemma determineFieldType_int:
  assumes "INT64_MIN \<le> i" and "i \<le> INT64_MAX"
  shows "determineFieldType False (decimal_int i) = (INT64, False)"
    and "append_field_value A INT64 (decimal_int i) b = Append A b (int_scalar (Plain INT64) i)"
proof -
  have "decimal_int 0 = ''0''" by code_simp
  then show "determineFieldType False (decimal_int i) = (INT64, False)"
    by (cases "i = 0") (simp_all add: determineFieldType_def strtoll_decimal [OF assms])
  show "append_field_value A INT64 (decimal_int i) b = Append A b (int_scalar (Plain INT64) i)"
    by (simp add: append_field_value_def strtoll_decimal [OF assms])
qed

text \<open>Once \<open>errno\<close> holds \<open>ERANGE\<close>, every value but \<open>0\<close> is a string.\<close>

lemma determineFieldType_stale: "determineFieldType True v = (if v = ''0'' then INT64 else STRING, True)"
  by (simp add: determineFieldType_def split: prod.split)

lemma determineFieldType_overflow:
  assumes "snd (snd (strtoll v))"
  shows "determineFieldType errno v = (STRING, True)"
proof -
  have "v \<noteq> ''0''" using assms by (auto simp: strtoll_def read_sign_def is_space_def is_digit_def digits_value_def INT64_MIN_def INT64_MAX_def)
  with assms show ?thesis by (auto simp: determineFieldType_def Let_def split: prod.split)
qed

text \<open>So a column of a batch is of strings, if it holds anything else than zeros.\<close>

lemma field_types_stale:
  "snd (fold field_type_step fs (types, True)) = True \<and>
   map_of (fst (fold field_type_step fs (types, True))) k =
     (let vs = map snd (filter (\<lambda>f. fst f = k) fs) in
      if vs = [] \<or> map_of types k = Some STRING then map_of types k
      else if list_all (\<lambda>v. v = ''0'') vs then (if map_of types k = None then Some INT64 else map_of types k)
      else Some STRING)"
proof (induction fs arbitrary: types)
  case (Cons f fs)
  obtain n v where f: "f = (n, v)" by force
  obtain types' where s: "field_type_step f (types, True) = (types', True)" 
     "types' = (if map_of types n = None \<or> map_of types n = Some INT64 \<and> v \<noteq> ''0'' \<or> map_of types n \<noteq> Some STRING \<and> v \<noteq> ''0''
          then smap_put n (if v = ''0'' then INT64 else STRING) types else types)"
    by (auto simp: f field_type_step_def determineFieldType_stale)
  show ?case unfolding fold_simps s(1) using Cons.IH [of types']
    by (auto simp: s(2) f Let_def)
qed (simp add: Let_def)

lemma determine_columns_stale:
  assumes "determine_columns metrics True = (tags, types, errno)"
  shows "errno \<and> map_of types k =
    (let vs = concat (map (\<lambda>m. map snd (filter (\<lambda>f. fst f = k) (m_fields m))) metrics) in
     if vs = [] then None else if list_all (\<lambda>v. v = ''0'') vs then Some INT64 else Some STRING)"
proof -
  have e: "fold (\<lambda>metric. fold field_type_step (m_fields metric)) metrics st =
      fold field_type_step (concat (map m_fields metrics)) st" for st
    by (induction metrics arbitrary: st) simp_all
  have vs: "map snd (filter (\<lambda>f. fst f = k) (concat (map m_fields metrics))) =
      concat (map (\<lambda>m. map snd (filter (\<lambda>f. fst f = k) (m_fields m))) metrics)"
    by (induction metrics) simp_all
  have r: "fold field_type_step (concat (map m_fields metrics)) ([], True) = (types, errno)"
    using assms by (simp add: determine_columns_def e)
  show ?thesis using field_types_stale [of "concat (map m_fields metrics)" "[]" k] unfolding r vs by (simp add: Let_def)
qed

end
