(* ===== verification/Data_Handlers.thy ===== *)
theory Data_Handlers
  imports Record_Batch_Handler Graphite_Parser
begin

text \<open>
  \<open>src/src/utils/serialize_utils.cpp\<close> and \<open>src/src/nodes/data_handlers\<close>: the data handlers of a
  node, functions from their state and a buffer to buffers. The readers and writers of Arrow (the IPC stream
  of a record batch, CSV) are the parameter \<open>I\<close>. A parser or a data handler returns an
  \<open>arrow::Result\<close>, and the Graphite parser may also throw.
\<close>

record io_lib =
  write_stream :: "batch \<Rightarrow> status + string"
  read_stream :: "string \<Rightarrow> status + batch list"
  read_csv :: "bool \<Rightarrow> string \<Rightarrow> status + batch list"

definition serializeRecordBatches :: "io_lib \<Rightarrow> batch list \<Rightarrow> status + string list" where
  "serializeRecordBatches I record_batches = rmap (write_stream I) record_batches"

definition deserializeRecordBatches :: "io_lib \<Rightarrow> string \<Rightarrow> status + batch list" where
  "deserializeRecordBatches I buffer = read_stream I buffer"

text \<open>What is written can be read; the writer appends the end of the stream.\<close>

definition ipc_laws :: "io_lib \<Rightarrow> (batch \<Rightarrow> bool) \<Rightarrow> bool" where
  "ipc_laws I valid \<longleftrightarrow> (\<forall>b. valid b \<longrightarrow> (\<exists>s. write_stream I b = Inr s \<and> read_stream I s = Inr [b]))"

type_synonym 'p parser = "'p \<Rightarrow> string \<Rightarrow> 'p \<times> (cpp_exn + (status + batch list))"
type_synonym 'd data_handler = "'d \<Rightarrow> string \<Rightarrow> 'd \<times> (cpp_exn + (status + string list))"

section \<open>The CSV parser\<close>

text \<open>The schema with the time column typed, which \<open>SetField\<close> returns, is dropped.\<close>

definition tryFindTimeColumn :: "arrow_lib \<Rightarrow> schema \<Rightarrow> status + unit" where
  "tryFindTimeColumn A record_batches_schema =
     (case filter (\<lambda>field. type_id (f_type field) = TIMESTAMP) (sch_fields record_batches_schema) of
        [time_field] \<Rightarrow>
          rbind (setFieldTypeMetadata A time_field TIME) (\<lambda>time_field.
          rbind (SetField A record_batches_schema (GetFieldIndex A record_batches_schema (f_name time_field)) time_field) (\<lambda>_.
            Inr ()))
      | _ \<Rightarrow> Inr ())"

definition csv_parseRecordBatches ::
  "arrow_lib \<Rightarrow> io_lib \<Rightarrow> schema option \<Rightarrow> string \<Rightarrow> schema option \<times> (status + batch list)"
where
  "csv_parseRecordBatches A I record_batches_schema buffer =
     (let read_column_names = (record_batches_schema = None) in
      case read_csv I (\<not> read_column_names) buffer of
        Inl e \<Rightarrow> (record_batches_schema, Inl e)
      | Inr [] \<Rightarrow> (record_batches_schema, Inr [])
      | Inr (b # bs) \<Rightarrow>
          (let schema = (case record_batches_schema of None \<Rightarrow> b_schema b | Some s \<Rightarrow> s) in
           (Some schema,
            rbind (if read_column_names then tryFindTimeColumn A schema else Inr ()) (\<lambda>_.
              Inr (map (\<lambda>record_batch. Make schema (b_num_rows record_batch) (b_columns record_batch)) (b # bs))))))"

definition csv_parser :: "arrow_lib \<Rightarrow> io_lib \<Rightarrow> schema option parser" where
  "csv_parser A I p buffer = (let (p, r) = csv_parseRecordBatches A I p buffer in (p, Inr r))"

definition graphite_parser :: "arrow_lib \<Rightarrow> (nat \<Rightarrow> int) \<Rightarrow> (GraphiteParser \<times> bool) parser" where
  "graphite_parser A clock p buffer = graphite_parseRecordBatches A clock buffer p"

section \<open>The data handlers\<close>

definition parser_handle :: "io_lib \<Rightarrow> 'p parser \<Rightarrow> 'p data_handler" where
  "parser_handle I parser p source =
     (case parser p source of
        (p, Inl exc) \<Rightarrow> (p, Inl exc)
      | (p, Inr r) \<Rightarrow>
          (p, Inr (rbind r (\<lambda>record_batches.
             if record_batches = [] then Inr [] else serializeRecordBatches I record_batches))))"

definition serialized_handle :: "io_lib \<Rightarrow> 's vector_handler \<Rightarrow> 's data_handler" where
  "serialized_handle I handler_strategy s source =
     (case deserializeRecordBatches I source of
        Inl e \<Rightarrow> (s, Inr (Inl e))
      | Inr record_batches \<Rightarrow>
          if record_batches = [] then (s, Inr (Inr []))
          else (let (s, r) = handler_strategy s record_batches in (s, Inr (rbind r (serializeRecordBatches I)))))"

section \<open>Laws\<close>

text \<open>The first buffer that has batches fixes the schema; the batches of every buffer get this schema, as
  the reader found it: without any metadata for the time column.\<close>

lemma csv_schema:
  assumes "csv_parseRecordBatches A I s buffer = (s', Inr bs)"
  shows "\<forall>b \<in> set bs. Some (b_schema b) = s'"
    and "s' = (case s of Some _ \<Rightarrow> s | None \<Rightarrow>
      (case read_csv I False buffer of Inr (b # _) \<Rightarrow> Some (b_schema b) | _ \<Rightarrow> None))"
  using assms
  by (auto simp: csv_parseRecordBatches_def Let_def rbind_eq_Inr_iff split: sum.splits list.splits option.splits if_splits)

text \<open>Record batches written one by one are read one by one: a handler behind the serialisation sees
  the batches as vectors of one.\<close>

lemma serialize_deserialize:
  assumes "ipc_laws I valid" and "list_all valid bs"
  shows "\<exists>ss. serializeRecordBatches I bs = Inr ss \<and> rmap (deserializeRecordBatches I) ss = Inr (map (\<lambda>b. [b]) bs)"
  using assms(2)
proof (induction bs)
  case (Cons b bs)
  with assms(1) show ?case by (force simp: serializeRecordBatches_def deserializeRecordBatches_def ipc_laws_def)
qed (simp add: serializeRecordBatches_def)

end
