(* ===== verification/Node.thy ===== *)
theory Node
  imports Data_Handlers Points_Storage
begin

text \<open>
  \<open>src/src/nodes/node.h\<close>, \<open>node.cpp\<close>, \<open>eval_node.h\<close> and \<open>eval_node.cpp\<close>, and the interface
  \<open>src/src/consumers/consumer.h\<close>: a node passes what its data handler makes of a buffer to its
  consumers. A void member function ends normally, throws, or does not end in a way the code could go on
  from. Logging is left out.
\<close>

datatype ending = Done | Threw cpp_exn | Fault status

record 'c Consumer =
  consumer_start :: "'c \<Rightarrow> 'c \<times> ending"
  consume :: "'c \<Rightarrow> string \<Rightarrow> 'c \<times> ending"
  consumer_stop :: "'c \<Rightarrow> 'c \<times> ending"

text \<open>A loop over objects that ends early when one of the calls does not end normally.\<close>

fun each :: "('c \<Rightarrow> 'c \<times> ending) \<Rightarrow> 'c list \<Rightarrow> 'c list \<times> ending" where
  "each f [] = ([], Done)"
| "each f (c # cs) =
     (case f c of
        (c, Done) \<Rightarrow> (let (cs, r) = each f cs in (c # cs, r))
      | (c, r) \<Rightarrow> (c # cs, r))"

section \<open>Node\<close>

text \<open>What a consumer throws is logged.\<close>

definition try_consume :: "'c Consumer \<Rightarrow> string \<Rightarrow> 'c \<Rightarrow> 'c \<times> ending" where
  "try_consume C buffer c =
     (case consume C c buffer of (c, Threw exc) \<Rightarrow> (c, Done) | (c, r) \<Rightarrow> (c, r))"

fun passData :: "'c Consumer \<Rightarrow> string list \<Rightarrow> 'c list \<Rightarrow> 'c list \<times> ending" where
  "passData C [] consumers = (consumers, Done)"
| "passData C (buffer # data) consumers =
     (case each (try_consume C buffer) consumers of
        (consumers, Done) \<Rightarrow> passData C data consumers
      | (consumers, r) \<Rightarrow> (consumers, r))"

definition stopConsumers :: "'c Consumer \<Rightarrow> 'c list \<Rightarrow> 'c list \<times> ending" where
  "stopConsumers C consumers = each (consumer_stop C) consumers"

section \<open>EvalNode\<close>

record ('d, 'c) EvalNode =
  node_data_handler :: 'd
  node_consumers :: "'c list"

definition addConsumer :: "'c \<Rightarrow> ('d, 'c) EvalNode \<Rightarrow> ('d, 'c) EvalNode" where
  "addConsumer consumer node = node\<lparr>node_consumers := node_consumers node @ [consumer]\<rparr>"

definition node_handleData ::
  "'d data_handler \<Rightarrow> 'c Consumer \<Rightarrow> ('d, 'c) EvalNode \<Rightarrow> string \<Rightarrow> ('d, 'c) EvalNode \<times> ending"
where
  "node_handleData D C node data =
     (case D (node_data_handler node) data of
        (d, Inl exc) \<Rightarrow> (node\<lparr>node_data_handler := d\<rparr>, Threw exc)
      | (d, Inr (Inl e)) \<Rightarrow> (node\<lparr>node_data_handler := d\<rparr>, if abnormal e then Fault e else Done)
      | (d, Inr (Inr processed_data)) \<Rightarrow>
          (let (consumers, r) = passData C processed_data (node_consumers node)
           in (\<lparr>node_data_handler = d, node_consumers = consumers\<rparr>, r)))"

definition node_stop :: "'c Consumer \<Rightarrow> ('d, 'c) EvalNode \<Rightarrow> ('d, 'c) EvalNode \<times> ending" where
  "node_stop C node = (let (consumers, r) = stopConsumers C (node_consumers node) in (node\<lparr>node_consumers := consumers\<rparr>, r))"

section \<open>Laws\<close>

text \<open>Every consumer gets every buffer, in order, whatever the other consumers do.\<close>

definition consume_all :: "'c Consumer \<Rightarrow> 'c \<Rightarrow> string list \<Rightarrow> 'c" where
  "consume_all C c data = foldl (\<lambda>c buffer. fst (consume C c buffer)) c data"

definition no_fault :: "'c Consumer \<Rightarrow> bool" where
  "no_fault C \<longleftrightarrow> (\<forall>c buffer e. snd (consume C c buffer) \<noteq> Fault e)"

lemma each_Done: "list_all (\<lambda>c. snd (f c) = Done) cs \<Longrightarrow> each f cs = (map (fst \<circ> f) cs, Done)"
  by (induction cs) (auto split: prod.splits ending.splits)

lemma try_consume_Done: "no_fault C \<Longrightarrow> try_consume C buffer c = (fst (consume C c buffer), Done)"
  by (auto simp: try_consume_def no_fault_def split: prod.splits ending.splits) (metis snd_conv)

lemma passData_all:
  assumes "no_fault C"
  shows "passData C data cs = (map (\<lambda>c. consume_all C c data) cs, Done)"
  using assms
  by (induction data arbitrary: cs) (simp_all add: each_Done try_consume_Done consume_all_def comp_def list_all_iff)

text \<open>So a node is its data handler followed by copies for the consumers.\<close>

lemma node_handleData_all:
  assumes "no_fault C" and "D (node_data_handler node) data = (d, Inr (Inr processed_data))"
  shows "node_handleData D C node data =
    (\<lparr>node_data_handler = d, node_consumers = map (\<lambda>c. consume_all C c processed_data) (node_consumers node)\<rparr>, Done)"
  using assms by (simp add: node_handleData_def passData_all)

text \<open>The first consumer whose \<open>stop\<close> throws keeps the others from being stopped.\<close>

lemma stopConsumers_throws:
  assumes "list_all (\<lambda>c. snd (consumer_stop C c) = Done) cs" and "snd (consumer_stop C c) = Threw exc"
  shows "stopConsumers C (cs @ c # cs') = (map (fst \<circ> consumer_stop C) cs @ fst (consumer_stop C c) # cs', Threw exc)"
  using assms by (induction cs) (auto simp: stopConsumers_def split: prod.splits ending.splits)

section \<open>Consumers that send or keep what they get\<close>

text \<open>The contract of a consumer with a queue: what it has sent, followed by what it still keeps, is what it
  was given, encoded.\<close>

locale queueing_consumer =
  fixes C :: "'c Consumer" and inv :: "'c \<Rightarrow> bool" and sent :: "'c \<Rightarrow> string list" and pending :: "'c \<Rightarrow> string list"
    and encode :: "string \<Rightarrow> string"
  assumes consume_inv: "inv c \<Longrightarrow> inv (fst (consume C c d))"
    and consume_queue: "inv c \<Longrightarrow>
      sent (fst (consume C c d)) @ pending (fst (consume C c d)) = sent c @ pending c @ [encode d]"
begin

lemma consume_all_queue:
  assumes "inv c"
  shows "inv (consume_all C c ds) \<and>
    sent (consume_all C c ds) @ pending (consume_all C c ds) = sent c @ pending c @ map encode ds"
  using assms by (induction ds arbitrary: c) (simp_all add: consume_all_def consume_inv consume_queue)

end

end
