(* ===== verification/Transport_Utils.thy ===== *)
theory Transport_Utils
  imports Std_Numbers
begin

text \<open>
  \<open>src/src/utils/transport_utils.h\<close> and \<open>.cpp\<close>: a message is preceded by its length as ten
  decimal digits; \<open>splitMessage\<close> cuts a chunk into messages, given as pairs of an offset and a size in
  \<open>size_t\<close>. \<open>errno\<close> is a state, as in the Graphite parser. A \<open>size_t\<close> is a \<open>64 word\<close>;
  the loop of \<open>splitMessage\<close> may not end, since the offset can wrap around. Reading beyond the end of the
  chunk is undefined behaviour.

  A publisher socket of ZeroMQ is represented by the messages it has sent; whether it is ready to send one
  (\<open>ZMQ_POLLOUT\<close>) and whether sending succeeds is the parameter \<open>Z\<close>, by the messages sent so far.
\<close>

definition MESSAGE_SIZE_STRING_LENGTH :: nat where "MESSAGE_SIZE_STRING_LENGTH = 10"
definition CONNECT_MESSAGE :: string where "CONNECT_MESSAGE = ''connect''"
definition END_MESSAGE :: string where "END_MESSAGE = ''end''"

definition getSizeString :: "nat \<Rightarrow> cpp_exn + string" where
  "getSizeString n =
     (let size_string = decimal n in
      if MESSAGE_SIZE_STRING_LENGTH < length size_string then Inl LengthError
      else Inr (replicate (MESSAGE_SIZE_STRING_LENGTH - length size_string) CHR ''0'' @ size_string))"

definition wrapMessage :: "string \<Rightarrow> cpp_exn + string" where
  "wrapMessage buffer = rbind (getSizeString (length buffer)) (\<lambda>message_size_string. Inr (message_size_string @ buffer))"

definition parseMessageSize :: "bool \<Rightarrow> string \<Rightarrow> 64 word \<times> bool" where
  "parseMessageSize errno size_string =
     (let rest = dropWhile (\<lambda>c. c = CHR ''0'') size_string in
      if rest = [] then (0, errno)
      else
        (let (message_size, _, erange) = strtoll rest; errno = (errno \<or> erange)
         in (if errno then 0 else word_of_int message_size, errno)))"

partial_function (option) splitMessage_loop ::
  "string \<Rightarrow> bool \<Rightarrow> 64 word \<Rightarrow> (64 word \<times> 64 word) list \<Rightarrow> (status + (64 word \<times> 64 word) list \<times> bool) option"
where
  "splitMessage_loop message_data errno last_offset parts =
     (if unat last_offset < length message_data
      then
        if length message_data < unat last_offset + MESSAGE_SIZE_STRING_LENGTH then Some (Inl UndefinedBehaviour)
        else
          (let message_part_start_offset = last_offset + of_nat MESSAGE_SIZE_STRING_LENGTH;
               (message_size, errno) =
                 parseMessageSize errno (take MESSAGE_SIZE_STRING_LENGTH (drop (unat last_offset) message_data))
           in splitMessage_loop message_data errno (message_part_start_offset + message_size)
                (parts @ [(message_part_start_offset, message_size)]))
      else Some (Inr (parts, errno)))"

definition splitMessage :: "bool \<Rightarrow> string \<Rightarrow> status + (64 word \<times> 64 word) list \<times> bool" where
  "splitMessage errno message_data = returned (splitMessage_loop message_data errno 0 [])"

section \<open>The end points of a publisher and of its subscribers\<close>

record zmq =
  can_send :: "string list \<Rightarrow> bool"
  send_ok :: "string list \<Rightarrow> bool"

definition send :: "zmq \<Rightarrow> string list \<Rightarrow> string \<Rightarrow> string list \<times> bool" where
  "send Z socket s = (if send_ok Z socket then (socket @ [s], True) else (socket, False))"

text \<open>The result of \<open>recv\<close>: the message, if there was one.\<close>

definition receive :: "string option \<Rightarrow> string" where
  "receive recv_result = (case recv_result of None \<Rightarrow> [] | Some message \<Rightarrow> message)"

definition readMessage :: "string option \<Rightarrow> cpp_exn + string" where
  "readMessage recv_result = (case recv_result of None \<Rightarrow> Inl RuntimeError | Some message \<Rightarrow> Inr message)"

record Publisher =
  publisher_socket :: "string list"
  expected_subscribers :: int

definition new_publisher :: "nat \<Rightarrow> Publisher" where
  "new_publisher synchronize_sockets = \<lparr>publisher_socket = [], expected_subscribers = int synchronize_sockets\<rparr>"

definition publisher_isReady :: "Publisher \<Rightarrow> bool" where
  "publisher_isReady p \<longleftrightarrow> expected_subscribers p \<le> 0"

definition trySynchronize :: "zmq \<Rightarrow> Publisher \<Rightarrow> Publisher" where
  "trySynchronize Z p =
     (if publisher_isReady p then p
      else p\<lparr>publisher_socket := fst (send Z (publisher_socket p) CONNECT_MESSAGE)\<rparr>)"

definition addConnection :: "Publisher \<Rightarrow> Publisher" where
  "addConnection p = p\<lparr>expected_subscribers := expected_subscribers p - 1\<rparr>"

record Subscriber =
  is_ready :: bool

definition new_subscriber :: Subscriber where "new_subscriber = \<lparr>is_ready = False\<rparr>"

definition prepareForListening :: "Subscriber \<Rightarrow> Subscriber" where
  "prepareForListening s = s\<lparr>is_ready := True\<rparr>"

section \<open>Wrapping and splitting\<close>

lemma unat_of_nat_len: "n < 2 ^ 64 \<Longrightarrow> unat (of_nat n :: 64 word) = n"
  by (simp add: unat_of_nat)

lemma getSizeString_ok: "getSizeString n = Inr s \<longleftrightarrow>
    n < 10 ^ 10 \<and> s = replicate (10 - length (decimal n)) CHR ''0'' @ decimal n"
  using decimal_length [of n 9]
  by (auto simp: getSizeString_def MESSAGE_SIZE_STRING_LENGTH_def Let_def)

lemma wrapMessage_ok: "(\<exists>w. wrapMessage m = Inr w) \<longleftrightarrow> length m < 10 ^ 10"
  by (simp add: wrapMessage_def rbind_eq_Inr_iff getSizeString_ok)

lemma wrapMessage_form:
  assumes "wrapMessage m = Inr w"
  obtains s where "w = s @ m" "length s = 10" "parseMessageSize False s = (of_nat (length m), False)"
proof -
  let ?d = "decimal (length m)"
  from assms have n: "length m < 10 ^ 10" and w: "w = (replicate (10 - length ?d) CHR ''0'' @ ?d) @ m"
    by (auto simp: wrapMessage_def rbind_eq_Inr_iff getSizeString_ok)
  have l: "length ?d \<le> 10" using n decimal_length [of "length m" 9] by simp
  have "parseMessageSize False (replicate k CHR ''0'' @ ?d) = (of_nat (length m), False)" for k
  proof (cases "length m = 0")
    case True
    moreover have "decimal 0 = ''0''" by code_simp
    ultimately show ?thesis by (simp add: parseMessageSize_def dropWhile_append)
  next
    case False
    then obtain c cs where c: "?d = c # cs" "c \<noteq> CHR ''0''"
      using decimal_leading [of "length m"] decimal_digits [of "length m"] by (cases ?d) auto
    have "dropWhile (\<lambda>c. c = CHR ''0'') (replicate k CHR ''0'' @ ?d) = ?d" using c by (simp add: dropWhile_append)
    moreover have "strtoll ?d = (int (length m), length ?d, False)"
      using strtoll_decimal [of "int (length m)"] n
      by (simp add: INT64_MIN_def INT64_MAX_def decimal_int_def)
    ultimately show ?thesis using c(1) by (simp add: parseMessageSize_def)
  qed
  then show thesis using l w that [of "replicate (10 - length ?d) CHR ''0'' @ ?d"] by simp
qed

text \<open>The message a part stands for.\<close>

definition part_message :: "string \<Rightarrow> 64 word \<times> 64 word \<Rightarrow> status + string" where
  "part_message message_data part =
     (if length message_data < unat (fst part) + unat (snd part) then Inl UndefinedBehaviour
      else Inr (take (unat (snd part)) (drop (unat (fst part)) message_data)))"

text \<open>The step of the loop at a message, the offset being the length of the chunk before it.\<close>

lemma splitMessage_loop_message:
  assumes "length s = 10" and "parseMessageSize False s = (of_nat n, False)"
    and "length (pre @ s) + n < 2 ^ 64"
  shows "splitMessage_loop (pre @ s @ d) False (of_nat (length pre)) parts =
    splitMessage_loop (pre @ s @ d) False (of_nat (length pre + 10 + n)) (parts @ [(of_nat (length pre + 10), of_nat n)])"
proof -
  have u: "unat (of_nat (length pre) :: 64 word) = length pre"
    using assms(1,3) by (simp add: unat_of_nat_len)
  have o': "(of_nat (length pre) + of_nat 10 :: 64 word) = of_nat (length pre + 10)"
    "(of_nat (length pre + 10) + of_nat n :: 64 word) = of_nat (length pre + 10 + n)" by simp_all
  have c: "length pre < length (pre @ s @ d)" "\<not> length (pre @ s @ d) < length pre + 10"
    "take 10 (drop (length pre) (pre @ s @ d)) = s" using assms(1) by simp_all
  show ?thesis
    by (subst splitMessage_loop.simps)
      (simp only: u c MESSAGE_SIZE_STRING_LENGTH_def if_True if_False assms(2) Let_def prod.case o')
qed

lemma splitMessage_loop_wrapped:
  assumes "rmap wrapMessage ms = Inr ws" and "length (pre @ concat ws @ d) < 2 ^ 64"
  shows "\<exists>ps. splitMessage_loop (pre @ concat ws @ d) False (of_nat (length pre)) parts =
      splitMessage_loop (pre @ concat ws @ d) False (of_nat (length (pre @ concat ws))) (parts @ ps) \<and>
    rmap (part_message (pre @ concat ws @ d)) ps = Inr ms"
  using assms
proof (induction ms arbitrary: pre ws parts)
  case (Cons m ms)
  then obtain w ws' where w: "wrapMessage m = Inr w" "rmap wrapMessage ms = Inr ws'" "ws = w # ws'"
    by (auto simp: rbind_eq_Inr_iff)
  obtain s where s: "w = s @ m" "length s = 10" "parseMessageSize False s = (of_nat (length m), False)"
    using w(1) by (rule wrapMessage_form)
  let ?d = "pre @ concat ws @ d" and ?part = "(of_nat (length pre + 10), of_nat (length m)) :: 64 word \<times> 64 word"
  have d: "?d = (pre @ s @ m) @ concat ws' @ d" "?d = pre @ s @ m @ concat ws' @ d" by (simp_all add: w(3) s(1))
  have len: "length ?d < 2 ^ 64" "length pre + 10 + length m \<le> length ?d" using Cons.prems(2) by (simp_all add: w(3) s)
  have u: "unat (of_nat (length m) :: 64 word) = length m" "unat (of_nat (length pre + 10) :: 64 word) = length pre + 10"
    using len unat_of_nat_len [of "length pre + 10"] unat_of_nat_len [of "length m"]
    by (simp_all del: of_nat_add)
  obtain ps where ps: "splitMessage_loop ?d False (of_nat (length (pre @ s @ m))) (parts @ [?part]) =
      splitMessage_loop ?d False (of_nat (length ((pre @ s @ m) @ concat ws'))) ((parts @ [?part]) @ ps)"
    "rmap (part_message ?d) ps = Inr ms"
    using Cons.IH [OF w(2), of "pre @ s @ m" "parts @ [?part]"] len(1) unfolding d(1) by blast
  have "splitMessage_loop ?d False (of_nat (length pre)) parts =
      splitMessage_loop ?d False (of_nat (length pre + 10 + length m)) (parts @ [?part])"
    unfolding d(2) by (rule splitMessage_loop_message [OF s(2,3)]) (use len s(2) in simp)
  moreover have "length (pre @ s @ m) = length pre + 10 + length m" by (simp add: s(2))
  moreover have "part_message ?d ?part = Inr m"
    using len by (simp add: part_message_def u w(3) s del: of_nat_add)
  ultimately show ?case using ps by (intro exI [of _ "?part # ps"]) (simp add: w(3) s(1) add.assoc)
qed (auto intro: exI [of _ "[]"])

lemma splitMessage_loop_end:
  assumes "length d \<le> n" and "n < 2 ^ 64"
  shows "splitMessage_loop d errno (of_nat n) parts = Some (Inr (parts, errno))"
  using assms by (subst splitMessage_loop.simps) (simp add: unat_of_nat_len)

lemma splitMessage_wrapped:
  assumes "rmap wrapMessage ms = Inr ws" and "length (concat ws) < 2 ^ 64"
  shows "\<exists>ps. splitMessage False (concat ws) = Inr (ps, False) \<and> rmap (part_message (concat ws)) ps = Inr ms"
  using splitMessage_loop_wrapped [of ms ws "[]" "[]" "[]"] splitMessage_loop_end [of "concat ws" "length (concat ws)"] assms
  by (auto simp: splitMessage_def)

text \<open>A chunk that ends within a message: its length or its text is read from beyond the end.\<close>

lemma splitMessage_cut:
  assumes "rmap wrapMessage ms = Inr ws" and "wrapMessage m = Inr (c @ c')" and "c \<noteq> []" and "c' \<noteq> []"
    and small: "length (concat ws @ c @ c') < 2 ^ 64"
  shows "rbind (splitMessage False (concat ws @ c)) (\<lambda>(ps, errno). rmap (part_message (concat ws @ c)) ps) =
    Inl UndefinedBehaviour"
proof -
  let ?d = "concat ws @ c" and ?n = "length (concat ws)"
  obtain ps where ps: "splitMessage_loop ?d False 0 [] = splitMessage_loop ?d False (of_nat ?n) ps"
      "rmap (part_message ?d) ps = Inr ms"
    using splitMessage_loop_wrapped [OF assms(1), of "[]" c "[]"] small by auto
  obtain s where s: "c @ c' = s @ m" "length s = 10" "parseMessageSize False s = (of_nat (length m), False)"
    using assms(2) by (rule wrapMessage_form)
  have len: "length c + length c' = 10 + length m" using arg_cong [OF s(1), of length] s(2) by simp
  have u: "unat (of_nat ?n :: 64 word) = ?n" using small by (simp add: unat_of_nat_len)
  show ?thesis
  proof (cases "length c < 10")
    case True
    have "splitMessage_loop ?d False (of_nat ?n) ps = Some (Inl UndefinedBehaviour)"
      by (subst splitMessage_loop.simps) (use True assms(3) in \<open>simp add: u MESSAGE_SIZE_STRING_LENGTH_def\<close>)
    then show ?thesis by (simp add: splitMessage_def ps(1))
  next
    case False
    then obtain r where r: "c = s @ r" using s(1,2) by (metis append_eq_append_conv_if append_take_drop_id linorder_not_less)
    let ?part = "(of_nat (?n + 10), of_nat (length m)) :: 64 word \<times> 64 word"
    have n: "?n + 10 + length m < 2 ^ 64" "length ?d < ?n + 10 + length m"
      using small len assms(4) by (simp_all add: length_greater_0_conv [symmetric] del: length_greater_0_conv)
    have "splitMessage_loop ?d False (of_nat ?n) ps = splitMessage_loop ?d False (of_nat (?n + 10 + length m)) (ps @ [?part])"
      unfolding r by (rule splitMessage_loop_message [OF s(2,3)]) (use n(1) s(2) in simp)
    also have "\<dots> = Some (Inr (ps @ [?part], False))" using n by (intro splitMessage_loop_end) simp_all
    finally have sp: "splitMessage False ?d = Inr (ps @ [?part], False)" by (simp add: splitMessage_def ps(1))
    have "unat (fst ?part) = ?n + 10" "unat (snd ?part) = length m"
      using n unat_of_nat_len [of "?n + 10"] unat_of_nat_len [of "length m"]
      by (simp_all del: of_nat_add)
    then have "part_message ?d ?part = Inl UndefinedBehaviour" using n(2) by (simp add: part_message_def)
    moreover have "rmap (part_message ?d) (xs @ [x]) = Inl UndefinedBehaviour"
      if "rmap (part_message ?d) xs = Inr ys" "part_message ?d x = Inl UndefinedBehaviour" for xs x ys
      using that by (induction xs arbitrary: ys) (auto simp: rbind_eq_Inr_iff)
    ultimately show ?thesis using ps(2) by (simp add: sp)
  qed
qed

text \<open>A size of -10 takes the offset back to where it was.\<close>

lemma splitMessage_loop_minus_ten:
  assumes "splitMessage_loop message_data errno last_offset parts = Some r"
  shows "\<not> (take 10 message_data = ''-000000010'' \<and> \<not> errno \<and> last_offset = 0)"
  using assms
proof (induction rule: splitMessage_loop.raw_induct [rotated, consumes 1])
  case (1 loop message_data errno last_offset parts r)
  have p: "parseMessageSize False ''-000000010'' = (word_of_int (- 10), False)" by code_simp
  show ?case
  proof
    assume a: "take 10 message_data = ''-000000010'' \<and> \<not> errno \<and> last_offset = 0"
    have l: "\<not> length message_data < 10" using arg_cong [OF conjunct1 [OF a], of length] by simp
    have "loop message_data False 0 (parts @ [(10, word_of_int (- 10))]) = Some r"
      using 1(2) a l p by (simp add: MESSAGE_SIZE_STRING_LENGTH_def split: if_splits)
    from 1(1) [OF this] a show False by simp
  qed
qed

lemma splitMessage_minus_ten:
  assumes "take 10 message_data = ''-000000010''"
  shows "splitMessage False message_data = Inl NoReturn"
  using splitMessage_loop_minus_ten [of message_data False 0 "[]"] assms
  by (cases "splitMessage_loop message_data False 0 []") (auto simp: splitMessage_def)

end
