(* ===== verification/Tcp_Transport.thy ===== *)
theory Tcp_Transport
  imports Node Transport_Utils
begin

text \<open>
  \<open>src/src/consumers/tcp_consumer.h\<close> and \<open>.cpp\<close>, \<open>src/src/producers/tcp_producer.h\<close> and
  \<open>.cpp\<close>: nodes connected by TCP. The handles of the event loop are represented by what the code can
  observe of them: a target by the data it was given to write, a timer by whether it is active or closed; the
  events come in any order in which the loop can deliver them.
\<close>

section \<open>TCPConsumer\<close>

record tcp_target =
  target_writes :: "string list"
  timer_active :: bool
  timer_closed :: bool

record TCPConsumer =
  tc_is_external :: bool
  targets :: "tcp_target list"
  connected_targets :: nat
  tc_data_buffers :: "string list"

definition new_target :: tcp_target where
  "new_target = \<lparr>target_writes = [], timer_active = False, timer_closed = False\<rparr>"

definition new_tcp_consumer :: "nat \<Rightarrow> bool \<Rightarrow> TCPConsumer" where
  "new_tcp_consumer target_endpoints is_external =
     \<lparr>tc_is_external = is_external, targets = replicate target_endpoints new_target, connected_targets = 0,
      tc_data_buffers = []\<rparr>"

definition CONNECTION_REFUSED_ERROR_CODE :: int where "CONNECTION_REFUSED_ERROR_CODE = - 61"

text \<open>The callbacks; a closed timer cannot be started.\<close>

definition on_connect :: "nat \<Rightarrow> TCPConsumer \<Rightarrow> TCPConsumer" where
  "on_connect i c =
     c\<lparr>connected_targets := Suc (connected_targets c),
       targets := (targets c)[i := (targets c ! i)\<lparr>timer_active := False, timer_closed := True\<rparr>]\<rparr>"

definition on_error :: "nat \<Rightarrow> int \<Rightarrow> TCPConsumer \<Rightarrow> TCPConsumer" where
  "on_error i code c =
     (if code = CONNECTION_REFUSED_ERROR_CODE \<and> \<not> timer_closed (targets c ! i)
      then c\<lparr>targets := (targets c)[i := (targets c ! i)\<lparr>timer_active := True\<rparr>]\<rparr> else c)"

definition on_timer :: "nat \<Rightarrow> TCPConsumer \<Rightarrow> TCPConsumer" where
  "on_timer i c = c\<lparr>targets := (targets c)[i := (targets c ! i)\<lparr>target_writes := [], timer_active := False\<rparr>]\<rparr>"

definition sendData :: "string \<Rightarrow> TCPConsumer \<Rightarrow> cpp_exn + TCPConsumer" where
  "sendData data c =
     rbind (if tc_is_external c then Inr data else wrapMessage data) (\<lambda>wrapped_buffer.
       Inr (c\<lparr>targets := map (\<lambda>t. if timer_active t then t else t\<lparr>target_writes := target_writes t @ [wrapped_buffer]\<rparr>)
                (targets c)\<rparr>))"

text \<open>A buffer that cannot be sent stays in the queue.\<close>

fun flushBuffers_loop :: "string list \<Rightarrow> TCPConsumer \<Rightarrow> TCPConsumer \<times> ending" where
  "flushBuffers_loop [] c = (c\<lparr>tc_data_buffers := []\<rparr>, Done)"
| "flushBuffers_loop (data # ds) c =
     (case sendData data c of
        Inl exc \<Rightarrow> (c\<lparr>tc_data_buffers := data # ds\<rparr>, Threw exc)
      | Inr c \<Rightarrow> flushBuffers_loop ds c)"

definition flushBuffers :: "TCPConsumer \<Rightarrow> TCPConsumer \<times> ending" where
  "flushBuffers c = flushBuffers_loop (tc_data_buffers c) c"

definition tcp_consume :: "TCPConsumer \<Rightarrow> string \<Rightarrow> TCPConsumer \<times> ending" where
  "tcp_consume c data =
     (let c = c\<lparr>tc_data_buffers := tc_data_buffers c @ [data]\<rparr>
      in if connected_targets c = length (targets c) then flushBuffers c else (c, Done))"

definition tcp_consumer_stop :: "TCPConsumer \<Rightarrow> TCPConsumer \<times> ending" where
  "tcp_consumer_stop c =
     (case flushBuffers c of
        (c, Done) \<Rightarrow> (c\<lparr>targets := map (\<lambda>t. t\<lparr>timer_active := False, timer_closed := True\<rparr>) (targets c)\<rparr>, Done)
      | (c, r) \<Rightarrow> (c, r))"

definition TCPConsumer_methods :: "TCPConsumer Consumer" where
  "TCPConsumer_methods = \<lparr>consumer_start = (\<lambda>c. (c, Done)), consume = tcp_consume, consumer_stop = tcp_consumer_stop\<rparr>"

text \<open>The states of a consumer and the buffers it was given, under the events of the loop: a target is
  connected once, a timer fires while it is active.\<close>

inductive tcp_reach :: "nat \<Rightarrow> bool \<Rightarrow> TCPConsumer \<Rightarrow> string list \<Rightarrow> bool" for n ext where
  new: "tcp_reach n ext (new_tcp_consumer n ext) []"
| connect: "tcp_reach n ext c ds \<Longrightarrow> i < n \<Longrightarrow> \<not> timer_closed (targets c ! i) \<Longrightarrow> tcp_reach n ext (on_connect i c) ds"
| error: "tcp_reach n ext c ds \<Longrightarrow> i < n \<Longrightarrow> tcp_reach n ext (on_error i code c) ds"
| timer: "tcp_reach n ext c ds \<Longrightarrow> i < n \<Longrightarrow> timer_active (targets c ! i) \<Longrightarrow> tcp_reach n ext (on_timer i c) ds"
| data: "tcp_reach n ext c ds \<Longrightarrow> tcp_consume c d = (c', r) \<Longrightarrow> tcp_reach n ext c' (ds @ [d])"

section \<open>TCPProducer\<close>

text \<open>The node behind a producer, with a state of its own; the second state is \<open>errno\<close>.\<close>

type_synonym 'n node_op = "'n \<Rightarrow> string \<Rightarrow> 'n \<times> ending"

fun handle_parts :: "'n node_op \<Rightarrow> string \<Rightarrow> (64 word \<times> 64 word) list \<Rightarrow> 'n \<Rightarrow> 'n \<times> ending" where
  "handle_parts node chunk [] s = (s, Done)"
| "handle_parts node chunk (part # rest) s =
     (case part_message chunk part of
        Inl e \<Rightarrow> (s, Fault e)
      | Inr message \<Rightarrow>
          (case node s message of
             (s, Done) \<Rightarrow> handle_parts node chunk rest s
           | (s, r) \<Rightarrow> (s, r)))"

definition tcp_handleData :: "'n node_op \<Rightarrow> bool \<Rightarrow> string \<Rightarrow> 'n \<times> bool \<Rightarrow> ('n \<times> bool) \<times> ending" where
  "tcp_handleData node is_external chunk st =
     (let (s, errno) = st in
      if is_external then (let (s, r) = node s chunk in ((s, errno), r))
      else
        (case splitMessage errno chunk of
           Inl e \<Rightarrow> ((s, errno), Fault e)
         | Inr (message_parts, errno) \<Rightarrow> (let (s, r) = handle_parts node chunk message_parts s in ((s, errno), r))))"

text \<open>The callback of the listener is registered with \<open>once\<close>: the first connection is accepted, later ones
  wait in the backlog. The callbacks of the client are those of the accepted connection.\<close>

record TCPProducer =
  listener_active :: bool
  listener_closed :: bool
  accepts_connection :: bool
  client_open :: bool

definition new_tcp_producer :: TCPProducer where
  "new_tcp_producer =
     \<lparr>listener_active = False, listener_closed = False, accepts_connection = True, client_open = False\<rparr>"

definition tcp_producer_start :: "TCPProducer \<Rightarrow> TCPProducer" where
  "tcp_producer_start p = p\<lparr>listener_active := True\<rparr>"

definition tcp_producer_stop :: "('n \<Rightarrow> 'n \<times> ending) \<Rightarrow> TCPProducer \<times> 'n \<Rightarrow> (TCPProducer \<times> 'n) \<times> ending" where
  "tcp_producer_stop stop_node st =
     (let (p, s) = st; (s, r) = stop_node s in ((p\<lparr>listener_closed := True\<rparr>, s), r))"

datatype tcp_event = ListenEvent | DataEvent string | ErrorEvent | EndEvent

definition on_client_end :: "('n \<Rightarrow> 'n \<times> ending) \<Rightarrow> TCPProducer \<times> 'n \<Rightarrow> (TCPProducer \<times> 'n) \<times> ending" where
  "on_client_end stop_node st =
     (case tcp_producer_stop stop_node st of
        ((p, s), Done) \<Rightarrow> ((p\<lparr>client_open := False\<rparr>, s), Done)
      | (st, r) \<Rightarrow> (st, r))"

text \<open>An event of a client reaches the producer while the client is open.\<close>

fun on_tcp_event ::
  "('n \<Rightarrow> 'n \<times> ending) \<Rightarrow> 'n node_op \<Rightarrow> bool \<Rightarrow> tcp_event \<Rightarrow> TCPProducer \<times> 'n \<times> bool
     \<Rightarrow> (TCPProducer \<times> 'n \<times> bool) \<times> ending"
where
  "on_tcp_event stop_node node ext ListenEvent (p, s, errno) =
     (if listener_active p \<and> \<not> listener_closed p \<and> accepts_connection p
      then ((p\<lparr>accepts_connection := False, client_open := True\<rparr>, s, errno), Done)
      else ((p, s, errno), Done))"
| "on_tcp_event stop_node node ext (DataEvent d) (p, s, errno) =
     (if client_open p then (let (st, r) = tcp_handleData node ext d (s, errno) in ((p, st), r))
      else ((p, s, errno), Done))"
| "on_tcp_event stop_node node ext ErrorEvent (p, s, errno) =
     (if client_open p then (let ((p, s), r) = on_client_end stop_node (p, s) in ((p, s, errno), r))
      else ((p, s, errno), Done))"
| "on_tcp_event stop_node node ext EndEvent (p, s, errno) =
     (if client_open p then (let ((p, s), r) = on_client_end stop_node (p, s) in ((p, s, errno), r))
      else ((p, s, errno), Done))"

fun tcp_session ::
  "('n \<Rightarrow> 'n \<times> ending) \<Rightarrow> 'n node_op \<Rightarrow> bool \<Rightarrow> tcp_event list \<Rightarrow> TCPProducer \<times> 'n \<times> bool
     \<Rightarrow> (TCPProducer \<times> 'n \<times> bool) \<times> ending"
where
  "tcp_session stop_node node ext [] st = (st, Done)"
| "tcp_session stop_node node ext (event # events) st =
     (case on_tcp_event stop_node node ext event st of
        (st, Done) \<Rightarrow> tcp_session stop_node node ext events st
      | (st, r) \<Rightarrow> (st, r))"

section \<open>The consumer sends everything in order\<close>

definition encode_message :: "bool \<Rightarrow> string \<Rightarrow> string" where
  "encode_message ext d = (if ext then d else case wrapMessage d of Inl _ \<Rightarrow> [] | Inr w \<Rightarrow> w)"

definition closed_timers :: "tcp_target list \<Rightarrow> nat" where
  "closed_timers ts = sum_list (map (\<lambda>t. if timer_closed t then 1 else 0) ts)"

lemma closed_timers_le: "closed_timers ts \<le> length ts"
  by (induction ts) (auto simp: closed_timers_def)

lemma closed_timers_all: "closed_timers ts = length ts \<longleftrightarrow> list_all timer_closed ts"
proof (induction ts)
  case (Cons t ts)
  then show ?case using closed_timers_le [of ts] by (auto simp: closed_timers_def)
qed (simp add: closed_timers_def)

lemma closed_timers_update:
  assumes "i < length ts"
  shows "closed_timers (ts[i := t]) + (if timer_closed (ts ! i) then 1 else 0) =
    closed_timers ts + (if timer_closed t then 1 else 0)"
  using assms
proof (induction ts arbitrary: i)
  case (Cons a ts)
  then show ?case by (cases i) (auto simp: closed_timers_def)
qed simp

definition tcp_inv :: "nat \<Rightarrow> bool \<Rightarrow> TCPConsumer \<Rightarrow> bool" where
  "tcp_inv n ext c \<longleftrightarrow>
     tc_is_external c = ext \<and> length (targets c) = n \<and> connected_targets c = closed_timers (targets c) \<and>
     (\<forall>t \<in> set (targets c). timer_closed t \<longrightarrow> \<not> timer_active t) \<and>
     (connected_targets c \<noteq> n \<longrightarrow> (\<forall>t \<in> set (targets c). target_writes t = []))"

lemma tcp_inv_connected:
  assumes "tcp_inv n ext c" and "connected_targets c = n"
  shows "\<forall>t \<in> set (targets c). timer_closed t \<and> \<not> timer_active t"
  using assms closed_timers_all [of "targets c"] by (auto simp: tcp_inv_def list_all_iff)

text \<open>Once all targets are connected, the queue goes to every one of them.\<close>

lemma sendData_connected:
  assumes "tcp_inv n ext c" and "connected_targets c = n" and "sendData d c = Inr c'"
  shows "tcp_inv n ext c'" and "connected_targets c' = n"
    and "i < n \<Longrightarrow> target_writes (targets c' ! i) = target_writes (targets c ! i) @ [encode_message ext d]"
proof -
  let ?ts = "map (\<lambda>t. t\<lparr>target_writes := target_writes t @ [encode_message ext d]\<rparr>) (targets c)"
  have ext: "tc_is_external c = ext" and len: "length (targets c) = n" using assms(1) by (simp_all add: tcp_inv_def)
  have all: "\<forall>t \<in> set (targets c). timer_closed t \<and> \<not> timer_active t" using assms(1,2) by (rule tcp_inv_connected)
  have c': "c' = c\<lparr>targets := ?ts\<rparr>"
    using assms(3) all ext by (auto simp: sendData_def rbind_eq_Inr_iff encode_message_def split: if_splits)
  have "list_all timer_closed ?ts" using all by (simp add: list_all_iff)
  then have "closed_timers ?ts = n" using len closed_timers_all [of ?ts] by simp
  then show "tcp_inv n ext c'" using assms(1,2) all by (auto simp: c' tcp_inv_def)
  show "connected_targets c' = n" using assms(2) by (simp add: c')
  show "target_writes (targets c' ! i) = target_writes (targets c ! i) @ [encode_message ext d]" if "i < n"
    using that len by (simp add: c')
qed

lemma flushBuffers_loop_writes:
  assumes "tcp_inv n ext c" and "connected_targets c = n"
  shows "tcp_inv n ext (fst (flushBuffers_loop ds c)) \<and>
    (i < n \<longrightarrow> target_writes (targets (fst (flushBuffers_loop ds c)) ! i) @
      map (encode_message ext) (tc_data_buffers (fst (flushBuffers_loop ds c))) =
    target_writes (targets c ! i) @ map (encode_message ext) ds)"
  using assms
proof (induction ds arbitrary: c)
  case (Cons d ds)
  show ?case
  proof (cases "sendData d c")
    case (Inl exc)
    with Cons.prems show ?thesis by (simp add: tcp_inv_def)
  next
    case (Inr c')
    note s = sendData_connected [OF Cons.prems Inr]
    show ?thesis using Cons.IH [OF s(1,2)] s(3) Inr by simp
  qed
qed (simp add: tcp_inv_def)

lemma tcp_consume_queue:
  assumes "tcp_inv n ext c"
  shows "tcp_inv n ext (fst (tcp_consume c d))"
    and "i < n \<Longrightarrow> target_writes (targets (fst (tcp_consume c d)) ! i) @
      map (encode_message ext) (tc_data_buffers (fst (tcp_consume c d))) =
     target_writes (targets c ! i) @ map (encode_message ext) (tc_data_buffers c) @ [encode_message ext d]"
proof -
  let ?c = "c\<lparr>tc_data_buffers := tc_data_buffers c @ [d]\<rparr>"
  have inv: "tcp_inv n ext ?c" and len: "length (targets c) = n" using assms by (simp_all add: tcp_inv_def)
  have e: "tcp_consume c d = (if connected_targets c = n then flushBuffers_loop (tc_data_buffers c @ [d]) ?c else (?c, Done))"
    by (simp add: tcp_consume_def flushBuffers_def len)
  show "tcp_inv n ext (fst (tcp_consume c d))"
    using inv conjunct1 [OF flushBuffers_loop_writes [OF inv]] by (simp add: e)
  show "target_writes (targets (fst (tcp_consume c d)) ! i) @
      map (encode_message ext) (tc_data_buffers (fst (tcp_consume c d))) =
     target_writes (targets c ! i) @ map (encode_message ext) (tc_data_buffers c) @ [encode_message ext d]" if "i < n"
    using that conjunct2 [OF flushBuffers_loop_writes [OF inv], of i "tc_data_buffers c @ [d]"] by (simp add: e)
qed

interpretation tcp: queueing_consumer TCPConsumer_methods "\<lambda>c. tcp_inv n ext c \<and> i < n"
  "\<lambda>c. target_writes (targets c ! i)" "\<lambda>c. map (encode_message ext) (tc_data_buffers c)" "encode_message ext" for n ext i
  by unfold_locales (simp_all add: TCPConsumer_methods_def tcp_consume_queue [where n = n])

text \<open>Under all events: what was written to a target, followed by what is still in the queue, is what the
  consumer was given; while a target is missing, nothing is written.\<close>

lemma tcp_reach_queue:
  assumes "tcp_reach n ext c ds"
  shows "tcp_inv n ext c \<and>
    (\<forall>i < n. target_writes (targets c ! i) @ map (encode_message ext) (tc_data_buffers c) = map (encode_message ext) ds)"
  using assms
proof induction
  case new
  have "closed_timers (replicate n new_target) = 0" by (induction n) (simp_all add: closed_timers_def new_target_def)
  then show ?case by (simp add: tcp_inv_def new_tcp_consumer_def new_target_def)
next
  case (connect c ds i)
  let ?t = "(targets c ! i)\<lparr>timer_active := False, timer_closed := True\<rparr>"
  have len: "length (targets c) = n" using connect.IH by (simp add: tcp_inv_def)
  have "closed_timers ((targets c)[i := ?t]) = Suc (closed_timers (targets c))"
    using closed_timers_update [of i "targets c" ?t] connect.hyps len by simp
  moreover have "connected_targets c \<noteq> n"
    using tcp_inv_connected [of n ext c] connect.IH connect.hyps len by (metis nth_mem)
  ultimately show ?case using connect.IH connect.hyps len
    by (auto simp: tcp_inv_def on_connect_def nth_list_update dest!: set_update_subset_insert [THEN subsetD])
next
  case (error c ds i code)
  let ?t = "(targets c ! i)\<lparr>timer_active := True\<rparr>"
  have len: "length (targets c) = n" using error.IH by (simp add: tcp_inv_def)
  have "closed_timers ((targets c)[i := ?t]) = closed_timers (targets c)" if "\<not> timer_closed (targets c ! i)"
    using closed_timers_update [of i "targets c" ?t] error.hyps len that by simp
  then show ?case using error.IH error.hyps len
    by (auto simp: tcp_inv_def on_error_def nth_list_update dest!: set_update_subset_insert [THEN subsetD])
next
  case (timer c ds i)
  let ?t = "(targets c ! i)\<lparr>target_writes := [], timer_active := False\<rparr>"
  have len: "length (targets c) = n" using timer.IH by (simp add: tcp_inv_def)
  have a: "targets c ! i \<in> set (targets c)" using timer.hyps len by simp
  then have "\<not> timer_closed (targets c ! i)" using timer.IH timer.hyps by (auto simp: tcp_inv_def)
  then have "closed_timers ((targets c)[i := ?t]) = closed_timers (targets c)"
    using closed_timers_update [of i "targets c" ?t] timer.hyps len by simp
  moreover have "connected_targets c \<noteq> n"
    using tcp_inv_connected [of n ext c] timer.IH timer.hyps a by blast
  moreover have "\<forall>t \<in> set (targets c). target_writes t = []"
    using timer.IH \<open>connected_targets c \<noteq> n\<close> by (simp add: tcp_inv_def)
  ultimately show ?case using timer.IH timer.hyps len a
    by (auto simp: tcp_inv_def on_timer_def nth_list_update dest!: set_update_subset_insert [THEN subsetD])
next
  case (data c ds b c' r)
  then show ?case using tcp_consume_queue [where n = n and ext = ext and c = c and d = b] by auto
qed

section \<open>The producer hands the messages to the node\<close>

text \<open>The node, run over a list of messages.\<close>

definition node_run :: "'n node_op \<Rightarrow> string list \<Rightarrow> 'n \<Rightarrow> 'n" where
  "node_run node ds s = foldl (\<lambda>s d. fst (node s d)) s ds"

lemma handle_parts_run:
  assumes "rmap (part_message chunk) ps = Inr ms" and "\<forall>s m. snd (node s m) = Done"
  shows "handle_parts node chunk ps s = (node_run node ms s, Done)"
  using assms
proof (induction ps arbitrary: ms s)
  case (Cons p ps)
  then obtain m ms' where m: "part_message chunk p = Inr m" "rmap (part_message chunk) ps = Inr ms'" "ms = m # ms'"
    by (auto simp: rbind_eq_Inr_iff)
  obtain s' where "node s m = (s', Done)" using Cons.prems(2) by (metis prod.collapse)
  then show ?case using Cons.IH [OF m(2) Cons.prems(2), of s'] by (simp add: m node_run_def)
qed (simp add: node_run_def)

text \<open>Chunks cut at the borders of messages.\<close>

lemma tcp_handleData_wrapped:
  assumes "\<forall>m \<in> set ms. length m < 10 ^ 10" and "length (concat (map (encode_message False) ms)) < 2 ^ 64"
    and "\<forall>s m. snd (node s m) = Done"
  shows "tcp_handleData node False (concat (map (encode_message False) ms)) (s, False) = ((node_run node ms s, False), Done)"
proof -
  have "\<exists>w. wrapMessage m = Inr w" if "m \<in> set ms" for m using assms(1) that wrapMessage_ok by blast
  then have w: "rmap wrapMessage ms = Inr (map (encode_message False) ms)"
    by (intro rmap_all_Inr) (force simp: encode_message_def)
  then obtain ps where "splitMessage False (concat (map (encode_message False) ms)) = Inr (ps, False)"
    "rmap (part_message (concat (map (encode_message False) ms))) ps = Inr ms"
    using splitMessage_wrapped assms(2) by blast
  then show ?thesis using handle_parts_run [OF _ assms(3)] by (simp add: tcp_handleData_def)
qed

text \<open>A chunk that ends within a message.\<close>

lemma handle_parts_fault:
  assumes "rmap (part_message chunk) ps = Inl e" and "\<forall>s m. snd (node s m) = Done"
  shows "snd (handle_parts node chunk ps s) = Fault e"
  using assms
proof (induction ps arbitrary: s)
  case (Cons p ps)
  show ?case
  proof (cases "part_message chunk p")
    case (Inr m)
    obtain s' where "node s m = (s', Done)" using Cons.prems(2) by (metis prod.collapse)
    moreover have "rmap (part_message chunk) ps = Inl e" using Cons.prems(1) Inr by (auto simp: rbind_eq_Inl_iff)
    ultimately show ?thesis using Cons.IH [of s'] Cons.prems(2) Inr by simp
  qed (use Cons.prems(1) in simp)
qed simp

lemma tcp_handleData_cut:
  assumes "\<forall>m' \<in> set (m # ms). length m' < 10 ^ 10" and "encode_message False m = c @ c'" and "c \<noteq> []" and "c' \<noteq> []"
    and "length (concat (map (encode_message False) (ms @ [m]))) < 2 ^ 64"
    and "\<forall>s m. snd (node s m) = Done"
  shows "snd (tcp_handleData node False (concat (map (encode_message False) ms) @ c) (s, False)) = Fault UndefinedBehaviour"
proof -
  have ex: "wrapMessage m' = Inr (encode_message False m')" if "m' \<in> set (m # ms)" for m'
    using assms(1) that wrapMessage_ok [of m'] by (force simp: encode_message_def)
  have w: "rmap wrapMessage ms = Inr (map (encode_message False) ms)" by (intro rmap_all_Inr ex) simp
  have m: "wrapMessage m = Inr (c @ c')" using ex [of m] assms(2) by simp
  let ?d = "concat (map (encode_message False) ms) @ c"
  have "rbind (splitMessage False ?d) (\<lambda>(ps, errno). rmap (part_message ?d) ps) = Inl UndefinedBehaviour"
    using splitMessage_cut [OF w m assms(3,4)] assms(2,5) by simp
  then consider "splitMessage False ?d = Inl UndefinedBehaviour"
    | ps errno where "splitMessage False ?d = Inr (ps, errno)" "rmap (part_message ?d) ps = Inl UndefinedBehaviour"
    by (auto simp: rbind_eq_Inl_iff)
  then show ?thesis
  proof cases
    case 2
    then show ?thesis using handle_parts_fault [OF 2(2) assms(6), of s]
      by (auto simp: tcp_handleData_def split: prod.splits)
  qed (simp add: tcp_handleData_def)
qed

section \<open>One client\<close>

text \<open>What of the events counts: the chunks between the first connection and the first end or error after
  it, and whether there was one.\<close>

fun client_chunks :: "tcp_event list \<Rightarrow> string list \<times> bool" where
  "client_chunks [] = ([], False)"
| "client_chunks (ListenEvent # events) = client_chunks events"
| "client_chunks (DataEvent d # events) = (let (ds, ended) = client_chunks events in (d # ds, ended))"
| "client_chunks (ErrorEvent # events) = ([], True)"
| "client_chunks (EndEvent # events) = ([], True)"

fun tcp_feed :: "'n node_op \<Rightarrow> bool \<Rightarrow> string list \<Rightarrow> 'n \<times> bool \<Rightarrow> ('n \<times> bool) \<times> ending" where
  "tcp_feed node ext [] st = (st, Done)"
| "tcp_feed node ext (d # ds) st =
     (case tcp_handleData node ext d st of
        (st, Done) \<Rightarrow> tcp_feed node ext ds st
      | (st, r) \<Rightarrow> (st, r))"

definition served :: "('n \<Rightarrow> 'n \<times> ending) \<Rightarrow> 'n node_op \<Rightarrow> bool \<Rightarrow> tcp_event list \<Rightarrow> 'n \<times> bool \<Rightarrow> ('n \<times> bool) \<times> ending" where
  "served stop_node node ext events st =
     (case tcp_feed node ext (fst (client_chunks events)) st of
        ((s, errno), Done) \<Rightarrow>
          if snd (client_chunks events) then (let (s, r) = stop_node s in ((s, errno), r)) else ((s, errno), Done)
      | (st, r) \<Rightarrow> (st, r))"

lemma served_Listen: "served stop_node node ext (ListenEvent # events) st = served stop_node node ext events st"
  by (simp only: served_def client_chunks.simps)

lemma tcp_session_closed:
  assumes "\<not> client_open p" and "\<not> accepts_connection p"
  shows "tcp_session stop_node node ext events (p, st) = ((p, st), Done)"
proof (induction events)
  case (Cons e events)
  then show ?case using assms by (cases e; cases st) auto
qed simp

lemma tcp_session_open:
  assumes "client_open p" and "\<not> accepts_connection p"
  shows "(let ((p', st'), r) = tcp_session stop_node node ext events (p, st) in (st', r)) = served stop_node node ext events st"
  using assms
proof (induction events arbitrary: p st)
  case (Cons e events)
  obtain s errno where st: "st = (s, errno)" by force
  have stop: "(let ((p', st'), r) = tcp_session stop_node node ext (e # events) (p, st) in (st', r)) =
      (let (s, r) = stop_node s in ((s, errno), r))" if "e = ErrorEvent \<or> e = EndEvent"
    using that Cons.prems
    by (auto simp: st on_client_end_def tcp_producer_stop_def tcp_session_closed Let_def split: prod.splits ending.splits)
  show ?case
  proof (cases e)
    case (DataEvent d)
    obtain st' r where h: "tcp_handleData node ext d st = (st', r)" by (cases "tcp_handleData node ext d st")
    then show ?thesis using Cons.prems Cons.IH [OF Cons.prems, of st']
      by (cases r) (simp_all add: DataEvent st served_def split: prod.split)
  next
    case ListenEvent
    then show ?thesis using Cons.IH [OF Cons.prems] Cons.prems by (simp add: st served_Listen)
  qed (use stop in \<open>simp_all add: st served_def\<close>)
qed (simp add: served_def split: prod.split)

text \<open>The node gets the data of the first connection until it ends, and is then stopped, once.\<close>

lemma tcp_session_served:
  "(let ((p, st'), r) = tcp_session stop_node node ext events (tcp_producer_start new_tcp_producer, st) in (st', r)) =
   served stop_node node ext (dropWhile (\<lambda>e. e \<noteq> ListenEvent) events) st"
proof (induction events)
  case (Cons e events)
  obtain s errno where st: "st = (s, errno)" by force
  let ?p = "(tcp_producer_start new_tcp_producer)\<lparr>accepts_connection := False, client_open := True\<rparr>"
  show ?case
  proof (cases e)
    case ListenEvent
    then show ?thesis using tcp_session_open [of ?p stop_node node ext events st]
      by (simp add: st tcp_producer_start_def new_tcp_producer_def served_Listen)
  qed (use Cons in \<open>simp_all add: st tcp_producer_start_def new_tcp_producer_def\<close>)
qed (simp add: served_def split: prod.split)

end
