(* ===== verification/Pub_Sub.thy ===== *)
theory Pub_Sub
  imports Tcp_Transport
begin

text \<open>
  \<open>src/src/consumers/publisher_consumer.h\<close> and \<open>.cpp\<close>, \<open>src/src/producers/subscriber_producer.h\<close>
  and \<open>.cpp\<close>: two nodes connected by a publisher and a subscriber socket of ZeroMQ, which loses what is
  published before the subscription has arrived, and a pair of sockets for the confirmation of the connection.
  The callbacks are functions on the state of the object; a step relation puts one publisher, as
  \<open>NodePipeline::subscribeTo\<close> makes it, and its subscriber together.
\<close>

section \<open>PublisherConsumer\<close>

record PublisherConsumer =
  pc_publisher :: Publisher
  data_buffers :: "string list"
  socket_is_writeable :: bool
  timer_stopped :: bool
  synchronize_pollers_closed :: "bool list"
  pc_closed :: bool

definition new_publisher_consumer :: "nat \<Rightarrow> PublisherConsumer" where
  "new_publisher_consumer synchronize_sockets =
     \<lparr>pc_publisher = new_publisher synchronize_sockets, data_buffers = [], socket_is_writeable = False,
      timer_stopped = False, synchronize_pollers_closed = replicate synchronize_sockets False, pc_closed = False\<rparr>"

definition flushBuffer :: "zmq \<Rightarrow> PublisherConsumer \<Rightarrow> PublisherConsumer \<times> ending" where
  "flushBuffer Z c =
     (if \<not> socket_is_writeable c \<or> data_buffers c = [] then (c, Done)
      else
        (case send Z (publisher_socket (pc_publisher c)) (hd (data_buffers c)) of
           (socket, True) \<Rightarrow>
             (c\<lparr>pc_publisher := (pc_publisher c)\<lparr>publisher_socket := socket\<rparr>, socket_is_writeable := False,
                data_buffers := tl (data_buffers c)\<rparr>, Done)
         | (socket, False) \<Rightarrow> (c, Threw RuntimeError)))"

function startSending :: "zmq \<Rightarrow> PublisherConsumer \<Rightarrow> PublisherConsumer \<times> ending" where
  "startSending Z c =
     (if can_send Z (publisher_socket (pc_publisher c))
      then (let c = c\<lparr>socket_is_writeable := True\<rparr> in
            if publisher_isReady (pc_publisher c) \<and> data_buffers c \<noteq> []
            then (case flushBuffer Z c of (c, Done) \<Rightarrow> startSending Z c | (c, r) \<Rightarrow> (c, r))
            else (c, Done))
      else (c, Done))"
  by pat_completeness auto
termination
  by (relation "measure (\<lambda>(Z, c). length (data_buffers c))")
    (auto simp: flushBuffer_def split: prod.splits bool.splits if_splits)

declare startSending.simps [simp del]

definition publisher_consume :: "PublisherConsumer \<Rightarrow> string \<Rightarrow> PublisherConsumer \<times> ending" where
  "publisher_consume c data = (c\<lparr>data_buffers := data_buffers c @ [data]\<rparr>, Done)"

text \<open>What cannot be sent now is not sent any more.\<close>

definition publisher_stop :: "zmq \<Rightarrow> PublisherConsumer \<Rightarrow> PublisherConsumer \<times> ending" where
  "publisher_stop Z c =
     (case startSending Z c of
        (c, Done) \<Rightarrow>
          (case send Z (publisher_socket (pc_publisher c)) END_MESSAGE of
             (socket, True) \<Rightarrow>
               (c\<lparr>pc_publisher := (pc_publisher c)\<lparr>publisher_socket := socket\<rparr>, timer_stopped := True,
                  synchronize_pollers_closed := map (\<lambda>_. True) (synchronize_pollers_closed c), pc_closed := True\<rparr>, Done)
           | (socket, False) \<Rightarrow> (c, Threw RuntimeError))
      | (c, r) \<Rightarrow> (c, r))"

definition on_connect_timer :: "zmq \<Rightarrow> PublisherConsumer \<Rightarrow> PublisherConsumer" where
  "on_connect_timer Z c =
     (if \<not> publisher_isReady (pc_publisher c) \<and> socket_is_writeable c
      then c\<lparr>pc_publisher := trySynchronize Z (pc_publisher c), socket_is_writeable := False\<rparr>
      else if publisher_isReady (pc_publisher c) then c\<lparr>timer_stopped := True\<rparr> else c)"

text \<open>The event of a synchronisation socket: whether it can be read, and the flag for a disconnection.\<close>

definition on_synchronize :: "nat \<Rightarrow> bool \<Rightarrow> bool \<Rightarrow> PublisherConsumer \<Rightarrow> PublisherConsumer" where
  "on_synchronize i pollin disconnect c =
     (if pollin
      then c\<lparr>pc_publisher := addConnection (pc_publisher c),
             synchronize_pollers_closed := (synchronize_pollers_closed c)[i := True]\<rparr>
      else if disconnect then c\<lparr>synchronize_pollers_closed := (synchronize_pollers_closed c)[i := True]\<rparr>
      else c)"

definition PublisherConsumer_methods :: "zmq \<Rightarrow> PublisherConsumer Consumer" where
  "PublisherConsumer_methods Z =
     \<lparr>consumer_start = (\<lambda>c. (c, Done)), consume = publisher_consume, consumer_stop = publisher_stop Z\<rparr>"

section \<open>SubscriberProducer\<close>

text \<open>With the messages it has sent to the synchronisation socket; the parameter \<open>ok\<close> is whether
  such a message is sent.\<close>

record SubscriberProducer =
  subscriber :: Subscriber
  sp_started :: bool
  ready_to_confirm_connection :: bool
  sp_closed :: bool
  synchronize_poller_closed :: bool
  confirmations :: "string list"

definition new_subscriber_producer :: SubscriberProducer where
  "new_subscriber_producer =
     \<lparr>subscriber = new_subscriber, sp_started = False, ready_to_confirm_connection = False, sp_closed = False,
      synchronize_poller_closed = False, confirmations = []\<rparr>"

text \<open>\<open>start\<close> first drops the messages that are there: the rest of the messages.\<close>

definition subscriber_start :: "string list \<Rightarrow> SubscriberProducer \<Rightarrow> SubscriberProducer \<times> string list" where
  "subscriber_start messages p = (p\<lparr>sp_started := True\<rparr>, [])"

definition confirmConnection :: "bool \<Rightarrow> SubscriberProducer \<Rightarrow> SubscriberProducer" where
  "confirmConnection ok p =
     p\<lparr>confirmations := (if ok then confirmations p @ [''''] else confirmations p), synchronize_poller_closed := True\<rparr>"

definition subscriber_stop :: "('n \<Rightarrow> 'n \<times> ending) \<Rightarrow> SubscriberProducer \<times> 'n \<Rightarrow> (SubscriberProducer \<times> 'n) \<times> ending" where
  "subscriber_stop stop_node st =
     (let (p, s) = st; (s, r) = stop_node s
      in ((p\<lparr>sp_closed := True, synchronize_poller_closed := True\<rparr>, s), r))"

text \<open>A message that cannot be read is taken for an empty one.\<close>

definition subscriber_readMessage :: "string option \<Rightarrow> string" where
  "subscriber_readMessage recv_result = (case readMessage recv_result of Inl _ \<Rightarrow> [] | Inr message \<Rightarrow> message)"

text \<open>The loop over the messages \<open>readMessage\<close> returns while there are some to be read; the messages after
  an end message are not read.\<close>

fun read_messages ::
  "('n \<Rightarrow> 'n \<times> ending) \<Rightarrow> 'n node_op \<Rightarrow> bool \<Rightarrow> string list \<Rightarrow> SubscriberProducer \<times> 'n
     \<Rightarrow> (SubscriberProducer \<times> 'n) \<times> ending \<times> string list"
where
  "read_messages stop_node node ok [] st = (st, Done, [])"
| "read_messages stop_node node ok (message # messages) (p, s) =
     (if message = END_MESSAGE then (let (st, r) = subscriber_stop stop_node (p, s) in (st, r, messages))
      else if \<not> is_ready (subscriber p) then
        (let p = p\<lparr>subscriber := prepareForListening (subscriber p)\<rparr>;
             p = (if ready_to_confirm_connection p then confirmConnection ok p else p)
         in read_messages stop_node node ok messages (p, s))
      else if message \<noteq> CONNECT_MESSAGE then
        (case node s message of
           (s, Done) \<Rightarrow> read_messages stop_node node ok messages (p, s)
         | (s, r) \<Rightarrow> ((p, s), r, messages))
      else read_messages stop_node node ok messages (p, s))"

definition on_poll ::
  "('n \<Rightarrow> 'n \<times> ending) \<Rightarrow> 'n node_op \<Rightarrow> bool \<Rightarrow> bool \<Rightarrow> string list \<Rightarrow> SubscriberProducer \<times> 'n
     \<Rightarrow> (SubscriberProducer \<times> 'n) \<times> ending \<times> string list"
where
  "on_poll stop_node node ok disconnect messages st =
     (case read_messages stop_node node ok messages st of
        (st, Done, unread) \<Rightarrow>
          if disconnect then (let (st, r) = subscriber_stop stop_node st in (st, r, unread)) else (st, Done, unread)
      | r \<Rightarrow> r)"

definition on_synchronize_writable :: "bool \<Rightarrow> SubscriberProducer \<Rightarrow> SubscriberProducer" where
  "on_synchronize_writable ok p =
     (let p = p\<lparr>ready_to_confirm_connection := True\<rparr>
      in if is_ready (subscriber p) then confirmConnection ok p else p\<lparr>synchronize_poller_closed := True\<rparr>)"

section \<open>A publisher and its subscriber\<close>

text \<open>\<open>pending_messages\<close>: published, the subscription being there, and not yet read; \<open>subscribed\<close>: the
  subscription has arrived at the publisher; \<open>read_confirmations\<close>: how many confirmations were read.\<close>

record 'n pubsub =
  pub :: PublisherConsumer
  sub :: SubscriberProducer
  sub_node :: 'n
  pending_messages :: "string list"
  subscribed :: bool
  read_confirmations :: nat

definition new_pubsub :: "'n \<Rightarrow> 'n pubsub" where
  "new_pubsub s =
     \<lparr>pub = new_publisher_consumer 1, sub = new_subscriber_producer, sub_node = s, pending_messages = [],
      subscribed = False, read_confirmations = 0\<rparr>"

text \<open>The publisher goes to another state; what it has sent reaches the subscriber.\<close>

definition publish :: "PublisherConsumer \<Rightarrow> 'n pubsub \<Rightarrow> 'n pubsub" where
  "publish c x =
     x\<lparr>pub := c,
       pending_messages := pending_messages x @
         (if subscribed x then drop (length (publisher_socket (pc_publisher (pub x)))) (publisher_socket (pc_publisher c))
          else [])\<rparr>"

inductive pubsub_step ::
  "('n \<Rightarrow> 'n \<times> ending) \<Rightarrow> 'n node_op \<Rightarrow> 'n pubsub \<times> string list \<Rightarrow> 'n pubsub \<times> string list \<Rightarrow> bool"
  for stop_node node
where
  give: "\<not> pc_closed (pub x) \<Longrightarrow> d \<noteq> CONNECT_MESSAGE \<Longrightarrow> d \<noteq> END_MESSAGE \<Longrightarrow> publisher_consume (pub x) d = (c, Done) \<Longrightarrow>
    pubsub_step stop_node node (x, ds) (publish c x, ds @ [d])"
| poll: "\<not> pc_closed (pub x) \<Longrightarrow> startSending Z (pub x) = (c, Done) \<Longrightarrow>
    pubsub_step stop_node node (x, ds) (publish c x, ds)"
| tick: "\<not> timer_stopped (pub x) \<Longrightarrow>
    pubsub_step stop_node node (x, ds) (publish (on_connect_timer Z (pub x)) x, ds)"
| confirmed: "\<not> synchronize_pollers_closed (pub x) ! 0 \<Longrightarrow>
    read_confirmations x < length (confirmations (sub x)) \<Longrightarrow>
    pubsub_step stop_node node (x, ds)
      ((publish (on_synchronize 0 True disconnect (pub x)) x)\<lparr>read_confirmations := Suc (read_confirmations x)\<rparr>, ds)"
| disconnected: "\<not> synchronize_pollers_closed (pub x) ! 0 \<Longrightarrow>
    pubsub_step stop_node node (x, ds) (publish (on_synchronize 0 False disconnect (pub x)) x, ds)"
| stop: "\<not> pc_closed (pub x) \<Longrightarrow> publisher_stop Z (pub x) = (c, Done) \<Longrightarrow>
    pubsub_step stop_node node (x, ds) (publish c x, ds)"
| subscribe: "pubsub_step stop_node node (x, ds) (x\<lparr>subscribed := True\<rparr>, ds)"
| start: "\<not> sp_started (sub x) \<Longrightarrow> pending_messages x = messages @ later \<Longrightarrow>
    subscriber_start messages (sub x) = (p, unread) \<Longrightarrow>
    pubsub_step stop_node node (x, ds) (x\<lparr>sub := p, pending_messages := unread @ later\<rparr>, ds)"
| read: "sp_started (sub x) \<Longrightarrow> \<not> sp_closed (sub x) \<Longrightarrow> pending_messages x = messages @ later \<Longrightarrow>
    on_poll stop_node node ok disconnect messages (sub x, sub_node x) = ((p, s), Done, unread) \<Longrightarrow>
    pubsub_step stop_node node (x, ds) (x\<lparr>sub := p, sub_node := s, pending_messages := unread @ later\<rparr>, ds)"
| writable: "sp_started (sub x) \<Longrightarrow> \<not> synchronize_poller_closed (sub x) \<Longrightarrow>
    pubsub_step stop_node node (x, ds) (x\<lparr>sub := on_synchronize_writable ok (sub x)\<rparr>, ds)"

inductive pubsub_reach ::
  "('n \<Rightarrow> 'n \<times> ending) \<Rightarrow> 'n node_op \<Rightarrow> 'n \<Rightarrow> 'n pubsub \<times> string list \<Rightarrow> bool" for stop_node node s0
where
  init: "pubsub_reach stop_node node s0 (new_pubsub s0, [])"
| step: "pubsub_reach stop_node node s0 st \<Longrightarrow> pubsub_step stop_node node st st' \<Longrightarrow> pubsub_reach stop_node node s0 st'"

section \<open>What a publisher and a subscriber do to the data\<close>

lemma startSending_queue:
  assumes "startSending Z c = (c', r)"
  shows "\<exists>xs. publisher_socket (pc_publisher c') = publisher_socket (pc_publisher c) @ xs \<and> data_buffers c = xs @ data_buffers c' \<and>
    expected_subscribers (pc_publisher c') = expected_subscribers (pc_publisher c) \<and>
    synchronize_pollers_closed c' = synchronize_pollers_closed c \<and> timer_stopped c' = timer_stopped c \<and>
    pc_closed c' = pc_closed c \<and> (\<not> publisher_isReady (pc_publisher c) \<longrightarrow> xs = [])"
  using assms
proof (induction Z c arbitrary: c' r rule: startSending.induct)
  case (1 Z c)
  let ?c = "c\<lparr>socket_is_writeable := True\<rparr>"
  show ?case
  proof (cases "can_send Z (publisher_socket (pc_publisher c)) \<and> publisher_isReady (pc_publisher c) \<and> data_buffers c \<noteq> []")
    case True
    show ?thesis
    proof (cases "send_ok Z (publisher_socket (pc_publisher c))")
      case ok: True
      let ?d = "c\<lparr>pc_publisher := (pc_publisher c)\<lparr>publisher_socket := publisher_socket (pc_publisher c) @ [hd (data_buffers c)]\<rparr>,
        socket_is_writeable := False, data_buffers := tl (data_buffers c)\<rparr>"
      have f: "flushBuffer Z ?c = (?d, Done)" using True ok by (simp add: flushBuffer_def send_def)
      then have "startSending Z ?d = (c', r)" using 1(2) True by (subst (asm) startSending.simps) simp
      from 1(1) [OF _ refl _ f [symmetric] refl this] True obtain xs where
        xs: "publisher_socket (pc_publisher c') = publisher_socket (pc_publisher ?d) @ xs" "data_buffers ?d = xs @ data_buffers c'"
          "expected_subscribers (pc_publisher c') = expected_subscribers (pc_publisher ?d)"
          "synchronize_pollers_closed c' = synchronize_pollers_closed ?d" "timer_stopped c' = timer_stopped ?d"
          "pc_closed c' = pc_closed ?d" by auto
      have "data_buffers c = hd (data_buffers c) # xs @ data_buffers c'" using True xs(2) by (cases "data_buffers c") auto
      then show ?thesis using True xs by (intro exI [of _ "hd (data_buffers c) # xs"]) simp
    next
      case False
      then have "flushBuffer Z ?c = (?c, Threw RuntimeError)" using True by (simp add: flushBuffer_def send_def)
      then show ?thesis using 1(2) True by (subst (asm) startSending.simps) auto
    qed
  next
    case False
    then show ?thesis using 1(2) by (subst (asm) startSending.simps) (auto simp: Let_def split: if_splits)
  qed
qed

interpretation publisher: queueing_consumer "PublisherConsumer_methods Z" "\<lambda>_. True"
  "\<lambda>c. publisher_socket (pc_publisher c)" data_buffers id for Z
  by unfold_locales (simp_all add: PublisherConsumer_methods_def publisher_consume_def)

definition is_data :: "string \<Rightarrow> bool" where
  "is_data m \<longleftrightarrow> m \<noteq> CONNECT_MESSAGE \<and> m \<noteq> END_MESSAGE"

text \<open>The node after some messages, or after it was stopped, up to twice, then.\<close>

definition node_after :: "('n \<Rightarrow> 'n \<times> ending) \<Rightarrow> 'n node_op \<Rightarrow> 'n \<Rightarrow> string list \<Rightarrow> bool \<Rightarrow> 'n \<Rightarrow> bool" where
  "node_after stop_node node s0 ms stopped s \<longleftrightarrow>
     (let s1 = node_run node ms s0
      in if stopped then s = fst (stop_node s1) \<or> s = fst (stop_node (fst (stop_node s1))) else s = s1)"

lemma read_messages_data:
  assumes "read_messages stop_node node ok messages (p, s) = ((p', s'), Done, unread)"
    and "\<not> is_ready (subscriber p) \<longrightarrow> filter is_data messages = []"
    and "\<not> sp_closed p" and "confirmations p \<noteq> [] \<longrightarrow> is_ready (subscriber p) \<and> synchronize_poller_closed p"
  shows "\<exists>ms. (if sp_closed p' then s' = fst (stop_node (node_run node ms s)) else s' = node_run node ms s \<and> unread = []) \<and>
      filter is_data messages = ms @ filter is_data unread \<and> set unread \<subseteq> set messages \<and>
      (is_ready (subscriber p) \<longrightarrow> is_ready (subscriber p')) \<and>
      (is_ready (subscriber p') \<longrightarrow> is_ready (subscriber p) \<or> messages \<noteq> []) \<and>
      length (confirmations p') \<le> max 1 (length (confirmations p)) \<and> length (confirmations p) \<le> length (confirmations p') \<and>
      (confirmations p' \<noteq> [] \<longrightarrow> is_ready (subscriber p') \<and> synchronize_poller_closed p') \<and>
      sp_started p' = sp_started p"
  using assms
proof (induction messages arbitrary: p s)
  case Nil
  then show ?case by (auto simp: node_run_def intro!: exI [of _ "[]"])
next
  case (Cons m messages)
  consider "m = END_MESSAGE" | "m \<noteq> END_MESSAGE" "\<not> is_ready (subscriber p)"
    | "m \<noteq> END_MESSAGE" "is_ready (subscriber p)" "m = CONNECT_MESSAGE" | "is_data m" "is_ready (subscriber p)"
    by (auto simp: is_data_def)
  then show ?case
  proof cases
    case 1
    then show ?thesis using Cons.prems
      by (auto simp: subscriber_stop_def node_run_def is_data_def split: prod.splits intro!: exI [of _ "[]"])
  next
    case 2
    let ?p = "p\<lparr>subscriber := prepareForListening (subscriber p)\<rparr>"
    let ?q = "if ready_to_confirm_connection ?p then confirmConnection ok ?p else ?p"
    have c: "confirmations p = []" using Cons.prems(4) 2 by blast
    have m: "\<not> is_data m" "filter is_data messages = []" using Cons.prems(2) 2 by (auto split: if_splits)
    have r: "read_messages stop_node node ok messages (?q, s) = ((p', s'), Done, unread)"
      using Cons.prems(1) 2 by (simp add: Let_def)
    have q: "\<not> sp_closed ?q" "is_ready (subscriber ?q)" "length (confirmations ?q) \<le> 1"
      "confirmations ?q \<noteq> [] \<longrightarrow> is_ready (subscriber ?q) \<and> synchronize_poller_closed ?q" "sp_started ?q = sp_started p"
      using Cons.prems(3) c by (auto simp: confirmConnection_def prepareForListening_def)
    from Cons.IH [OF r _ q(1,4)] q m c show ?thesis by (auto simp: max_def split: if_splits)
  next
    case 3
    then have "read_messages stop_node node ok messages (p, s) = ((p', s'), Done, unread)" using Cons.prems(1) by simp
    from Cons.IH [OF this _ Cons.prems(3,4)] 3 show ?thesis by (auto simp: is_data_def)
  next
    case 4
    obtain s1 r where n: "node s m = (s1, r)" by force
    have r: "r = Done" "read_messages stop_node node ok messages (p, s1) = ((p', s'), Done, unread)"
      using Cons.prems(1) 4 n by (auto simp: is_data_def split: ending.splits)
    have "node_run node (m # ms) s = node_run node ms s1" for ms by (simp add: node_run_def n)
    moreover obtain ms where "if sp_closed p' then s' = fst (stop_node (node_run node ms s1)) else s' = node_run node ms s1 \<and> unread = []"
      "filter is_data messages = ms @ filter is_data unread" "set unread \<subseteq> set messages"
      "is_ready (subscriber p) \<longrightarrow> is_ready (subscriber p')"
      "length (confirmations p') \<le> max 1 (length (confirmations p))" "length (confirmations p) \<le> length (confirmations p')"
      "confirmations p' \<noteq> [] \<longrightarrow> is_ready (subscriber p') \<and> synchronize_poller_closed p'" "sp_started p' = sp_started p"
      using Cons.IH [OF r(2) _ Cons.prems(3,4)] 4(2) by blast
    ultimately show ?thesis using 4 by (intro exI [of _ "m # ms"]) auto
  qed
qed

section \<open>No message is lost, repeated or reordered\<close>

definition pubsub_inv ::
  "('n \<Rightarrow> 'n \<times> ending) \<Rightarrow> 'n node_op \<Rightarrow> 'n \<Rightarrow> 'n pubsub \<times> string list \<Rightarrow> bool"
where
  "pubsub_inv stop_node node s0 st \<longleftrightarrow>
     (let (x, ds) = st in
      length (synchronize_pollers_closed (pub x)) = 1 \<and>
      expected_subscribers (pc_publisher (pub x)) = 1 - int (read_confirmations x) \<and>
      read_confirmations x \<le> length (confirmations (sub x)) \<and> length (confirmations (sub x)) \<le> 1 \<and>
      (confirmations (sub x) \<noteq> [] \<longrightarrow> is_ready (subscriber (sub x)) \<and> synchronize_poller_closed (sub x)) \<and>
      (is_ready (subscriber (sub x)) \<longrightarrow> subscribed x \<and> sp_started (sub x)) \<and>
      (sp_closed (sub x) \<longrightarrow> sp_started (sub x)) \<and>
      (pending_messages x \<noteq> [] \<longrightarrow> subscribed x) \<and>
      (\<not> publisher_isReady (pc_publisher (pub x)) \<longrightarrow> filter is_data (pending_messages x) = []) \<and>
      list_all is_data ds \<and>
      (\<exists>ms. node_after stop_node node s0 ms (sp_closed (sub x)) (sub_node x) \<and>
         ms @ filter is_data (pending_messages x) @ data_buffers (pub x) = ds))"

lemma publish_simps [simp]:
  "pub (publish c x) = c" "sub (publish c x) = sub x" "sub_node (publish c x) = sub_node x"
  "subscribed (publish c x) = subscribed x" "read_confirmations (publish c x) = read_confirmations x"
  "publisher_socket (pc_publisher c) = publisher_socket (pc_publisher (pub x)) @ xs \<Longrightarrow>
    pending_messages (publish c x) = pending_messages x @ (if subscribed x then xs else [])"
  by (simp_all add: publish_def)

lemma is_data_messages [simp]: "\<not> is_data CONNECT_MESSAGE" "\<not> is_data END_MESSAGE"
  by (simp_all add: is_data_def)

text \<open>A step of the publisher alone: it sends some of its queue and messages of the protocol.\<close>

lemma pubsub_inv_publish:
  assumes "pubsub_inv stop_node node s0 (x, ds)"
    and "publisher_socket (pc_publisher c) = publisher_socket (pc_publisher (pub x)) @ ys"
    and "filter is_data ys = xs" and "data_buffers (pub x) = xs @ data_buffers c"
    and "\<not> publisher_isReady (pc_publisher (pub x)) \<longrightarrow> xs = []"
    and "expected_subscribers (pc_publisher c) = expected_subscribers (pc_publisher (pub x))"
    and "length (synchronize_pollers_closed c) = length (synchronize_pollers_closed (pub x))"
  shows "pubsub_inv stop_node node s0 (publish c x, ds)"
proof -
  have r: "publisher_isReady (pc_publisher c) \<longleftrightarrow> publisher_isReady (pc_publisher (pub x))"
    using assms(6) by (simp add: publisher_isReady_def)
  have s: "subscribed x" if "publisher_isReady (pc_publisher (pub x))"
    using that assms(1) by (auto simp: pubsub_inv_def publisher_isReady_def Let_def)
  obtain ms where ms: "node_after stop_node node s0 ms (sp_closed (sub x)) (sub_node x)"
    "ms @ filter is_data (pending_messages x) @ data_buffers (pub x) = ds"
    using assms(1) by (auto simp: pubsub_inv_def Let_def)
  have "ms @ filter is_data (pending_messages (publish c x)) @ data_buffers c = ds"
    using ms(2) assms(2-5) s by (cases "publisher_isReady (pc_publisher (pub x))") auto
  moreover have "filter is_data (pending_messages (publish c x)) = []" if "\<not> publisher_isReady (pc_publisher c)"
    using that r assms by (auto simp: pubsub_inv_def Let_def)
  ultimately show ?thesis using assms(1,2,6,7) ms(1) by (auto simp: pubsub_inv_def Let_def split: if_splits)
qed

lemma pubsub_inv_read:
  assumes inv: "pubsub_inv stop_node node s0 (x, ds)" and op: "sp_started (sub x)" "\<not> sp_closed (sub x)"
    and pm: "pending_messages x = messages @ later"
    and p: "on_poll stop_node node ok disconnect messages (sub x, sub_node x) = ((p, s), Done, unread)"
  shows "pubsub_inv stop_node node s0 (x\<lparr>sub := p, sub_node := s, pending_messages := unread @ later\<rparr>, ds)"
proof -
  have i: "(\<not> is_ready (subscriber (sub x)) \<longrightarrow> filter is_data messages = [])"
      "confirmations (sub x) \<noteq> [] \<longrightarrow> is_ready (subscriber (sub x)) \<and> synchronize_poller_closed (sub x)"
      "length (confirmations (sub x)) \<le> 1" "messages \<noteq> [] \<longrightarrow> subscribed x"
    using inv pm by (auto simp: pubsub_inv_def Let_def publisher_isReady_def)
  obtain ms0 where ms0: "node_after stop_node node s0 ms0 False (sub_node x)"
    "ms0 @ filter is_data (pending_messages x) @ data_buffers (pub x) = ds"
    using inv op by (auto simp: pubsub_inv_def Let_def)
  obtain p1 s1 r1 where rm: "read_messages stop_node node ok messages (sub x, sub_node x) = ((p1, s1), r1, unread)"
    using p by (auto simp: on_poll_def split: prod.splits ending.splits if_splits)
  then have r1: "r1 = Done" and ps: "if disconnect then p = p1\<lparr>sp_closed := True, synchronize_poller_closed := True\<rparr> \<and>
      s = fst (stop_node s1) else p = p1 \<and> s = s1"
    using p by (auto simp: on_poll_def subscriber_stop_def split: prod.splits ending.splits if_splits)
  obtain ms where ms: "if sp_closed p1 then s1 = fst (stop_node (node_run node ms (sub_node x)))
        else s1 = node_run node ms (sub_node x) \<and> unread = []"
      "filter is_data messages = ms @ filter is_data unread" "set unread \<subseteq> set messages"
      "is_ready (subscriber (sub x)) \<longrightarrow> is_ready (subscriber p1)"
      "is_ready (subscriber p1) \<longrightarrow> is_ready (subscriber (sub x)) \<or> messages \<noteq> []"
      "length (confirmations p1) \<le> max 1 (length (confirmations (sub x)))"
      "length (confirmations (sub x)) \<le> length (confirmations p1)"
      "confirmations p1 \<noteq> [] \<longrightarrow> is_ready (subscriber p1) \<and> synchronize_poller_closed p1" "sp_started p1 = sp_started (sub x)"
    using read_messages_data [OF rm [unfolded r1] i(1) op(2) i(2)] by blast
  have run: "node_run node ms (sub_node x) = node_run node (ms0 @ ms) s0"
    using ms0(1) by (simp add: node_after_def node_run_def Let_def)
  have 1: "node_after stop_node node s0 (ms0 @ ms) (sp_closed p) s"
    using ps ms(1) by (auto simp: node_after_def Let_def run split: if_splits)
  have 2: "(ms0 @ ms) @ filter is_data (unread @ later) @ data_buffers (pub x) = ds"
    using ms0(2) ms(2) pm by simp
  have 3: "\<not> publisher_isReady (pc_publisher (pub x)) \<longrightarrow> filter is_data (unread @ later) = []"
    using inv pm ms(2) by (auto simp: pubsub_inv_def Let_def)
  have p1: "confirmations p = confirmations p1" "subscriber p = subscriber p1" "sp_started p = sp_started p1"
      "synchronize_poller_closed p1 \<longrightarrow> synchronize_poller_closed p"
    using ps by (auto split: if_splits)
  have 4: "unread @ later \<noteq> [] \<longrightarrow> subscribed x"
    using inv pm ms(3) by (auto simp: pubsub_inv_def Let_def)
  have 5: "read_confirmations x \<le> length (confirmations p)" "length (confirmations p) \<le> 1"
    using inv ms(6,7) i(3) by (simp_all add: pubsub_inv_def Let_def p1)
  have 6: "is_ready (subscriber p) \<longrightarrow> subscribed x \<and> sp_started p" "sp_closed p \<longrightarrow> sp_started p"
    using ms(5,9) i(4) inv op(1) by (auto simp: pubsub_inv_def Let_def p1)
  have 7: "confirmations p \<noteq> [] \<longrightarrow> is_ready (subscriber p) \<and> synchronize_poller_closed p"
    using ms(8) p1 by auto
  have 8: "length (synchronize_pollers_closed (pub x)) = 1" "list_all is_data ds"
      "expected_subscribers (pc_publisher (pub x)) = 1 - int (read_confirmations x)"
    using inv by (simp_all add: pubsub_inv_def Let_def)
  show ?thesis unfolding pubsub_inv_def Let_def prod.case pubsub.simps pubsub.select_convs pubsub.update_convs
    by (intro conjI exI [of _ "ms0 @ ms"]) (use 1 2 3 4 5 6 7 8 in simp_all)
qed

lemma pubsub_inv_buffers:
  assumes "pubsub_inv stop_node node s0 (x, ds)" and "data_buffers (pub x) = xs @ ys"
  shows "filter is_data xs = xs"
proof -
  obtain ms where d: "list_all is_data ds" and e: "ms @ filter is_data (pending_messages x) @ xs @ ys = ds"
    using assms(1) unfolding pubsub_inv_def Let_def prod.case assms(2) by blast
  have "list_all is_data (ms @ filter is_data (pending_messages x) @ xs @ ys)" unfolding e by (rule d)
  then have "list_all is_data xs" unfolding list_all_append by blast
  then show ?thesis by (metis filter_True list_all_iff)
qed

lemma pubsub_inv_step:
  assumes "pubsub_step stop_node node st st'" and "pubsub_inv stop_node node s0 st"
  shows "pubsub_inv stop_node node s0 st'"
  using assms
proof cases
  case (give x d c ds)
  then show ?thesis using assms(2)
    by (auto simp: publisher_consume_def pubsub_inv_def Let_def is_data_def publish_def)
next
  case (poll x Z c ds)
  obtain xs where xs: "publisher_socket (pc_publisher c) = publisher_socket (pc_publisher (pub x)) @ xs"
    "data_buffers (pub x) = xs @ data_buffers c" "expected_subscribers (pc_publisher c) = expected_subscribers (pc_publisher (pub x))"
    "synchronize_pollers_closed c = synchronize_pollers_closed (pub x)" "\<not> publisher_isReady (pc_publisher (pub x)) \<longrightarrow> xs = []"
    using startSending_queue [OF poll(4)] by blast
  have "filter is_data xs = xs" using pubsub_inv_buffers [OF assms(2) [unfolded poll(1)] xs(2)] .
  from pubsub_inv_publish [OF assms(2) [unfolded poll(1)] xs(1) this xs(2,5,3)] xs(4) show ?thesis by (simp add: poll(2))
next
  case (tick x ds Z)
  have "\<exists>ys. publisher_socket (pc_publisher (on_connect_timer Z (pub x))) = publisher_socket (pc_publisher (pub x)) @ ys \<and>
      filter is_data ys = []"
    unfolding on_connect_timer_def trySynchronize_def send_def
    by (auto intro: exI [of _ "[]"] exI [of _ "[CONNECT_MESSAGE]"])
  then obtain ys where
    "publisher_socket (pc_publisher (on_connect_timer Z (pub x))) = publisher_socket (pc_publisher (pub x)) @ ys"
    "filter is_data ys = []" by blast
  from pubsub_inv_publish [OF assms(2) [unfolded tick(1)] this] show ?thesis
    by (simp add: tick(2) on_connect_timer_def trySynchronize_def)
next
  case (confirmed x disconnect ds)
  have "read_confirmations x = 0" "confirmations (sub x) \<noteq> []"
    using assms(2) confirmed(4) by (auto simp: confirmed(1) pubsub_inv_def Let_def)
  then show ?thesis using assms(2)
    by (auto simp: confirmed(1,2) pubsub_inv_def Let_def on_synchronize_def addConnection_def publisher_isReady_def publish_def Suc_le_eq)
next
  case (disconnected x disconnect ds)
  then show ?thesis using assms(2)
    by (auto simp: pubsub_inv_def Let_def on_synchronize_def publish_def)
next
  case (stop x Z c ds)
  obtain c1 where c1: "startSending Z (pub x) = (c1, Done)"
    "c = c1\<lparr>pc_publisher := (pc_publisher c1)\<lparr>publisher_socket := publisher_socket (pc_publisher c1) @ [END_MESSAGE]\<rparr>,
      timer_stopped := True, synchronize_pollers_closed := map (\<lambda>_. True) (synchronize_pollers_closed c1), pc_closed := True\<rparr>"
    using stop(4) by (auto simp: publisher_stop_def send_def split: prod.splits ending.splits if_splits)
  obtain xs where xs: "publisher_socket (pc_publisher c1) = publisher_socket (pc_publisher (pub x)) @ xs"
    "data_buffers (pub x) = xs @ data_buffers c1" "expected_subscribers (pc_publisher c1) = expected_subscribers (pc_publisher (pub x))"
    "synchronize_pollers_closed c1 = synchronize_pollers_closed (pub x)" "\<not> publisher_isReady (pc_publisher (pub x)) \<longrightarrow> xs = []"
    using startSending_queue [OF c1(1)] by blast
  have "filter is_data (xs @ [END_MESSAGE]) = xs" using pubsub_inv_buffers [OF assms(2) [unfolded stop(1)] xs(2)] by simp
  moreover have "publisher_socket (pc_publisher c) = publisher_socket (pc_publisher (pub x)) @ (xs @ [END_MESSAGE])"
    by (simp add: c1(2) xs(1))
  ultimately show ?thesis
    using pubsub_inv_publish [OF assms(2) [unfolded stop(1)], of c "xs @ [END_MESSAGE]" xs] xs(2-5) by (simp add: stop(2) c1(2))
next
  case (subscribe x ds)
  then show ?thesis using assms(2) by (auto simp: pubsub_inv_def Let_def)
next
  case (start x messages later p unread ds)
  then have "filter is_data messages = []"
    using assms(2) by (auto simp: pubsub_inv_def Let_def publisher_isReady_def)
  then show ?thesis using assms(2) start
    by (auto simp: pubsub_inv_def Let_def subscriber_start_def)
next
  case (read x messages later ok disconnect p s unread ds)
  then show ?thesis using pubsub_inv_read assms(2) by fastforce
next
  case (writable x ok ds)
  then show ?thesis using assms(2)
    by (auto simp: pubsub_inv_def Let_def on_synchronize_writable_def confirmConnection_def)
qed

lemma pubsub_reach_inv: "pubsub_reach stop_node node s0 st \<Longrightarrow> pubsub_inv stop_node node s0 st"
proof (induction rule: pubsub_reach.induct)
  case init
  show ?case
    by (auto simp: pubsub_inv_def new_pubsub_def new_publisher_consumer_def new_publisher_def new_subscriber_producer_def
        new_subscriber_def node_after_def node_run_def intro!: exI [of _ "[]"])
qed (rule pubsub_inv_step)

end
