(* ===== verification/Pub_Sub_Progress.thy ===== *)
theory Pub_Sub_Progress
  imports Pub_Sub
begin

text \<open>
  The connection of a publisher and its subscriber (\<open>Pub_Sub\<close>) can always be completed, and what the
  publisher was given can then be delivered: from every reachable state in which both are running and no
  message of the confirmation was lost, there are events after which the subscriber's node has handled
  everything.
\<close>

section \<open>What the protocol keeps\<close>

definition protocol_inv :: "'n pubsub \<times> string list \<Rightarrow> bool" where
  "protocol_inv st \<longleftrightarrow>
     (let (x, ds) = st in
      (\<not> sp_closed (sub x) \<and> \<not> ready_to_confirm_connection (sub x) \<longrightarrow> \<not> synchronize_poller_closed (sub x)) \<and>
      (timer_stopped (pub x) \<longrightarrow> publisher_isReady (pc_publisher (pub x)) \<or> pc_closed (pub x)) \<and>
      (END_MESSAGE \<in> set (pending_messages x) \<longrightarrow> pc_closed (pub x)))"

lemma read_messages_protocol:
  assumes "read_messages stop_node node ok messages (p, s) = ((p', s'), Done, unread)"
    and "\<not> sp_closed p \<and> \<not> ready_to_confirm_connection p \<longrightarrow> \<not> synchronize_poller_closed p"
  shows "(\<not> sp_closed p' \<and> \<not> ready_to_confirm_connection p' \<longrightarrow> \<not> synchronize_poller_closed p') \<and>
    set unread \<subseteq> set messages"
  using assms
proof (induction messages arbitrary: p s)
  case (Cons m messages)
  let ?p = "p\<lparr>subscriber := prepareForListening (subscriber p)\<rparr>"
  let ?q = "if ready_to_confirm_connection ?p then confirmConnection ok ?p else ?p"
  have q: "\<not> sp_closed ?q \<and> \<not> ready_to_confirm_connection ?q \<longrightarrow> \<not> synchronize_poller_closed ?q"
    using Cons.prems(2) by (simp add: confirmConnection_def)
  consider "m = END_MESSAGE" | "m \<noteq> END_MESSAGE" "\<not> is_ready (subscriber p)"
    | s1 where "m \<noteq> END_MESSAGE" "is_ready (subscriber p)" "read_messages stop_node node ok messages (p, s1) = ((p', s'), Done, unread)"
    using Cons.prems(1) by (auto split: if_splits prod.splits ending.splits)
  then show ?case
  proof cases
    case 1
    then show ?thesis using Cons.prems by (auto simp: subscriber_stop_def split: prod.splits)
  next
    case 2
    then have "read_messages stop_node node ok messages (?q, s) = ((p', s'), Done, unread)"
      using Cons.prems(1) by (simp add: Let_def)
    from Cons.IH [OF this q] show ?thesis by auto
  next
    case 3
    from Cons.IH [OF 3(3) Cons.prems(2)] show ?thesis by auto
  qed
qed simp

lemma on_poll_protocol:
  assumes "on_poll stop_node node ok disconnect messages (p, s) = ((p', s'), Done, unread)"
    and "\<not> sp_closed p \<and> \<not> ready_to_confirm_connection p \<longrightarrow> \<not> synchronize_poller_closed p"
  shows "(\<not> sp_closed p' \<and> \<not> ready_to_confirm_connection p' \<longrightarrow> \<not> synchronize_poller_closed p') \<and>
    set unread \<subseteq> set messages"
proof -
  obtain p1 s1 where rm: "read_messages stop_node node ok messages (p, s) = ((p1, s1), Done, unread)"
    and "p' = p1 \<or> p' = p1\<lparr>sp_closed := True, synchronize_poller_closed := True\<rparr>"
    using assms(1) by (auto simp: on_poll_def subscriber_stop_def split: prod.splits ending.splits if_splits)
  then show ?thesis using read_messages_protocol [OF rm assms(2)] by auto
qed

lemma protocol_inv_publish:
  assumes "protocol_inv (x, ds)"
    and "publisher_socket (pc_publisher c) = publisher_socket (pc_publisher (pub x)) @ ys"
    and "END_MESSAGE \<in> set ys \<longrightarrow> pc_closed c" and "pc_closed (pub x) \<longrightarrow> pc_closed c"
    and "timer_stopped c \<longrightarrow> publisher_isReady (pc_publisher c) \<or> pc_closed c"
  shows "protocol_inv (publish c x, ds')"
  using assms by (auto simp: protocol_inv_def Let_def)

lemma protocol_inv_step:
  assumes "pubsub_step stop_node node st st'" and "pubsub_inv stop_node node s0 st" and "protocol_inv st"
  shows "protocol_inv st'"
  using assms(1)
proof cases
  case (give x d c ds)
  show ?thesis using protocol_inv_publish [OF assms(3) [unfolded give(1)], of c "[]"] assms(3) give
    by (auto simp: publisher_consume_def protocol_inv_def Let_def)
next
  case (poll x Z c ds)
  obtain xs where xs: "publisher_socket (pc_publisher c) = publisher_socket (pc_publisher (pub x)) @ xs"
    "data_buffers (pub x) = xs @ data_buffers c" "expected_subscribers (pc_publisher c) = expected_subscribers (pc_publisher (pub x))"
    "timer_stopped c = timer_stopped (pub x)" "pc_closed c = pc_closed (pub x)"
    using startSending_queue [OF poll(4)] by blast
  have "filter is_data xs = xs" using pubsub_inv_buffers [OF assms(2) [unfolded poll(1)] xs(2)] .
  then have "END_MESSAGE \<notin> set xs" using is_data_messages(2) by (metis filter_id_conv)
  then show ?thesis using protocol_inv_publish [OF assms(3) [unfolded poll(1)] xs(1), of ds] assms(3) poll xs
    by (auto simp: protocol_inv_def Let_def publisher_isReady_def)
next
  case (tick x ds Z)
  have "\<exists>ys. publisher_socket (pc_publisher (on_connect_timer Z (pub x))) = publisher_socket (pc_publisher (pub x)) @ ys \<and>
      END_MESSAGE \<notin> set ys"
    unfolding on_connect_timer_def trySynchronize_def send_def
    by (auto intro: exI [of _ "[]"] exI [of _ "[CONNECT_MESSAGE]"] simp: CONNECT_MESSAGE_def END_MESSAGE_def)
  then obtain ys where
    "publisher_socket (pc_publisher (on_connect_timer Z (pub x))) = publisher_socket (pc_publisher (pub x)) @ ys"
    "END_MESSAGE \<notin> set ys" by blast
  from protocol_inv_publish [OF assms(3) [unfolded tick(1)] this(1), of ds] this(2) show ?thesis using tick(3)
    by (auto simp: tick(2) on_connect_timer_def)
next
  case (confirmed x disconnect ds)
  then show ?thesis using assms(3)
    by (auto simp: protocol_inv_def Let_def on_synchronize_def addConnection_def publisher_isReady_def publish_def)
next
  case (disconnected x disconnect ds)
  then show ?thesis using assms(3)
    by (auto simp: protocol_inv_def Let_def on_synchronize_def publish_def)
next
  case (stop x Z c ds)
  obtain c1 where c1: "startSending Z (pub x) = (c1, Done)" "pc_closed c"
    "publisher_socket (pc_publisher c) = publisher_socket (pc_publisher c1) @ [END_MESSAGE]"
    using stop(4) by (auto simp: publisher_stop_def send_def split: prod.splits ending.splits if_splits)
  then obtain ys where "publisher_socket (pc_publisher c) = publisher_socket (pc_publisher (pub x)) @ ys"
    using startSending_queue [OF c1(1)] by auto
  from protocol_inv_publish [OF assms(3) [unfolded stop(1)] this] c1(2) show ?thesis by (simp add: stop(2))
next
  case (subscribe x ds)
  then show ?thesis using assms(3) by (simp add: protocol_inv_def Let_def)
next
  case (start x messages later p unread ds)
  then show ?thesis using assms(3) by (auto simp: protocol_inv_def Let_def subscriber_start_def)
next
  case (read x messages later ok disconnect p s unread ds)
  have "\<not> sp_closed (sub x) \<and> \<not> ready_to_confirm_connection (sub x) \<longrightarrow> \<not> synchronize_poller_closed (sub x)"
    using assms(3) by (simp add: read(1) protocol_inv_def Let_def)
  from on_poll_protocol [OF read(6) this] show ?thesis using assms(3) read(1,2,5) by (auto simp: protocol_inv_def Let_def)
next
  case (writable x ok ds)
  then show ?thesis using assms(3)
    by (auto simp: protocol_inv_def Let_def on_synchronize_writable_def confirmConnection_def)
qed

lemma pubsub_reach_protocol: "pubsub_reach stop_node node s0 st \<Longrightarrow> protocol_inv st"
proof (induction rule: pubsub_reach.induct)
  case init
  show ?case
    by (simp add: protocol_inv_def new_pubsub_def new_publisher_consumer_def new_publisher_def new_subscriber_producer_def)
next
  case (step st st')
  show ?case by (rule protocol_inv_step [OF step.hyps(2) pubsub_reach_inv [OF step.hyps(1)] step.IH])
qed

section \<open>Progress\<close>

text \<open>Both are running, the subscription is there, and no confirmation was lost.\<close>

definition running :: "'n pubsub \<Rightarrow> bool" where
  "running x \<longleftrightarrow>
     subscribed x \<and> \<not> pc_closed (pub x) \<and> sp_started (sub x) \<and> \<not> sp_closed (sub x) \<and>
     (publisher_isReady (pc_publisher (pub x)) \<or> \<not> synchronize_pollers_closed (pub x) ! 0) \<and>
     (is_ready (subscriber (sub x)) \<and> ready_to_confirm_connection (sub x) \<longrightarrow> confirmations (sub x) \<noteq> [])"

definition good_zmq :: zmq where "good_zmq = \<lparr>can_send = (\<lambda>_. True), send_ok = (\<lambda>_. True)\<rparr>"

lemma startSending_good:
  "\<exists>c'. startSending good_zmq c = (c', Done) \<and> socket_is_writeable c' \<and>
    (publisher_isReady (pc_publisher c) \<longrightarrow> data_buffers c' = [])"
proof (induction "length (data_buffers c)" arbitrary: c)
  case 0
  then show ?case by (subst startSending.simps) (simp add: good_zmq_def)
next
  case (Suc n)
  let ?d = "c\<lparr>pc_publisher := (pc_publisher c)\<lparr>publisher_socket := publisher_socket (pc_publisher c) @ [hd (data_buffers c)]\<rparr>,
    socket_is_writeable := False, data_buffers := tl (data_buffers c)\<rparr>"
  show ?case
  proof (cases "publisher_isReady (pc_publisher c)")
    case True
    have "data_buffers c \<noteq> []" using Suc.hyps(2) by auto
    then have "startSending good_zmq c = startSending good_zmq ?d"
      using True by (subst startSending.simps) (simp add: good_zmq_def flushBuffer_def send_def)
    moreover have "publisher_isReady (pc_publisher ?d)" "n = length (data_buffers ?d)"
      using True Suc.hyps(2) by (simp_all add: publisher_isReady_def)
    ultimately show ?thesis using Suc.hyps(1) [of ?d] by auto
  next
    case False
    then show ?thesis by (subst startSending.simps) (simp add: good_zmq_def)
  qed
qed

lemma read_messages_all:
  assumes "END_MESSAGE \<notin> set messages" and "\<forall>s m. snd (node s m) = Done"
  shows "\<exists>p' s'. read_messages stop_node node True messages (p, s) = ((p', s'), Done, []) \<and>
    sp_closed p' = sp_closed p \<and> sp_started p' = sp_started p \<and>
    ready_to_confirm_connection p' = ready_to_confirm_connection p \<and>
    is_ready (subscriber p') = (is_ready (subscriber p) \<or> messages \<noteq> []) \<and>
    (confirmations p \<noteq> [] \<longrightarrow> confirmations p' \<noteq> []) \<and>
    (\<not> is_ready (subscriber p) \<and> messages \<noteq> [] \<and> ready_to_confirm_connection p \<longrightarrow> confirmations p' \<noteq> [])"
  using assms(1)
proof (induction messages arbitrary: p s)
  case (Cons m messages)
  then have m: "m \<noteq> END_MESSAGE" and ms: "END_MESSAGE \<notin> set messages" by auto
  obtain s1 where s1: "node s m = (s1, Done)" using assms(2) by (metis prod.collapse)
  let ?p = "p\<lparr>subscriber := prepareForListening (subscriber p)\<rparr>"
  let ?q = "if ready_to_confirm_connection ?p then confirmConnection True ?p else ?p"
  have q: "is_ready (subscriber ?q)" "sp_closed ?q = sp_closed p" "sp_started ?q = sp_started p"
    "ready_to_confirm_connection ?q = ready_to_confirm_connection p" "confirmations p \<noteq> [] \<longrightarrow> confirmations ?q \<noteq> []"
    "ready_to_confirm_connection p \<longrightarrow> confirmations ?q \<noteq> []"
    by (auto simp: confirmConnection_def prepareForListening_def)
  show ?case
  proof (cases "is_ready (subscriber p)")
    case True
    then show ?thesis using Cons.IH [OF ms, of p s] Cons.IH [OF ms, of p s1] m s1 by (cases "m = CONNECT_MESSAGE") auto
  next
    case False
    then have "read_messages stop_node node True (m # messages) (p, s) = read_messages stop_node node True messages (?q, s)"
      using m by (simp add: Let_def)
    then show ?thesis using Cons.IH [OF ms, of ?q s] q False by auto
  qed
qed simp

lemma reach_steps:
  "(pubsub_step stop_node node)\<^sup>*\<^sup>* st st' \<Longrightarrow> pubsub_reach stop_node node s0 st \<Longrightarrow> pubsub_reach stop_node node s0 st'"
  by (induction rule: rtranclp_induct) (auto intro: pubsub_reach.step)

text \<open>The subscriber reads all there is.\<close>

lemma read_all_step:
  assumes reach: "pubsub_reach stop_node node s0 (x, ds)" and run: "running x" and total: "\<forall>s m. snd (node s m) = Done"
  shows "\<exists>p s. pubsub_step stop_node node (x, ds) (x\<lparr>sub := p, sub_node := s, pending_messages := []\<rparr>, ds) \<and>
    running (x\<lparr>sub := p, sub_node := s, pending_messages := []\<rparr>) \<and>
    (pending_messages x \<noteq> [] \<longrightarrow> is_ready (subscriber p)) \<and> (is_ready (subscriber (sub x)) \<longrightarrow> is_ready (subscriber p))"
proof -
  have "END_MESSAGE \<notin> set (pending_messages x)"
    using pubsub_reach_protocol [OF reach] run by (auto simp: protocol_inv_def Let_def running_def)
  then obtain p s where r: "read_messages stop_node node True (pending_messages x) (sub x, sub_node x) = ((p, s), Done, [])"
    and p: "sp_closed p = sp_closed (sub x)" "sp_started p = sp_started (sub x)"
      "ready_to_confirm_connection p = ready_to_confirm_connection (sub x)"
      "is_ready (subscriber p) = (is_ready (subscriber (sub x)) \<or> pending_messages x \<noteq> [])"
      "confirmations (sub x) \<noteq> [] \<longrightarrow> confirmations p \<noteq> []"
      "\<not> is_ready (subscriber (sub x)) \<and> pending_messages x \<noteq> [] \<and> ready_to_confirm_connection (sub x) \<longrightarrow> confirmations p \<noteq> []"
    using read_messages_all [OF _ total] by blast
  have "on_poll stop_node node True False (pending_messages x) (sub x, sub_node x) = ((p, s), Done, [])"
    by (simp add: on_poll_def r)
  from pubsub_step.read [OF _ _ _ this, where later = "[]"] run
  have "pubsub_step stop_node node (x, ds) (x\<lparr>sub := p, sub_node := s, pending_messages := []\<rparr>, ds)"
    by (simp add: running_def)
  moreover have "running (x\<lparr>sub := p, sub_node := s, pending_messages := []\<rparr>)"
    using run p by (auto simp: running_def)
  ultimately show ?thesis using p(4) by blast
qed

text \<open>The publisher sends what it can.\<close>

lemma send_all_step:
  assumes "running x"
  shows "\<exists>c. pubsub_step stop_node node (x, ds) (publish c x, ds) \<and> running (publish c x) \<and>
    socket_is_writeable c \<and> (publisher_isReady (pc_publisher (pub x)) \<longrightarrow> data_buffers c = []) \<and>
    expected_subscribers (pc_publisher c) = expected_subscribers (pc_publisher (pub x)) \<and>
    timer_stopped c = timer_stopped (pub x)"
proof -
  obtain c where c: "startSending good_zmq (pub x) = (c, Done)" "socket_is_writeable c"
    "publisher_isReady (pc_publisher (pub x)) \<longrightarrow> data_buffers c = []" using startSending_good by blast
  have q: "expected_subscribers (pc_publisher c) = expected_subscribers (pc_publisher (pub x))"
    "synchronize_pollers_closed c = synchronize_pollers_closed (pub x)" "timer_stopped c = timer_stopped (pub x)"
    "pc_closed c = pc_closed (pub x)" using startSending_queue [OF c(1)] by blast+
  have "running (publish c x)" using assms q by (simp add: running_def publisher_isReady_def)
  moreover have "pubsub_step stop_node node (x, ds) (publish c x, ds)"
    using assms c(1) by (intro pubsub_step.poll) (simp_all add: running_def)
  ultimately show ?thesis using c q by blast
qed

text \<open>From a running state the subscriber gets its first message.\<close>

lemma becomes_ready:
  assumes reach: "pubsub_reach stop_node node s0 (x, ds)" and run: "running x" and total: "\<forall>s m. snd (node s m) = Done"
  shows "\<exists>x'. (pubsub_step stop_node node)\<^sup>*\<^sup>* (x, ds) (x', ds) \<and> running x' \<and> is_ready (subscriber (sub x'))"
proof (cases "is_ready (subscriber (sub x))")
  case False
  have "expected_subscribers (pc_publisher (pub x)) = 1"
    using pubsub_reach_inv [OF reach] False by (auto simp: pubsub_inv_def Let_def)
  then have nr: "\<not> publisher_isReady (pc_publisher (pub x))" by (simp add: publisher_isReady_def)
  obtain c where c: "pubsub_step stop_node node (x, ds) (publish c x, ds)" "running (publish c x)" "socket_is_writeable c"
    "expected_subscribers (pc_publisher c) = expected_subscribers (pc_publisher (pub x))" "timer_stopped c = timer_stopped (pub x)"
    using send_all_step [OF run] by blast
  have t: "\<not> timer_stopped c"
    using pubsub_reach_protocol [OF reach] nr run c(5) by (auto simp: protocol_inv_def Let_def running_def)
  let ?y = "publish c x" and ?c = "on_connect_timer good_zmq c"
  have "\<not> publisher_isReady (pc_publisher c)" using nr c(4) by (simp add: publisher_isReady_def)
  then have oc: "?c = c\<lparr>pc_publisher := (pc_publisher c)\<lparr>publisher_socket := publisher_socket (pc_publisher c) @ [CONNECT_MESSAGE]\<rparr>,
      socket_is_writeable := False\<rparr>"
    using c(3) by (simp add: on_connect_timer_def trySynchronize_def good_zmq_def send_def)
  let ?z = "publish ?c ?y"
  have s2: "pubsub_step stop_node node (?y, ds) (?z, ds)"
    using pubsub_step.tick [of ?y stop_node node ds good_zmq] t by simp
  have pz: "pending_messages ?z \<noteq> []" using c(2) by (simp add: oc running_def)
  have rz: "running ?z" using c(2) by (simp add: oc running_def publisher_isReady_def)
  have steps: "(pubsub_step stop_node node)\<^sup>*\<^sup>* (x, ds) (?z, ds)" using c(1) s2 by (meson r_into_rtranclp rtranclp.rtrancl_into_rtrancl)
  from read_all_step [OF reach_steps [OF steps reach] rz total] pz obtain p s where
    "pubsub_step stop_node node (?z, ds) (?z\<lparr>sub := p, sub_node := s, pending_messages := []\<rparr>, ds)"
    "running (?z\<lparr>sub := p, sub_node := s, pending_messages := []\<rparr>)" "is_ready (subscriber p)" by blast
  then show ?thesis using steps
    by (intro exI [of _ "?z\<lparr>sub := p, sub_node := s, pending_messages := []\<rparr>"]) auto
qed (use run in blast)

text \<open>Then the connection is confirmed.\<close>

lemma becomes_connected:
  assumes reach: "pubsub_reach stop_node node s0 (x, ds)" and run: "running x" and total: "\<forall>s m. snd (node s m) = Done"
  shows "\<exists>x'. (pubsub_step stop_node node)\<^sup>*\<^sup>* (x, ds) (x', ds) \<and> running x' \<and> publisher_isReady (pc_publisher (pub x'))"
proof -
  obtain y where y: "(pubsub_step stop_node node)\<^sup>*\<^sup>* (x, ds) (y, ds)" "running y" "is_ready (subscriber (sub y))"
    using becomes_ready [OF assms] by blast
  have ry: "pubsub_reach stop_node node s0 (y, ds)" using y(1) reach by (rule reach_steps)
  have "\<exists>z. (pubsub_step stop_node node)\<^sup>*\<^sup>* (y, ds) (z, ds) \<and> running z \<and> confirmations (sub z) \<noteq> []"
  proof (cases "confirmations (sub y) = []")
    case True
    then have "\<not> ready_to_confirm_connection (sub y)" using y(2,3) by (auto simp: running_def)
    then have o': "\<not> synchronize_poller_closed (sub y)"
      using pubsub_reach_protocol [OF ry] y(2) by (auto simp: protocol_inv_def Let_def running_def)
    let ?z = "y\<lparr>sub := on_synchronize_writable True (sub y)\<rparr>"
    have "pubsub_step stop_node node (y, ds) (?z, ds)" using y(2) o' by (intro pubsub_step.writable) (simp_all add: running_def)
    moreover have "running ?z" "confirmations (sub ?z) \<noteq> []"
      using y(2,3) by (auto simp: running_def on_synchronize_writable_def confirmConnection_def)
    ultimately show ?thesis by blast
  qed (use y(2) in blast)
  then obtain z where z: "(pubsub_step stop_node node)\<^sup>*\<^sup>* (y, ds) (z, ds)" "running z" "confirmations (sub z) \<noteq> []" by blast
  have rz: "pubsub_reach stop_node node s0 (z, ds)" using z(1) ry by (rule reach_steps)
  have xz: "(pubsub_step stop_node node)\<^sup>*\<^sup>* (x, ds) (z, ds)" using y(1) z(1) by (rule rtranclp_trans)
  show ?thesis
  proof (cases "publisher_isReady (pc_publisher (pub z))")
    case False
    have e: "expected_subscribers (pc_publisher (pub z)) = 1 - int (read_confirmations z)" "length (synchronize_pollers_closed (pub z)) = 1"
      using pubsub_reach_inv [OF rz] by (simp_all add: pubsub_inv_def Let_def)
    with False have r0: "read_confirmations z = 0" by (simp add: publisher_isReady_def)
    let ?u = "(publish (on_synchronize 0 True False (pub z)) z)\<lparr>read_confirmations := Suc (read_confirmations z)\<rparr>"
    have "pubsub_step stop_node node (z, ds) (?u, ds)"
      using z(2,3) False r0 by (intro pubsub_step.confirmed) (auto simp: running_def)
    moreover have "publisher_isReady (pc_publisher (pub ?u))"
      using e r0 by (simp add: on_synchronize_def addConnection_def publisher_isReady_def)
    moreover have "running ?u" using z(2) e r0 by (simp add: running_def on_synchronize_def addConnection_def publisher_isReady_def)
    ultimately show ?thesis using xz by (meson rtranclp.rtrancl_into_rtrancl)
  qed (use xz z(2) in blast)
qed

text \<open>And everything is delivered.\<close>

lemma everything_delivered:
  assumes reach: "pubsub_reach stop_node node s0 (x, ds)" and run: "running x" and total: "\<forall>s m. snd (node s m) = Done"
  shows "\<exists>x'. (pubsub_step stop_node node)\<^sup>*\<^sup>* (x, ds) (x', ds) \<and> sub_node x' = node_run node ds s0"
proof -
  obtain y where y: "(pubsub_step stop_node node)\<^sup>*\<^sup>* (x, ds) (y, ds)" "running y" "publisher_isReady (pc_publisher (pub y))"
    using becomes_connected [OF assms] by blast
  obtain c where c: "pubsub_step stop_node node (y, ds) (publish c y, ds)" "running (publish c y)" "data_buffers c = []"
    using send_all_step [OF y(2)] y(3) by blast
  let ?z = "publish c y"
  have xz: "(pubsub_step stop_node node)\<^sup>*\<^sup>* (x, ds) (?z, ds)" using y(1) c(1) by (rule rtranclp.rtrancl_into_rtrancl)
  obtain p s where p: "pubsub_step stop_node node (?z, ds) (?z\<lparr>sub := p, sub_node := s, pending_messages := []\<rparr>, ds)"
    "running (?z\<lparr>sub := p, sub_node := s, pending_messages := []\<rparr>)"
    using read_all_step [OF reach_steps [OF xz reach] c(2) total] by blast
  let ?u = "?z\<lparr>sub := p, sub_node := s, pending_messages := []\<rparr>"
  have xu: "(pubsub_step stop_node node)\<^sup>*\<^sup>* (x, ds) (?u, ds)" using xz p(1) by (rule rtranclp.rtrancl_into_rtrancl)
  from pubsub_reach_inv [OF reach_steps [OF xu reach]] have "sub_node ?u = node_run node ds s0"
    using p(2) c(3) by (auto simp: pubsub_inv_def Let_def running_def node_after_def)
  with xu show ?thesis by blast
qed

end
