(* ===== verification/Node_Pipeline.thy ===== *)
theory Node_Pipeline
  imports Pub_Sub
begin

text \<open>
  \<open>src/src/node_pipeline/node_pipeline.h\<close> and \<open>.cpp\<close>: a pipeline is a node with its producer and
  consumers. The sockets are represented by their addresses, the publisher and subscriber objects by the
  address they were made for. \<open>subscribeTo\<close> joins two different pipelines.
\<close>

datatype ZMQTransportType = INPROC | IPC | TCP

record NodePipeline =
  np_name :: string
  np_node_consumers :: "string list"
  np_consumers :: "string list"
  np_producer :: "string option"

definition transport_prefix :: "ZMQTransportType \<Rightarrow> cpp_exn + string" where
  "transport_prefix transport_type =
     (case transport_type of INPROC \<Rightarrow> Inr ''inproc://'' | IPC \<Rightarrow> Inr ''ipc://'' | TCP \<Rightarrow> Inl RuntimeError)"

definition connect_prefix :: "ZMQTransportType \<Rightarrow> NodePipeline \<Rightarrow> NodePipeline \<Rightarrow> cpp_exn + string" where
  "connect_prefix transport_type other_pipeline p =
     rbind (transport_prefix transport_type) (\<lambda>prefix. Inr (prefix @ np_name other_pipeline @ ''_to_'' @ np_name p))"

text \<open>The address of the synchronisation sockets.\<close>

definition SYNC_SUFFIX :: string where "SYNC_SUFFIX = ''_sync''"

definition sync_address :: "string \<Rightarrow> string" where "sync_address address = address @ SYNC_SUFFIX"

definition np_setNode :: "string \<Rightarrow> NodePipeline \<Rightarrow> NodePipeline" where
  "np_setNode node p = p\<lparr>np_name := node\<rparr>"

definition np_addConsumer :: "string \<Rightarrow> NodePipeline \<Rightarrow> NodePipeline" where
  "np_addConsumer consumer p = p\<lparr>np_consumers := np_consumers p @ [consumer]\<rparr>"

definition np_setProducer :: "string \<Rightarrow> NodePipeline \<Rightarrow> NodePipeline" where
  "np_setProducer producer p = p\<lparr>np_producer := Some producer\<rparr>"

definition subscribeTo ::
  "ZMQTransportType \<Rightarrow> NodePipeline \<Rightarrow> NodePipeline \<Rightarrow> cpp_exn + NodePipeline \<times> NodePipeline"
where
  "subscribeTo transport_type other_pipeline p =
     rbind (connect_prefix transport_type other_pipeline p) (\<lambda>address.
       Inr (np_addConsumer address
              (other_pipeline\<lparr>np_node_consumers := np_node_consumers other_pipeline @ [address]\<rparr>),
            np_setProducer address p))"

text \<open>The order in which a pipeline starts its parts; what one throws keeps the later ones from starting.\<close>

definition pipeline_start ::
  "('p \<Rightarrow> 'p \<times> ending) \<Rightarrow> ('n \<Rightarrow> 'n \<times> ending) \<Rightarrow> 'c Consumer \<Rightarrow> 'p \<times> 'n \<times> 'c list \<Rightarrow> ('p \<times> 'n \<times> 'c list) \<times> ending"
where
  "pipeline_start producer_start node_start C st =
     (let (p, n, cs) = st in
      case producer_start p of
        (p, Done) \<Rightarrow>
          (case node_start n of
             (n, Done) \<Rightarrow> (let (cs, r) = each (consumer_start C) cs in ((p, n, cs), r))
           | (n, r) \<Rightarrow> ((p, n, cs), r))
      | (p, r) \<Rightarrow> ((p, n, cs), r))"

text \<open>Every consumer that the node of a pipeline passes data to by a subscription is started with the
  pipeline.\<close>

lemma subscribeTo_consumers:
  assumes "subscribeTo t q p = Inr (q', p')" and "set (np_node_consumers q) \<subseteq> set (np_consumers q)"
  shows "set (np_node_consumers q') \<subseteq> set (np_consumers q')" and "np_producer p' = Some (last (np_consumers q'))"
  using assms by (auto simp: subscribeTo_def rbind_eq_Inr_iff np_addConsumer_def np_setProducer_def)

text \<open>Names of nodes that contain the infix of the address can make two addresses equal.\<close>

lemma connect_prefix_clash:
  assumes "np_name q = ''a''" "np_name p = ''b_to_c''" "np_name q' = ''a_to_b''" "np_name p' = ''c''"
  shows "connect_prefix t q p = connect_prefix t q' p'"
  by (simp add: connect_prefix_def assms)

section \<open>A handler in a node of its own\<close>

text \<open>The node gets the batches one message each: its handler goes through the states it has when it is
  called for one batch after the other, whatever it returns and whatever the consumers do.\<close>

lemma node_handleData_state:
  "node_data_handler (fst (node_handleData D C node data)) = fst (D (node_data_handler node) data)"
  by (auto simp: node_handleData_def split: prod.split sum.split)

lemma remote_states:
  assumes "ipc_laws I valid" and "list_all valid bs" and "serializeRecordBatches I bs = Inr ss"
  shows "node_data_handler (node_run (node_handleData (serialized_handle I h) C) ss node) =
    foldl (\<lambda>s b. fst (h s [b])) (node_data_handler node) bs"
  using assms(2,3)
proof (induction bs arbitrary: ss node)
  case (Cons b bs)
  then obtain x ss' where x: "write_stream I b = Inr x" "serializeRecordBatches I bs = Inr ss'" "ss = x # ss'"
    by (auto simp: serializeRecordBatches_def rbind_eq_Inr_iff)
  obtain y where "write_stream I b = Inr y" "read_stream I y = Inr [b]"
    using assms(1) Cons.prems(1) by (auto simp: ipc_laws_def)
  then have r: "deserializeRecordBatches I x = Inr [b]" using x(1) by (simp add: deserializeRecordBatches_def)
  have "fst (serialized_handle I h s x) = fst (h s [b])" for s
    by (simp add: serialized_handle_def r split: prod.split)
  then show ?case using Cons.IH [OF _ x(2)] Cons.prems(1) by (simp add: x(3) node_run_def node_handleData_state)
qed (simp add: serializeRecordBatches_def node_run_def)

text \<open>What it passes on: for each batch it could handle, the batches of the result, in order.\<close>

definition remote_results :: "'s vector_handler \<Rightarrow> 's \<Rightarrow> batch list \<Rightarrow> batch list" where
  "remote_results h s bs =
     concat (map (\<lambda>i. case snd (h (foldl (\<lambda>s b. fst (h s [b])) s (take i bs)) [bs ! i]) of Inl _ \<Rightarrow> [] | Inr rs \<Rightarrow> rs)
       [0..<length bs])"

lemma remote_results_Cons:
  "remote_results h s (b # bs) =
     (case snd (h s [b]) of Inl _ \<Rightarrow> [] | Inr rs \<Rightarrow> rs) @ remote_results h (fst (h s [b])) bs"
proof -
  have "[0..<Suc (length bs)] = 0 # map Suc [0..<length bs]" by (simp add: map_Suc_upt upt_conv_Cons del: upt_Suc)
  then show ?thesis unfolding remote_results_def by (simp add: comp_def del: upt_Suc)
qed

lemma remote_consumers:
  assumes "ipc_laws I valid" and "list_all valid bs" and "serializeRecordBatches I bs = Inr ss"
    and "no_fault C" and "\<forall>s b e. snd (h s [b]) = Inl e \<longrightarrow> \<not> abnormal e"
    and "\<forall>s b rs. snd (h s [b]) = Inr rs \<longrightarrow> list_all valid rs"
  shows "\<exists>out. serializeRecordBatches I (remote_results h (node_data_handler node) bs) = Inr out \<and>
    node_consumers (node_run (node_handleData (serialized_handle I h) C) ss node) =
      map (\<lambda>c. consume_all C c out) (node_consumers node)"
  using assms(2,3)
proof (induction bs arbitrary: ss node)
  case (Cons b bs)
  then obtain x ss' where x: "write_stream I b = Inr x" "serializeRecordBatches I bs = Inr ss'" "ss = x # ss'"
    by (auto simp: serializeRecordBatches_def rbind_eq_Inr_iff)
  obtain y where "write_stream I b = Inr y" "read_stream I y = Inr [b]"
    using assms(1) Cons.prems(1) by (auto simp: ipc_laws_def)
  then have r: "deserializeRecordBatches I x = Inr [b]" using x(1) by (simp add: deserializeRecordBatches_def)
  let ?n = "fst (node_handleData (serialized_handle I h) C node x)"
  have st: "node_data_handler ?n = fst (h (node_data_handler node) [b])"
    by (simp add: node_handleData_state serialized_handle_def r split: prod.split)
  obtain out where out: "serializeRecordBatches I (remote_results h (node_data_handler ?n) bs) = Inr out"
    "node_consumers (node_run (node_handleData (serialized_handle I h) C) ss' ?n) = map (\<lambda>c. consume_all C c out) (node_consumers ?n)"
    using Cons.IH [OF _ x(2), of ?n] Cons.prems(1) by auto
  obtain s' r' where h: "h (node_data_handler node) [b] = (s', r')" by force
  have app: "serializeRecordBatches I (xs @ ys) = Inr (u @ v)"
    if "serializeRecordBatches I xs = Inr u" "serializeRecordBatches I ys = Inr v" for xs ys u v
    using that by (induction xs arbitrary: u) (auto simp: serializeRecordBatches_def rbind_eq_Inr_iff)
  show ?case
  proof (cases r')
    case (Inl e)
    then have "\<not> abnormal e" using assms(5) h by (metis snd_conv)
    then have "node_consumers ?n = node_consumers node"
      using h Inl by (simp add: node_handleData_def serialized_handle_def r)
    then show ?thesis using out by (simp add: remote_results_Cons h Inl st x(3) node_run_def)
  next
    case (Inr rs)
    then have "list_all valid rs" using assms(6) h by (metis snd_conv)
    then obtain o1 where o1: "serializeRecordBatches I rs = Inr o1" using serialize_deserialize [OF assms(1)] by blast
    then have "node_consumers ?n = map (\<lambda>c. consume_all C c o1) (node_consumers node)"
      using h Inr by (simp add: node_handleData_def serialized_handle_def r passData_all [OF assms(4)])
    then show ?thesis using out app [OF o1 out(1)]
      by (simp add: remote_results_Cons h Inr st x(3) node_run_def consume_all_def comp_def)
  qed
qed (simp add: serializeRecordBatches_def node_run_def remote_results_def consume_all_def)

end
