(* ===== verification/Print_Consumer.thy ===== *)
theory Print_Consumer
  imports Node
begin

text \<open>
  \<open>src/src/consumers/print_consumer.h\<close> and \<open>.cpp\<close>: the consumer that prints the record batches
  it gets as tables. The output stream is represented by the calls of the table printer (\<open>bprinter\<close>,
  a third-party library) it has seen.
\<close>

datatype table_call =
    AddColumn_call string nat
  | PrintHeader
  | Cell string
  | PrintFooter
  | Endl

definition INT_COLUMN_WIDTH :: nat where "INT_COLUMN_WIDTH = 15"
definition DOUBLE_COLUMN_WIDTH :: nat where "DOUBLE_COLUMN_WIDTH = 20"
definition STRING_COLUMN_WIDTH :: nat where "STRING_COLUMN_WIDTH = 25"
definition DEFAULT_COLUMN_WIDTH :: nat where "DEFAULT_COLUMN_WIDTH = 15"

definition column_width :: "arrow_type_id \<Rightarrow> nat" where
  "column_width ty =
     (case ty of
        INT64 \<Rightarrow> INT_COLUMN_WIDTH
      | DOUBLE \<Rightarrow> DOUBLE_COLUMN_WIDTH
      | STRING \<Rightarrow> STRING_COLUMN_WIDTH
      | _ \<Rightarrow> DEFAULT_COLUMN_WIDTH)"

text \<open>The cells up to the first that cannot be read, and whether there was one.\<close>

fun print_cells :: "arrow_lib \<Rightarrow> (nat \<times> arrow_array) list \<Rightarrow> table_call list \<times> bool" where
  "print_cells A [] = ([], True)"
| "print_cells A ((i, column) # cells) =
     (case GetScalar A column (int i) of
        Inl _ \<Rightarrow> ([], False)
      | Inr v \<Rightarrow> (let (cs, ok) = print_cells A cells in (Cell (ToString A v) # cs, ok)))"

definition printRecordBatch :: "arrow_lib \<Rightarrow> batch \<Rightarrow> table_call list \<times> ending" where
  "printRecordBatch A record_batch =
     (let header = map (\<lambda>field. AddColumn_call (f_name field) (column_width (type_id (f_type field))))
            (sch_fields (b_schema record_batch)) @ [PrintHeader];
          (cells, ok) = print_cells A
            (concat (map (\<lambda>i. map (\<lambda>column. (i, column)) (b_columns record_batch)) [0..<b_num_rows record_batch]))
      in if ok then (header @ cells @ [PrintFooter, Endl], Done) else (header @ cells, Threw RuntimeError))"

fun print_batches :: "arrow_lib \<Rightarrow> batch list \<Rightarrow> table_call list \<Rightarrow> table_call list \<times> ending" where
  "print_batches A [] ostrm = (ostrm, Done)"
| "print_batches A (record_batch # record_batches) ostrm =
     (case printRecordBatch A record_batch of
        (cs, Done) \<Rightarrow> print_batches A record_batches (ostrm @ cs)
      | (cs, r) \<Rightarrow> (ostrm @ cs, r))"

definition print_consume :: "arrow_lib \<Rightarrow> io_lib \<Rightarrow> table_call list \<Rightarrow> string \<Rightarrow> table_call list \<times> ending" where
  "print_consume A I ostrm data =
     (case deserializeRecordBatches I data of
        Inl e \<Rightarrow> (ostrm, if abnormal e then Fault e else Threw RuntimeError)
      | Inr record_batches \<Rightarrow> print_batches A record_batches ostrm)"

definition PrintConsumer :: "arrow_lib \<Rightarrow> io_lib \<Rightarrow> table_call list Consumer" where
  "PrintConsumer A I =
     \<lparr>consumer_start = (\<lambda>c. (c, Done)), consume = print_consume A I, consumer_stop = (\<lambda>c. (c, Done))\<rparr>"

text \<open>A whole table has a cell for each row and column, in the order of the rows.\<close>

lemma print_cells_all:
  assumes "\<And>i column. (i, column) \<in> set cells \<Longrightarrow> GetScalar A column (int i) = Inr (a_values column ! i)"
  shows "print_cells A cells = (map (\<lambda>(i, column). Cell (ToString A (a_values column ! i))) cells, True)"
  using assms by (induction cells) auto

lemma printRecordBatch_all:
  assumes "\<And>i column. i < b_num_rows b \<Longrightarrow> column \<in> set (b_columns b) \<Longrightarrow>
    GetScalar A column (int i) = Inr (a_values column ! i)"
  shows "printRecordBatch A b =
    (map (\<lambda>f. AddColumn_call (f_name f) (column_width (type_id (f_type f)))) (sch_fields (b_schema b)) @ PrintHeader #
       concat (map (\<lambda>i. map (\<lambda>column. Cell (ToString A (a_values column ! i))) (b_columns b)) [0..<b_num_rows b]) @
       [PrintFooter, Endl], Done)"
proof -
  have "print_cells A (concat (map (\<lambda>i. map (\<lambda>column. (i, column)) (b_columns b)) [0..<b_num_rows b])) =
      (map (\<lambda>(i, column). Cell (ToString A (a_values column ! i)))
        (concat (map (\<lambda>i. map (\<lambda>column. (i, column)) (b_columns b)) [0..<b_num_rows b])), True)"
    by (rule print_cells_all) (auto simp: assms)
  then show ?thesis by (simp add: printRecordBatch_def map_concat comp_def)
qed

end
