(* ===== verification/Unix_Server.thy ===== *)
theory Unix_Server
  imports Node
begin

text \<open>
  \<open>src/src/server/unix_socket_server.h\<close> and \<open>.cpp\<close>, and \<open>main\<close> of
  \<open>src/src/kapacitor_udf/main.cpp\<close>: one server for each UDF whose socket path is given on the command
  line; a lock file keeps a second server from a path. The system calls on files are the parameter \<open>F\<close>
  over a state of the system, the clients are objects with \<open>start\<close> and \<open>stop\<close>.
\<close>

section \<open>UnixSocketServer\<close>

record 'o file_calls =
  open_lock_file :: "'o \<Rightarrow> string \<Rightarrow> 'o \<times> int"
  flock_exclusive :: "'o \<Rightarrow> int \<Rightarrow> 'o \<times> bool"
  flock_unlock :: "'o \<Rightarrow> int \<Rightarrow> 'o"
  close_fd :: "'o \<Rightarrow> int \<Rightarrow> 'o"
  unlink_socket :: "'o \<Rightarrow> string \<Rightarrow> 'o \<times> bool"

record 'c UnixSocketServer =
  socket_path :: string
  listening :: bool
  handle_closed :: bool
  socket_lock_fd :: int
  clients :: "'c list"

record 'c Client =
  client_start :: "'c \<Rightarrow> 'c \<times> ending"
  client_stop :: "'c \<Rightarrow> 'c \<times> ending"

definition SOCKET_LOCK_FILE_SUFFIX :: string where "SOCKET_LOCK_FILE_SUFFIX = ''.lock''"

text \<open>The descriptor is not initialised: it is what the memory held.\<close>

definition new_server :: "int \<Rightarrow> string \<Rightarrow> 'c UnixSocketServer" where
  "new_server memory path =
     \<lparr>socket_path = path, listening = False, handle_closed = False, socket_lock_fd = memory, clients = []\<rparr>"

text \<open>\<open>unlink_socket\<close> is true when the file was removed or was not there.\<close>

definition server_start :: "'o file_calls \<Rightarrow> 'o \<Rightarrow> 'c UnixSocketServer \<Rightarrow> 'o \<times> 'c UnixSocketServer" where
  "server_start F sys server =
     (let (sys, fd) = open_lock_file F sys (socket_path server @ SOCKET_LOCK_FILE_SUFFIX);
          server = server\<lparr>socket_lock_fd := fd\<rparr>
      in if fd = - 1 then (sys, server)
         else
           (let (sys, locked) = flock_exclusive F sys fd in
            if \<not> locked then (close_fd F sys fd, server)
            else
              (let (sys, unlinked) = unlink_socket F sys (socket_path server) in
               if \<not> unlinked then (close_fd F sys fd, server)
               else (sys, server\<lparr>listening := True\<rparr>))))"

definition server_stop ::
  "'o file_calls \<Rightarrow> 'c Client \<Rightarrow> 'o \<Rightarrow> 'c UnixSocketServer \<Rightarrow> ('o \<times> 'c UnixSocketServer) \<times> ending"
where
  "server_stop F C sys server =
     (let (cs, r) = each (client_stop C) (clients server); server = server\<lparr>clients := cs\<rparr>
      in if r \<noteq> Done then ((sys, server), r)
         else ((close_fd F (flock_unlock F sys (socket_lock_fd server)) (socket_lock_fd server),
                server\<lparr>handle_closed := True, listening := False\<rparr>), Done))"

definition handleNewConnection ::
  "'c Client \<Rightarrow> ('k \<Rightarrow> 'c) \<Rightarrow> 'k \<Rightarrow> 'c UnixSocketServer \<Rightarrow> 'c UnixSocketServer \<times> ending"
where
  "handleNewConnection C createClient connection server =
     (let (c, r) = client_start C (createClient connection)
      in (server\<lparr>clients := clients server @ [c]\<rparr>, r))"

section \<open>main\<close>

definition udf_options :: "string list" where
  "udf_options = [''batch-aggr'', ''stream-aggr'', ''window'', ''adj-level'', ''der'']"

text \<open>What the option parser (\<open>cxxopts\<close>) makes of the command line: nothing if it throws, otherwise
  whether help is wanted and the values given for each option.\<close>

datatype 'c start_up = Exit int | Run "(string \<times> 'c UnixSocketServer) list"

definition socket_paths :: "(string \<Rightarrow> string list) \<Rightarrow> (string \<times> string) list" where
  "socket_paths values_of =
     map (\<lambda>option_name. (option_name, hd (values_of option_name)))
       (filter (\<lambda>option_name. length (values_of option_name) = 1) udf_options)"

definition sdp_main :: "int \<Rightarrow> (bool \<times> (string \<Rightarrow> string list)) option \<Rightarrow> 'c start_up" where
  "sdp_main memory arguments_parse_result =
     (case arguments_parse_result of
        None \<Rightarrow> Exit 1
      | Some (help, values_of) \<Rightarrow>
          if help then Exit 0
          else if socket_paths values_of = [] then Exit 0
          else Run (map (\<lambda>(option_name, path). (option_name, new_server memory path)) (socket_paths values_of)))"

fun start_servers :: "'o file_calls \<Rightarrow> 'o \<Rightarrow> 'c UnixSocketServer list \<Rightarrow> 'o \<times> 'c UnixSocketServer list" where
  "start_servers F sys [] = (sys, [])"
| "start_servers F sys (server # servers) =
     (let (sys, server) = server_start F sys server; (sys, servers) = start_servers F sys servers
      in (sys, server # servers))"

text \<open>The signal handler.\<close>

fun stop_servers ::
  "'o file_calls \<Rightarrow> 'c Client \<Rightarrow> 'o \<Rightarrow> 'c UnixSocketServer list \<Rightarrow> ('o \<times> 'c UnixSocketServer list) \<times> ending"
where
  "stop_servers F C sys [] = ((sys, []), Done)"
| "stop_servers F C sys (server # servers) =
     (case server_stop F C sys server of
        ((sys, server), Done) \<Rightarrow>
          (let ((sys, servers), r) = stop_servers F C sys servers in ((sys, server # servers), r))
      | ((sys, server), r) \<Rightarrow> ((sys, server # servers), r))"

section \<open>One server for a path\<close>

text \<open>What is assumed of the system: an open descriptor is new, a file is locked through one descriptor
  at a time; \<open>path_of\<close> and \<open>lock_of\<close> tell the file of a descriptor and the descriptor that has locked
  a file.\<close>

definition file_laws :: "'o file_calls \<Rightarrow> ('o \<Rightarrow> int \<Rightarrow> string option) \<Rightarrow> ('o \<Rightarrow> string \<Rightarrow> int option) \<Rightarrow> bool" where
  "file_laws F path_of lock_of \<longleftrightarrow>
     (\<forall>sys path sys' fd. open_lock_file F sys path = (sys', fd) \<longrightarrow>
        lock_of sys' = lock_of sys \<and> path_of sys' = (if fd = - 1 then path_of sys else (path_of sys)(fd \<mapsto> path)) \<and>
        path_of sys fd = None) \<and>
     (\<forall>sys fd sys' ok p. flock_exclusive F sys fd = (sys', ok) \<longrightarrow> path_of sys fd = Some p \<longrightarrow>
        path_of sys' = path_of sys \<and> (ok \<longrightarrow> lock_of sys p \<in> {None, Some fd}) \<and>
        lock_of sys' = (if ok then (lock_of sys)(p \<mapsto> fd) else lock_of sys)) \<and>
     (\<forall>sys fd. path_of (close_fd F sys fd) = (path_of sys)(fd := None) \<and>
        (\<forall>p. lock_of (close_fd F sys fd) p = (if lock_of sys p = Some fd then None else lock_of sys p))) \<and>
     (\<forall>sys path. path_of (fst (unlink_socket F sys path)) = path_of sys \<and>
        lock_of (fst (unlink_socket F sys path)) = lock_of sys)"

definition holds_lock ::
  "('o \<Rightarrow> int \<Rightarrow> string option) \<Rightarrow> ('o \<Rightarrow> string \<Rightarrow> int option) \<Rightarrow> 'o \<Rightarrow> string \<Rightarrow> int \<Rightarrow> bool"
where
  "holds_lock path_of lock_of sys path fd \<longleftrightarrow>
     path_of sys fd = Some (path @ SOCKET_LOCK_FILE_SUFFIX) \<and> lock_of sys (path @ SOCKET_LOCK_FILE_SUFFIX) = Some fd"

lemma server_start_lock:
  assumes laws: "file_laws F path_of lock_of" and start: "server_start F sys server = (sys', server')"
    and fresh: "\<not> listening server" and valid: "\<forall>p fd. lock_of sys p = Some fd \<longrightarrow> path_of sys fd = Some p"
  shows "(listening server' \<longrightarrow> holds_lock path_of lock_of sys' (socket_path server') (socket_lock_fd server') \<and>
      lock_of sys (socket_path server @ SOCKET_LOCK_FILE_SUFFIX) = None) \<and>
    socket_path server' = socket_path server \<and>
    (\<forall>path fd. holds_lock path_of lock_of sys path fd \<longrightarrow> holds_lock path_of lock_of sys' path fd) \<and>
    (\<forall>p fd. lock_of sys' p = Some fd \<longrightarrow> path_of sys' fd = Some p)"
proof -
  let ?p = "socket_path server @ SOCKET_LOCK_FILE_SUFFIX"
  obtain s1 fd where o': "open_lock_file F sys ?p = (s1, fd)" by force
  have s1: "lock_of s1 = lock_of sys" "path_of s1 = (if fd = - 1 then path_of sys else (path_of sys)(fd \<mapsto> ?p))" "path_of sys fd = None"
    using laws o' unfolding file_laws_def by blast+
  have nl: "\<forall>p. lock_of sys p \<noteq> Some fd" using valid s1(3) by force
  obtain s2 ok where l: "flock_exclusive F s1 fd = (s2, ok)" by force
  obtain s3 un where u: "unlink_socket F s2 (socket_path server) = (s3, un)" by force
  have s3: "path_of s3 = path_of s2" "lock_of s3 = lock_of s2"
    using laws u unfolding file_laws_def by (metis fst_conv)+
  have close: "path_of (close_fd F s fd) = (path_of s)(fd := None)"
    "lock_of (close_fd F s fd) p = (if lock_of s p = Some fd then None else lock_of s p)" for s p
    using laws unfolding file_laws_def by blast+
  show ?thesis
  proof (cases "fd = - 1")
    case True
    then show ?thesis using start o' s1 fresh valid by (auto simp: server_start_def holds_lock_def)
  next
    case False
    then have "path_of s1 fd = Some ?p" using s1(2) by simp
    then have s2: "path_of s2 = path_of s1" "ok \<longrightarrow> lock_of s1 ?p \<in> {None, Some fd}"
      "lock_of s2 = (if ok then (lock_of s1)(?p \<mapsto> fd) else lock_of s1)"
      using laws l unfolding file_laws_def by blast+
    have keeps: "path_of s f = Some p" if "path_of sys f = Some p" "path_of s = (path_of sys)(fd := x)" for s f p x
      using that s1(3) by auto
    show ?thesis
    proof (cases "ok \<and> un")
      case True
      then show ?thesis using False start o' l u s1 s2 s3 nl valid
        by (auto simp: server_start_def holds_lock_def)
    next
      case no: False
      then have st: "server' = server\<lparr>socket_lock_fd := fd\<rparr>"
        "sys' = close_fd F (if ok then s3 else s2) fd"
        using False no start o' l u by (auto simp: server_start_def Let_def split: if_splits)
      have pth: "path_of sys' = path_of sys" using False s1 s2 s3 close by (auto simp: st fun_eq_iff)
      have "lock_of sys' p = lock_of sys p" for p
        using False s1 s2 s3 close nl by (auto simp: st)
      then show ?thesis using fresh valid pth by (simp add: st holds_lock_def)
    qed
  qed
qed

lemma servers_exclude:
  assumes laws: "file_laws F path_of lock_of" and start: "start_servers F sys servers = (sys', servers')"
    and fresh: "\<forall>s \<in> set servers. \<not> listening s" and valid: "\<forall>p fd. lock_of sys p = Some fd \<longrightarrow> path_of sys fd = Some p"
  shows "map socket_path servers' = map socket_path servers \<and>
    (\<forall>s \<in> set servers'. listening s \<longrightarrow> holds_lock path_of lock_of sys' (socket_path s) (socket_lock_fd s) \<and>
       lock_of sys (socket_path s @ SOCKET_LOCK_FILE_SUFFIX) = None) \<and>
    distinct (map socket_path (filter listening servers')) \<and>
    (\<forall>path fd. holds_lock path_of lock_of sys path fd \<longrightarrow> holds_lock path_of lock_of sys' path fd)"
  using start fresh valid
proof (induction servers arbitrary: sys servers')
  case (Cons s servers)
  obtain s1 s' where st: "server_start F sys s = (s1, s')" by force
  obtain ss' where ss: "start_servers F s1 servers = (sys', ss')" "servers' = s' # ss'"
    using Cons.prems(1) st by (auto split: prod.splits)
  note a = server_start_lock [OF laws st _ Cons.prems(3)]
  have s: "listening s' \<longrightarrow> holds_lock path_of lock_of s1 (socket_path s') (socket_lock_fd s') \<and> lock_of sys (socket_path s @ SOCKET_LOCK_FILE_SUFFIX) = None"
    "socket_path s' = socket_path s" "\<forall>path fd. holds_lock path_of lock_of sys path fd \<longrightarrow> holds_lock path_of lock_of s1 path fd"
    "\<forall>p fd. lock_of s1 p = Some fd \<longrightarrow> path_of s1 fd = Some p"
    using a Cons.prems(2) by auto
  have ih: "map socket_path ss' = map socket_path servers"
    "\<forall>t \<in> set ss'. listening t \<longrightarrow> holds_lock path_of lock_of sys' (socket_path t) (socket_lock_fd t) \<and> lock_of s1 (socket_path t @ SOCKET_LOCK_FILE_SUFFIX) = None"
    "distinct (map socket_path (filter listening ss'))"
    "\<forall>path fd. holds_lock path_of lock_of s1 path fd \<longrightarrow> holds_lock path_of lock_of sys' path fd"
    using Cons.IH [OF ss(1) _ s(4)] Cons.prems(2) by auto
  have none: "lock_of sys (socket_path t @ SOCKET_LOCK_FILE_SUFFIX) = None" if "t \<in> set ss'" "listening t" for t
  proof (rule ccontr)
    assume "lock_of sys (socket_path t @ SOCKET_LOCK_FILE_SUFFIX) \<noteq> None"
    then obtain fd where fd: "lock_of sys (socket_path t @ SOCKET_LOCK_FILE_SUFFIX) = Some fd" by blast
    then have "holds_lock path_of lock_of sys (socket_path t) fd" using Cons.prems(3) by (simp add: holds_lock_def)
    then have "holds_lock path_of lock_of s1 (socket_path t) fd" using s(3) by blast
    then show False using ih(2) that by (simp add: holds_lock_def)
  qed
  have "socket_path s' \<notin> set (map socket_path (filter listening ss'))" if "listening s'"
    using s(1,2) ih(2) that by (force simp: holds_lock_def)
  then show ?case using s ih none by (auto simp: ss(2))
qed simp

section \<open>A small file system\<close>

text \<open>With five descriptors, the lowest free one being opened; all of the assumptions hold of it.\<close>

record small_fs =
  fs_files :: "int \<Rightarrow> string option"
  fs_locks :: "string \<Rightarrow> int option"

definition small_path :: "small_fs \<Rightarrow> int \<Rightarrow> string option" where
  "small_path s fd = (if fd = - 1 then None else fs_files s fd)"

definition free_descriptor :: "small_fs \<Rightarrow> int" where
  "free_descriptor s = (case filter (\<lambda>fd. fs_files s fd = None) [3, 4, 5, 6, 7] of [] \<Rightarrow> - 1 | fd # _ \<Rightarrow> fd)"

definition small_calls :: "small_fs file_calls" where
  "small_calls =
     \<lparr>open_lock_file = (\<lambda>s path. let fd = free_descriptor s
        in (if fd = - 1 then s else s\<lparr>fs_files := (fs_files s)(fd \<mapsto> path)\<rparr>, fd)),
      flock_exclusive = (\<lambda>s fd. case small_path s fd of
          None \<Rightarrow> (s, False)
        | Some path \<Rightarrow>
            (case fs_locks s path of
               None \<Rightarrow> (s\<lparr>fs_locks := (fs_locks s)(path \<mapsto> fd)\<rparr>, True)
             | Some other \<Rightarrow> (s, other = fd))),
      flock_unlock = (\<lambda>s fd. s\<lparr>fs_locks := (\<lambda>path. if fs_locks s path = Some fd then None else fs_locks s path)\<rparr>),
      close_fd = (\<lambda>s fd. s\<lparr>fs_files := (fs_files s)(fd := None),
        fs_locks := (\<lambda>path. if fs_locks s path = Some fd then None else fs_locks s path)\<rparr>),
      unlink_socket = (\<lambda>s path. (s, True))\<rparr>"

lemma free_descriptor: "free_descriptor s = - 1 \<or> fs_files s (free_descriptor s) = None"
  by (auto simp: free_descriptor_def split: list.split dest: filter_eq_ConsD)

lemma small_laws: "file_laws small_calls small_path fs_locks"
  unfolding file_laws_def small_calls_def
  using free_descriptor
  by (auto simp: Let_def small_path_def fun_eq_iff split: if_splits option.splits)

definition no_files :: small_fs where
  "no_files = \<lparr>fs_files = Map.empty, fs_locks = Map.empty\<rparr>"

text \<open>A server that could not be started is stopped nevertheless: it unlocks and closes a descriptor
  that may belong to another server by then. Here the first path is locked by another process, the second
  server gets the descriptor that the first one has closed, and loses its lock when the first one is
  stopped.\<close>

definition other_process :: small_fs where
  "other_process = no_files\<lparr>fs_locks := [''/a.lock'' \<mapsto> 100]\<rparr>"

lemma stop_of_a_server_not_started:
  "let (sys, servers) = start_servers small_calls other_process
         [new_server 0 ''/a'', new_server 0 ''/b'' :: unit UnixSocketServer];
       ((sys', _), _) = server_stop small_calls \<lparr>client_start = (\<lambda>c. (c, Done)), client_stop = (\<lambda>c. (c, Done))\<rparr> sys (servers ! 0)
   in map listening servers = [False, True] \<and> fs_locks sys ''/b.lock'' = Some 3 \<and> fs_locks sys' ''/b.lock'' = None"
  by code_simp

end
