(* ===== verification/Udf_Clients.thy ===== *)
theory Udf_Clients
  imports Udf_Agent Udf_Handlers Unix_Server
begin

text \<open>
  \<open>src/src/kapacitor_udf/udf_agent_client_factory.h\<close>: the client a server makes for a connection: an
  agent with the request handler of the UDF.
\<close>

text \<open>\<open>AgentClient\<close>: an execution the agent cannot go on from is one of the server.\<close>

definition agent_ending :: "'h UDFAgent \<Rightarrow> 'h UDFAgent \<times> ending" where
  "agent_ending a = (a, case halted a of None \<Rightarrow> Done | Some e \<Rightarrow> Fault e)"

definition AgentClient :: "message_lib \<Rightarrow> 'h RequestHandler \<Rightarrow> 'h UDFAgent Client" where
  "AgentClient M ops =
     \<lparr>client_start = (\<lambda>a. agent_ending (agent_start ops M a)), client_stop = (\<lambda>a. agent_ending (agent_stop ops M a))\<rparr>"

text \<open>The handlers as they are constructed; a timeout is what the memory held until the handler is
  initialised.\<close>

definition new_timer_handler :: "'t \<Rightarrow> int \<Rightarrow> ('s, 't) TimerHandler" where
  "new_timer_handler timer memory = \<lparr>base_handler = None, emit_timer = timer, emit_timeout = memory\<rparr>"

text \<open>\<open>createClient\<close> of the five factories: the methods of the handler and the agent.\<close>

definition createBatchAggregateClient ::
  "arrow_lib \<Rightarrow> proto_lib \<Rightarrow> unit BatchHandler RequestHandler \<times> unit BatchHandler UDFAgent"
where
  "createBatchAggregateClient A P = (BatchAggregateRequestHandler A P, new_agent new_batch_handler)"

definition createStreamAggregateClient ::
  "arrow_lib \<Rightarrow> proto_lib \<Rightarrow> 't timer_lib \<Rightarrow> 't \<Rightarrow> int
     \<Rightarrow> 't StreamAggregateRequestHandler RequestHandler \<times> 't StreamAggregateRequestHandler UDFAgent"
where
  "createStreamAggregateClient A P T timer memory =
     (StreamAggregateRequestHandler A P T, new_agent (new_timer_handler timer memory))"

definition createDynamicWindowClient ::
  "arrow_lib \<Rightarrow> proto_lib \<Rightarrow> 't timer_lib \<Rightarrow> ParsedWindowOptions \<Rightarrow> 't \<Rightarrow> int
     \<Rightarrow> 't DynamicWindowRequestHandler RequestHandler \<times> 't DynamicWindowRequestHandler UDFAgent"
where
  "createDynamicWindowClient A P T options_memory timer memory =
     (DynamicWindowRequestHandler A P T options_memory, new_agent (new_timer_handler timer memory))"

definition createThresholdClient where
  "createThresholdClient A P options_memory =
     (StatefulThresholdRequestHandler A P options_memory, new_agent None)"

definition createDerivativeClient ::
  "arrow_lib \<Rightarrow> proto_lib \<Rightarrow> 't timer_lib \<Rightarrow> linear_solve \<Rightarrow> DerivativeParser \<Rightarrow> string \<Rightarrow> 't \<Rightarrow> int
     \<Rightarrow> 't DerivativeRequestHandler RequestHandler \<times> 't DerivativeRequestHandler UDFAgent"
where
  "createDerivativeClient A P T solve options_memory moved_string timer memory =
     (DerivativeRequestHandler A P T solve options_memory moved_string, new_agent (new_timer_handler timer memory))"

text \<open>A new connection is one more client, which waits for the first request: nothing is written, the
  handler has no storage yet.\<close>

lemma new_connection_silent:
  assumes "rh_start ops h = (h, [], Inr ())"
  shows "handleNewConnection (AgentClient M ops) (\<lambda>_. new_agent h) connection server =
    (server\<lparr>clients := clients server @ [(new_agent h)\<lparr>opened := True\<rparr>]\<rparr>, Done)"
  using assms by (simp add: handleNewConnection_def AgentClient_def agent_start_def new_agent_def agent_ending_def)

lemma handlers_start_silently:
  "rh_start (fst (createBatchAggregateClient A P)) h1 = (h1, [], Inr ())"
  "rh_start (fst (createStreamAggregateClient A P T timer memory)) h2 = (h2, [], Inr ())"
  "rh_start (fst (createDynamicWindowClient A P T options_memory timer memory)) h3 = (h3, [], Inr ())"
  "rh_start (fst (createDerivativeClient A P T solve derivative_memory moved_string timer memory)) h4 = (h4, [], Inr ())"
  by (simp_all add: createBatchAggregateClient_def createStreamAggregateClient_def createDynamicWindowClient_def
      createDerivativeClient_def BatchAggregateRequestHandler_def StreamAggregateRequestHandler_def
      DynamicWindowRequestHandler_def DerivativeRequestHandler_def batch_methods_def timer_methods_def return_def)

end
