(* ===== verification/Points_Roundtrip.thy ===== *)
theory Points_Roundtrip
  imports Points_Converter Reference_Proto "HOL-Library.Multiset"
begin

text \<open>
  The two directions of the points converter (\<open>src/src/kapacitor_udf/utils/points_converter.cpp\<close>)
  together. A column of a record batch made of points is described by how it reads a point and how the
  way back writes it; points whose groups are written in the form of \<open>encode\<close>, and which have the same
  columns as the other points of their group, come back with what a record batch keeps of a point.
\<close>

section \<open>Laws of the values\<close>

definition value_laws :: "arrow_lib \<Rightarrow> bool" where
  "value_laws A \<longleftrightarrow>
     (\<forall>a i. i < a_length a \<longrightarrow> GetScalar A a (int i) = Inr (a_values a ! i)) \<and>
     (\<forall>s. ToString A (string_scalar s) = s) \<and>
     (\<forall>t. CastTo A (int_scalar (Timestamp UNIT_NANO) t) (Timestamp UNIT_NANO) = Inr (int_scalar (Timestamp UNIT_NANO) t))"

section \<open>The columns of points\<close>

record point_column =
  c_name :: string
  c_type :: ColumnType
  c_arrow :: arrow_type
  c_read :: "Point \<Rightarrow> scalar"
  c_write :: "Point \<Rightarrow> Point \<Rightarrow> Point"

definition keyed_columns ::
  "ColumnType \<Rightarrow> arrow_type \<Rightarrow> (Point \<Rightarrow> (string, 'v) smap) \<Rightarrow> ('v \<Rightarrow> scalar) \<Rightarrow>
     (((string, 'v) smap \<Rightarrow> (string, 'v) smap) \<Rightarrow> Point \<Rightarrow> Point) \<Rightarrow> string list \<Rightarrow> point_column list"
where
  "keyed_columns ct ty sel sc upd ks =
     map (\<lambda>k. \<lparr>c_name = k, c_type = ct, c_arrow = ty, c_read = (\<lambda>p. sc (the (map_of (sel p) k))),
       c_write = (\<lambda>p. upd (smap_put k (the (map_of (sel p) k))))\<rparr>) ks"

definition special_columns :: "PointsToRecordBatchesConversionOptions \<Rightarrow> point_column list" where
  "special_columns options =
     [\<lparr>c_name = pc_time_column_name options, c_type = TIME, c_arrow = Timestamp UNIT_NANO,
       c_read = (\<lambda>p. int_scalar (Timestamp UNIT_NANO) (p_time p)), c_write = (\<lambda>p q. q\<lparr>p_time := p_time p\<rparr>)\<rparr>,
      \<lparr>c_name = pc_measurement_column_name options, c_type = MEASUREMENT, c_arrow = Plain STRING,
       c_read = (\<lambda>p. string_scalar (p_name p)), c_write = (\<lambda>p q. q\<lparr>p_name := p_name p\<rparr>)\<rparr>]"

definition point_columns :: "PointsToRecordBatchesConversionOptions \<Rightarrow> Point \<Rightarrow> point_column list" where
  "point_columns options p0 =
     special_columns options @
     keyed_columns TAG (Plain STRING) p_tags string_scalar p_tags_update (map fst (p_tags p0)) @
     keyed_columns FIELD (Plain INT64) p_fieldsInt (int_scalar (Plain INT64)) p_fieldsInt_update (map fst (p_fieldsInt p0)) @
     keyed_columns FIELD (Plain DOUBLE) p_fieldsDouble double_scalar p_fieldsDouble_update (map fst (p_fieldsDouble p0)) @
     keyed_columns FIELD (Plain STRING) p_fieldsString string_scalar p_fieldsString_update (map fst (p_fieldsString p0)) @
     keyed_columns FIELD (Plain BOOL) p_fieldsBool bool_scalar p_fieldsBool_update (map fst (p_fieldsBool p0))"

text \<open>The points of a group have the same tags and fields.\<close>

definition same_columns :: "Point \<Rightarrow> Point \<Rightarrow> bool" where
  "same_columns p q \<longleftrightarrow>
     map fst (p_tags p) = map fst (p_tags q) \<and> map fst (p_fieldsInt p) = map fst (p_fieldsInt q) \<and>
     map fst (p_fieldsDouble p) = map fst (p_fieldsDouble q) \<and>
     map fst (p_fieldsString p) = map fst (p_fieldsString q) \<and> map fst (p_fieldsBool p) = map fst (p_fieldsBool q)"

definition wf_point :: "PointsToRecordBatchesConversionOptions \<Rightarrow> Point \<Rightarrow> bool" where
  "wf_point options p \<longleftrightarrow>
     smap (p_tags p) \<and> smap (p_fieldsInt p) \<and> smap (p_fieldsDouble p) \<and> smap (p_fieldsString p) \<and> smap (p_fieldsBool p) \<and>
     distinct (map c_name (point_columns options p))"

section \<open>Builders\<close>

definition keyed_builders ::
  "arrow_type \<Rightarrow> (Point \<Rightarrow> (string, 'v) smap) \<Rightarrow> ('v \<Rightarrow> scalar) \<Rightarrow> string list \<Rightarrow> Point list \<Rightarrow> (string, builder) smap"
where
  "keyed_builders ty sel sc ks qs = map (\<lambda>k. (k, (ty, map (\<lambda>p. sc (the (map_of (sel p) k))) qs))) ks"

definition builders_of :: "Point \<Rightarrow> Point list \<Rightarrow> group_builders" where
  "builders_of p0 qs =
     \<lparr>timestamp_builder = (Timestamp UNIT_NANO, map (\<lambda>p. int_scalar (Timestamp UNIT_NANO) (p_time p)) qs),
      measurement_builder = (Plain STRING, map (\<lambda>p. string_scalar (p_name p)) qs),
      tags_builders = keyed_builders (Plain STRING) p_tags string_scalar (map fst (p_tags p0)) qs,
      int_fields_builders = keyed_builders (Plain INT64) p_fieldsInt (int_scalar (Plain INT64)) (map fst (p_fieldsInt p0)) qs,
      double_fields_builders = keyed_builders (Plain DOUBLE) p_fieldsDouble double_scalar (map fst (p_fieldsDouble p0)) qs,
      string_fields_builders = keyed_builders (Plain STRING) p_fieldsString string_scalar (map fst (p_fieldsString p0)) qs,
      bool_fields_builders = keyed_builders (Plain BOOL) p_fieldsBool bool_scalar (map fst (p_fieldsBool p0)) qs\<rparr>"

lemma map_of_addBuilders:
  "map_of (addBuilders ty m bs) k =
     (case map_of bs k of Some b \<Rightarrow> Some b | None \<Rightarrow> if k \<in> fst ` set m then Some (ty, []) else None)"
  unfolding addBuilders_def
  by (induction m arbitrary: bs) (auto simp: map_of_smap_emplace split: option.splits)

lemma smap_addBuilders: "smap bs \<Longrightarrow> smap (addBuilders ty m bs)"
  unfolding addBuilders_def by (induction m arbitrary: bs) auto

lemma addBuilders_same:
  assumes "map fst m = map fst bs"
  shows "addBuilders ty m bs = bs"
proof -
  have "fold (\<lambda>v. smap_emplace (fst v) (ty, [])) m' bs = bs" if "fst ` set m' \<subseteq> fst ` set bs" for m' :: "(string, 'a) smap"
    using that by (induction m') (auto simp: smap_emplace_def map_of_eq_None_iff)
  then show ?thesis using assms unfolding addBuilders_def by (metis list.set_map subset_refl)
qed

lemma addBuilders_new:
  assumes "smap m"
  shows "addBuilders ty m [] = map (\<lambda>k. (k, (ty, []))) (map fst m)"
proof (rule smap_ext)
  show "smap (addBuilders ty m [])" by (simp add: smap_addBuilders)
  show "smap (map (\<lambda>k. (k, (ty, []))) (map fst m))" using assms by (simp add: smap_def comp_def)
  show "map_of (addBuilders ty m []) = map_of (map (\<lambda>k. (k, (ty, []))) (map fst m))"
    unfolding map_of_map_restrict by (auto simp: map_of_addBuilders fun_eq_iff restrict_map_def)
qed

lemma keyed_builders_fst [simp]: "map fst (keyed_builders ty sel sc ks qs) = ks"
  by (simp add: keyed_builders_def comp_def)

lemma add_point_builders_same:
  assumes "same_columns p0 q"
  shows "add_point_builders q (builders_of p0 qs) = builders_of p0 qs"
  using assms by (simp add: add_point_builders_def builders_of_def same_columns_def addBuilders_same)

lemma fold_add_point_builders:
  assumes "qs \<noteq> []" and "wf_point options p0" and "\<forall>q \<in> set qs. same_columns p0 q \<and> wf_point options q"
  shows "fold add_point_builders qs new_group_builders = builders_of p0 []"
proof -
  obtain q rest where qs: "qs = q # rest" using assms(1) by (cases qs) auto
  then have q: "same_columns p0 q" "wf_point options q" using assms(3) by simp_all
  then have "add_point_builders q new_group_builders = builders_of p0 []"
    by (simp add: add_point_builders_def new_group_builders_def builders_of_def keyed_builders_def wf_point_def
        same_columns_def addBuilders_new)
  moreover have "fold add_point_builders rest (builders_of p0 []) = builders_of p0 []"
    if "set rest \<subseteq> set qs" for rest
    using that assms(3) by (induction rest) (auto simp: add_point_builders_same)
  ultimately show ?thesis using qs by auto
qed

lemma appendValues_keyed:
  assumes "builder_laws A" and "map fst (sel q) = ks"
  shows "appendValues A sc (sel q) (keyed_builders ty sel sc ks qs) = Inr (keyed_builders ty sel sc ks (qs @ [q]))"
proof -
  have "\<exists>v. map_of (sel q) k = Some v" if "k \<in> set ks" for k
    using that assms(2) by (metis map_of_eq_None_iff not_None_eq list.set_map)
  then show ?thesis using assms(1)
    unfolding appendValues_def keyed_builders_def
    by (subst rmap_all_Inr [where g = "\<lambda>(k, (ty, vs)). (k, (ty, vs @ [sc (the (map_of (sel q) k))]))"])
      (fastforce simp: builder_laws_def)+
qed

lemma append_point_builders:
  assumes "builder_laws A" and "same_columns p0 q"
  shows "append_point A q (builders_of p0 qs) = Inr (builders_of p0 (qs @ [q]))"
proof -
  have ks: "map fst (p_tags q) = map fst (p_tags p0)" "map fst (p_fieldsInt q) = map fst (p_fieldsInt p0)"
    "map fst (p_fieldsDouble q) = map fst (p_fieldsDouble p0)" "map fst (p_fieldsString q) = map fst (p_fieldsString p0)"
    "map fst (p_fieldsBool q) = map fst (p_fieldsBool p0)"
    using assms(2) by (simp_all add: same_columns_def)
  have a: "Append A (ty, vs) s = Inr (ty, vs @ [s])" for ty vs s using assms(1) by (simp add: builder_laws_def)
  note v = appendValues_keyed [OF assms(1)]
  show ?thesis
    by (simp add: append_point_def builders_of_def a v [where sel = p_tags, OF ks(1)] v [where sel = p_fieldsInt, OF ks(2)]
        v [where sel = p_fieldsDouble, OF ks(3)] v [where sel = p_fieldsString, OF ks(4)] v [where sel = p_fieldsBool, OF ks(5)])
qed

lemma rfold_append_point:
  assumes "builder_laws A" and "\<forall>q \<in> set qs. same_columns p0 q"
  shows "rfold (append_point A) qs (builders_of p0 xs) = Inr (builders_of p0 (xs @ qs))"
  using assms(2) by (induction qs arbitrary: xs) (simp_all add: append_point_builders [OF assms(1)])

section \<open>The columns of the batch\<close>

definition field_of :: "arrow_lib \<Rightarrow> point_column \<Rightarrow> arrow_field \<Rightarrow> bool" where
  "field_of A c f \<longleftrightarrow> f_name f = c_name c \<and> f_type f = c_arrow c \<and> getColumnType A f = Inr (c_type c)"

definition array_of :: "Point list \<Rightarrow> point_column \<Rightarrow> arrow_array" where
  "array_of qs c = \<lparr>a_type = c_arrow c, a_values = map (c_read c) qs\<rparr>"

lemma new_field_of:
  assumes "metadata_laws A"
  obtains f where "setFieldTypeMetadata A (new_field n ty) ct = Inr f"
    and "f_name f = n" and "f_type f = ty" and "getColumnType A f = Inr ct"
proof -
  obtain f where f: "setFieldTypeMetadata A (new_field n ty) ct = Inr f" using setFieldTypeMetadata_total [OF assms] by blast
  then have "f_name f = n \<and> f_type f = ty"
    unfolding setFieldTypeMetadata_def by (auto dest: setFieldMetadata_keeps)
  with f setFieldTypeMetadata_type [OF assms f] show thesis by (intro that) simp_all
qed

lemma buildColumnArrays_keyed:
  assumes "metadata_laws A" and "builder_laws A"
  obtains fs' where
    "buildColumnArrays A ty ct (keyed_builders ty sel sc ks qs) (fs, arrays) =
       Inr (fs @ fs', arrays @ map (array_of qs) (keyed_columns ct ty sel sc upd ks))"
    and "list_all2 (field_of A) (keyed_columns ct ty sel sc upd ks) fs'"
proof -
  have "\<exists>fs'. buildColumnArrays A ty ct (keyed_builders ty sel sc ks qs) (fs, arrays) =
       Inr (fs @ fs', arrays @ map (array_of qs) (keyed_columns ct ty sel sc upd ks)) \<and>
     list_all2 (field_of A) (keyed_columns ct ty sel sc upd ks) fs'"
  proof (induction ks arbitrary: fs arrays)
    case Nil
    show ?case by (simp add: buildColumnArrays_def keyed_builders_def keyed_columns_def)
  next
    case (Cons k ks)
    obtain f where f: "setFieldTypeMetadata A (new_field k ty) ct = Inr f"
      "f_name f = k" "f_type f = ty" "getColumnType A f = Inr ct"
      by (rule new_field_of [OF assms(1)])
    let ?a = "\<lparr>a_type = ty, a_values = map (\<lambda>p. sc (the (map_of (sel p) k))) qs\<rparr>"
    obtain fs' where "buildColumnArrays A ty ct (keyed_builders ty sel sc ks qs) (fs @ [f], arrays @ [?a]) =
        Inr ((fs @ [f]) @ fs', (arrays @ [?a]) @ map (array_of qs) (keyed_columns ct ty sel sc upd ks))"
      "list_all2 (field_of A) (keyed_columns ct ty sel sc upd ks) fs'"
      using Cons.IH by blast
    moreover have "field_of A (hd (keyed_columns ct ty sel sc upd [k])) f"
      using f by (simp add: field_of_def keyed_columns_def)
    ultimately show ?case using f(1) assms(2)
      by (intro exI [of _ "f # fs'"])
        (simp add: buildColumnArrays_def keyed_builders_def keyed_columns_def builder_laws_def array_of_def)
  qed
  then show thesis using that by blast
qed

lemma group_columns_of:
  assumes "metadata_laws A" and "builder_laws A"
  obtains fs where "group_columns A options (builders_of p0 qs) = Inr (fs, map (array_of qs) (point_columns options p0))"
    and "list_all2 (field_of A) (point_columns options p0) fs"
proof -
  obtain tf where tf: "setFieldTypeMetadata A (new_field (pc_time_column_name options) (Timestamp UNIT_NANO)) TIME = Inr tf"
    "f_name tf = pc_time_column_name options" "f_type tf = Timestamp UNIT_NANO" "getColumnType A tf = Inr TIME"
    by (rule new_field_of [OF assms(1)])
  obtain mf where mf: "setFieldTypeMetadata A (new_field (pc_measurement_column_name options) (Plain STRING)) MEASUREMENT = Inr mf"
    "f_name mf = pc_measurement_column_name options" "f_type mf = Plain STRING" "getColumnType A mf = Inr MEASUREMENT"
    by (rule new_field_of [OF assms(1)])
  let ?special = "map (array_of qs) (special_columns options)"
  let ?cols = "\<lambda>ct ty sel sc upd. keyed_columns ct ty sel sc upd (map fst (sel p0))"
  note b = buildColumnArrays_keyed [OF assms]
  obtain f1 where f1: "buildColumnArrays A (Plain STRING) TAG (tags_builders (builders_of p0 qs)) ([tf, mf], ?special) =
      Inr ([tf, mf] @ f1, ?special @ map (array_of qs) (?cols TAG (Plain STRING) p_tags string_scalar p_tags_update))"
    "list_all2 (field_of A) (?cols TAG (Plain STRING) p_tags string_scalar p_tags_update) f1"
    unfolding builders_of_def group_builders.simps by (rule b)
  let ?a1 = "?special @ map (array_of qs) (?cols TAG (Plain STRING) p_tags string_scalar p_tags_update)"
  obtain f2 where f2: "buildColumnArrays A (Plain INT64) FIELD (int_fields_builders (builders_of p0 qs)) ([tf, mf] @ f1, ?a1) =
      Inr (([tf, mf] @ f1) @ f2, ?a1 @ map (array_of qs) (?cols FIELD (Plain INT64) p_fieldsInt (int_scalar (Plain INT64)) p_fieldsInt_update))"
    "list_all2 (field_of A) (?cols FIELD (Plain INT64) p_fieldsInt (int_scalar (Plain INT64)) p_fieldsInt_update) f2"
    unfolding builders_of_def group_builders.simps by (rule b)
  let ?a2 = "?a1 @ map (array_of qs) (?cols FIELD (Plain INT64) p_fieldsInt (int_scalar (Plain INT64)) p_fieldsInt_update)"
  obtain f3 where f3: "buildColumnArrays A (Plain DOUBLE) FIELD (double_fields_builders (builders_of p0 qs)) (([tf, mf] @ f1) @ f2, ?a2) =
      Inr ((([tf, mf] @ f1) @ f2) @ f3, ?a2 @ map (array_of qs) (?cols FIELD (Plain DOUBLE) p_fieldsDouble double_scalar p_fieldsDouble_update))"
    "list_all2 (field_of A) (?cols FIELD (Plain DOUBLE) p_fieldsDouble double_scalar p_fieldsDouble_update) f3"
    unfolding builders_of_def group_builders.simps by (rule b)
  let ?a3 = "?a2 @ map (array_of qs) (?cols FIELD (Plain DOUBLE) p_fieldsDouble double_scalar p_fieldsDouble_update)"
  obtain f4 where f4: "buildColumnArrays A (Plain STRING) FIELD (string_fields_builders (builders_of p0 qs)) ((([tf, mf] @ f1) @ f2) @ f3, ?a3) =
      Inr (((([tf, mf] @ f1) @ f2) @ f3) @ f4, ?a3 @ map (array_of qs) (?cols FIELD (Plain STRING) p_fieldsString string_scalar p_fieldsString_update))"
    "list_all2 (field_of A) (?cols FIELD (Plain STRING) p_fieldsString string_scalar p_fieldsString_update) f4"
    unfolding builders_of_def group_builders.simps by (rule b)
  let ?a4 = "?a3 @ map (array_of qs) (?cols FIELD (Plain STRING) p_fieldsString string_scalar p_fieldsString_update)"
  obtain f5 where f5: "buildColumnArrays A (Plain BOOL) FIELD (bool_fields_builders (builders_of p0 qs)) (((([tf, mf] @ f1) @ f2) @ f3) @ f4, ?a4) =
      Inr ((((([tf, mf] @ f1) @ f2) @ f3) @ f4) @ f5, ?a4 @ map (array_of qs) (?cols FIELD (Plain BOOL) p_fieldsBool bool_scalar p_fieldsBool_update))"
    "list_all2 (field_of A) (?cols FIELD (Plain BOOL) p_fieldsBool bool_scalar p_fieldsBool_update) f5"
    unfolding builders_of_def group_builders.simps by (rule b)
  have special: "timestamp_builder (builders_of p0 qs) = (Timestamp UNIT_NANO, map (\<lambda>p. int_scalar (Timestamp UNIT_NANO) (p_time p)) qs)"
    "measurement_builder (builders_of p0 qs) = (Plain STRING, map (\<lambda>p. string_scalar (p_name p)) qs)"
    by (simp_all add: builders_of_def)
  have fin: "Finish A (ty, vs) = Inr \<lparr>a_type = ty, a_values = vs\<rparr>" for ty vs using assms(2) by (simp add: builder_laws_def)
  have sp: "[\<lparr>a_type = Timestamp UNIT_NANO, a_values = map (\<lambda>p. int_scalar (Timestamp UNIT_NANO) (p_time p)) qs\<rparr>,
      \<lparr>a_type = Plain STRING, a_values = map (\<lambda>p. string_scalar (p_name p)) qs\<rparr>] = ?special"
    by (simp add: special_columns_def array_of_def)
  have "group_columns A options (builders_of p0 qs) =
      Inr ([tf, mf] @ f1 @ f2 @ f3 @ f4 @ f5, map (array_of qs) (point_columns options p0))"
    unfolding group_columns_def tf(1) mf(1) special fin rbind_simps sp f1(1) f2(1) f3(1) f4(1) f5(1)
    by (simp add: point_columns_def)
  moreover have "list_all2 (field_of A) (special_columns options) [tf, mf]"
    using tf mf by (simp add: special_columns_def field_of_def)
  then have "list_all2 (field_of A) (point_columns options p0) ([tf, mf] @ f1 @ f2 @ f3 @ f4 @ f5)"
    unfolding point_columns_def using f1(2) f2(2) f3(2) f4(2) f5(2) by (intro list_all2_appendI)
  ultimately show thesis by (rule that)
qed

section \<open>The metadata of the batch\<close>

text \<open>The batch has the columns \<open>cols\<close> of the points \<open>qs\<close>.\<close>

definition table_of :: "arrow_lib \<Rightarrow> point_column list \<Rightarrow> Point list \<Rightarrow> batch \<Rightarrow> bool" where
  "table_of A cols qs b \<longleftrightarrow>
     list_all2 (field_of A) cols (sch_fields (b_schema b)) \<and> b_columns b = map (array_of qs) cols \<and> b_num_rows b = length qs"

lemma table_names:
  assumes "table_of A cols qs b"
  shows "map f_name (sch_fields (b_schema b)) = map c_name cols"
proof -
  have "list_all2 (field_of A) cols fs \<Longrightarrow> map f_name fs = map c_name cols" for fs
    by (induction rule: list_all2_induct) (simp_all add: field_of_def)
  then show ?thesis using assms by (simp add: table_of_def)
qed

lemma table_column:
  assumes "schema_laws A" and "table_of A cols qs b" and "distinct (map c_name cols)" and "i < length cols"
  shows "field_index (b_schema b) (c_name (cols ! i)) = Some i"
    and "GetColumnByName A b (c_name (cols ! i)) = Some (array_of qs (cols ! i))"
proof -
  show i: "field_index (b_schema b) (c_name (cols ! i)) = Some i"
    using unique_index_nth [OF assms(3), of i] assms(4) by (simp add: field_index_def table_names [OF assms(2)])
  show "GetColumnByName A b (c_name (cols ! i)) = Some (array_of qs (cols ! i))"
    using assms by (simp add: schema_laws_def i table_of_def)
qed

lemma table_wf: "table_of A cols qs b \<Longrightarrow> wf_batch b"
  by (auto simp: table_of_def wf_batch_def dest: list_all2_lengthD)

text \<open>Setting an entry of the schema, and naming a special column, keep the columns.\<close>

lemma setSchemaMetadata_table:
  assumes "table_of A cols qs b" and "setSchemaMetadata A b k v = Inr b'"
  shows "table_of A cols qs b'"
  using assms by (auto simp: setSchemaMetadata_def Let_def rbind_eq_Inr_iff table_of_def)

lemma setColumnNameMetadata_table:
  assumes "metadata_laws A" and "schema_laws A" and "table_of A cols qs b" and "distinct (map c_name cols)"
    and "i < length cols" and "type_id (c_arrow (cols ! i)) = tid" and "c_type (cols ! i) = ct"
  obtains b' where "setColumnNameMetadata A b (c_name (cols ! i)) key tid ct = Inr b'" and "table_of A cols qs b'"
    and "getColumnNameMetadata A b' key = Inr (c_name (cols ! i))"
    and "\<And>j u. j \<noteq> key \<Longrightarrow> getColumnNameMetadata A b' j = Inr u \<longleftrightarrow> getColumnNameMetadata A b j = Inr u"
proof -
  let ?c = "c_name (cols ! i)"
  note col = table_column [OF assms(2-5)]
  obtain f where f: "setFieldMetadata A (sch_fields (b_schema b) ! i) COLUMN_TYPE_METADATA_KEY (ColumnType_Name ct) = Inr f"
    and s: "setColumnMetadata A b ?c COLUMN_TYPE_METADATA_KEY (ColumnType_Name ct) = Inr (with_field b i f)"
    by (rule setColumnMetadata_field [OF assms(1,2) table_wf [OF assms(3)] col(1)])
  have old: "field_of A (cols ! i) (sch_fields (b_schema b) ! i)"
    using assms(3,5) by (simp add: table_of_def list_all2_conv_all_nth)
  then have "field_of A (cols ! i) f"
    using setFieldMetadata_keeps [OF f] setFieldTypeMetadata_type [OF assms(1), of "sch_fields (b_schema b) ! i" ct f] f assms(7)
    by (simp add: field_of_def setFieldTypeMetadata_def)
  then have t: "table_of A cols qs (with_field b i f)"
    using assms(3,5) by (auto simp: table_of_def list_all2_conv_all_nth nth_list_update)
  obtain b' where b': "setSchemaMetadata A (with_field b i f) key ?c = Inr b'" using schema_md.put_total [OF assms(1)] by blast
  have same: "getColumnNameMetadata A (with_field b i f) = getColumnNameMetadata A b"
    by (simp add: getColumnNameMetadata_def fun_eq_iff)
  have "setColumnNameMetadata A b ?c key tid ct = Inr b'"
    using col(2) assms(6) s b' by (simp add: setColumnNameMetadata_def array_of_def setColumnTypeMetadata_def)
  then show thesis
    using setSchemaMetadata_table [OF t b'] schema_md.get_put [OF assms(1) b'] schema_md.get_put_other [OF assms(1) b']
    by (intro that [of b']) (simp_all add: same)
qed

lemma getColumnTypes_table:
  assumes "table_of A cols qs b" and "distinct (map c_name cols)"
  obtains types where "getColumnTypes A b = Inr types"
    and "map_of types = map_of (map (\<lambda>c. (c_name c, c_type c)) cols)"
proof -
  have "\<exists>types. rfold (\<lambda>field column_types.
       if map_of column_types (f_name field) \<noteq> None then Inl KeyError
       else rbind (getColumnType A field) (\<lambda>ty. Inr (smap_put (f_name field) ty column_types))) fs m = Inr types \<and>
     map_of types = map_of m ++ map_of (map (\<lambda>c. (c_name c, c_type c)) cols)"
    if "list_all2 (field_of A) cols fs" "distinct (map c_name cols)" "\<forall>c \<in> set cols. map_of m (c_name c) = None" for fs m
    using that
  proof (induction cols fs arbitrary: m rule: list_all2_induct)
    case (Cons c cols f fs)
    have n: "map_of (map (\<lambda>c. (c_name c, c_type c)) cols) (c_name c) = None"
      using Cons.prems(1) by (auto simp: map_of_eq_None_iff)
    from Cons.prems have "\<forall>d \<in> set cols. map_of (smap_put (c_name c) (c_type c) m) (c_name d) = None"
      by simp (metis image_eqI)
    from Cons.IH [OF _ this] Cons.prems(1) obtain types where t:
      "rfold (\<lambda>field column_types.
         if map_of column_types (f_name field) \<noteq> None then Inl KeyError
         else rbind (getColumnType A field) (\<lambda>ty. Inr (smap_put (f_name field) ty column_types))) fs
         (smap_put (c_name c) (c_type c) m) = Inr types"
      "map_of types = map_of (smap_put (c_name c) (c_type c) m) ++ map_of (map (\<lambda>c. (c_name c, c_type c)) cols)"
      by (metis (no_types, lifting) distinct.simps(2) list.simps(9))
    have "(map_of m)(c_name c \<mapsto> c_type c) ++ map_of (map (\<lambda>c. (c_name c, c_type c)) cols) =
        map_of m ++ (map_of (map (\<lambda>c. (c_name c, c_type c)) cols))(c_name c \<mapsto> c_type c)"
      using n by (auto simp: map_add_def fun_eq_iff split: option.splits)
    then have types: "map_of types = map_of m ++ map_of (map (\<lambda>c. (c_name c, c_type c)) (c # cols))"
      unfolding t(2) map_of_smap_put by simp
    show ?case
      by (intro exI [of _ types] conjI, use t(1) Cons.hyps Cons.prems(2) in \<open>simp add: field_of_def\<close>, rule types)
  qed simp
  from this [of "sch_fields (b_schema b)" "[]"] assms show thesis
    using that by (auto simp: table_of_def getColumnTypes_def)
qed

section \<open>The way back\<close>

definition writes_back :: "arrow_lib \<Rightarrow> Point list \<Rightarrow> point_column \<Rightarrow> bool" where
  "writes_back A qs c \<longleftrightarrow>
     (\<forall>p \<in> set qs. \<forall>q. put_value A (c_type c) (type_id (c_arrow c)) (c_name c) (c_read c p) q = Inr (c_write c p q, False))"

lemma keyed_writes_back:
  assumes "\<And>p q k v. p \<in> set qs \<Longrightarrow> v = the (map_of (sel p) k) \<Longrightarrow> put_value A ct (type_id ty) k (sc v) q = Inr (upd (smap_put k v) q, False)"
  shows "\<forall>c \<in> set (keyed_columns ct ty sel sc upd ks). writes_back A qs c"
  using assms by (auto simp: keyed_columns_def writes_back_def)

lemma point_columns_write_back:
  assumes "value_laws A"
  shows "\<forall>c \<in> set (point_columns options p0). writes_back A qs c"
proof -
  have "\<forall>c \<in> set (special_columns options). writes_back A qs c"
    using assms by (simp add: special_columns_def writes_back_def put_value_def castTimestampScalar_def value_laws_def int_scalar_def)
  moreover have "\<forall>c \<in> set (keyed_columns TAG (Plain STRING) p_tags string_scalar p_tags_update ks). writes_back A qs c" for ks
    by (rule keyed_writes_back) (use assms in \<open>simp add: put_value_def value_laws_def\<close>)
  moreover have "\<forall>c \<in> set (keyed_columns FIELD (Plain INT64) p_fieldsInt (int_scalar (Plain INT64)) p_fieldsInt_update ks). writes_back A qs c" for ks
    by (rule keyed_writes_back) (simp add: put_value_def int_scalar_def)
  moreover have "\<forall>c \<in> set (keyed_columns FIELD (Plain DOUBLE) p_fieldsDouble double_scalar p_fieldsDouble_update ks). writes_back A qs c" for ks
    by (rule keyed_writes_back) (simp add: put_value_def double_scalar_def)
  moreover have "\<forall>c \<in> set (keyed_columns FIELD (Plain STRING) p_fieldsString string_scalar p_fieldsString_update ks). writes_back A qs c" for ks
    by (rule keyed_writes_back) (use assms in \<open>simp add: put_value_def value_laws_def\<close>)
  moreover have "\<forall>c \<in> set (keyed_columns FIELD (Plain BOOL) p_fieldsBool bool_scalar p_fieldsBool_update ks). writes_back A qs c" for ks
    by (rule keyed_writes_back) (simp add: put_value_def bool_scalar_def)
  ultimately show ?thesis unfolding point_columns_def set_append by blast
qed

lemma convert_first_column:
  assumes "value_laws A" and "writes_back A qs c" and "k \<le> length qs"
  shows "convert_column A np (c_type c) (c_name c) (array_of qs c) 0 (length acc) [k..<length qs]
      (acc @ map (\<lambda>p. c_write c p np) (take k qs)) = Inr (acc @ map (\<lambda>p. c_write c p np) qs)"
  using assms(3)
proof (induction "length qs - k" arbitrary: k)
  case (Suc d)
  then have k: "k < length qs" by simp
  let ?xs = "map (\<lambda>p. c_write c p np) (take k qs)"
  have "convert_column A np (c_type c) (c_name c) (array_of qs c) 0 (length acc) [Suc k..<length qs]
      (acc @ map (\<lambda>p. c_write c p np) (take (Suc k) qs)) = Inr (acc @ map (\<lambda>p. c_write c p np) qs)"
    using Suc by simp
  moreover have "GetScalar A (array_of qs c) (int k) = Inr (c_read c (qs ! k))"
    using assms(1) k by (simp add: value_laws_def array_of_def)
  moreover have "put_value A (c_type c) (type_id (c_arrow c)) (c_name c) (c_read c (qs ! k)) np = Inr (c_write c (qs ! k) np, False)"
    using assms(2) k by (simp add: writes_back_def)
  moreover have "[k..<length qs] = k # [Suc k..<length qs]" using k by (rule upt_conv_Cons)
  moreover have "length ?xs = k" using k by simp
  moreover have "(acc @ ?xs @ [np])[length acc + k := x] = acc @ ?xs @ [x]" for x
    using \<open>length ?xs = k\<close> by (simp add: list_update_append)
  moreover have "(acc @ ?xs @ [np]) ! (length acc + k) = np"
    using \<open>length ?xs = k\<close> by (simp add: nth_append)
  ultimately show ?case using k
    by (simp add: array_of_def take_Suc_conv_app_nth)
qed simp

lemma convert_next_column:
  assumes "value_laws A" and "writes_back A qs c" and "k \<le> length qs" and "i \<noteq> 0" and "length rows = length qs"
  shows "convert_column A np (c_type c) (c_name c) (array_of qs c) i (length acc) [k..<length qs]
      (acc @ map2 (c_write c) (take k qs) (take k rows) @ drop k rows) = Inr (acc @ map2 (c_write c) qs rows)"
  using assms(3)
proof (induction "length qs - k" arbitrary: k)
  case (Suc d)
  then have k: "k < length qs" by simp
  let ?xs = "map2 (c_write c) (take k qs) (take k rows)"
  have "convert_column A np (c_type c) (c_name c) (array_of qs c) i (length acc) [Suc k..<length qs]
      (acc @ map2 (c_write c) (take (Suc k) qs) (take (Suc k) rows) @ drop (Suc k) rows) = Inr (acc @ map2 (c_write c) qs rows)"
    using Suc by simp
  moreover have "GetScalar A (array_of qs c) (int k) = Inr (c_read c (qs ! k))"
    using assms(1) k by (simp add: value_laws_def array_of_def)
  moreover have "put_value A (c_type c) (type_id (c_arrow c)) (c_name c) (c_read c (qs ! k)) (rows ! k) =
      Inr (c_write c (qs ! k) (rows ! k), False)"
    using assms(2) k by (simp add: writes_back_def)
  moreover have "[k..<length qs] = k # [Suc k..<length qs]" using k by (rule upt_conv_Cons)
  moreover have len: "length ?xs = k" using k assms(5) by simp
  moreover have d: "drop k rows = rows ! k # drop (Suc k) rows" using k assms(5) by (simp add: Cons_nth_drop_Suc)
  moreover have "(acc @ ?xs @ drop k rows)[length acc + k := x] = acc @ ?xs @ x # drop (Suc k) rows" for x
    using len unfolding d by (simp add: list_update_append)
  moreover have "(acc @ ?xs @ drop k rows) ! (length acc + k) = rows ! k"
    using len unfolding d by (simp add: nth_append)
  moreover have "map2 (c_write c) (take (Suc k) qs) (take (Suc k) rows) = ?xs @ [c_write c (qs ! k) (rows ! k)]"
    using k assms(5) by (simp add: take_Suc_conv_app_nth)
  ultimately show ?case using k assms(4,5)
    by (simp add: array_of_def Let_def)
qed (use assms(5) in simp)

text \<open>All columns, one after the other.\<close>

definition row_of :: "point_column list \<Rightarrow> Point \<Rightarrow> Point \<Rightarrow> Point" where
  "row_of cols np p = fold (\<lambda>c. c_write c p) cols np"

lemma convert_columns:
  assumes "value_laws A" and "\<forall>c \<in> set cols. writes_back A qs c" and "cols \<noteq> []"
  shows "rfold (\<lambda>i points. convert_column A np (c_type (cols ! i)) (c_name (cols ! i)) (array_of qs (cols ! i)) i (length acc)
      [0..<length qs] points) [0..<length cols] acc = Inr (acc @ map (row_of cols np) qs)"
proof -
  let ?f = "\<lambda>i points. convert_column A np (c_type (cols ! i)) (c_name (cols ! i)) (array_of qs (cols ! i)) i (length acc)
      [0..<length qs] points"
  have "rfold ?f [0..<n] acc = Inr (acc @ map (row_of (take n cols) np) qs)" if "0 < n" "n \<le> length cols" for n
    using that
  proof (induction n)
    case (Suc n)
    have w: "writes_back A qs (cols ! n)" using assms(2) Suc.prems by simp
    show ?case
    proof (cases "n = 0")
      case True
      moreover have "take (Suc 0) cols = [cols ! 0]" using assms(3) by (cases cols) simp_all
      ultimately show ?thesis using convert_first_column [OF assms(1) w, of 0 np acc] by (simp add: row_of_def)
    next
      case False
      let ?rows = "map (row_of (take n cols) np) qs"
      have "?f n (acc @ ?rows) = Inr (acc @ map2 (c_write (cols ! n)) qs ?rows)"
        using convert_next_column [OF assms(1) w, of 0 n ?rows np acc] False by simp
      moreover have "map2 (c_write (cols ! n)) qs ?rows = map (row_of (take (Suc n) cols) np) qs"
        using Suc.prems by (simp add: zip_map2 map_zip_map2 zip_same_conv_map row_of_def take_Suc_conv_app_nth)
      ultimately show ?thesis using Suc False by (simp add: rfold_append)
    qed
  qed simp
  from this [of "length cols"] assms(3) show ?thesis by simp
qed

text \<open>What a row becomes.\<close>

lemma keyed_row:
  assumes "smap (sel p)" and "ks = map fst (sel p)"
    and "\<And>f g q. upd f (upd g q) = upd (\<lambda>m. f (g m)) q" and "\<And>q. upd (\<lambda>m. m) q = q"
  shows "row_of (keyed_columns ct ty sel sc upd ks) np p = upd (smap_puts (sel p)) np"
proof -
  have "map (\<lambda>k. (k, the (map_of (sel p) k))) ks = sel p"
    using assms(1) unfolding assms(2) by (auto simp: comp_def smap_distinct intro!: map_idI)
  moreover have "row_of (keyed_columns ct ty sel sc upd ks) np p =
      upd (smap_puts (map (\<lambda>k. (k, the (map_of (sel p) k))) ks)) np" for np
    by (induction ks arbitrary: np) (simp_all add: row_of_def keyed_columns_def smap_puts_def [abs_def] comp_def id_def assms(3,4))
  ultimately show ?thesis by simp
qed

lemma smap_puts_all: "smap m \<Longrightarrow> smap_puts m [] = m"
  by (intro smap_puts_permuted) (simp_all add: smap_distinct)

lemma row_of_point:
  assumes "wf_point options p" and "same_columns p0 p"
    and "p_tags np = []" "p_fieldsInt np = []" "p_fieldsDouble np = []" "p_fieldsString np = []" "p_fieldsBool np = []"
  shows "row_of (point_columns options p0) np p =
    np\<lparr>p_time := p_time p, p_name := p_name p, p_tags := p_tags p, p_fieldsInt := p_fieldsInt p,
       p_fieldsDouble := p_fieldsDouble p, p_fieldsString := p_fieldsString p, p_fieldsBool := p_fieldsBool p\<rparr>"
proof -
  have app: "row_of (xs @ ys) np p = row_of ys (row_of xs np p) p" for xs ys np by (simp add: row_of_def)
  have sp: "row_of (special_columns options) np p = np\<lparr>p_time := p_time p, p_name := p_name p\<rparr>" for np
    by (simp add: row_of_def special_columns_def)
  have wf: "smap (p_tags p)" "smap (p_fieldsInt p)" "smap (p_fieldsDouble p)" "smap (p_fieldsString p)" "smap (p_fieldsBool p)"
    using assms(1) by (simp_all add: wf_point_def)
  have k: "map fst (p_tags p0) = map fst (p_tags p)" "map fst (p_fieldsInt p0) = map fst (p_fieldsInt p)"
    "map fst (p_fieldsDouble p0) = map fst (p_fieldsDouble p)" "map fst (p_fieldsString p0) = map fst (p_fieldsString p)"
    "map fst (p_fieldsBool p0) = map fst (p_fieldsBool p)"
    using assms(2) by (simp_all add: same_columns_def)
  have "row_of (point_columns options p0) np p =
    p_fieldsBool_update (smap_puts (p_fieldsBool p)) (p_fieldsString_update (smap_puts (p_fieldsString p))
      (p_fieldsDouble_update (smap_puts (p_fieldsDouble p)) (p_fieldsInt_update (smap_puts (p_fieldsInt p))
        (p_tags_update (smap_puts (p_tags p)) (np\<lparr>p_time := p_time p, p_name := p_name p\<rparr>)))))"
    unfolding point_columns_def app sp k
    by (simp add: keyed_row [where sel = p_tags, OF wf(1)] keyed_row [where sel = p_fieldsInt, OF wf(2)]
        keyed_row [where sel = p_fieldsDouble, OF wf(3)] keyed_row [where sel = p_fieldsString, OF wf(4)]
        keyed_row [where sel = p_fieldsBool, OF wf(5)])
  also have "\<dots> = np\<lparr>p_time := p_time p, p_name := p_name p, p_tags := p_tags p, p_fieldsInt := p_fieldsInt p,
       p_fieldsDouble := p_fieldsDouble p, p_fieldsString := p_fieldsString p, p_fieldsBool := p_fieldsBool p\<rparr>"
    using assms(3-) wf by (intro Point.equality) (simp_all add: smap_puts_all)
  finally show ?thesis .
qed

section \<open>There and back\<close>

definition point_types :: "PointsToRecordBatchesConversionOptions \<Rightarrow> Point \<Rightarrow> string \<rightharpoonup> ColumnType" where
  "point_types options p = map_of (map (\<lambda>c. (c_name c, c_type c)) (point_columns options p))"

text \<open>The group string of the point is the one \<open>encode\<close> writes.\<close>

definition canonical_group :: "PointsToRecordBatchesConversionOptions \<Rightarrow> Point \<Rightarrow> bool" where
  "canonical_group options p \<longleftrightarrow>
     (case parse (p_group p) (pc_measurement_column_name options) of
        Inl _ \<Rightarrow> False
      | Inr grp \<Rightarrow> encode_group grp (pc_measurement_column_name options) (point_types options p) = Inr (p_group p))"

text \<open>What a record batch keeps of a point: the name of the database and of the retention policy are
  lost, the dimensions are those of the group.\<close>

definition group_names :: "PointsToRecordBatchesConversionOptions \<Rightarrow> Point \<Rightarrow> string list" where
  "group_names options p =
     (case parse (p_group p) (pc_measurement_column_name options) of
        Inl _ \<Rightarrow> [] | Inr grp \<Rightarrow> group_columns_names grp)"

definition kept :: "PointsToRecordBatchesConversionOptions \<Rightarrow> Point \<Rightarrow> Point" where
  "kept options p =
     p\<lparr>p_database := [], p_retentionPolicy := [],
       p_dimensions := filter (\<lambda>n. n \<noteq> pc_measurement_column_name options) (group_names options p),
       p_byName := (pc_measurement_column_name options \<in> set (group_names options p))\<rparr>"

lemma canonical_encoded:
  assumes "encodable (point_types options p) (pc_measurement_column_name options) m"
    and "encode_group (constructGroupFromOrderedMap m) (pc_measurement_column_name options) (point_types options p) = Inr (p_group p)"
  shows "canonical_group options p"
  using parse_encoded [OF assms(1)] assms(2) by (auto simp: canonical_group_def)

lemma group_point_fields:
  "group_point g grp mc = empty_point\<lparr>p_group := g, p_dimensions := filter (\<lambda>n. n \<noteq> mc) (group_columns_names grp),
     p_byName := (mc \<in> set (group_columns_names grp))\<rparr>"
proof -
  have "fold (\<lambda>n point. if n = mc then point\<lparr>p_byName := True\<rparr> else point\<lparr>p_dimensions := p_dimensions point @ [n]\<rparr>) ns p =
      p\<lparr>p_dimensions := p_dimensions p @ filter (\<lambda>n. n \<noteq> mc) ns, p_byName := (p_byName p \<or> mc \<in> set ns)\<rparr>" for ns and p :: Point
    by (induction ns arbitrary: p) auto
  then show ?thesis by (simp add: group_point_def empty_point_def)
qed

text \<open>The group as the metadata has it.\<close>

lemma group_entry_reads:
  assumes "metadata_laws A" and "getColumnNameMetadata A b GROUP_METADATA_KEY = Inr s"
  shows "extractGroupMetadata A b = Inr s" and "extractGroup A P b = Inr (ParseGroup P s)"
  using assms
  by (auto simp: getColumnNameMetadata_def extractGroupMetadata_def extractGroup_def value_or_die_def metadata_laws_def
      split: option.splits if_splits)

text \<open>The record batch of a group.\<close>

lemma convertPointsGroup_table:
  assumes "metadata_laws A" and "schema_laws A" and "builder_laws A" and "group_codec P"
    and "is \<noteq> []" and "qs = map ((!) ps) is" and "p0 \<in> set qs"
    and "\<forall>q \<in> set qs. same_columns p0 q \<and> wf_point options q"
    and "parse g (pc_measurement_column_name options) = Inr grp"
  obtains b where "convertPointsGroup A P options ps g is = Inr b" and "table_of A (point_columns options p0) qs b"
    and "getTimeColumnNameMetadata A b = Inr (pc_time_column_name options)"
    and "getMeasurementColumnNameMetadata A b = Inr (pc_measurement_column_name options)"
    and "getColumnNameMetadata A b GROUP_METADATA_KEY = Inr (SerializeGroup P grp)" and "extractGroup A P b = Inr grp"
proof -
  let ?cols = "point_columns options p0"
  have wf: "wf_point options p0" using assms(7,8) by simp
  then have dist: "distinct (map c_name ?cols)" by (simp add: wf_point_def)
  have "fold (\<lambda>i. add_point_builders (ps ! i)) is new_group_builders = fold add_point_builders qs new_group_builders"
    unfolding assms(6) fold_map by (simp add: comp_def)
  also have "\<dots> = builders_of p0 []" using fold_add_point_builders [OF _ wf assms(8)] assms(5,6) by simp
  finally have b: "fold (\<lambda>i. add_point_builders (ps ! i)) is new_group_builders = builders_of p0 []" .
  have r: "rfold (\<lambda>i. append_point A (ps ! i)) is (builders_of p0 []) = Inr (builders_of p0 qs)"
    using rfold_append_point [OF assms(3), of qs p0 "[]"] assms(6,8) by (simp add: rfold_map)
  obtain fs where fs: "group_columns A options (builders_of p0 qs) = Inr (fs, map (array_of qs) ?cols)"
    "list_all2 (field_of A) ?cols fs"
    by (rule group_columns_of [OF assms(1,3)])
  let ?b0 = "Make \<lparr>sch_fields = fs, sch_metadata = None\<rparr> (length is) (map (array_of qs) ?cols)"
  have t0: "table_of A ?cols qs ?b0" using fs(2) assms(6) by (simp add: table_of_def)
  obtain b1 where b1: "setGroupMetadata A P ?b0 grp = Inr b1"
    using schema_md.put_total [OF assms(1)] unfolding setGroupMetadata_def by blast
  then have t1: "table_of A ?cols qs b1" unfolding setGroupMetadata_def by (rule setSchemaMetadata_table [OF t0])
  obtain b2 where b2: "setTimeColumnNameMetadata A b1 (pc_time_column_name options) = Inr b2" "table_of A ?cols qs b2"
    "getTimeColumnNameMetadata A b2 = Inr (pc_time_column_name options)"
    "\<And>j u. j \<noteq> TIME_COLUMN_NAME_METADATA_KEY \<Longrightarrow> getColumnNameMetadata A b2 j = Inr u \<longleftrightarrow> getColumnNameMetadata A b1 j = Inr u"
    unfolding setTimeColumnNameMetadata_def getTimeColumnNameMetadata_def
    by (rule setColumnNameMetadata_table [OF assms(1,2) t1 dist, of 0 TIMESTAMP TIME TIME_COLUMN_NAME_METADATA_KEY])
      (simp_all add: point_columns_def special_columns_def)
  obtain b3 where b3: "setMeasurementColumnNameMetadata A b2 (pc_measurement_column_name options) = Inr b3" "table_of A ?cols qs b3"
    "getMeasurementColumnNameMetadata A b3 = Inr (pc_measurement_column_name options)"
    "\<And>j u. j \<noteq> MEASUREMENT_COLUMN_NAME_METADATA_KEY \<Longrightarrow> getColumnNameMetadata A b3 j = Inr u \<longleftrightarrow> getColumnNameMetadata A b2 j = Inr u"
    unfolding setMeasurementColumnNameMetadata_def getMeasurementColumnNameMetadata_def
    by (rule setColumnNameMetadata_table [OF assms(1,2) b2(2) dist, of 1 STRING MEASUREMENT MEASUREMENT_COLUMN_NAME_METADATA_KEY])
      (simp_all add: point_columns_def special_columns_def)
  have "getColumnNameMetadata A b1 GROUP_METADATA_KEY = Inr (SerializeGroup P grp)"
    using b1 schema_md.get_put [OF assms(1)] by (simp add: setGroupMetadata_def)
  then have g3: "getColumnNameMetadata A b3 GROUP_METADATA_KEY = Inr (SerializeGroup P grp)"
    by (simp add: b2(4) b3(4) metadata_keys_distinct)
  then have "extractGroup A P b3 = Inr grp"
    using group_entry_reads(2) [OF assms(1)] assms(4) by (simp add: group_codec_def)
  have tm: "getTimeColumnNameMetadata A b3 = Inr (pc_time_column_name options)"
    using b2(3) b3(4) metadata_keys_distinct by (simp add: getTimeColumnNameMetadata_def)
  have "convertPointsGroup A P options ps g is = Inr b3"
    by (simp add: convertPointsGroup_def b r fs(1) assms(9) b1 b2(1) b3(1))
  with b3(2,3) tm g3 \<open>extractGroup A P b3 = Inr grp\<close> show thesis by (intro that)
qed

text \<open>The points of a batch with any columns that can be written back.\<close>

lemma convert_batch_rows:
  assumes "value_laws A" and "table_of A cols qs b" and "distinct (map c_name cols)" and "cols \<noteq> []"
    and "\<forall>c \<in> set cols. writes_back A qs c"
    and "getTimeColumnNameMetadata A b = Inr tc" and "getMeasurementColumnNameMetadata A b = Inr mc"
    and "extractGroup A P b = Inr grp"
    and "encode_group grp mc (map_of (map (\<lambda>c. (c_name c, c_type c)) cols)) = Inr g"
  shows "convert_batch A P b (acc, length acc) =
    Inr (acc @ map (row_of cols (group_point g grp mc)) qs, length (acc @ map (row_of cols (group_point g grp mc)) qs))"
proof -
  obtain types where types: "getColumnTypes A b = Inr types"
    "map_of types = map_of (map (\<lambda>c. (c_name c, c_type c)) cols)"
    by (rule getColumnTypes_table [OF assms(2,3)])
  let ?np = "group_point g grp mc"
  have n: "num_columns b = length cols" "b_num_rows b = length qs" "b_columns b = map (array_of qs) cols"
    using assms(2) by (simp_all add: table_of_def)
  have loop: "convert_column A ?np (case map_of types (f_name (sch_fields (b_schema b) ! i)) of None \<Rightarrow> UNKNOWN | Some ty \<Rightarrow> ty)
      (f_name (sch_fields (b_schema b) ! i)) (b_columns b ! i) i (length acc) [0..<a_length (b_columns b ! i)] =
    convert_column A ?np (c_type (cols ! i)) (c_name (cols ! i)) (array_of qs (cols ! i)) i (length acc) [0..<length qs]"
    if "i < length cols" for i
  proof -
    have name: "f_name (sch_fields (b_schema b) ! i) = c_name (cols ! i)"
      using table_names [OF assms(2)] that by (metis length_map nth_map)
    have "map_of types (c_name (cols ! i)) = Some (c_type (cols ! i))"
      unfolding types(2) using assms(3) that by (intro map_of_is_SomeI) (auto simp: comp_def)
    then show ?thesis using that by (simp add: name n(3) array_of_def)
  qed
  let ?g = "\<lambda>i. convert_column A ?np (c_type (cols ! i)) (c_name (cols ! i)) (array_of qs (cols ! i)) i (length acc) [0..<length qs]"
  have "rfold ?g [0..<length cols] acc = Inr (acc @ map (row_of cols ?np) qs)"
    using convert_columns [OF assms(1,5,4)] .
  then have "rfold (\<lambda>i. convert_column A ?np (case map_of types (f_name (sch_fields (b_schema b) ! i)) of None \<Rightarrow> UNKNOWN | Some ty \<Rightarrow> ty)
      (f_name (sch_fields (b_schema b) ! i)) (b_columns b ! i) i (length acc) [0..<a_length (b_columns b ! i)]) [0..<num_columns b] acc =
    Inr (acc @ map (row_of cols ?np) qs)"
    unfolding n(1) by (subst rfold_cong [where g = ?g]) (simp_all add: loop)
  then show ?thesis using assms(9)
    by (simp add: convert_batch_def assms(6-8) types n(2) Let_def)
qed

text \<open>The points of the batch of a group.\<close>

lemma point_row:
  assumes "same_columns p0 q" and "wf_point options q" and "parse (p_group q) (pc_measurement_column_name options) = Inr grp"
  shows "row_of (point_columns options p0) (group_point (p_group q) grp (pc_measurement_column_name options)) q = kept options q"
proof -
  have "group_names options q = group_columns_names grp" using assms(3) by (simp add: group_names_def)
  then show ?thesis
    by (subst row_of_point [OF assms(2,1)]) (simp_all add: kept_def group_point_fields empty_point_def)
qed

lemma convert_batch_table:
  assumes "value_laws A" and "table_of A (point_columns options p0) qs b"
    and "\<forall>q \<in> set qs. same_columns p0 q \<and> wf_point options q \<and> p_group q = g" and "p0 \<in> set qs" and "canonical_group options p0"
    and "parse g (pc_measurement_column_name options) = Inr grp"
    and "getTimeColumnNameMetadata A b = Inr (pc_time_column_name options)"
    and "getMeasurementColumnNameMetadata A b = Inr (pc_measurement_column_name options)"
    and "extractGroup A P b = Inr grp"
  shows "convert_batch A P b (acc, length acc) = Inr (acc @ map (kept options) qs, length (acc @ map (kept options) qs))"
proof -
  let ?cols = "point_columns options p0" let ?mc = "pc_measurement_column_name options"
  have dist: "distinct (map c_name ?cols)" using assms(3,4) by (auto simp: wf_point_def)
  have cols: "?cols \<noteq> []" by (simp add: point_columns_def special_columns_def)
  have enc: "encode_group grp ?mc (map_of (map (\<lambda>c. (c_name c, c_type c)) ?cols)) = Inr g"
    using assms(3-6) by (auto simp: canonical_group_def point_types_def)
  have "map (row_of ?cols (group_point g grp ?mc)) qs = map (kept options) qs"
    using assms(3,6) by (auto intro!: point_row)
  with convert_batch_rows [OF assms(1,2) dist cols point_columns_write_back [OF assms(1)] assms(7-9) enc, of acc]
  show ?thesis by simp
qed

section \<open>The groups of points\<close>

lemma points_groups_entries:
  "smap (points_groups ps) \<and>
   map_of (points_groups ps) g = (let is = filter (\<lambda>i. p_group (ps ! i) = g) [0..<length ps] in if is = [] then None else Some is)"
proof -
  let ?step = "\<lambda>i groups_indexes. let g = p_group (ps ! i) in
      case map_of groups_indexes g of
        None \<Rightarrow> smap_put g [i] groups_indexes
      | Some is \<Rightarrow> smap_put g (is @ [i]) groups_indexes"
  have "smap (fold ?step [0..<n] []) \<and>
    map_of (fold ?step [0..<n] []) g = (let is = filter (\<lambda>i. p_group (ps ! i) = g) [0..<n] in if is = [] then None else Some is)" for n g
  proof (induction n arbitrary: g)
    case (Suc n)
    then show ?case by (auto simp: Let_def split: option.split)
  qed simp
  then show ?thesis by (simp add: points_groups_def)
qed

lemma points_groups_member:
  assumes "(g, is) \<in> set (points_groups ps)"
  shows "is = filter (\<lambda>i. p_group (ps ! i) = g) [0..<length ps]" and "is \<noteq> []"
proof -
  have "map_of (points_groups ps) g = Some is"
    using points_groups_entries [of ps g] by (intro map_of_is_SomeI smap_distinct assms) blast
  then show "is = filter (\<lambda>i. p_group (ps ! i) = g) [0..<length ps]" and "is \<noteq> []"
    using points_groups_entries [of ps g] by (simp_all add: Let_def split: if_splits)
qed

text \<open>The groups follow each other in the order of their strings, the points of a group in the order they
  came in.\<close>

lemma points_groups_sort:
  "map ((!) ps) (concat (map snd (points_groups ps))) = sort_key p_group ps"
proof -
  let ?ys = "map ((!) ps) (concat (map snd (points_groups ps)))"
  have sm: "smap (points_groups ps)" using points_groups_entries by blast
  have part: "filter (\<lambda>p. p_group p = g) (map ((!) ps) (concat (map snd gs))) =
      (case map_of gs g of None \<Rightarrow> [] | Some is \<Rightarrow> map ((!) ps) is)"
    if "distinct (map fst gs)" "\<forall>(h, is) \<in> set gs. \<forall>i \<in> set is. p_group (ps ! i) = h" for g and gs :: "(string, nat list) smap"
    using that
  proof (induction gs)
    case (Cons x gs)
    obtain h "is" where x: "x = (h, is)" by force
    have "filter (\<lambda>p. p_group p = g) (map ((!) ps) is) = (if h = g then map ((!) ps) is else [])"
      using Cons.prems(2) x by (auto simp: filter_id_conv filter_empty_conv)
    moreover have "map_of gs h = None" using Cons.prems(1) x by (simp add: map_of_eq_None_iff)
    ultimately show ?case using Cons x by (auto split: option.splits)
  qed simp
  have mem: "\<forall>(h, is) \<in> set (points_groups ps). \<forall>i \<in> set is. p_group (ps ! i) = h"
    using points_groups_member(1) by fastforce
  have "filter (\<lambda>p. p_group p = g) ?ys = filter (\<lambda>p. p_group p = g) ps" for g
  proof -
    have "filter (\<lambda>p. p_group p = g) ps = map ((!) ps) (filter (\<lambda>i. p_group (ps ! i) = g) [0..<length ps])"
      by (subst (1) map_nth [of ps, symmetric]) (simp only: filter_map comp_def)
    then show ?thesis
      using part [OF smap_distinct [OF sm] mem, of g] conjunct2 [OF points_groups_entries [of ps g]]
      by (auto simp: Let_def)
  qed
  note f = this
  have count: "count (mset xs) x = length (filter (\<lambda>y. y = x) (filter (\<lambda>p. p_group p = p_group x) xs))" for x :: Point and xs
    by (induction xs) auto
  have m: "mset ?ys = mset ps" by (rule multiset_eqI) (simp only: count f)
  have "sorted (map p_group (map ((!) ps) (concat (map snd gs))))"
    if "smap gs" "\<forall>(h, is) \<in> set gs. \<forall>i \<in> set is. p_group (ps ! i) = h" for gs :: "(string, nat list) smap"
    using that
  proof (induction gs)
    case (Cons x gs)
    obtain h "is" where x: "x = (h, is)" by force
    have "map p_group (map ((!) ps) is) = replicate (length is) h"
      using Cons.prems(2) x by (intro replicate_eqI) auto
    moreover have "\<forall>k \<in> set (map p_group (map ((!) ps) (concat (map snd gs)))). h \<le> k"
      using Cons.prems x by (fastforce simp: smap_Cons)
    moreover have "smap gs" using Cons.prems(1) x by (simp add: smap_Cons)
    ultimately show ?case using Cons.IH Cons.prems(2) x by (auto simp: sorted_append)
  qed simp
  note sorted = this [OF sm mem]
  have "filter (\<lambda>p. p_group k = p_group p) ?ys = filter (\<lambda>p. p_group k = p_group p) ps" for k
    using f [of "p_group k"] by (simp only: eq_commute [of "p_group k"])
  then show ?thesis by (intro properties_for_sort_key [OF m _ sorted, symmetric])
qed

lemma convert_groups:
  assumes "metadata_laws A" and "schema_laws A" and "builder_laws A" and "value_laws A" and "group_codec P"
    and "\<forall>p \<in> set ps. wf_point options p \<and> canonical_group options p"
    and "\<forall>p \<in> set ps. \<forall>q \<in> set ps. p_group p = p_group q \<longrightarrow> same_columns p q"
    and "\<forall>(g, is) \<in> set gs. is \<noteq> [] \<and> (\<forall>i \<in> set is. i < length ps \<and> p_group (ps ! i) = g)"
  shows "\<exists>bs. rmap (\<lambda>(g, is). convertPointsGroup A P options ps g is) gs = Inr bs \<and>
    (\<forall>acc. rfold (convert_batch A P) bs (acc, length acc) =
       (let acc' = acc @ map (kept options) (map ((!) ps) (concat (map snd gs))) in Inr (acc', length acc')))"
  using assms(8)
proof (induction gs)
  case (Cons x gs)
  obtain g "is" where x: "x = (g, is)" by force
  let ?qs = "map ((!) ps) is" let ?p0 = "hd ?qs"
  have "is": "is \<noteq> []" "\<forall>i \<in> set is. i < length ps \<and> p_group (ps ! i) = g" using Cons.prems x by auto
  have p0: "?p0 \<in> set ?qs" using "is"(1) by (intro hd_in_set) simp
  have sub: "\<forall>q \<in> set ?qs. q \<in> set ps \<and> p_group q = g" using "is"(2) by auto
  have qs: "\<forall>q \<in> set ?qs. same_columns ?p0 q \<and> wf_point options q" using sub p0 assms(6,7) by metis
  have canon: "canonical_group options ?p0" "p_group ?p0 = g" using sub p0 assms(6) by blast+
  then obtain grp where grp: "parse g (pc_measurement_column_name options) = Inr grp"
    by (auto simp: canonical_group_def split: sum.splits)
  obtain b where b: "convertPointsGroup A P options ps g is = Inr b" "table_of A (point_columns options ?p0) ?qs b"
    "getTimeColumnNameMetadata A b = Inr (pc_time_column_name options)"
    "getMeasurementColumnNameMetadata A b = Inr (pc_measurement_column_name options)" "extractGroup A P b = Inr grp"
    by (rule convertPointsGroup_table [OF assms(1-3,5) "is"(1) refl p0 qs grp])
  have "convert_batch A P b (acc, length acc) = Inr (acc @ map (kept options) ?qs, length (acc @ map (kept options) ?qs))" for acc
    using convert_batch_table [OF assms(4) b(2) _ p0 canon(1) grp b(3-5)] qs sub by blast
  moreover obtain bs where "rmap (\<lambda>(g, is). convertPointsGroup A P options ps g is) gs = Inr bs"
    "\<And>acc. rfold (convert_batch A P) bs (acc, length acc) =
       (let acc' = acc @ map (kept options) (map ((!) ps) (concat (map snd gs))) in Inr (acc', length acc'))"
    using Cons by auto
  ultimately show ?case using b(1) x by (intro exI [of _ "b # bs"]) (simp add: Let_def del: length_append length_map)
qed (simp add: Let_def)

lemma convert_there_and_back:
  assumes "metadata_laws A" and "schema_laws A" and "builder_laws A" and "value_laws A" and "group_codec P"
    and "\<forall>p \<in> set ps. wf_point options p \<and> canonical_group options p"
    and "\<forall>p \<in> set ps. \<forall>q \<in> set ps. p_group p = p_group q \<longrightarrow> same_columns p q"
  shows "rbind (convertToRecordBatches A P options ps) (convertToPoints A P) = Inr (map (kept options) (sort_key p_group ps))"
proof -
  have "\<forall>(g, is) \<in> set (points_groups ps). is \<noteq> [] \<and> (\<forall>i \<in> set is. i < length ps \<and> p_group (ps ! i) = g)"
    using points_groups_member by fastforce
  from convert_groups [OF assms this] obtain bs where bs: "convertToRecordBatches A P options ps = Inr bs"
    "\<And>acc. rfold (convert_batch A P) bs (acc, length acc) =
       (let acc' = acc @ map (kept options) (map ((!) ps) (concat (map snd (points_groups ps)))) in Inr (acc', length acc'))"
    unfolding convertToRecordBatches_def by blast
  from bs(2) [of "[]"] show ?thesis by (simp add: bs(1) convertToPoints_def points_groups_sort Let_def)
qed

end
