(* ===== verification/Tick_Script.thy ===== *)
theory Tick_Script
  imports Node_Pipeline Simple_Handlers
begin

text \<open>
  \<open>src/examples/tick_script_adapted.cpp\<close>: the example program, a network of eleven pipelines that
  parses Graphite lines, groups and aggregates them, once for each host and once for each core over windows,
  and prints the rows with the levels of an alert. The trees of Gandiva are represented by the calls that
  build them, the file consumers by the names of their files, the TCP producer by its endpoint.
\<close>

section \<open>The options of the handlers\<close>

definition win_period :: int where "win_period = 7 * 60"
definition win_every :: int where "win_every = 2 * 60"

definition info_core_level :: double where "info_core_level = Fin 100"
definition warn_core_level :: double where "warn_core_level = Fin 90"
definition crit_core_level :: double where "crit_core_level = Fin 85"
definition info_host_level :: double where "info_host_level = Fin 100"
definition warn_host_level :: double where "warn_host_level = Fin 90"
definition crit_host_level :: double where "crit_host_level = Fin 85"

datatype tree_node =
    MakeField arrow_field
  | MakeStringLiteral string
  | MakeFunction string "tree_node list" arrow_type

datatype tree_expression = MakeExpression string "arrow_field list" arrow_field

definition cputime_all_filter_node_conditions :: "tree_node list" where
  "cputime_all_filter_node_conditions =
     [MakeFunction ''equal''
        [MakeField (new_field ''measurement'' (Plain STRING)), MakeStringLiteral ''cpu''] (Plain BOOL)]"

text \<open>The last value and the mean of a column; the type of the result is the default of the structure.\<close>

definition last_and_mean :: "string \<Rightarrow> string \<times> AggregateCase list" where
  "last_and_mean column =
     (column,
      [\<lparr>aggregate_function = kLast, result_column_name = column @ ''.last'', result_column_type = FIELD\<rparr>,
       \<lparr>aggregate_function = kMean, result_column_name = column @ ''.mean'', result_column_type = FIELD\<rparr>])"

definition cputime_host_last_options :: AggregateOptions where
  "cputime_host_last_options =
     \<lparr>aggregate_columns = map last_and_mean
        [''idle'', ''interrupt'', ''nice'', ''softirq'', ''steal'', ''system'', ''user'', ''wait''],
      result_time_column_rule =
        \<lparr>aggregate_function = kLast, result_column_name = ''time'', result_column_type = FIELD\<rparr>\<rparr>"

definition cputime_win_last_options :: AggregateOptions where
  "cputime_win_last_options =
     \<lparr>aggregate_columns = map last_and_mean
        [''idle'', ''interrupt'', ''nice'', ''softirq'', ''steal'', ''system'', ''user'', ''wait''],
      result_time_column_rule =
        \<lparr>aggregate_function = kLast, result_column_name = ''time'', result_column_type = FIELD\<rparr>\<rparr>"

abbreviation default_case :: "'v \<Rightarrow> 'v DefaultCase" where
  "default_case v \<equiv> \<lparr>default_value = v, default_column_type = UNKNOWN\<rparr>"

definition cputime_host_calc_options :: DefaultHandlerOptions where
  "cputime_host_calc_options =
     \<lparr>int64_default_cases = [],
      double_default_cases = smap_puts
        [(''info_host_level'', default_case info_host_level), (''warn_host_level'', default_case warn_host_level),
         (''crit_host_level'', default_case crit_host_level)] [],
      string_default_cases = smap_puts
        [(''alert-author'', default_case ''@kv:qrator.net''), (''incident-owners'', default_case ''nobody''),
         (''incident-comment'', default_case ''''), (''alert-on'', default_case ''cpu-idle-time-mean-host'')] [],
      bool_default_cases = [(''incident-is-expected'', default_case False)]\<rparr>"

definition cputime_win_calc_options :: DefaultHandlerOptions where
  "cputime_win_calc_options =
     \<lparr>int64_default_cases = [],
      double_default_cases = smap_puts
        [(''info_core_level'', default_case info_core_level), (''warn_core_level'', default_case warn_core_level),
         (''crit_core_level'', default_case crit_core_level),
         (''win-period'', default_case (double_of_int win_period)), (''win-every'', default_case (double_of_int win_every))] [],
      string_default_cases = smap_puts
        [(''alert-author'', default_case ''@kv:qrator.net''), (''incident-owners'', default_case ''nobody''),
         (''incident-comment'', default_case ''''), (''alert-on'', default_case ''cpu-idle-time-per-core'')] [],
      bool_default_cases = [(''incident-is-expected'', default_case False)]\<rparr>"

definition below_level :: "string \<Rightarrow> string \<Rightarrow> tree_expression \<times> ColumnType" where
  "below_level level alert =
     (MakeExpression ''less_than'' [new_field ''idle.mean'' (Plain DOUBLE), new_field level (Plain DOUBLE)]
        (new_field alert (Plain BOOL)), FIELD)"

definition cputime_host_calc_map_cases :: "(tree_expression \<times> ColumnType) list" where
  "cputime_host_calc_map_cases =
     [below_level ''info_host_level'' ''alert_info'', below_level ''warn_host_level'' ''alert_warn'',
      below_level ''crit_host_level'' ''alert_crit'']"

definition cputime_win_calc_map_cases :: "(tree_expression \<times> ColumnType) list" where
  "cputime_win_calc_map_cases =
     [below_level ''info_core_level'' ''alert_info'', below_level ''warn_core_level'' ''alert_warn'',
      below_level ''crit_core_level'' ''alert_crit'']"

definition window_options :: WindowOptions where
  "window_options = \<lparr>wo_period = win_period, wo_every = win_every, wo_fill_period = False\<rparr>"

section \<open>The nodes\<close>

datatype tick_handler =
    GraphiteLines "string list" string string string
  | FilterNode "tree_node list"
  | GroupNode "string list"
  | AggregateNode AggregateOptions
  | DefaultNode DefaultHandlerOptions
  | MapNode "tree_expression MapHandler"
  | WindowNode WindowOptions

record tick_node =
  tn_name :: string
  tn_handler :: tick_handler
  tn_consumers :: "string list"
  tn_upstream :: string

definition parse_graphite_node :: "string \<times> tick_handler \<times> string" where
  "parse_graphite_node =
     (''parse_graphite_node'',
      GraphiteLines [''*.cpu.*.percent.* host.measurement.cpu.type.field''] ''time'' ''.'' ''measurement'',
      ''127.0.0.1:4200'')"

definition cputime_all_filter_node :: tick_node where
  "cputime_all_filter_node =
     \<lparr>tn_name = ''cputime_all_filter_node'', tn_handler = FilterNode cputime_all_filter_node_conditions,
      tn_consumers = [], tn_upstream = ''parse_graphite_node''\<rparr>"

definition cputime_all_group_by_node :: tick_node where
  "cputime_all_group_by_node =
     \<lparr>tn_name = ''cputime_all_group_by_node'', tn_handler = GroupNode [''host'', ''type''],
      tn_consumers = [], tn_upstream = ''cputime_all_filter_node''\<rparr>"

definition cputime_host_last_aggregate_node :: tick_node where
  "cputime_host_last_aggregate_node =
     \<lparr>tn_name = ''cputime_host_last_aggregate_node'', tn_handler = AggregateNode cputime_host_last_options,
      tn_consumers = [], tn_upstream = ''cputime_all_group_by_node''\<rparr>"

definition cputime_host_calc_default_node :: tick_node where
  "cputime_host_calc_default_node =
     \<lparr>tn_name = ''cputime_host_calc_default_node'', tn_handler = DefaultNode cputime_host_calc_options,
      tn_consumers = [], tn_upstream = ''cputime_host_last_aggregate_node''\<rparr>"

definition cputime_host_calc_map_node :: "string \<Rightarrow> tick_node" where
  "cputime_host_calc_map_node argv0 =
     \<lparr>tn_name = ''cputime_host_calc_map_node'', tn_handler = MapNode (new_map_handler cputime_host_calc_map_cases),
      tn_consumers = [argv0 @ ''_result_42.txt''], tn_upstream = ''cputime_host_calc_default_node''\<rparr>"

definition cputime_all_win_window_node :: tick_node where
  "cputime_all_win_window_node =
     \<lparr>tn_name = ''cputime_all_win_window_node'', tn_handler = WindowNode window_options,
      tn_consumers = [], tn_upstream = ''cputime_all_filter_node''\<rparr>"

definition cputime_win_group_by_node :: tick_node where
  "cputime_win_group_by_node =
     \<lparr>tn_name = ''cputime_win_group_by_node'', tn_handler = GroupNode [''cpu'', ''host'', ''type''],
      tn_consumers = [], tn_upstream = ''cputime_all_win_window_node''\<rparr>"

definition cputime_win_last_aggregate_node :: tick_node where
  "cputime_win_last_aggregate_node =
     \<lparr>tn_name = ''cputime_win_last_aggregate_node'', tn_handler = AggregateNode cputime_win_last_options,
      tn_consumers = [], tn_upstream = ''cputime_win_group_by_node''\<rparr>"

definition cputime_win_calc_default_node :: tick_node where
  "cputime_win_calc_default_node =
     \<lparr>tn_name = ''cputime_win_calc_default_node'', tn_handler = DefaultNode cputime_win_calc_options,
      tn_consumers = [], tn_upstream = ''cputime_win_last_aggregate_node''\<rparr>"

definition cputime_win_calc_map_node :: "string \<Rightarrow> tick_node" where
  "cputime_win_calc_map_node argv0 =
     \<lparr>tn_name = ''cputime_win_calc_map_node'', tn_handler = MapNode (new_map_handler cputime_win_calc_map_cases),
      tn_consumers = [argv0 @ ''_result_43.txt''], tn_upstream = ''cputime_win_calc_default_node''\<rparr>"

section \<open>The network\<close>

definition new_pipeline :: NodePipeline where
  "new_pipeline = \<lparr>np_name = [], np_node_consumers = [], np_consumers = [], np_producer = None\<rparr>"

text \<open>A node made with consumers has them, and so has its pipeline.\<close>

definition add_pipeline ::
  "tick_node \<Rightarrow> (string, NodePipeline) smap \<Rightarrow> cpp_exn + (string, NodePipeline) smap"
where
  "add_pipeline n pipelines =
     (let p = fold np_addConsumer (tn_consumers n)
            ((np_setNode (tn_name n) new_pipeline)\<lparr>np_node_consumers := tn_consumers n\<rparr>)
      in case map_of pipelines (tn_upstream n) of
           None \<Rightarrow> Inl NullDereference
         | Some other_pipeline \<Rightarrow>
             rbind (subscribeTo INPROC other_pipeline p) (\<lambda>(other_pipeline, p).
               Inr (smap_put (tn_name n) p (smap_put (tn_upstream n) other_pipeline pipelines))))"

definition tick_nodes :: "string \<Rightarrow> tick_node list" where
  "tick_nodes argv0 =
     [cputime_all_filter_node, cputime_all_group_by_node, cputime_host_last_aggregate_node,
      cputime_host_calc_default_node, cputime_host_calc_map_node argv0, cputime_all_win_window_node,
      cputime_win_group_by_node, cputime_win_last_aggregate_node, cputime_win_calc_default_node,
      cputime_win_calc_map_node argv0]"

definition tick_pipelines :: "string \<Rightarrow> cpp_exn + (string, NodePipeline) smap" where
  "tick_pipelines argv0 =
     (let (name, _, endpoint) = parse_graphite_node
      in rfold add_pipeline (tick_nodes argv0)
           [(name, np_setProducer endpoint (np_setNode name new_pipeline))])"

section \<open>What the network is\<close>

text \<open>A network of pipelines that is well connected: every pipeline has the name it is stored under and a
  producer, no producer serves two pipelines, and every consumer of a node is one of its pipeline, so that it
  is started with it.\<close>

definition well_connected :: "(string, NodePipeline) smap \<Rightarrow> bool" where
  "well_connected ps \<longleftrightarrow>
     smap ps \<and> list_all (\<lambda>(name, p). np_name p = name \<and> np_producer p \<noteq> None \<and>
       set (np_node_consumers p) \<subseteq> set (np_consumers p)) ps \<and>
     distinct (map (np_producer \<circ> snd) ps)"

text \<open>The subscription of a node: its producer and a consumer of the node before it have the same address.\<close>

definition subscribed_node :: "(string, NodePipeline) smap \<Rightarrow> tick_node \<Rightarrow> bool" where
  "subscribed_node ps n \<longleftrightarrow>
     (case (map_of ps (tn_name n), map_of ps (tn_upstream n)) of
        (Some p, Some other) \<Rightarrow>
          (let address = ''inproc://'' @ tn_upstream n @ ''_to_'' @ tn_name n
           in np_producer p = Some address \<and> address \<in> set (np_node_consumers other))
      | _ \<Rightarrow> False)"

text \<open>The example is such a network, whatever the name of the program: its ten subscriptions connect eleven
  pipelines.\<close>

lemma tick_script_connected:
  "case tick_pipelines argv0 of Inl _ \<Rightarrow> False | Inr ps \<Rightarrow> well_connected ps \<and> length ps = 11 \<and>
     list_all (subscribed_node ps) (tick_nodes argv0)"
  by code_simp

text \<open>Both sides of the window handler's loop condition move on: it is not one of those that hang.\<close>

lemma tick_window_moves: "0 < wo_every window_options" "0 \<le> wo_period window_options"
  by (simp_all add: window_options_def win_every_def win_period_def)

end
