(* ===== verification/Threshold_Udf.thy ===== *)
theory Threshold_Udf
  imports Points_Roundtrip Udf_Handlers
begin

text \<open>
  The adaptive threshold function from end to end: a point that comes in
  (\<open>src/src/kapacitor_udf/request_handlers/stateful_threshold_request_handler.cpp\<close>) is converted to a
  record batch, goes to the state machine of its group, and is converted back. The points are answered by
  themselves with the threshold that a pure state machine for each group gives them.
\<close>

section \<open>The specification\<close>

text \<open>The value that is watched, the columns of the answer, and what the machines do to the points.\<close>

definition watched :: "ThresholdOptions \<Rightarrow> Point \<Rightarrow> double" where
  "watched options p = the (map_of (p_fieldsDouble p) (watch_column_name options))"

definition group_of :: "PointsToRecordBatchesConversionOptions \<Rightarrow> Point \<Rightarrow> RecordBatchGroup" where
  "group_of copts p = projr (parse (p_group p) (pc_measurement_column_name copts))"

definition with_level :: "PointsToRecordBatchesConversionOptions \<Rightarrow> ThresholdOptions \<Rightarrow> double \<Rightarrow> Point \<Rightarrow> Point" where
  "with_level copts options c p =
     p_fieldsDouble_update (smap_put (threshold_column_name options) c) (kept copts p)"

fun threshold_answers ::
  "PointsToRecordBatchesConversionOptions \<Rightarrow> ThresholdOptions \<Rightarrow> (int \<Rightarrow> int) \<Rightarrow> (RecordBatchGroup \<Rightarrow> ThresholdState)
     \<Rightarrow> Point list \<Rightarrow> Point list"
where
  "threshold_answers copts options seconds states [] = []"
| "threshold_answers copts options seconds states (p # ps) =
     (let g = group_of copts p;
          (c, st) = threshold_step options (states g) (watched options p) (seconds (p_time p))
      in with_level copts options c p # threshold_answers copts options seconds (states(g := st)) ps)"

text \<open>The points the function is for: with the watched field, and without the new one.\<close>

definition threshold_input :: "PointsToRecordBatchesConversionOptions \<Rightarrow> ThresholdOptions \<Rightarrow> Point \<Rightarrow> bool" where
  "threshold_input copts options p \<longleftrightarrow>
     wf_point copts p \<and> canonical_group copts p \<and> map_of (p_fieldsDouble p) (watch_column_name options) \<noteq> None \<and>
     threshold_column_name options \<notin> c_name ` set (point_columns copts p)"

text \<open>What the program relies on in Arrow for this; \<open>seconds\<close> is the cast of nanoseconds to seconds.\<close>

definition threshold_laws :: "arrow_lib \<Rightarrow> (int \<Rightarrow> int) \<Rightarrow> bool" where
  "threshold_laws A seconds \<longleftrightarrow>
     metadata_laws A \<and> schema_laws A \<and> builder_laws A \<and> column_law A \<and> value_laws A \<and>
     (\<forall>d. CastTo A (double_scalar d) (Plain DOUBLE) = Inr (double_scalar d)) \<and>
     (\<forall>t. CastTo A (int_scalar (Timestamp UNIT_NANO) t) (Timestamp UNIT_SECOND) =
        Inr (int_scalar (Timestamp UNIT_SECOND) (seconds t)))"

section \<open>One batch\<close>

lemma encode_group_tags:
  assumes "\<And>k. types k = Some TAG \<longleftrightarrow> types' k = Some TAG"
  shows "encode_group grp mc types = encode_group grp mc types'"
proof -
  have "encode_column mc types = encode_column mc types'"
    by (simp add: encode_column_def assms fun_eq_iff)
  then show ?thesis by (simp only: encode_group_def)
qed

text \<open>The column of the thresholds.\<close>

definition level_column :: "ThresholdOptions \<Rightarrow> double \<Rightarrow> point_column" where
  "level_column options c =
     \<lparr>c_name = threshold_column_name options, c_type = FIELD, c_arrow = Plain DOUBLE, c_read = (\<lambda>_. double_scalar c),
      c_write = (\<lambda>_. p_fieldsDouble_update (smap_put (threshold_column_name options) c))\<rparr>"

lemma add_threshold_column_table:
  assumes "metadata_laws A" and "schema_laws A" and "builder_laws A" and "column_law A"
    and "table_of A cols [p] b" and "threshold_column_name options \<notin> c_name ` set cols"
    and "threshold_column_type options = FIELD" and "distinct (map c_name cols)"
  obtains b' where "add_threshold_column A options b [c] = Inr [b']" and "table_of A (cols @ [level_column options c]) [p] b'"
    and "getColumnNameMetadata A b' = getColumnNameMetadata A b"
proof -
  let ?n = "threshold_column_name options"
  let ?f = "new_field ?n (Plain DOUBLE)" let ?a = "array_of [p] (level_column options c)"
  let ?b1 = "b\<lparr>b_schema := (b_schema b)\<lparr>sch_fields := sch_fields (b_schema b) @ [?f]\<rparr>, b_columns := b_columns b @ [?a]\<rparr>"
  have len: "num_columns b = length cols" "length (sch_fields (b_schema b)) = length cols" "b_num_rows b = 1"
    using assms(5) by (auto simp: table_of_def dest: list_all2_lengthD)
  have fin: "Finish A (Plain DOUBLE, [double_scalar c]) = Inr ?a"
    using assms(3) by (simp add: builder_laws_def array_of_def level_column_def)
  have "AddColumn A b (int (num_columns b)) ?f ?a = Inr (b\<lparr>b_schema := (b_schema b)
      \<lparr>sch_fields := insert_at (num_columns b) ?f (sch_fields (b_schema b))\<rparr>, b_columns := insert_at (num_columns b) ?a (b_columns b)\<rparr>)"
    using assms(4) len unfolding column_law_def by (simp add: array_of_def level_column_def)
  then have add: "AddColumn A b (int (num_columns b)) ?f ?a = Inr ?b1"
    using len insert_at_end [of "sch_fields (b_schema b)" ?f] insert_at_end [of "b_columns b" ?a] by simp
  have names: "?n \<notin> f_name ` set (sch_fields (b_schema b))"
    using table_names [OF assms(5)] assms(6) by (metis list.set_map)
  then have i: "field_index (b_schema ?b1) ?n = Some (length cols)"
    using field_index_snoc_new [of ?f "b_schema b"] len(2) by simp
  have "wf_batch ?b1" using len by (simp add: wf_batch_def)
  from setColumnMetadata_field [OF assms(1,2) this i] obtain f where
    f: "setFieldMetadata A (sch_fields (b_schema ?b1) ! length cols) COLUMN_TYPE_METADATA_KEY (ColumnType_Name FIELD) = Inr f"
    and s: "setColumnMetadata A ?b1 ?n COLUMN_TYPE_METADATA_KEY (ColumnType_Name FIELD) = Inr (with_field ?b1 (length cols) f)" .
  have fa: "sch_fields (b_schema ?b1) ! length cols = ?f" using len(2) by (simp add: nth_append)
  have "field_of A (level_column options c) f"
    using setFieldMetadata_keeps [OF f] setFieldTypeMetadata_type [OF assms(1), of ?f FIELD f] f
    unfolding fa by (simp add: field_of_def level_column_def setFieldTypeMetadata_def)
  then have t: "table_of A (cols @ [level_column options c]) [p] (with_field ?b1 (length cols) f)"
    using assms(5) len by (simp add: table_of_def list_all2_appendI list_update_append)
  have "add_threshold_column A options b [c] = Inr [with_field ?b1 (length cols) f]"
    using s by (simp add: add_threshold_column_def fin add setColumnTypeMetadata_def assms(7))
  moreover have "getColumnNameMetadata A (with_field ?b1 (length cols) f) = getColumnNameMetadata A b"
    by (simp add: getColumnNameMetadata_def fun_eq_iff)
  ultimately show thesis using t by (intro that)
qed

lemma keyed_column_member:
  "k \<in> set ks \<Longrightarrow>
     \<lparr>c_name = k, c_type = ct, c_arrow = ty, c_read = (\<lambda>p. sc (the (map_of (sel p) k))),
      c_write = (\<lambda>p. upd (smap_put k (the (map_of (sel p) k))))\<rparr> \<in> set (keyed_columns ct ty sel sc upd ks)"
  by (simp add: keyed_columns_def)

text \<open>The batch of one point, and the cells the machine reads.\<close>

lemma one_point_batch:
  assumes "threshold_laws A seconds" and "group_codec P" and "threshold_input copts options p"
  obtains b where "convertToRecordBatches A P copts [p] = Inr [b]" and "table_of A (point_columns copts p) [p] b"
    and "getTimeColumnNameMetadata A b = Inr (pc_time_column_name copts)"
    and "getMeasurementColumnNameMetadata A b = Inr (pc_measurement_column_name copts)"
    and "getColumnNameMetadata A b GROUP_METADATA_KEY = Inr (SerializeGroup P (group_of copts p))"
    and "parse (p_group p) (pc_measurement_column_name copts) = Inr (group_of copts p)"
    and "reads_rows A b (watch_column_name options) [(watched options p, seconds (p_time p))]"
proof -
  let ?cols = "point_columns copts p"
  have laws: "metadata_laws A" "schema_laws A" "builder_laws A" "value_laws A"
    using assms(1) by (simp_all add: threshold_laws_def)
  have wf: "wf_point copts p" "canonical_group copts p" using assms(3) by (simp_all add: threshold_input_def)
  then have dist: "distinct (map c_name ?cols)" by (simp add: wf_point_def)
  have grp: "parse (p_group p) (pc_measurement_column_name copts) = Inr (group_of copts p)"
    using wf(2) by (auto simp: canonical_group_def group_of_def split: sum.splits)
  obtain b where b: "convertPointsGroup A P copts [p] (p_group p) [0] = Inr b" "table_of A ?cols [p] b"
    "getTimeColumnNameMetadata A b = Inr (pc_time_column_name copts)"
    "getMeasurementColumnNameMetadata A b = Inr (pc_measurement_column_name copts)"
    "getColumnNameMetadata A b GROUP_METADATA_KEY = Inr (SerializeGroup P (group_of copts p))"
    by (rule convertPointsGroup_table [OF laws(1-3) assms(2), of "[0]" "[p]" "[p]" p copts "p_group p" "group_of copts p"])
      (use wf(1) grp in \<open>simp_all add: same_columns_def\<close>)
  have conv: "convertToRecordBatches A P copts [p] = Inr [b]"
    using b(1) by (simp add: convertToRecordBatches_def points_groups_def)
  have col: "GetColumnByName A b (c_name c) = Some (array_of [p] c)" if "c \<in> set ?cols" for c
    using table_column(2) [OF laws(2) b(2) dist] that by (metis in_set_conv_nth)
  have scalar: "GetScalar A (array_of [p] c) 0 = Inr (c_read c p)" for c
    using laws(4) [unfolded value_laws_def, THEN conjunct1, rule_format, of 0 "array_of [p] c"] by (simp add: array_of_def)
  obtain v where v: "map_of (p_fieldsDouble p) (watch_column_name options) = Some v"
    using assms(3) by (auto simp: threshold_input_def)
  let ?w = "\<lparr>c_name = watch_column_name options, c_type = FIELD, c_arrow = Plain DOUBLE,
      c_read = (\<lambda>q. double_scalar (the (map_of (p_fieldsDouble q) (watch_column_name options)))),
      c_write = (\<lambda>q. p_fieldsDouble_update (smap_put (watch_column_name options) (the (map_of (p_fieldsDouble q) (watch_column_name options)))))\<rparr>"
  have "watch_column_name options \<in> set (map fst (p_fieldsDouble p))" using v by (force dest: map_of_SomeD)
  then have "?w \<in> set (keyed_columns FIELD (Plain DOUBLE) p_fieldsDouble double_scalar p_fieldsDouble_update (map fst (p_fieldsDouble p)))"
    by (rule keyed_column_member)
  then have "?w \<in> set ?cols" unfolding point_columns_def set_append by blast
  from col [OF this] have "GetColumnByName A b (watch_column_name options) = Some (array_of [p] ?w)" by simp
  then have "getColumnValueAtRow A b (watch_column_name options) 0 = Inr (watched options p)"
    using scalar [of ?w] assms(1)
    by (simp add: getColumnValueAtRow_def isNumericType_def array_of_def watched_def threshold_laws_def)
      (simp add: double_scalar_def)
  moreover have "getTimeAtRow A b 0 = Inr (seconds (p_time p))"
  proof -
    let ?t = "hd (special_columns copts)"
  have "?t \<in> set ?cols" by (simp add: point_columns_def special_columns_def)
  from col [OF this] have "GetColumnByName A b (pc_time_column_name copts) = Some (array_of [p] ?t)"
    by (simp add: special_columns_def)
  then show ?thesis
    using scalar [of ?t] assms(1) b(3)
    by (simp add: getTimeAtRow_def castTimestampScalar_def threshold_laws_def special_columns_def)
      (simp add: int_scalar_def)
  qed
  ultimately have "reads_rows A b (watch_column_name options) [(watched options p, seconds (p_time p))]"
    by (simp add: reads_rows_def)
  with conv b(2-5) grp show thesis by (intro that)
qed

text \<open>The point that comes back.\<close>

lemma level_point_back:
  assumes "threshold_laws A seconds" and "group_codec P" and "threshold_input copts options p"
    and "table_of A (point_columns copts p @ [level_column options c]) [p] b'"
    and "getColumnNameMetadata A b' = getColumnNameMetadata A b"
    and "getTimeColumnNameMetadata A b = Inr tc"
    and "getMeasurementColumnNameMetadata A b = Inr (pc_measurement_column_name copts)"
    and "getColumnNameMetadata A b GROUP_METADATA_KEY = Inr (SerializeGroup P (group_of copts p))"
    and "parse (p_group p) (pc_measurement_column_name copts) = Inr (group_of copts p)"
  shows "convertToPoints A P [b'] = Inr [with_level copts options c p]"
proof -
  let ?cols = "point_columns copts p @ [level_column options c]" let ?mc = "pc_measurement_column_name copts"
  have laws: "metadata_laws A" "value_laws A" using assms(1) by (simp_all add: threshold_laws_def)
  have wf: "wf_point copts p" "canonical_group copts p" and new: "threshold_column_name options \<notin> c_name ` set (point_columns copts p)"
    using assms(3) by (simp_all add: threshold_input_def)
  have dist: "distinct (map c_name ?cols)" using wf(1) new by (simp add: wf_point_def level_column_def)
  have wb: "\<forall>c' \<in> set ?cols. writes_back A [p] c'"
    using point_columns_write_back [OF laws(2), of copts p "[p]"]
    by (simp add: level_column_def writes_back_def put_value_def double_scalar_def)
  have grp: "extractGroup A P b' = Inr (group_of copts p)"
    using group_entry_reads(2) [OF laws(1), of b'] assms(2,5,8) by (simp add: group_codec_def)
  have "map_of (map (\<lambda>c. (c_name c, c_type c)) (point_columns copts p)) k = Some TAG \<longleftrightarrow>
      map_of (map (\<lambda>c. (c_name c, c_type c)) ?cols) k = Some TAG" for k
    by (auto simp: map_add_def level_column_def split: option.splits if_splits)
  then have enc: "encode_group (group_of copts p) ?mc (map_of (map (\<lambda>c. (c_name c, c_type c)) ?cols)) = Inr (p_group p)"
    using wf(2) assms(9) encode_group_tags [of "map_of (map (\<lambda>c. (c_name c, c_type c)) (point_columns copts p))"
        "map_of (map (\<lambda>c. (c_name c, c_type c)) ?cols)"]
    by (simp add: canonical_group_def point_types_def)
  have "row_of ?cols (group_point (p_group p) (group_of copts p) ?mc) p = with_level copts options c p"
    using point_row [OF _ wf(1) assms(9), of p]
    by (simp add: row_of_def level_column_def with_level_def same_columns_def)
  moreover have "getTimeColumnNameMetadata A b' = Inr tc" "getMeasurementColumnNameMetadata A b' = Inr ?mc"
    using assms(5-7) by (simp_all add: getTimeColumnNameMetadata_def getMeasurementColumnNameMetadata_def)
  ultimately show ?thesis
    using convert_batch_rows [OF laws(2) assms(4) dist _ wb _ _ grp enc, of tc "[]"]
    by (simp add: convertToPoints_def)
qed

section \<open>The function\<close>

text \<open>The storage of the function with the machines \<open>gs\<close> of the groups, and no points.\<close>

definition threshold_running ::
  "arrow_lib \<Rightarrow> proto_lib \<Rightarrow> ThresholdOptions \<Rightarrow> ThresholdStateMachine GroupDispatcher
     \<Rightarrow> ThresholdStateMachine GroupDispatcher PointsStorage"
where
  "threshold_running A P options gs =
     (threshold_storage A P options)
       \<lparr>ps_handler := Some (handle_vector (dispatcher_handle A (threshold_handle A) (createThresholdHandler options)), gs)\<rparr>"

lemma threshold_running_start: "threshold_running A P options [] = threshold_storage A P options"
  by (simp add: threshold_running_def threshold_storage_def new_points_storage_def dispatcher_object_def)

definition machines_in ::
  "proto_lib \<Rightarrow> ThresholdOptions \<Rightarrow> (RecordBatchGroup \<Rightarrow> ThresholdState) \<Rightarrow> ThresholdStateMachine GroupDispatcher \<Rightarrow> bool"
where
  "machines_in P options states gs \<longleftrightarrow>
     (\<forall>g. group_state (createThresholdHandler options) gs (SerializeGroup P g) =
        \<lparr>tsm_options = options, tsm_state = Some (states g)\<rparr>)"

abbreviation udf_options :: PointsToRecordBatchesConversionOptions where
  "udf_options \<equiv> DEFAULT_TO_RECORD_BATCHES_OPTIONS"

lemma threshold_point_answer:
  assumes "threshold_laws A seconds" and "group_codec P" and "threshold_input udf_options options p"
    and "threshold_column_type options = FIELD" and "machines_in P options states gs"
    and "threshold_step options (states (group_of udf_options p)) (watched options p) (seconds (p_time p)) = (c, st)"
  shows "\<exists>gs'. threshold_point A P p (Some (threshold_running A P options gs)) =
      (Some (threshold_running A P options gs'), [ResponsePoint (with_level udf_options options c p)], Inr ()) \<and>
    machines_in P options (states(group_of udf_options p := st)) gs'"
proof -
  let ?create = "createThresholdHandler options" let ?g = "group_of udf_options p"
  have laws: "metadata_laws A" "schema_laws A" "builder_laws A" "column_law A" "appends A"
    using assms(1) by (auto simp: threshold_laws_def builder_laws_def appends_def)
  have inp: "wf_point udf_options p" "threshold_column_name options \<notin> c_name ` set (point_columns udf_options p)"
    using assms(3) by (simp_all add: threshold_input_def)
  obtain b where b: "convertToRecordBatches A P udf_options [p] = Inr [b]" "table_of A (point_columns udf_options p) [p] b"
    "getTimeColumnNameMetadata A b = Inr (pc_time_column_name udf_options)"
    "getMeasurementColumnNameMetadata A b = Inr (pc_measurement_column_name udf_options)"
    "getColumnNameMetadata A b GROUP_METADATA_KEY = Inr (SerializeGroup P ?g)"
    "parse (p_group p) (pc_measurement_column_name udf_options) = Inr ?g"
    "reads_rows A b (watch_column_name options) [(watched options p, seconds (p_time p))]"
    by (rule one_point_batch [OF assms(1-3)])
  let ?m = "\<lparr>tsm_options = options, tsm_state = Some (states ?g)\<rparr>"
  obtain b' where b': "add_threshold_column A options b [c] = Inr [b']"
    "table_of A (point_columns udf_options p @ [level_column options c]) [p] b'"
    "getColumnNameMetadata A b' = getColumnNameMetadata A b"
    by (rule add_threshold_column_table [OF laws(1-4) b(2) inp(2) assms(4)]) (use inp(1) in \<open>simp add: wf_point_def\<close>)
  have "threshold_handle A ?m b = (?m\<lparr>tsm_state := Some st\<rparr>, add_threshold_column A options b [c])"
    using threshold_handle_run [of A b ?m "[(watched options p, seconds (p_time p))]" "states ?g" "[c]" st] b(2,7) laws(5) assms(6)
    by (simp add: table_of_def)
  then have h: "threshold_handle A (group_state ?create gs (SerializeGroup P ?g)) b =
      (\<lparr>tsm_options = options, tsm_state = Some st\<rparr>, Inr [b'])"
    using assms(5) b'(1) by (simp add: machines_in_def)
  obtain gs' where d: "dispatcher_handle A (threshold_handle A) ?create gs b = (gs', Inr [b'])"
    and gs': "group_state ?create gs' = (group_state ?create gs)(SerializeGroup P ?g := \<lparr>tsm_options = options, tsm_state = Some st\<rparr>)"
    using dispatcher_step [where h = "threshold_handle A" and create = ?create and st = gs, OF group_entry_reads(1) [OF laws(1) b(5)] h]
    by blast
  have inj: "SerializeGroup P g = SerializeGroup P ?g \<longleftrightarrow> g = ?g" for g
    using assms(2) unfolding group_codec_def by metis
  have "machines_in P options (states(?g := st)) gs'"
    using assms(5) by (simp add: machines_in_def gs' inj)
  moreover have "convertToPoints A P [b'] = Inr [with_level udf_options options c p]"
    by (rule level_point_back [OF assms(1-3) b'(2,3) b(3-6)])
  ultimately show ?thesis
    by (intro exI [of _ gs'])
      (simp add: threshold_point_def threshold_running_def threshold_storage_def new_points_storage_def addPoint_def
        stream_handleBatch_def storage_handleBatch_def BasePointsConverter_def b(1) handle_vector_Cons d batch_responses_def
        logged_def storage_clear_def)
qed

text \<open>The points of a stream, handed to the function one after the other.\<close>

fun stream_points :: "(Point \<Rightarrow> ('h, unit) handler_op) \<Rightarrow> Point list \<Rightarrow> ('h, unit) handler_op" where
  "stream_points point [] h = (h, [], Inr ())"
| "stream_points point (p # ps) h =
     (case point p h of
        (h, rs, Inl e) \<Rightarrow> (h, rs, Inl e)
      | (h, rs, Inr _) \<Rightarrow> (let (h, later, r) = stream_points point ps h in (h, rs @ later, r)))"

lemma threshold_points_answers:
  assumes "threshold_laws A seconds" and "group_codec P" and "\<forall>p \<in> set ps. threshold_input udf_options options p"
    and "threshold_column_type options = FIELD" and "machines_in P options states gs"
  shows "\<exists>gs'. stream_points (threshold_point A P) ps (Some (threshold_running A P options gs)) =
    (Some (threshold_running A P options gs'),
     map ResponsePoint (threshold_answers udf_options options seconds states ps), Inr ())"
  using assms(3,5)
proof (induction ps arbitrary: states gs)
  case Nil
  show ?case by (intro exI [of _ gs]) simp
next
  case (Cons p ps)
  obtain c st where step: "threshold_step options (states (group_of udf_options p)) (watched options p) (seconds (p_time p)) = (c, st)"
    by force
  have inp: "threshold_input udf_options options p" using Cons.prems by simp
  obtain gs1 where 1: "threshold_point A P p (Some (threshold_running A P options gs)) =
      (Some (threshold_running A P options gs1), [ResponsePoint (with_level udf_options options c p)], Inr ())"
    "machines_in P options (states(group_of udf_options p := st)) gs1"
    using threshold_point_answer [OF assms(1,2) inp assms(4) Cons.prems(2) step] by blast
  obtain gs' where "stream_points (threshold_point A P) ps (Some (threshold_running A P options gs1)) =
    (Some (threshold_running A P options gs'),
     map ResponsePoint (threshold_answers udf_options options seconds (states(group_of udf_options p := st)) ps), Inr ())"
    using Cons.IH [OF _ 1(2)] Cons.prems(1) by (meson list.set_intros(2))
  then show ?case using 1(1) step by (intro exI [of _ gs']) simp
qed

text \<open>At the start every machine is in its first state.\<close>

lemma threshold_machines_start:
  "machines_in P options (\<lambda>_. StateOK (default_threshold options)) []"
  by (simp add: machines_in_def group_state_def createThresholdHandler_def)

end
