(* ===== verification/Double_Order.thy ===== *)
theory Double_Order
  imports Double
begin

text \<open>
  Rounding is monotone, and with it the arithmetic of \<open>double\<close> that the handlers use to compare
  distances in time.
\<close>

section \<open>Rounding is monotone\<close>

lemma round_half_even_mono: "x \<le> y \<Longrightarrow> round_half_even x \<le> round_half_even y"
proof -
  assume le: "x \<le> y"
  have b: "\<lfloor>z\<rfloor> \<le> round_half_even z \<and> round_half_even z \<le> \<lfloor>z\<rfloor> + 1" for z
    by (simp add: round_half_even_def Let_def)
  show ?thesis
  proof (cases "\<lfloor>x\<rfloor> = \<lfloor>y\<rfloor>")
    case True
    with le show ?thesis by (auto simp: round_half_even_def Let_def)
  next
    case False
    then have "\<lfloor>x\<rfloor> + 1 \<le> \<lfloor>y\<rfloor>" using floor_mono [OF le] by simp
    then show ?thesis using b [of x] b [of y] by linarith
  qed
qed

lemma ilog2_mono:
  assumes "0 < x" and "x \<le> y"
  shows "ilog2 x \<le> ilog2 y"
proof -
  have "(2::rat) powi (ilog2 x) < 2 powi (ilog2 y + 1)"
    using ilog2_bounds [of x] ilog2_bounds [of y] assms by linarith
  from powi_less_imp [OF this] show ?thesis by simp
qed

lemma of_int_powers:
  "n \<le> 2 ^ k \<Longrightarrow> of_int n \<le> (2::rat) ^ k" "2 ^ k \<le> n \<Longrightarrow> (2::rat) ^ k \<le> of_int n"
  by (metis of_int_le_iff of_int_numeral of_int_power)+

text \<open>The integer that is rounded: up to 53 bits, and no less than 53 for a normal number.\<close>

definition significand :: "rat \<Rightarrow> int" where
  "significand x = round_half_even (x * 2 powi (- ulp_exponent x))"

lemma round64_pos:
  assumes "0 < x"
  shows "round64 x = (if 971 < ulp_exponent x \<or> ulp_exponent x = 971 \<and> 2 ^ 53 \<le> significand x then PInf
    else Fin (of_int (significand x) * 2 powi (ulp_exponent x)))" and "0 \<le> significand x"
proof -
  have "round_half_even 0 \<le> significand x"
    unfolding significand_def using assms by (intro round_half_even_mono) (simp add: less_imp_le)
  then show pos: "0 \<le> significand x" by (simp add: round_half_even_def)
  show "round64 x = (if 971 < ulp_exponent x \<or> ulp_exponent x = 971 \<and> 2 ^ 53 \<le> significand x then PInf
    else Fin (of_int (significand x) * 2 powi (ulp_exponent x)))"
    using assms abs_of_nonneg [OF pos] less_imp_neq [OF assms]
    by (simp only: round64_def Let_def significand_def [symmetric]) simp
qed

lemma significand_upper:
  assumes "0 < x"
  shows "significand x \<le> 2 ^ 53"
proof -
  let ?u = "ulp_exponent x"
  have "ilog2 x + 1 - ?u \<le> 53" using assms by (simp add: ulp_exponent_def)
  have "x * 2 powi (- ?u) \<le> 2 powi (ilog2 x + 1) * 2 powi (- ?u)"
    using ilog2_bounds [OF assms] by (intro mult_right_mono) simp_all
  also have "\<dots> = 2 powi (ilog2 x + 1 - ?u)" by (simp flip: power_int_add)
  also have "\<dots> \<le> 2 powi 53" by (rule powi_mono) fact
  finally have "x * 2 powi (- ?u) \<le> of_int (2 ^ 53)" by simp
  from round_half_even_mono [OF this] show ?thesis by (simp only: significand_def round_half_even_of_int)
qed

lemma significand_lower:
  assumes "0 < x" and "- 1074 < ulp_exponent x"
  shows "2 ^ 52 \<le> significand x"
proof -
  let ?u = "ulp_exponent x"
  have u: "ilog2 x - ?u = 52" using assms by (auto simp: ulp_exponent_def)
  have "(2::rat) powi 52 = 2 powi (ilog2 x) * 2 powi (- ?u)" by (simp add: u flip: power_int_add)
  also have "\<dots> \<le> x * 2 powi (- ?u)"
    using ilog2_bounds [OF assms(1)] by (intro mult_right_mono) simp_all
  finally have "of_int (2 ^ 52) \<le> x * 2 powi (- ?u)" by simp
  from round_half_even_mono [OF this] show ?thesis by (simp only: significand_def round_half_even_of_int)
qed

lemma round64_mono_pos:
  assumes "0 < x" and "x \<le> y"
  shows "dle (round64 x) (round64 y)"
proof -
  let ?u = "ulp_exponent x" and ?v = "ulp_exponent y" and ?m = "significand x" and ?n = "significand y"
  have y: "0 < y" using assms by simp
  have uv: "?u \<le> ?v" using ilog2_mono [OF assms] assms y by (simp add: ulp_exponent_def)
  note r = round64_pos [OF assms(1)] round64_pos [OF y]
  show ?thesis
  proof (cases "?u = ?v")
    case True
    have "?m \<le> ?n"
      unfolding significand_def True using assms(2) by (intro round_half_even_mono mult_right_mono) simp_all
    then have "of_int ?m * 2 powi ?v \<le> (of_int ?n * 2 powi ?v :: rat)" by (intro mult_right_mono) simp_all
    then show ?thesis unfolding r(1,3) True using \<open>?m \<le> ?n\<close> by (simp del: power_numeral)
  next
    case False
    with uv have lt: "?u + 1 \<le> ?v" by simp
    have "- 1074 < ?v" using lt by (simp add: ulp_exponent_def)
    have "of_int ?m * 2 powi ?u \<le> (2 ^ 53 :: rat) * 2 powi ?u"
      using significand_upper [OF assms(1)] by (intro mult_right_mono of_int_powers) simp_all
    also have "\<dots> = 2 ^ 52 * 2 powi (?u + 1)" by (simp add: power_int_add)
    also have "\<dots> \<le> 2 ^ 52 * 2 powi ?v" using powi_mono [OF lt] by simp
    also have "\<dots> \<le> of_int ?n * 2 powi ?v"
      using significand_lower [OF y \<open>- 1074 < ?v\<close>] by (intro mult_right_mono of_int_powers) simp_all
    finally show ?thesis unfolding r(1,3) using lt by (simp del: power_numeral)
  qed
qed

lemma dle_dneg: "dle (dneg x) (dneg y) \<longleftrightarrow> dle y x"
  by (cases x; cases y) (auto simp: dneg_def)

lemma round64_dneg: "round64 (- x) = dneg (round64 x)"
  unfolding round64_minus dneg_def by (cases "round64 x") auto

lemma round64_nonneg: "0 \<le> x \<Longrightarrow> dle (Fin 0) (round64 x)"
  using round64_pos [of x] by (cases "x = 0") (auto simp: round64_def)

theorem round64_mono:
  assumes "x \<le> y"
  shows "dle (round64 x) (round64 y)"
proof (cases "0 < x")
  case True
  then show ?thesis using assms by (rule round64_mono_pos)
next
  case False
  have neg: "dle (round64 z) (Fin 0)" if "z \<le> 0" for z
    using round64_nonneg [of "- z"] that by (cases "round64 z") (auto simp: round64_dneg dneg_def)
  show ?thesis
  proof (cases "0 \<le> y")
    case True
    with False neg [of x] round64_nonneg [of y] show ?thesis by (auto intro: dle_trans)
  next
    case neg_y: False
    then have "dle (round64 (- y)) (round64 (- x))" using assms by (intro round64_mono_pos) simp_all
    then show ?thesis by (simp add: round64_dneg dle_dneg)
  qed
qed

section \<open>Arithmetic\<close>

definition finite_double :: "double \<Rightarrow> bool" where
  "finite_double x \<longleftrightarrow> (case x of Fin _ \<Rightarrow> True | _ \<Rightarrow> False)"

lemma finite_double_iff: "finite_double x \<longleftrightarrow> (\<exists>a. x = Fin a)"
  by (cases x) (simp_all add: finite_double_def)

lemma round64_not_NaN [simp]: "round64 x \<noteq> NaN"
  using round64_mono [of x x] by auto

lemma dsub_mono_left:
  assumes "finite_double x" and "finite_double y" and "finite_double z" and "dle x y"
  shows "dle (dsub x z) (dsub y z)"
  using assms by (auto simp: finite_double_iff dsub_def dneg_def dadd_def intro!: round64_mono)

lemma dsub_mono_right:
  assumes "finite_double x" and "finite_double y" and "finite_double z" and "dle x y"
  shows "dle (dsub z y) (dsub z x)"
  using assms by (auto simp: finite_double_iff dsub_def dneg_def dadd_def intro!: round64_mono)

lemma dsub_not_NaN: "finite_double x \<Longrightarrow> finite_double y \<Longrightarrow> dsub x y \<noteq> NaN"
  by (auto simp: finite_double_iff dsub_def dneg_def dadd_def)

lemma dsub_nonpos:
  assumes "finite_double x" and "finite_double y" and "dle x y"
  shows "dle (dsub x y) (Fin 0)"
proof -
  obtain a b where ab: "x = Fin a" "y = Fin b" using assms(1,2) by (auto simp: finite_double_iff)
  have "round64 (a - b) = dneg (round64 (b - a))" by (simp flip: round64_dneg)
  moreover have "dle (Fin 0) (round64 (b - a))" using assms(3) by (intro round64_nonneg) (simp add: ab)
  ultimately show ?thesis
    using dle_dneg [of "round64 (b - a)" "Fin 0"] by (simp add: ab dsub_def dneg_def dadd_def)
qed

lemma dmul_mono_right:
  assumes "0 < c" and "dle x y"
  shows "dle (dmul x (Fin c)) (dmul y (Fin c))"
proof -
  have m: "dle (round64 (a * c)) (round64 (b * c))" if "a \<le> b" for a b
    using assms(1) that by (intro round64_mono) simp
  have "dle (round64 z) PInf" "dle NInf (round64 z)" for z
    using round64_not_NaN [of z] by (cases "round64 z"; simp)+
  with m show ?thesis using assms by (cases x; cases y) (auto simp: dmul_def dsign_def)
qed

lemma dmul_not_NaN: "0 < c \<Longrightarrow> x \<noteq> NaN \<Longrightarrow> dmul x (Fin c) \<noteq> NaN"
  using dmul_mono_right [of c x x] by auto

lemma dmul_nonpos: "0 < c \<Longrightarrow> dle x (Fin 0) \<Longrightarrow> dle (dmul x (Fin c)) (Fin 0)"
  using dmul_mono_right [of c x "Fin 0"] by (simp add: dmul_def round64_def)

lemma double_of_int_mono: "m \<le> n \<Longrightarrow> dle (double_of_int m) (double_of_int n)"
  by (simp add: double_of_int_def round64_mono)

lemma double_of_int_finite:
  assumes "\<bar>n\<bar> \<le> 2 ^ 63"
  shows "finite_double (double_of_int n)"
proof (cases "n = 0")
  case True
  then show ?thesis by (simp add: double_of_int_def round64_def finite_double_def)
next
  case False
  have "\<bar>of_int n :: rat\<bar> \<le> 2 ^ 63" using of_int_powers(1) [OF assms] by simp
  moreover have "(2::rat) powi (- 1022) \<le> 1" using powi_mono [of "- 1022" 0] by simp
  moreover have "1 \<le> \<bar>of_int n :: rat\<bar>" using of_int_powers(2) [of 0 "\<bar>n\<bar>"] False by simp
  moreover have "(2::rat) ^ 63 < 2 ^ 1023" by (rule power_strict_increasing) simp_all
  ultimately have "\<bar>of_int n :: rat\<bar> < 2 ^ 1023" "2 powi (- 1022) \<le> \<bar>of_int n :: rat\<bar>" by linarith+
  then have "\<exists>y. round64 (of_int n) = Fin y"
    using round64_Fin_error [of "of_int n"] False by (metis of_int_eq_0_iff)
  then show ?thesis by (auto simp: double_of_int_def finite_double_iff)
qed

lemma double_of_int_pos:
  assumes "0 < n" and "n \<le> 2 ^ 63"
  obtains c where "double_of_int n = Fin c" and "0 < c"
proof -
  obtain c where c: "double_of_int n = Fin c" using double_of_int_finite [of n] assms by (auto simp: finite_double_iff)
  have "double_of_int 1 = Fin 1" using round64_of_int [of 1] by (simp add: double_of_int_def)
  then have "1 \<le> c" using double_of_int_mono [of 1 n] assms(1) by (simp add: c)
  then have "0 < c" by linarith
  with c show thesis by (rule that)
qed

end
