(* ===== verification/Derivative_Stream.thy ===== *)
theory Derivative_Stream
  imports Derivative_Handler Double_Order Window_Handler Simple_Handlers
begin

text \<open>
  What \<open>DerivativeHandler\<close> makes of a stream: every row whose neighbourhood is complete is emitted once,
  with the derivatives calculated on exactly the rows within the neighbourhood, however the stream is cut
  into batches.
\<close>

section \<open>Distances in time\<close>

definition position_time :: "DerivativeOptions \<Rightarrow> int \<Rightarrow> double" where
  "position_time options ns = double_of_int (trunc_div ns (unit_time_segment options))"

text \<open>\<open>t\<close> is not later than \<open>t'\<close> by more than the neighbourhood.\<close>

definition reaches :: "DerivativeOptions \<Rightarrow> int \<Rightarrow> int \<Rightarrow> bool" where
  "reaches options t t' \<longleftrightarrow> nearby options (position_time options t) (position_time options t')"

definition timely :: "DerivativeOptions \<Rightarrow> bool" where
  "timely options \<longleftrightarrow> 0 < unit_time_segment options \<and> unit_time_segment options \<le> 2 ^ 63 \<and>
     0 \<le> derivative_neighbourhood options \<and> derivative_neighbourhood options \<le> 2 ^ 63"

abbreviation int64_time :: "int \<Rightarrow> bool" where
  "int64_time t \<equiv> \<bar>t\<bar> \<le> 2 ^ 63"

lemma trunc_div_mono:
  assumes "0 < u" and "a \<le> b"
  shows "trunc_div a u \<le> trunc_div b u"
proof -
  have "- b div u \<le> - a div u" "a div u \<le> b div u" using assms by (auto intro: zdiv_mono1)
  moreover have "0 \<le> - a div u" if "a < 0" using assms(1) that by (simp add: pos_imp_zdiv_nonneg_iff)
  moreover have "0 \<le> b div u" if "0 < b" using assms(1) that by (simp add: pos_imp_zdiv_nonneg_iff)
  ultimately show ?thesis using assms by (cases "a < 0"; cases "b < 0"; cases "a = 0"; cases "b = 0") (simp_all add: trunc_div_def)
qed

lemma trunc_div_abs: "0 < u \<Longrightarrow> \<bar>trunc_div a u\<bar> \<le> \<bar>a\<bar>"
  using zdiv_mono2 [of "\<bar>a\<bar>" 1 u] by (auto simp: trunc_div_def abs_mult sgn_if pos_imp_zdiv_nonneg_iff)

lemma position_time_finite: "timely options \<Longrightarrow> int64_time t \<Longrightarrow> finite_double (position_time options t)"
  using trunc_div_abs [of "unit_time_segment options" t]
  by (auto simp: position_time_def timely_def intro: double_of_int_finite)

lemma position_time_mono: "timely options \<Longrightarrow> t \<le> t' \<Longrightarrow> dle (position_time options t) (position_time options t')"
  by (simp add: position_time_def timely_def double_of_int_mono trunc_div_mono)

lemma beyond_iff:
  assumes "timely options" and "int64_time t" and "int64_time t'"
  shows "beyond options (position_time options t) (position_time options t') \<longleftrightarrow> \<not> reaches options t t'"
proof -
  obtain u where u: "double_of_int (unit_time_segment options) = Fin u" "0 < u"
    using assms(1) double_of_int_pos by (auto simp: timely_def)
  have "finite_double (double_of_int (derivative_neighbourhood options))"
    using assms(1) by (intro double_of_int_finite) (simp add: timely_def)
  then have "double_of_int (derivative_neighbourhood options) \<noteq> NaN" by (auto simp: finite_double_def)
  then show ?thesis
    using dmul_not_NaN [OF u(2) dsub_not_NaN] position_time_finite [OF assms(1)] assms(2,3)
    by (simp add: beyond_def reaches_def nearby_def u dlt_iff_not_dle)
qed

lemma nearby_trans: "dle (dsub a b) (dsub a' b') \<Longrightarrow> timely options \<Longrightarrow> nearby options a' b' \<Longrightarrow> nearby options a b"
proof -
  assume le: "dle (dsub a b) (dsub a' b')" and "timely options" and n: "nearby options a' b'"
  then obtain u where u: "double_of_int (unit_time_segment options) = Fin u" "0 < u"
    using double_of_int_pos by (auto simp: timely_def)
  from n show ?thesis
    unfolding nearby_def u(1) by (rule dle_trans [OF dmul_mono_right [OF u(2) le]])
qed

lemma reaches_earlier:
  assumes "timely options" and "int64_time t" and "int64_time t'" and "int64_time s"
    and "reaches options t' s" and "t \<le> t'"
  shows "reaches options t s"
  unfolding reaches_def
  by (rule nearby_trans [OF dsub_mono_left assms(1) assms(5) [unfolded reaches_def]])
    (use assms in \<open>auto intro: position_time_finite position_time_mono\<close>)

lemma reaches_later:
  assumes "timely options" and "int64_time t" and "int64_time s" and "int64_time s'"
    and "reaches options t s" and "s \<le> s'"
  shows "reaches options t s'"
  unfolding reaches_def
  by (rule nearby_trans [OF dsub_mono_right assms(1) assms(5) [unfolded reaches_def]])
    (use assms in \<open>auto intro: position_time_finite position_time_mono\<close>)

lemma reaches_past:
  assumes "timely options" and "int64_time t" and "int64_time t'" and "t \<le> t'"
  shows "reaches options t t'"
proof -
  obtain u where u: "double_of_int (unit_time_segment options) = Fin u" "0 < u"
    using assms(1) double_of_int_pos by (auto simp: timely_def)
  have "dle (dmul (dsub (position_time options t) (position_time options t')) (Fin u)) (Fin 0)"
    using assms by (intro dmul_nonpos dsub_nonpos u(2) position_time_finite position_time_mono)
  moreover have "dle (Fin 0) (double_of_int (derivative_neighbourhood options))"
    using assms(1) by (auto simp: double_of_int_def timely_def intro: round64_nonneg)
  ultimately show ?thesis unfolding reaches_def nearby_def u(1) by (rule dle_trans)
qed

text \<open>On numbers that doubles hold exactly it is the comparison of the integers.\<close>

lemma reaches_exact:
  fixes t t' :: int and options :: DerivativeOptions
  defines "delta \<equiv> trunc_div t (unit_time_segment options) - trunc_div t' (unit_time_segment options)"
  assumes "\<bar>trunc_div t (unit_time_segment options)\<bar> \<le> 2 ^ 53" and "\<bar>trunc_div t' (unit_time_segment options)\<bar> \<le> 2 ^ 53"
    and "\<bar>delta\<bar> \<le> 2 ^ 53" and "\<bar>delta * unit_time_segment options\<bar> \<le> 2 ^ 53"
    and "\<bar>unit_time_segment options\<bar> \<le> 2 ^ 53" and "\<bar>derivative_neighbourhood options\<bar> \<le> 2 ^ 53"
  shows "reaches options t t' \<longleftrightarrow> delta * unit_time_segment options \<le> derivative_neighbourhood options"
proof -
  note exact = assms(2-)[THEN round64_of_int]
  have "dsub (position_time options t) (position_time options t') = Fin (of_int delta)"
    using exact(3) by (simp add: position_time_def double_of_int_def exact(1,2) dsub_def dneg_def dadd_def delta_def)
  moreover have "dmul (Fin (of_int delta)) (double_of_int (unit_time_segment options)) =
      Fin (of_int (delta * unit_time_segment options))"
    using exact(4) by (simp add: dmul_def double_of_int_def exact(5))
  ultimately show ?thesis
    by (simp only: reaches_def nearby_def double_of_int_def exact(6) dle.simps of_int_le_iff)
qed

section \<open>The buffers\<close>

text \<open>The buffers after the rows \<open>entered\<close>, of which the rows \<open>kept\<close> are still there. A column has an
  entry from its first value on.\<close>

definition valued :: "(string \<Rightarrow> 'r \<Rightarrow> double option) \<Rightarrow> string \<Rightarrow> 'r list \<Rightarrow> 'r list" where
  "valued val n xs = filter (\<lambda>x. val n x \<noteq> None) xs"

definition values_of :: "('r \<Rightarrow> double) \<Rightarrow> (string \<Rightarrow> 'r \<Rightarrow> double option) \<Rightarrow> string \<Rightarrow> 'r list \<Rightarrow> BufferedValues" where
  "values_of time val n xs =
     \<lparr>bv_times = map time (valued val n xs), bv_values = map (\<lambda>x. the (val n x)) (valued val n xs)\<rparr>"

definition buffers ::
  "('r \<Rightarrow> double) \<Rightarrow> (string \<Rightarrow> 'r \<Rightarrow> double option) \<Rightarrow> string set \<Rightarrow> 'r list \<Rightarrow> 'r list \<Rightarrow> (string, BufferedValues) smap \<Rightarrow> bool"
where
  "buffers time val names entered kept bufs \<longleftrightarrow>
     (\<forall>n. map_of bufs n =
       (if n \<in> names \<and> valued val n entered \<noteq> [] then Some (values_of time val n kept) else None))"

lemma valued_simps [simp]:
  "valued val n [] = []" "valued val n (xs @ ys) = valued val n xs @ valued val n ys"
  "valued val n (x # xs) = (if val n x = None then [] else [x]) @ valued val n xs"
  by (simp_all add: valued_def)

lemma buffers_start: "buffers time val names [] [] []"
  by (simp add: buffers_def)

lemma evict_values_rows:
  assumes "timely options" and "int64_time t" and "\<forall>x \<in> set xs. int64_time (ns x)" and "sorted (map ns xs)"
  shows "evict_values options (position_time options t) (map (\<lambda>x. position_time options (ns x)) xs) (map f xs) =
    (map (\<lambda>x. position_time options (ns x)) (filter (\<lambda>x. reaches options t (ns x)) xs),
     map f (filter (\<lambda>x. reaches options t (ns x)) xs))"
  using assms(3,4)
proof (induction xs)
  case (Cons x xs)
  have x: "int64_time (ns x)" using Cons.prems by simp
  show ?case
  proof (cases "reaches options t (ns x)")
    case True
    then have "\<forall>y \<in> set xs. reaches options t (ns y)"
      using Cons.prems by (auto intro: reaches_later [OF assms(1,2) x _ True])
    then have "filter (\<lambda>x. reaches options t (ns x)) xs = xs" by simp
    with True show ?thesis by (simp add: beyond_iff [OF assms(1,2) x])
  next
    case False
    then show ?thesis using Cons by (simp add: beyond_iff [OF assms(1,2) x])
  qed
qed simp

lemma evict_all_rows:
  assumes "timely options" and "int64_time t" and "\<forall>x \<in> set kept. int64_time (ns x)" and "sorted (map ns kept)"
    and "buffers (\<lambda>x. position_time options (ns x)) val names entered kept bufs"
  shows "buffers (\<lambda>x. position_time options (ns x)) val names entered (filter (\<lambda>x. reaches options t (ns x)) kept)
    (evict_all options (position_time options t) bufs)"
proof -
  have ev: "evict_all options (position_time options t) bufs =
      map (\<lambda>(n, b). (n, (\<lambda>b. let (ts, vs) = evict_values options (position_time options t) (bv_times b) (bv_values b)
        in \<lparr>bv_times = ts, bv_values = vs\<rparr>) b)) bufs"
    by (simp add: evict_all_def)
  have one: "evict_values options (position_time options t) (bv_times (values_of (\<lambda>x. position_time options (ns x)) val n kept))
      (bv_values (values_of (\<lambda>x. position_time options (ns x)) val n kept)) =
    (bv_times (values_of (\<lambda>x. position_time options (ns x)) val n (filter (\<lambda>x. reaches options t (ns x)) kept)),
     bv_values (values_of (\<lambda>x. position_time options (ns x)) val n (filter (\<lambda>x. reaches options t (ns x)) kept)))" for n
    using evict_values_rows [OF assms(1,2), of "valued val n kept" ns "\<lambda>x. the (val n x)"] assms(3,4)
    by (simp add: values_of_def valued_def sorted_filter conj_commute)
  show ?thesis
    using assms(5) unfolding buffers_def ev map_of_map by (simp add: one split_beta)
qed

lemma evict_rows:
  assumes "timely options" and "int64_time t" and "\<forall>x \<in> set (xs @ kept). int64_time (ns x)"
    and "sorted (map ns xs)" and "sorted (map ns kept)"
    and "buffers (\<lambda>x. position_time options (ns x)) val names entered kept bufs"
    and "xs = [] \<Longrightarrow> \<not> beyond options (position_time options t) left"
    and "xs \<noteq> [] \<Longrightarrow> left = position_time options (ns (hd xs))"
    and "xs = [] \<or> reaches options t (ns (hd xs)) \<Longrightarrow> \<forall>x \<in> set kept. reaches options t (ns x)"
  defines "xs' \<equiv> filter (\<lambda>x. reaches options t (ns x)) xs"
  shows "\<exists>left' bufs'. evict options (position_time options t) left (map (\<lambda>x. position_time options (ns x)) xs) bufs =
      Inr (left', map (\<lambda>x. position_time options (ns x)) xs', bufs') \<and>
    buffers (\<lambda>x. position_time options (ns x)) val names entered (filter (\<lambda>x. reaches options t (ns x)) kept) bufs' \<and>
    left' = (if xs = [] then left else if xs' = [] then position_time options t else position_time options (ns (hd xs')))"
  using assms(3-9) unfolding xs'_def
proof (induction xs arbitrary: left kept bufs)
  case Nil
  then show ?case by simp
next
  case (Cons x xs)
  have x: "int64_time (ns x)" and left: "left = position_time options (ns x)" using Cons.prems by simp_all
  show ?case
  proof (cases "reaches options t (ns x)")
    case True
    then have "\<forall>y \<in> set xs. reaches options t (ns y)"
      using Cons.prems(1,2) by (auto intro: reaches_later [OF assms(1,2) x _ True])
    then have all: "filter (\<lambda>x. reaches options t (ns x)) xs = xs" by simp
    have "filter (\<lambda>x. reaches options t (ns x)) kept = kept" using Cons.prems(7) True by simp
    with True all Cons.prems(4) show ?thesis by (simp add: left beyond_iff [OF assms(1,2) x])
  next
    case False
    let ?kept = "filter (\<lambda>x. reaches options t (ns x)) kept"
    let ?bufs = "evict_all options (position_time options t) bufs"
    let ?left = "if map (\<lambda>x. position_time options (ns x)) xs = [] then position_time options t
      else hd (map (\<lambda>x. position_time options (ns x)) xs)"
    have self: "\<not> beyond options (position_time options t) (position_time options t)"
      using beyond_iff [OF assms(1,2,2)] reaches_past [OF assms(1,2,2)] by simp
    have b: "buffers (\<lambda>x. position_time options (ns x)) val names entered ?kept ?bufs"
      using Cons.prems by (intro evict_all_rows assms(1,2)) auto
    have step: "evict options (position_time options t) left (map (\<lambda>x. position_time options (ns x)) (x # xs)) bufs =
        evict options (position_time options t) ?left (map (\<lambda>x. position_time options (ns x)) xs) ?bufs"
      using False by (simp add: left beyond_iff [OF assms(1,2) x])
    have "\<exists>left' bufs'. evict options (position_time options t) ?left (map (\<lambda>x. position_time options (ns x)) xs) ?bufs =
      Inr (left', map (\<lambda>x. position_time options (ns x)) (filter (\<lambda>x. reaches options t (ns x)) xs), bufs') \<and>
    buffers (\<lambda>x. position_time options (ns x)) val names entered (filter (\<lambda>x. reaches options t (ns x)) ?kept) bufs' \<and>
    left' = (if xs = [] then ?left else if filter (\<lambda>x. reaches options t (ns x)) xs = [] then position_time options t
      else position_time options (ns (hd (filter (\<lambda>x. reaches options t (ns x)) xs))))"
    proof (rule Cons.IH [OF _ _ _ b])
      show "\<forall>y \<in> set (xs @ ?kept). int64_time (ns y)" using Cons.prems(1) by auto
      show "sorted (map ns xs)" using Cons.prems(2) by simp
      show "sorted (map ns ?kept)" using Cons.prems(3) by (rule sorted_filter)
    qed (use self in \<open>auto simp: hd_map\<close>)
    with False show ?thesis unfolding step by (auto split: if_splits)
  qed
qed

text \<open>A negative neighbourhood, which the option parser accepts, pops from an empty deque.\<close>

lemma negative_neighbourhood_pops:
  assumes "derivative_neighbourhood options < 0" and "- (2 ^ 63) \<le> derivative_neighbourhood options"
    and "0 < unit_time_segment options" and "unit_time_segment options \<le> 2 ^ 63" and "int64_time t"
  shows "evict options (position_time options t) (position_time options t) [] bufs = Inl UndefinedBehaviour"
proof -
  obtain u where u: "double_of_int (unit_time_segment options) = Fin u" "0 < u"
    using double_of_int_pos [OF assms(3,4)] by blast
  obtain c where c: "double_of_int (- derivative_neighbourhood options) = Fin c" "0 < c"
    using double_of_int_pos [of "- derivative_neighbourhood options"] assms(1,2) by auto
  have "round64 (of_int (- (- derivative_neighbourhood options))) = dneg (double_of_int (- derivative_neighbourhood options))"
    unfolding double_of_int_def of_int_minus [of "- derivative_neighbourhood options"] by (rule round64_dneg)
  then have n: "double_of_int (derivative_neighbourhood options) = Fin (- c)"
    by (simp add: double_of_int_def [of "derivative_neighbourhood options"] c dneg_def)
  obtain a where a: "position_time options t = Fin a"
    using trunc_div_abs [OF assms(3), of t] assms(5) double_of_int_finite [of "trunc_div t (unit_time_segment options)"]
    by (auto simp: position_time_def finite_double_iff)
  have "dmul (dsub (Fin a) (Fin a)) (Fin u) = Fin 0"
    by (simp add: dsub_def dneg_def dadd_def dmul_def round64_def)
  then have "beyond options (Fin a) (Fin a)" using c(2) by (simp add: beyond_def u n)
  then show ?thesis by (simp add: a)
qed

section \<open>Rows enter the buffers\<close>

text \<open>A column reads as a list of values, of which some are missing.\<close>

definition reads_values :: "arrow_lib \<Rightarrow> arrow_array \<Rightarrow> double option list \<Rightarrow> bool" where
  "reads_values A c vs \<longleftrightarrow>
     (\<forall>i < length vs. \<exists>s. GetScalar A c (int i) = Inr s \<and> (s_is_valid s \<longleftrightarrow> vs ! i \<noteq> None) \<and>
        (\<forall>v. vs ! i = Some v \<longrightarrow> (\<exists>s'. CastTo A s (Plain DOUBLE) = Inr s' \<and> s_double s' = v)))"

lemma push_values_lookup:
  assumes "distinct (map fst cols)" and "\<forall>(n, c) \<in> set cols. reads_values A c (map (val n) rs)" and "i < length rs"
  shows "\<exists>bufs'. push_values A (int i) t cols bufs = (bufs', Inr ()) \<and>
    (\<forall>n. map_of bufs' n =
       (if n \<in> fst ` set cols \<and> val n (rs ! i) \<noteq> None
        then (let b = (case map_of bufs n of None \<Rightarrow> \<lparr>bv_times = [], bv_values = []\<rparr> | Some b \<Rightarrow> b)
              in Some \<lparr>bv_times = bv_times b @ [t], bv_values = bv_values b @ [the (val n (rs ! i))]\<rparr>)
        else map_of bufs n))"
  using assms(1,2)
proof (induction cols arbitrary: bufs)
  case (Cons nc cols)
  obtain m c where nc: "nc = (m, c)" by force
  have d: "distinct (map fst cols)" "m \<notin> fst ` set cols" and r: "reads_values A c (map (val m) rs)"
    and rest: "\<forall>(n, c) \<in> set cols. reads_values A c (map (val n) rs)"
    using Cons.prems by (auto simp: nc)
  obtain s where s: "GetScalar A c (int i) = Inr s" "s_is_valid s \<longleftrightarrow> val m (rs ! i) \<noteq> None"
    "\<And>v. val m (rs ! i) = Some v \<Longrightarrow> \<exists>s'. CastTo A s (Plain DOUBLE) = Inr s' \<and> s_double s' = v"
    using r assms(3) unfolding reads_values_def by auto
  show ?case
  proof (cases "val m (rs ! i)")
    case None
    with s obtain bufs' where "push_values A (int i) t (nc # cols) bufs = (bufs', Inr ())"
      and "\<forall>n. map_of bufs' n =
       (if n \<in> fst ` set cols \<and> val n (rs ! i) \<noteq> None
        then (let b = (case map_of bufs n of None \<Rightarrow> \<lparr>bv_times = [], bv_values = []\<rparr> | Some b \<Rightarrow> b)
              in Some \<lparr>bv_times = bv_times b @ [t], bv_values = bv_values b @ [the (val n (rs ! i))]\<rparr>)
        else map_of bufs n)"
      using Cons.IH [OF d(1) rest, of bufs] by (auto simp: nc)
    with None show ?thesis by (intro exI [of _ bufs']) (auto simp: nc)
  next
    case (Some v)
    let ?b = "case map_of bufs m of None \<Rightarrow> \<lparr>bv_times = [], bv_values = []\<rparr> | Some b \<Rightarrow> b"
    let ?bufs = "smap_put m \<lparr>bv_times = bv_times ?b @ [t], bv_values = bv_values ?b @ [v]\<rparr> bufs"
    obtain s' where s': "CastTo A s (Plain DOUBLE) = Inr s'" "s_double s' = v" using s(3) Some by blast
    obtain bufs' where "push_values A (int i) t cols ?bufs = (bufs', Inr ())"
      and "\<forall>n. map_of bufs' n =
       (if n \<in> fst ` set cols \<and> val n (rs ! i) \<noteq> None
        then (let b = (case map_of ?bufs n of None \<Rightarrow> \<lparr>bv_times = [], bv_values = []\<rparr> | Some b \<Rightarrow> b)
              in Some \<lparr>bv_times = bv_times b @ [t], bv_values = bv_values b @ [the (val n (rs ! i))]\<rparr>)
        else map_of ?bufs n)"
      using Cons.IH [OF d(1) rest, of ?bufs] by blast
    with Some s s' d(2) show ?thesis by (intro exI [of _ bufs']) (simp add: nc Let_def)
  qed
qed simp

lemma push_values_rows:
  assumes "distinct (map fst cols)" and "fst ` set cols = names"
    and "\<forall>(n, c) \<in> set cols. reads_values A c (map (val n) rs)" and "i < length rs"
    and "buffers time val names entered kept bufs" and "set kept \<subseteq> set entered"
  shows "\<exists>bufs'. push_values A (int i) (time (rs ! i)) cols bufs = (bufs', Inr ()) \<and>
    buffers time val names (entered @ [rs ! i]) (kept @ [rs ! i]) bufs'"
proof -
  have "valued val n entered = [] \<Longrightarrow> valued val n kept = []" for n
    using assms(6) by (auto simp: valued_def filter_empty_conv)
  moreover obtain bufs' where "push_values A (int i) (time (rs ! i)) cols bufs = (bufs', Inr ())"
    and "\<forall>n. map_of bufs' n =
       (if n \<in> fst ` set cols \<and> val n (rs ! i) \<noteq> None
        then (let b = (case map_of bufs n of None \<Rightarrow> \<lparr>bv_times = [], bv_values = []\<rparr> | Some b \<Rightarrow> b)
              in Some \<lparr>bv_times = bv_times b @ [time (rs ! i)], bv_values = bv_values b @ [the (val n (rs ! i))]\<rparr>)
        else map_of bufs n)"
    using push_values_lookup [OF assms(1,3,4), of "time (rs ! i)" bufs] by blast
  ultimately show ?thesis
    using assms(5) by (intro exI [of _ bufs']) (simp add: buffers_def assms(2) values_of_def)
qed

text \<open>The state of a handler whose buffers hold the rows \<open>kept\<close> of the rows \<open>entered\<close>.\<close>

definition holds ::
  "DerivativeOptions \<Rightarrow> ('r \<Rightarrow> int) \<Rightarrow> (string \<Rightarrow> 'r \<Rightarrow> double option) \<Rightarrow> 'r list \<Rightarrow> 'r list \<Rightarrow> DerivativeHandler \<Rightarrow> bool"
where
  "holds options ns val entered kept d \<longleftrightarrow>
     dh_options d = options \<and> set kept \<subseteq> set entered \<and>
     all_buffered_times d = map (\<lambda>x. position_time options (ns x)) kept \<and>
     buffers (\<lambda>x. position_time options (ns x)) val (values_column_name ` snd ` set (derivative_cases options))
       entered kept (buffered_values d)"

abbreviation names_of :: "DerivativeOptions \<Rightarrow> string set" where
  "names_of options \<equiv> values_column_name ` snd ` set (derivative_cases options)"

text \<open>The columns of the batch that are read: the time column and those of the values.\<close>

definition reads_batch ::
  "arrow_lib \<Rightarrow> DerivativeOptions \<Rightarrow> ('r \<Rightarrow> int) \<Rightarrow> (string \<Rightarrow> 'r \<Rightarrow> double option) \<Rightarrow> arrow_array
     \<Rightarrow> (string, arrow_array) smap \<Rightarrow> 'r list \<Rightarrow> bool"
where
  "reads_batch A options ns val tc cols rs \<longleftrightarrow>
     reads_ts A tc UNIT_NANO (map ns rs) \<and> distinct (map fst cols) \<and> fst ` set cols = names_of options \<and>
     (\<forall>(n, c) \<in> set cols. reads_values A c (map (val n) rs))"

lemma scaled_time:
  assumes "reads_batch A options ns val tc cols rs" and "i < length rs" and "unit_time_segment options \<noteq> 0"
  shows "getScaledPositionTime A options (int i) tc = Inr (position_time options (ns (rs ! i)))"
  using assms by (auto simp: reads_batch_def reads_ts_def read_ts_def rbind_eq_Inr_iff getScaledPositionTime_def position_time_def)

lemma enter_rows:
  fixes t :: int
  assumes "timely options" and "reads_batch A options ns val tc cols rs" and "rs \<noteq> []" and "q \<le> length rs"
    and "holds options ns val entered kept d"
  defines "fresh \<equiv> takeWhile (\<lambda>x. reaches options (ns x) t) (drop q rs)"
  defines "q' \<equiv> q + length fresh"
  shows "\<exists>d'. enter A tc cols (position_time options t) (length rs) q
      (position_time options (ns (rs ! min q (length rs - 1)))) d =
      (d', Inr (q', position_time options (ns (rs ! min q' (length rs - 1))))) \<and>
    holds options ns val (entered @ fresh) (kept @ fresh) d' \<and> buffered_batch d' = buffered_batch d"
  using assms(4,5) unfolding q'_def fresh_def
proof (induction "length rs - q" arbitrary: q entered kept d)
  case 0
  then have "q = length rs" by simp
  with 0 show ?case by (subst enter.simps) simp
next
  case (Suc k)
  have q: "q < length rs" and rb: "min q (length rs - 1) = q" and dr: "drop q rs = rs ! q # drop (Suc q) rs"
    using Suc.hyps(2) by (simp_all add: Cons_nth_drop_Suc)
  let ?t = "position_time options"
  have opt: "dh_options d = options" using Suc.prems(2) by (simp add: holds_def)
  show ?case
  proof (cases "reaches options (ns (rs ! q)) t")
    case False
    with q Suc.prems(2) show ?thesis
      unfolding rb dr by (subst enter.simps) (simp add: opt reaches_def rb)
  next
    case True
    have rd: "distinct (map fst cols)" "fst ` set cols = names_of options" "\<forall>(n, c) \<in> set cols. reads_values A c (map (val n) rs)"
      using assms(2) by (simp_all add: reads_batch_def)
    obtain bufs where bufs: "push_values A (int q) (?t (ns (rs ! q))) cols (buffered_values d) = (bufs, Inr ())"
      "buffers (\<lambda>x. ?t (ns x)) val (names_of options) (entered @ [rs ! q]) (kept @ [rs ! q]) bufs"
      using push_values_rows [OF rd q, of "\<lambda>x. ?t (ns x)" entered kept "buffered_values d"] Suc.prems(2)
      by (auto simp: holds_def)
    let ?d = "d\<lparr>all_buffered_times := all_buffered_times d @ [?t (ns (rs ! q))], buffered_values := bufs\<rparr>"
    have h: "holds options ns val (entered @ [rs ! q]) (kept @ [rs ! q]) ?d"
      using Suc.prems(2) bufs(2) by (auto simp: holds_def)
    have near: "nearby (dh_options d) (?t (ns (rs ! q))) (?t t)" using True by (simp add: opt reaches_def)
    show ?thesis
    proof (cases "Suc q = length rs")
      case last: True
      then have "length rs - Suc 0 = q" by simp
      with last True near bufs q h show ?thesis
        unfolding rb dr by (subst enter.simps) (simp add: opt)
    next
      case False
      then have sq: "Suc q < length rs" and m: "min (Suc q) (length rs - 1) = Suc q" using q by simp_all
      have next_t: "getScaledPositionTime A options (int (Suc q)) tc = Inr (?t (ns (rs ! Suc q)))"
        using scaled_time [OF assms(2) sq] assms(1) by (simp add: timely_def)
      have "enter A tc cols (?t t) (length rs) q (?t (ns (rs ! q))) d =
          enter A tc cols (?t t) (length rs) (Suc q) (?t (ns (rs ! Suc q))) ?d"
        using near bufs(1) q sq next_t by (subst enter.simps) (simp add: opt)
      moreover have "k = length rs - Suc q" using Suc.hyps(2) by simp
      ultimately show ?thesis
        using Suc.hyps(1) [of "Suc q" "entered @ [rs ! q]" "kept @ [rs ! q]" ?d] sq h True unfolding m rb dr by simp
    qed
  qed
qed

section \<open>The derivatives of a row\<close>

text \<open>The rows in the neighbourhood of a time, on both sides of it, and the cell of a result column.\<close>

definition neighbours :: "DerivativeOptions \<Rightarrow> ('r \<Rightarrow> int) \<Rightarrow> 'r list \<Rightarrow> int \<Rightarrow> 'r list" where
  "neighbours options ns rs t = filter (\<lambda>x. reaches options t (ns x) \<and> reaches options (ns x) t) rs"

definition window_derivative ::
  "DerivativeCalculator \<Rightarrow> DerivativeOptions \<Rightarrow> ('r \<Rightarrow> int) \<Rightarrow> (string \<Rightarrow> 'r \<Rightarrow> double option) \<Rightarrow> 'r list \<Rightarrow> DerivativeCase
     \<Rightarrow> int \<Rightarrow> scalar"
where
  "window_derivative calc options ns val window c t =
     (let xs = valued val (values_column_name c) window
      in case calc (map (\<lambda>x. position_time options (ns x)) xs) (map (\<lambda>x. the (val (values_column_name c) x)) xs)
              (position_time options t) (der_order c) of
           Some der \<Rightarrow> double_scalar der
         | None \<Rightarrow> null_scalar (Plain DOUBLE))"

definition derivative_cell ::
  "DerivativeCalculator \<Rightarrow> DerivativeOptions \<Rightarrow> ('r \<Rightarrow> int) \<Rightarrow> (string \<Rightarrow> 'r \<Rightarrow> double option) \<Rightarrow> 'r list \<Rightarrow> DerivativeCase
     \<Rightarrow> 'r \<Rightarrow> scalar"
where
  "derivative_cell calc options ns val rs c r =
     window_derivative calc options ns val (neighbours options ns rs (ns r)) c (ns r)"

text \<open>The builders of the result columns with the cells \<open>cells c\<close>.\<close>

definition result_builders :: "(DerivativeCase \<Rightarrow> scalar list) \<Rightarrow> (string, DerivativeCase) smap \<Rightarrow> (string, builder) smap" where
  "result_builders cells cases = map (\<lambda>(k, c). (k, (Plain DOUBLE, cells c))) cases"

lemma result_builders_simps [simp]:
  "result_builders cells [] = []"
  "result_builders cells ((k, c) # cases) = (k, (Plain DOUBLE, cells c)) # result_builders cells cases"
  "result_builders cells (cases @ cases') = result_builders cells cases @ result_builders cells cases'"
  "fst ` set (result_builders cells cases) = fst ` set cases"
  "map fst (result_builders cells cases) = map fst cases"
  by (force simp: result_builders_def)+

lemma smap_put_middle:
  assumes "smap (xs @ (k, v) # ys)"
  shows "smap_put k w (xs @ (k, v) # ys) = xs @ (k, w) # ys"
proof -
  have "\<forall>j \<in> fst ` set xs. j < k" using assms by (auto simp: smap_def sorted_wrt_append)
  then show ?thesis by (induction xs) auto
qed

lemma append_derivatives_cells:
  assumes "builder_laws A" and "smap (front @ cases)"
    and "buffers (\<lambda>x. position_time options (ns x)) val names entered kept bufs"
    and "\<forall>c \<in> snd ` set cases. values_column_name c \<in> names \<and> valued val (values_column_name c) entered \<noteq> []"
  shows "append_derivatives A calc (position_time options t) bufs cases
      (result_builders (\<lambda>c. cells c @ [window_derivative calc options ns val kept c t]) front @ result_builders cells cases) =
    Inr (result_builders (\<lambda>c. cells c @ [window_derivative calc options ns val kept c t]) (front @ cases))"
  using assms(2,4)
proof (induction cases arbitrary: front)
  case (Cons kc cases)
  obtain k c where kc: "kc = (k, c)" by force
  let ?new = "\<lambda>c. cells c @ [window_derivative calc options ns val kept c t]"
  let ?old = "result_builders ?new front @ (k, (Plain DOUBLE, cells c)) # result_builders cells cases"
  have keys: "map fst ?old = map fst (front @ (k, c) # cases)" by simp
  have sm: "smap ?old" using Cons.prems(1) unfolding smap_def keys kc by simp
  have k: "map_of ?old k = Some (Plain DOUBLE, cells c)"
    by (rule map_of_is_SomeI [OF smap_distinct [OF sm]]) simp
  have "map_of bufs (values_column_name c) = Some (values_of (\<lambda>x. position_time options (ns x)) val (values_column_name c) kept)"
    using assms(3) Cons.prems(2) by (simp add: buffers_def kc)
  then have "append_derivatives A calc (position_time options t) bufs ((k, c) # cases) ?old =
      append_derivatives A calc (position_time options t) bufs cases
        (smap_put k (Plain DOUBLE, ?new c) ?old)"
    using k assms(1)
    by (simp add: values_of_def window_derivative_def Let_def builder_laws_def split: option.splits)
  also have "smap_put k (Plain DOUBLE, ?new c) ?old =
      result_builders ?new (front @ [(k, c)]) @ result_builders cells cases"
    using smap_put_middle [OF sm] by simp
  finally show ?case using Cons.IH [of "front @ [(k, c)]"] Cons.prems by (simp add: kc)
qed simp

section \<open>The loop over the rows\<close>

text \<open>A row is settled when a later row is beyond its neighbourhood.\<close>

definition settled :: "DerivativeOptions \<Rightarrow> ('r \<Rightarrow> int) \<Rightarrow> 'r \<Rightarrow> 'r list \<Rightarrow> 'r list" where
  "settled options ns newest rs = takeWhile (\<lambda>x. \<not> reaches options (ns newest) (ns x)) rs"

text \<open>What is fixed in the loop: the rows \<open>seen\<close> of the stream, of which the last ones are in the batch.\<close>

definition derives :: "arrow_lib \<Rightarrow> DerivativeOptions \<Rightarrow> ('r \<Rightarrow> int) \<Rightarrow> (string \<Rightarrow> 'r \<Rightarrow> double option) \<Rightarrow> 'r list \<Rightarrow> bool" where
  "derives A options ns val seen \<longleftrightarrow>
     builder_laws A \<and> timely options \<and> \<not> no_wait_future options \<and> smap (derivative_cases options) \<and>
     (\<forall>x \<in> set seen. int64_time (ns x)) \<and> sorted (map ns seen) \<and>
     (seen \<noteq> [] \<longrightarrow> (\<forall>n \<in> names_of options. val n (hd seen) \<noteq> None))"

lemma derives_order:
  assumes "derives A options ns val seen" and "i \<le> j" and "j < length seen"
  shows "ns (seen ! i) \<le> ns (seen ! j)"
  using assms sorted_nth_mono [of "map ns seen" i j] by (simp add: derives_def)

lemma neighbours_prefix:
  assumes "derives A options ns val seen" and "m < length seen" and "i < m"
    and "\<forall>x \<in> set (take m seen). reaches options (ns x) (ns (seen ! i))"
    and "\<not> reaches options (ns (seen ! m)) (ns (seen ! i))"
  shows "neighbours options ns seen (ns (seen ! i)) = filter (\<lambda>x. reaches options (ns (seen ! i)) (ns x)) (take m seen)"
proof -
  have t: "timely options" and int64: "\<forall>x \<in> set seen. int64_time (ns x)" using assms(1) by (simp_all add: derives_def)
  have "\<not> reaches options (ns x) (ns (seen ! i))" if x: "x \<in> set (drop m seen)" for x
  proof
    assume "reaches options (ns x) (ns (seen ! i))"
    obtain j where j: "x = seen ! j" "m \<le> j" "j < length seen"
      using x by (auto simp: in_set_conv_nth)
    have "reaches options (ns (seen ! m)) (ns (seen ! i))"
      by (rule reaches_earlier [OF t _ _ _ \<open>reaches options (ns x) (ns (seen ! i))\<close>])
        (use int64 assms(2,3) j derives_order [OF assms(1) j(2,3)] in auto)
    with assms(5) show False ..
  qed
  then have "filter (\<lambda>x. reaches options (ns (seen ! i)) (ns x) \<and> reaches options (ns x) (ns (seen ! i))) (drop m seen) = []"
    by (simp add: filter_empty_conv)
  moreover have "filter (\<lambda>x. reaches options (ns (seen ! i)) (ns x) \<and> reaches options (ns x) (ns (seen ! i))) (take m seen) =
      filter (\<lambda>x. reaches options (ns (seen ! i)) (ns x)) (take m seen)"
    using assms(4) by (intro filter_cong) auto
  ultimately show ?thesis
    unfolding neighbours_def
    by (subst append_take_drop_id [of m seen, symmetric]) (simp only: filter_append append_Nil2)
qed

text \<open>The state at the top of the loop: \<open>i\<close> is the position of the row to derive, \<open>q\<close> the number of rows
  that have entered, both in the whole stream, \<open>t\<close> the time of the last eviction.\<close>

definition loop_state ::
  "DerivativeOptions \<Rightarrow> ('r \<Rightarrow> int) \<Rightarrow> (string \<Rightarrow> 'r \<Rightarrow> double option) \<Rightarrow> 'r list \<Rightarrow> nat \<Rightarrow> nat \<Rightarrow> int \<Rightarrow> double
     \<Rightarrow> DerivativeHandler \<Rightarrow> bool"
where
  "loop_state options ns val seen i q t left d \<longleftrightarrow>
     i < length seen \<and> i \<le> q \<and> q \<le> length seen \<and> int64_time t \<and> t \<le> ns (seen ! i) \<and>
     (let kept = filter (\<lambda>x. reaches options t (ns x)) (take q seen)
      in holds options ns val (take q seen) kept d \<and> (\<forall>x \<in> set (take q seen). reaches options (ns x) t) \<and>
         (if kept = [] then q = i \<and> left = position_time options (ns (seen ! i))
          else left = position_time options (ns (hd kept))))"

text \<open>One round: first the rows that are too old are evicted.\<close>

lemma round_evicts:
  assumes "derives A options ns val seen" and "loop_state options ns val seen i q t left d"
  defines "s \<equiv> ns (seen ! i)"
  defines "kept' \<equiv> filter (\<lambda>x. reaches options s (ns x)) (take q seen)"
  shows "\<exists>left' bufs.
    evict options (position_time options s) left (all_buffered_times d) (buffered_values d) =
      Inr (left', map (\<lambda>x. position_time options (ns x)) kept', bufs) \<and>
    holds options ns val (take q seen) kept'
      (d\<lparr>all_buffered_times := map (\<lambda>x. position_time options (ns x)) kept', buffered_values := bufs\<rparr>) \<and>
    left' = (if kept' = [] then position_time options s else position_time options (ns (hd kept')))"
proof -
  have t: "timely options" and int64: "\<And>x. x \<in> set seen \<Longrightarrow> int64_time (ns x)" and sorted: "sorted (map ns seen)"
    using assms(1) by (simp_all add: derives_def)
  let ?t = "position_time options" let ?kept = "filter (\<lambda>x. reaches options t (ns x)) (take q seen)"
  have i: "i < length seen" "int64_time t" "t \<le> s" and h: "holds options ns val (take q seen) ?kept d"
    and left: "if ?kept = [] then left = ?t s else left = ?t (ns (hd ?kept))"
    using assms(2) by (auto simp: loop_state_def Let_def s_def split: if_splits)
  have s: "int64_time s" using int64 [of "seen ! i"] i(1) by (simp add: s_def)
  have sub: "x \<in> set seen" if "x \<in> set (take q seen)" for x using that by (rule in_set_takeD)
  have kk: "filter (\<lambda>x. reaches options s (ns x)) ?kept = kept'"
    unfolding kept'_def
    by (auto simp: conj_commute intro!: filter_cong reaches_earlier [OF t i(2) s] int64 sub i(3))
  have sk: "sorted (map ns ?kept)"
    using sorted sorted_wrt_take [of "(\<le>)" "map ns seen" q] by (intro sorted_filter) (simp add: take_map)
  have all: "\<forall>x \<in> set ?kept. reaches options s (ns x)" if "?kept = [] \<or> reaches options s (ns (hd ?kept))"
  proof (cases "?kept = []")
    case False
    then have hd: "reaches options s (ns (hd ?kept))" using that by simp
    have le: "\<forall>x \<in> set ?kept. ns (hd ?kept) \<le> ns x" using sk False by (cases ?kept) auto
    have in_seen: "\<forall>x \<in> set ?kept. x \<in> set seen" using sub by auto
    show ?thesis
    proof
      fix x assume x: "x \<in> set ?kept"
      show "reaches options s (ns x)"
        using le in_seen x hd_in_set [OF False] by (intro reaches_later [OF t s _ _ hd] int64) auto
    qed
  qed simp
  have b: "buffers (\<lambda>x. ?t (ns x)) val (names_of options) (take q seen) ?kept (buffered_values d)"
    and a: "all_buffered_times d = map (\<lambda>x. ?t (ns x)) ?kept"
    using h by (simp_all add: holds_def)
  have fits: "\<forall>x \<in> set (?kept @ ?kept). int64_time (ns x)" using int64 sub by auto
  have empty: "\<not> beyond options (?t s) left" if "?kept = []"
    using left that beyond_iff [OF t s s] reaches_past [OF t s s] by simp
  have start: "left = ?t (ns (hd ?kept))" if "?kept \<noteq> []" using left that by (simp split: if_splits)
  obtain left' bufs where ev: "evict options (?t s) left (map (\<lambda>x. ?t (ns x)) ?kept) (buffered_values d) =
      Inr (left', map (\<lambda>x. ?t (ns x)) kept', bufs)"
    and b': "buffers (\<lambda>x. ?t (ns x)) val (names_of options) (take q seen) kept' bufs"
    and l: "left' = (if ?kept = [] then left else if kept' = [] then ?t s else ?t (ns (hd kept')))"
    using evict_rows [OF t s fits sk sk b empty start all] unfolding kk by blast
  have "left' = (if kept' = [] then ?t s else ?t (ns (hd kept')))"
  proof (cases "?kept = []")
    case True
    then have "kept' = []" using kk by (metis filter.simps(1))
    with True l left show ?thesis by (simp split: if_splits)
  qed (use l in simp)
  moreover have "set kept' \<subseteq> set (take q seen)" by (simp add: kept'_def)
  ultimately show ?thesis using ev a b' h by (intro exI [of _ left'] exI [of _ bufs]) (simp add: holds_def)
qed

text \<open>Then the rows that are near enough enter.\<close>

lemma round_enters:
  assumes "derives A options ns val seen" and "reads_batch A options ns val tc cols (drop k seen)"
    and "k \<le> q" and "q \<le> length seen" and "k < length seen" and "holds options ns val (take q seen) kept d"
  fixes s :: int
  defines "fresh \<equiv> takeWhile (\<lambda>x. reaches options (ns x) s) (drop q seen)"
  shows "\<exists>d'. enter A tc cols (position_time options s) (length seen - k) (q - k)
      (position_time options (ns (seen ! min q (length seen - 1)))) d =
      (d', Inr (q + length fresh - k, position_time options (ns (seen ! min (q + length fresh) (length seen - 1))))) \<and>
    holds options ns val (take (q + length fresh) seen) (kept @ fresh) d' \<and> buffered_batch d' = buffered_batch d"
proof -
  have t: "timely options" using assms(1) by (simp add: derives_def)
  have dd: "drop (q - k) (drop k seen) = drop q seen" and ne: "drop k seen \<noteq> []" and len: "length (drop k seen) = length seen - k"
    and qk: "q - k \<le> length (drop k seen)"
    using assms(3-5) by simp_all
  have nth: "drop k seen ! min (m - k) (length seen - k - 1) = seen ! min m (length seen - 1)" if "k \<le> m" for m
  proof -
    have "k + min (m - k) (length seen - k - 1) = min m (length seen - 1)" using assms(5) that by linarith
    then show ?thesis using assms(5) by (simp del: diff_diff_left)
  qed
  have sum: "q - k + length fresh = q + length fresh - k" using assms(3) by simp
  have "take (q + length fresh) seen = take q seen @ fresh"
    by (simp add: take_add fresh_def takeWhile_eq_take [symmetric])
  then show ?thesis
    using enter_rows [OF t assms(2) ne qk assms(6), where t = s] assms(3)
    unfolding dd len fresh_def [symmetric] sum nth [OF assms(3)] nth [of "q + length fresh", OF trans_le_add1 [OF assms(3)]]
    by simp
qed

lemma fresh_rows:
  assumes "derives A options ns val seen" and "i < length seen" and "i \<le> q"
  defines "s \<equiv> ns (seen ! i)"
  defines "fresh \<equiv> takeWhile (\<lambda>x. reaches options (ns x) s) (drop q seen)"
  shows "filter (\<lambda>x. reaches options s (ns x)) fresh = fresh" and "i < q + length fresh"
    and "i = q \<Longrightarrow> fresh \<noteq> [] \<and> hd fresh = seen ! i"
proof -
  have t: "timely options" and int64: "\<And>x. x \<in> set seen \<Longrightarrow> int64_time (ns x)"
    using assms(1) by (simp_all add: derives_def)
  have s: "int64_time s" using int64 [of "seen ! i"] assms(2) by (simp add: s_def)
  have late: "s \<le> ns x" if x: "x \<in> set (drop q seen)" for x
  proof -
    obtain j where "x = seen ! (q + j)" "q + j < length seen" using x by (auto simp: in_set_conv_nth)
    then show ?thesis using derives_order [OF assms(1), of i "q + j"] assms(3) by (simp add: s_def)
  qed
  show "filter (\<lambda>x. reaches options s (ns x)) fresh = fresh"
  proof (rule filter_True, rule ballI)
    fix x assume "x \<in> set fresh"
    then have x: "x \<in> set (drop q seen)" unfolding fresh_def by (rule set_takeWhileD [THEN conjunct1])
    show "reaches options s (ns x)" by (rule reaches_past [OF t s int64 [OF in_set_dropD [OF x]] late [OF x]])
  qed
  show first: "fresh \<noteq> [] \<and> hd fresh = seen ! i" if "i = q"
  proof -
    have "drop q seen = seen ! i # drop (Suc q) seen" using assms(2) that by (simp add: Cons_nth_drop_Suc)
    then show ?thesis using reaches_past [OF t s s] by (simp add: fresh_def s_def)
  qed
  show "i < q + length fresh" using first assms(3) by (cases "i = q") auto
qed

lemma loop_round:
  assumes "derives A options ns val seen" and "loop_state options ns val seen i q t left d"
    and "reads_batch A options ns val tc cols (drop k seen)" and "k \<le> i"
  defines "s \<equiv> ns (seen ! i)"
  defines "q' \<equiv> q + length (takeWhile (\<lambda>x. reaches options (ns x) s) (drop q seen))"
  shows "\<exists>left' kept bufs d'.
    evict options (position_time options s) left (all_buffered_times d) (buffered_values d) = Inr (left', kept, bufs) \<and>
    enter A tc cols (position_time options s) (length seen - k) (q - k)
      (position_time options (ns (seen ! min q (length seen - 1)))) (d\<lparr>all_buffered_times := kept, buffered_values := bufs\<rparr>) =
      (d', Inr (q' - k, position_time options (ns (seen ! min q' (length seen - 1))))) \<and>
    loop_state options ns val seen i q' s left' d' \<and> i < q' \<and> buffered_batch d' = buffered_batch d"
proof -
  have t: "timely options" and int64: "\<And>x. x \<in> set seen \<Longrightarrow> int64_time (ns x)"
    using assms(1) by (simp_all add: derives_def)
  let ?t = "position_time options" let ?kept = "filter (\<lambda>x. reaches options s (ns x)) (take q seen)"
  let ?fresh = "takeWhile (\<lambda>x. reaches options (ns x) s) (drop q seen)"
  have i: "i < length seen" "i \<le> q" "q \<le> length seen" "int64_time t" "t \<le> s"
    and near: "\<forall>x \<in> set (take q seen). reaches options (ns x) t"
    using assms(2) by (simp_all add: loop_state_def Let_def s_def)
  have s: "int64_time s" using int64 [of "seen ! i"] i(1) by (simp add: s_def)
  obtain left' bufs where ev: "evict options (?t s) left (all_buffered_times d) (buffered_values d) =
      Inr (left', map (\<lambda>x. ?t (ns x)) ?kept, bufs)"
    and h1: "holds options ns val (take q seen) ?kept
      (d\<lparr>all_buffered_times := map (\<lambda>x. ?t (ns x)) ?kept, buffered_values := bufs\<rparr>)"
    and l: "left' = (if ?kept = [] then ?t s else ?t (ns (hd ?kept)))"
    using round_evicts [OF assms(1,2)] unfolding s_def by blast
  obtain d' where en: "enter A tc cols (?t s) (length seen - k) (q - k) (?t (ns (seen ! min q (length seen - 1))))
      (d\<lparr>all_buffered_times := map (\<lambda>x. ?t (ns x)) ?kept, buffered_values := bufs\<rparr>) =
      (d', Inr (q' - k, ?t (ns (seen ! min q' (length seen - 1)))))"
    and h2: "holds options ns val (take q' seen) (?kept @ ?fresh) d'" and bb: "buffered_batch d' = buffered_batch d"
    using round_enters [OF assms(1,3) _ i(3) _ h1, of s] assms(4) i(1,2) by (auto simp: q'_def)
  note fr = fresh_rows [OF assms(1) i(1,2), folded s_def]
  have tk: "take q' seen = take q seen @ ?fresh" by (simp add: q'_def take_add takeWhile_eq_take [symmetric])
  have kept: "filter (\<lambda>x. reaches options s (ns x)) (take q' seen) = ?kept @ ?fresh" unfolding tk by (simp add: fr(1))
  have q': "q' \<le> length seen" "i < q'"
    using length_takeWhile_le [of "\<lambda>x. reaches options (ns x) s" "drop q seen"] i(3) fr(2) by (simp_all add: q'_def)
  have "reaches options (ns x) s" if x: "x \<in> set (take q' seen)" for x
  proof (cases "x \<in> set ?fresh")
    case True
    then show ?thesis by (rule set_takeWhileD [THEN conjunct2])
  next
    case False
    then have "x \<in> set (take q seen)" using x by (simp add: tk)
    then show ?thesis
      using near int64 [OF in_set_takeD [OF x]] by (intro reaches_later [OF t _ i(4) s _ i(5)]) auto
  qed
  moreover have "left' = ?t (ns (hd (?kept @ ?fresh))) \<and> ?kept @ ?fresh \<noteq> []"
  proof (cases "?kept = []")
    case True
    have "seen ! i \<notin> set (take q seen)"
      using True reaches_past [OF t s s] by (auto simp: filter_empty_conv s_def)
    then have "i = q" using i by (metis in_set_conv_nth le_neq_implies_less length_take min.absorb2 nth_take)
    then show ?thesis using fr(3) l True by (simp add: s_def)
  qed (use l in simp)
  ultimately have "loop_state options ns val seen i q' s left' d'"
    using i(1) q' s h2 by (simp add: loop_state_def Let_def kept s_def [symmetric])
  with ev en q'(2) bb show ?thesis by blast
qed

text \<open>The rounds until a row has to wait for later rows.\<close>

lemma settled_step:
  "i < length rs \<Longrightarrow> \<not> reaches options (ns newest) (ns (rs ! i)) \<Longrightarrow>
     settled options ns newest (drop i rs) = rs ! i # settled options ns newest (drop (Suc i) rs)"
  by (simp add: settled_def Cons_nth_drop_Suc [symmetric])

lemma settled_stop:
  "i < length rs \<Longrightarrow> reaches options (ns newest) (ns (rs ! i)) \<Longrightarrow> settled options ns newest (drop i rs) = []"
  by (simp add: settled_def Cons_nth_drop_Suc [symmetric])

text \<open>The builders after some rows.\<close>

abbreviation cells_of ::
  "DerivativeCalculator \<Rightarrow> DerivativeOptions \<Rightarrow> ('r \<Rightarrow> int) \<Rightarrow> (string \<Rightarrow> 'r \<Rightarrow> double option) \<Rightarrow> 'r list \<Rightarrow> 'r list
     \<Rightarrow> (string, builder) smap"
where
  "cells_of calc options ns val seen rs \<equiv>
     result_builders (\<lambda>c. map (derivative_cell calc options ns val seen c) rs) (derivative_cases options)"

lemma derive_waits:
  assumes "row < n" and "getScaledPositionTime A (dh_options d) (int row) tc = Inr t"
    and "evict (dh_options d) t left (all_buffered_times d) (buffered_values d) = Inr (left', kept, bufs)"
    and "enter A tc cols t n q rb (d\<lparr>all_buffered_times := kept, buffered_values := bufs\<rparr>) = (d', Inr (q', rb'))"
    and "\<not> no_wait_future (dh_options d')" and "nearby (dh_options d') rb' t"
  shows "derive A calc tc cols n row left q rb builders d = (d', Inr (row, builders))"
  using assms by (subst derive.simps) simp

lemma derive_goes_on:
  assumes "row < n" and "getScaledPositionTime A (dh_options d) (int row) tc = Inr t"
    and "evict (dh_options d) t left (all_buffered_times d) (buffered_values d) = Inr (left', kept, bufs)"
    and "enter A tc cols t n q rb (d\<lparr>all_buffered_times := kept, buffered_values := bufs\<rparr>) = (d', Inr (q', rb'))"
    and "\<not> nearby (dh_options d') rb' t"
    and "append_derivatives A calc t (buffered_values d') (derivative_cases (dh_options d')) builders = Inr builders'"
  shows "derive A calc tc cols n row left q rb builders d = derive A calc tc cols n (Suc row) left' q' rb' builders' d'"
  using assms by (subst derive.simps) simp

lemma derive_rows:
  assumes "derives A options ns val seen" and "reads_batch A options ns val tc cols (drop k seen)"
    and "loop_state options ns val seen i q t left d" and "k \<le> i"
  defines "pending \<equiv> settled options ns (last seen) (drop i seen)"
  shows "\<exists>d' q' t' left'. derive A calc tc cols (length seen - k) (i - k) left (q - k)
      (position_time options (ns (seen ! min q (length seen - 1)))) (cells_of calc options ns val seen ready) d =
      (d', Inr (i + length pending - k, cells_of calc options ns val seen (ready @ pending))) \<and>
    loop_state options ns val seen (i + length pending) (length seen) t' left' d' \<and>
    t' = ns (seen ! (i + length pending)) \<and> buffered_batch d' = buffered_batch d"
  using assms(3,4) unfolding pending_def
proof (induction "length seen - i" arbitrary: i q t left d ready rule: less_induct)
  case less
  let ?t = "position_time options" let ?s = "ns (seen ! i)" let ?n = "length seen - k"
  have i: "i < length seen" "i \<le> q" using less.prems(1) by (simp_all add: loop_state_def)
  have laws: "builder_laws A" "timely options" "smap (derivative_cases options)" "\<not> no_wait_future options"
    and first: "\<forall>n \<in> names_of options. val n (hd seen) \<noteq> None"
    and int64: "\<And>x. x \<in> set seen \<Longrightarrow> int64_time (ns x)"
    using assms(1) i(1) by (auto simp: derives_def)
  define q' where "q' = q + length (takeWhile (\<lambda>x. reaches options (ns x) ?s) (drop q seen))"
  obtain left' kept bufs d' where
    ev: "evict options (?t ?s) left (all_buffered_times d) (buffered_values d) = Inr (left', kept, bufs)"
    and en: "enter A tc cols (?t ?s) ?n (q - k) (?t (ns (seen ! min q (length seen - 1))))
       (d\<lparr>all_buffered_times := kept, buffered_values := bufs\<rparr>) = (d', Inr (q' - k, ?t (ns (seen ! min q' (length seen - 1)))))"
    and st: "loop_state options ns val seen i q' ?s left' d'" and iq: "i < q'" and bb: "buffered_batch d' = buffered_batch d"
    using loop_round [OF assms(1) less.prems(1) assms(2) less.prems(2)] unfolding q'_def by blast
  have q': "q' \<le> length seen" and near: "\<forall>x \<in> set (take q' seen). reaches options (ns x) ?s"
    and h: "holds options ns val (take q' seen) (filter (\<lambda>x. reaches options ?s (ns x)) (take q' seen)) d'"
    using st by (simp_all add: loop_state_def Let_def)
  have opts: "dh_options d = options" "dh_options d' = options"
    using less.prems(1) h by (simp_all add: loop_state_def Let_def holds_def)
  have time: "getScaledPositionTime A options (int (i - k)) tc = Inr (?t ?s)"
    using scaled_time [OF assms(2), of "i - k"] i(1) less.prems(2) laws(2) by (simp add: timely_def)
  have ne: "seen \<noteq> []" using i(1) by auto
  show ?case
  proof (cases "q' = length seen")
    case True
    have m: "min q' (length seen - 1) = length seen - 1" using True by simp
    have "reaches options (ns (last seen)) ?s" using near last_in_set [OF ne] True by simp
    then have wait: "nearby options (?t (ns (seen ! min q' (length seen - 1)))) (?t ?s)"
      and stop: "settled options ns (last seen) (drop i seen) = []"
      unfolding m using settled_stop [OF i(1)] ne by (simp_all add: reaches_def last_conv_nth)
    have "derive A calc tc cols ?n (i - k) left (q - k) (?t (ns (seen ! min q (length seen - 1))))
        (cells_of calc options ns val seen ready) d = (d', Inr (i - k, cells_of calc options ns val seen ready))"
      by (rule derive_waits [OF _ _ _ en]) (use i(1) less.prems(2) laws(4) wait time ev in \<open>simp_all only: opts diff_less_mono not_False_eq_True\<close>)
    then show ?thesis using st bb by (auto simp: stop True)
  next
    case False
    then have lt: "q' < length seen" and m: "min q' (length seen - 1) = q'" using q' by simp_all
    have far: "\<not> reaches options (ns (seen ! q')) ?s"
    proof -
      have "length (takeWhile (\<lambda>x. reaches options (ns x) ?s) (drop q seen)) < length (drop q seen)"
        using lt by (simp add: q'_def)
      from nth_length_takeWhile [OF this] show ?thesis using lt by (simp add: q'_def)
    qed
    then have go: "\<not> nearby options (?t (ns (seen ! min q' (length seen - 1)))) (?t ?s)" unfolding m by (simp add: reaches_def)
    have last: "\<not> reaches options (ns (last seen)) ?s"
    proof
      assume r: "reaches options (ns (last seen)) ?s"
      have "reaches options (ns (seen ! q')) ?s"
        by (rule reaches_earlier [OF laws(2) _ _ _ r])
          (use int64 lt i(1) ne derives_order [OF assms(1), of q' "length seen - 1"] in \<open>auto simp: last_conv_nth\<close>)
      with far show False ..
    qed
    let ?w = "filter (\<lambda>x. reaches options ?s (ns x)) (take q' seen)"
    have cell: "window_derivative calc options ns val ?w c ?s = derivative_cell calc options ns val seen c (seen ! i)" for c
      by (simp add: derivative_cell_def neighbours_prefix [OF assms(1) lt iq near far])
    have hd: "hd seen \<in> set (take q' seen)" using ne iq by (cases seen; cases q') auto
    have "valued val n (take q' seen) \<noteq> []" if "n \<in> names_of options" for n
      using bspec [OF first that] hd by (auto simp: valued_def filter_empty_conv)
    then have "\<forall>c \<in> snd ` set (derivative_cases options). values_column_name c \<in> names_of options \<and>
        valued val (values_column_name c) (take q' seen) \<noteq> []"
      by blast
    from append_derivatives_cells [of A "[]" "derivative_cases options" options ns val "names_of options" "take q' seen" ?w
        "buffered_values d'" calc ?s "\<lambda>c. map (derivative_cell calc options ns val seen c) ready", OF laws(1) _ _ this]
    have app: "append_derivatives A calc (?t ?s) (buffered_values d') (derivative_cases options)
        (cells_of calc options ns val seen ready) = Inr (cells_of calc options ns val seen (ready @ [seen ! i]))"
      using laws(3) h by (simp add: holds_def cell)
    have "i < length seen - 1" using iq lt by simp
    have next_state: "loop_state options ns val seen (Suc i) q' ?s left' d'"
      using st iq lt derives_order [OF assms(1), of i "Suc i"]
      unfolding loop_state_def Let_def by (auto split: if_splits)
    have "derive A calc tc cols ?n (i - k) left (q - k) (?t (ns (seen ! min q (length seen - 1))))
        (cells_of calc options ns val seen ready) d =
      derive A calc tc cols ?n (Suc i - k) left' (q' - k) (?t (ns (seen ! min q' (length seen - 1))))
        (cells_of calc options ns val seen (ready @ [seen ! i])) d'"
      unfolding Suc_diff_le [OF less.prems(2)]
      by (rule derive_goes_on [OF _ _ _ en])
        (use i(1) less.prems(2) go time ev app in \<open>simp_all only: opts diff_less_mono not_False_eq_True\<close>)
    moreover have "length seen - Suc i < length seen - i" "k \<le> Suc i" using i(1) less.prems(2) by simp_all
    ultimately show ?thesis
      using less.hyps [OF _ next_state, of "ready @ [seen ! i]"] bb by (simp add: settled_step [OF i(1) last])
  qed
qed

section \<open>The handler\<close>

text \<open>What the handler relies on in Arrow.\<close>

definition derivative_laws ::
  "arrow_lib \<Rightarrow> string \<Rightarrow> (batch \<Rightarrow> bool) \<Rightarrow> (batch \<Rightarrow> 'r list) \<Rightarrow> ('r \<Rightarrow> int) \<Rightarrow> ('r \<Rightarrow> int)
     \<Rightarrow> (string \<Rightarrow> 'r \<Rightarrow> double option) \<Rightarrow> string set \<Rightarrow> bool"
where
  "derivative_laws A tn good rows key ns val names \<longleftrightarrow>
     metadata_laws A \<and> schema_laws A \<and> builder_laws A \<and> column_law A \<and>
     (\<forall>b. good b \<longrightarrow> getTimeColumnNameMetadata A b = Inr tn \<and> b_num_rows b = length (rows b) \<and> wf_batch b \<and>
        (\<exists>c. GetColumnByName A b tn = Some c \<and> type_id (a_type c) = TIMESTAMP \<and> reads_ts A c UNIT_NANO (map ns (rows b))) \<and>
        (\<forall>n \<in> names. \<exists>c. GetColumnByName A b n = Some c \<and> reads_values A c (map (val n) (rows b)))) \<and>
     slice_law A good rows \<and> sort_law A tn good rows key \<and> concat_law A good rows"

lemma derivative_good:
  assumes "derivative_laws A tn good rows key ns val names" and "good b"
  shows "getTimeColumnNameMetadata A b = Inr tn" and "b_num_rows b = length (rows b)" and "wf_batch b"
    and "\<exists>c. GetColumnByName A b tn = Some c \<and> type_id (a_type c) = TIMESTAMP \<and> reads_ts A c UNIT_NANO (map ns (rows b))"
    and "n \<in> names \<Longrightarrow> \<exists>c. GetColumnByName A b n = Some c \<and> reads_values A c (map (val n) (rows b))"
  using assms by (simp_all add: derivative_laws_def)

lemma derivative_sorts:
  assumes "derivative_laws A tn good rows key ns val names" and "good b"
  shows "\<exists>sb. sortByColumn A tn b = Inr sb \<and> good sb \<and> rows sb = sort_key key (rows b)"
proof -
  obtain c where c: "GetColumnByName A b tn = Some c" "type_id (a_type c) = TIMESTAMP"
    using derivative_good(4) [OF assms] by blast
  have "sort_law A tn good rows key" using assms(1) by (simp add: derivative_laws_def)
  then obtain c' idx sb where "ViewInt64 A c = Inr c'" "SortIndices A c' = Inr idx" "Take A b idx = Inr sb" "good sb"
    "rows sb = sort_key key (rows b)"
    using assms(2) c(1) unfolding sort_law_def by metis
  with c show ?thesis by (simp add: sortByColumn_def)
qed

text \<open>The columns of the values, each once, and an empty builder for each result column.\<close>

lemma smap_emplace_last:
  "\<forall>j \<in> fst ` set m. j < k \<Longrightarrow> smap_emplace k v m = m @ [(k, v)]"
proof -
  assume above: "\<forall>j \<in> fst ` set m. j < k"
  then have "map_of m k = None" by (auto simp: map_of_eq_None_iff)
  moreover have "smap_put k v m = m @ [(k, v)]" using above by (induction m) auto
  ultimately show ?thesis by (simp add: smap_emplace_def)
qed

lemma value_columns_fold:
  assumes "\<And>n. n \<in> names \<Longrightarrow> \<exists>c. GetColumnByName A b n = Some c \<and> good_column n c"
    and "smap (front @ cases)" and "values_column_name ` snd ` set cases \<subseteq> names"
    and "smap cols" and "\<forall>(n, c) \<in> set cols. good_column n c"
  shows "\<exists>cols'. rfold (value_column A b) cases (cols, result_builders (\<lambda>_. []) front) =
      Inr (cols', result_builders (\<lambda>_. []) (front @ cases)) \<and>
    smap cols' \<and> fst ` set cols' = fst ` set cols \<union> values_column_name ` snd ` set cases \<and>
    (\<forall>(n, c) \<in> set cols'. good_column n c)"
  using assms(2-5)
proof (induction cases arbitrary: front cols)
  case (Cons kc cases)
  obtain k c where kc: "kc = (k, c)" by force
  let ?n = "values_column_name c"
  obtain a where a: "GetColumnByName A b ?n = Some a" "good_column ?n a"
    using assms(1) [of ?n] Cons.prems(2) by (auto simp: kc)
  let ?cols = "if map_of cols ?n = None then smap_put ?n a cols else cols"
  have "\<forall>j \<in> fst ` set front. j < k" using Cons.prems(1) by (auto simp: kc smap_def sorted_wrt_append)
  then have e: "smap_emplace k (Plain DOUBLE, []) (result_builders (\<lambda>_. []) front) = result_builders (\<lambda>_. []) (front @ [(k, c)])"
    by (simp add: smap_emplace_last)
  have step: "value_column A b (k, c) (cols, result_builders (\<lambda>_. []) front) = Inr (?cols, result_builders (\<lambda>_. []) (front @ [(k, c)]))"
    by (simp add: value_column_def a e Let_def)
  have sm: "smap ?cols" using Cons.prems(3) by simp
  have keys: "fst ` set ?cols = insert ?n (fst ` set cols)"
    by (auto simp: map_of_eq_None_iff)
  have "good_column n c'" if "(n, c') \<in> set ?cols" for n c'
  proof (cases "map_of cols ?n")
    case None
    then have "map_of (smap_put ?n a cols) n = Some c'"
      using that map_of_is_SomeI [OF smap_distinct [OF sm], of n c'] by (simp del: map_of_smap_put)
    then show ?thesis using a(2) Cons.prems(4) by (auto split: if_splits dest: map_of_SomeD)
  qed (use that Cons.prems(4) in auto)
  then have "\<forall>(n, c) \<in> set ?cols. good_column n c" by auto
  moreover have "smap ((front @ [(k, c)]) @ cases)" "values_column_name ` snd ` set cases \<subseteq> names"
    using Cons.prems(1,2) by (simp_all add: kc)
  ultimately obtain cols' where "rfold (value_column A b) cases (?cols, result_builders (\<lambda>_. []) (front @ [(k, c)])) =
      Inr (cols', result_builders (\<lambda>_. []) ((front @ [(k, c)]) @ cases))" "smap cols'"
    "fst ` set cols' = fst ` set ?cols \<union> values_column_name ` snd ` set cases" "\<forall>(n, c) \<in> set cols'. good_column n c"
    using Cons.IH [OF _ _ sm, of "front @ [(k, c)]"] by blast
  then show ?case by (intro exI [of _ cols']) (simp add: kc step keys)
qed simp

text \<open>The batch of the rows that are ready, with the result columns behind its own.\<close>

definition with_results :: "(DerivativeCase \<Rightarrow> scalar list) \<Rightarrow> (string, DerivativeCase) smap \<Rightarrow> batch \<Rightarrow> batch \<Rightarrow> bool" where
  "with_results cells cases b out \<longleftrightarrow>
     b_num_rows out = b_num_rows b \<and>
     map f_name (sch_fields (b_schema out)) = map f_name (sch_fields (b_schema b)) @ map fst cases \<and>
     b_columns out = b_columns b @ map (\<lambda>(k, c). \<lparr>a_type = Plain DOUBLE, a_values = cells c\<rparr>) cases"

lemma add_result_columns:
  assumes "metadata_laws A" and "builder_laws A" and "column_law A" and "wf_batch b"
    and "\<forall>c \<in> snd ` set cases. length (cells c) = b_num_rows b"
  shows "\<exists>out. rfold (add_result_column A) (result_builders cells cases) b = Inr out \<and> with_results cells cases b out"
  using assms(4,5)
proof (induction cases arbitrary: b)
  case (Cons kc cases)
  obtain k c where kc: "kc = (k, c)" by force
  let ?a = "\<lparr>a_type = Plain DOUBLE, a_values = cells c\<rparr>"
  obtain f where f: "setFieldTypeMetadata A (new_field k (Plain DOUBLE)) FIELD = Inr f"
    using setFieldTypeMetadata_total [OF assms(1)] by blast
  then have nt: "f_name f = k" "f_type f = Plain DOUBLE"
    using setFieldMetadata_keeps unfolding setFieldTypeMetadata_def by fastforce+
  let ?b = "b\<lparr>b_schema := (b_schema b)\<lparr>sch_fields := sch_fields (b_schema b) @ [f]\<rparr>, b_columns := b_columns b @ [?a]\<rparr>"
  have wf: "length (sch_fields (b_schema b)) = num_columns b" using Cons.prems(1) by (simp add: wf_batch_def)
  have "AddColumn A b (int (num_columns b)) f ?a = Inr (b\<lparr>b_schema := (b_schema b)
      \<lparr>sch_fields := insert_at (num_columns b) f (sch_fields (b_schema b))\<rparr>, b_columns := insert_at (num_columns b) ?a (b_columns b)\<rparr>)"
    using assms(3) Cons.prems(2) nt unfolding column_law_def by (simp add: kc)
  then have add: "AddColumn A b (int (num_columns b)) f ?a = Inr ?b"
    using wf insert_at_end [of "sch_fields (b_schema b)" f] by simp
  have fin: "Finish A (Plain DOUBLE, cells c) = Inr ?a" using assms(2) by (simp add: builder_laws_def)
  have step: "add_result_column A (k, (Plain DOUBLE, cells c)) b = Inr ?b"
    by (simp add: add_result_column_def fin f add)
  have "wf_batch ?b" using wf by (simp add: wf_batch_def)
  then obtain out where "rfold (add_result_column A) (result_builders cells cases) ?b = Inr out" "with_results cells cases ?b out"
    using Cons.IH [of ?b] Cons.prems(2) by (auto simp: kc)
  then show ?case by (intro exI [of _ out]) (simp add: kc step with_results_def nt)
qed (simp add: with_results_def)

lemma ready_batch:
  assumes "derivative_laws A tn good rows key ns val names" and "good cb"
    and "\<forall>c \<in> snd ` set cases. length (cells c) = length (rows cb)"
  shows "\<exists>out. rbind (copyColumnTypes A b (copySchemaMetadata A b cb))
      (\<lambda>cb. rbind (rfold (add_result_column A) (result_builders cells cases) cb) (\<lambda>cb. Inr [cb])) = Inr [out] \<and>
    with_results cells cases cb out"
proof -
  have laws: "metadata_laws A" "schema_laws A" "builder_laws A" "column_law A"
    using assms(1) by (simp_all add: derivative_laws_def)
  let ?cb = "copySchemaMetadata A b cb"
  have same: "b_num_rows ?cb = b_num_rows cb" "b_columns ?cb = b_columns cb" "sch_fields (b_schema ?cb) = sch_fields (b_schema cb)"
    by (simp_all add: copySchemaMetadata_def)
  have "wf_batch ?cb" using derivative_good(3) [OF assms(1,2)] by (simp add: wf_batch_def same)
  moreover have "\<forall>c \<in> snd ` set cases. length (cells c) = b_num_rows ?cb"
    using assms(3) derivative_good(2) [OF assms(1,2)] by (simp add: same)
  ultimately obtain out where "rfold (add_result_column A) (result_builders cells cases) ?cb = Inr out"
    "with_results cells cases ?cb out"
    using add_result_columns [OF laws(1,3,4)] by blast
  then show ?thesis
    by (intro exI [of _ out]) (simp add: copyColumnTypes_total [OF laws(1,2)] with_results_def same)
qed

text \<open>The rows that have been emitted, and the state that represents the rows \<open>seen\<close>.\<close>

abbreviation emitted :: "DerivativeOptions \<Rightarrow> ('r \<Rightarrow> int) \<Rightarrow> 'r list \<Rightarrow> 'r list" where
  "emitted options ns seen \<equiv> (if seen = [] then [] else settled options ns (last seen) seen)"

definition represents ::
  "DerivativeOptions \<Rightarrow> (batch \<Rightarrow> bool) \<Rightarrow> (batch \<Rightarrow> 'r list) \<Rightarrow> ('r \<Rightarrow> int) \<Rightarrow> (string \<Rightarrow> 'r \<Rightarrow> double option) \<Rightarrow> 'r list
     \<Rightarrow> DerivativeHandler \<Rightarrow> bool"
where
  "represents options good rows ns val seen d \<longleftrightarrow>
     (if seen = [] then d = createDerivativeHandler options
      else let i = length (emitted options ns seen) in
        (\<exists>left. loop_state options ns val seen i (length seen) (ns (seen ! i)) left d) \<and>
        (\<exists>b. buffered_batch d = Some b \<and> good b \<and> rows b = drop i seen))"

lemma settled_prefix: "length (settled options ns newest rs) \<le> length rs"
  "take (length (settled options ns newest rs)) (rs @ rs') = settled options ns newest rs"
  by (simp_all add: settled_def length_takeWhile_le takeWhile_eq_take [symmetric])

lemma settled_append:
  assumes "derives A options ns val (seen @ rs)" and "seen \<noteq> []" and "rs \<noteq> []"
  defines "ready \<equiv> settled options ns (last seen) seen"
  shows "settled options ns (last rs) (seen @ rs) =
    ready @ settled options ns (last rs) (drop (length ready) (seen @ rs))"
proof -
  have t: "timely options" and int64: "\<And>x. x \<in> set (seen @ rs) \<Longrightarrow> int64_time (ns x)"
    using assms(1) by (simp_all add: derives_def)
  have le: "ns (last seen) \<le> ns (last rs)"
    using assms(1-3) last_in_set [of seen] last_in_set [of rs] by (auto simp: derives_def sorted_append)
  have "\<not> reaches options (ns (last rs)) (ns x)" if x: "x \<in> set ready" for x
  proof
    assume r: "reaches options (ns (last rs)) (ns x)"
    have xs: "x \<in> set seen" "\<not> reaches options (ns (last seen)) (ns x)"
      using set_takeWhileD [OF x [unfolded ready_def settled_def]] by simp_all
    have "reaches options (ns (last seen)) (ns x)"
      by (rule reaches_earlier [OF t _ _ _ r le]) (use int64 xs(1) assms(2,3) in auto)
    with xs(2) show False ..
  qed
  then have "settled options ns (last rs) (ready @ drop (length ready) (seen @ rs)) =
      ready @ settled options ns (last rs) (drop (length ready) (seen @ rs))"
    unfolding settled_def [of _ _ "last rs"] by (intro takeWhile_append2) simp
  moreover have "ready @ drop (length ready) (seen @ rs) = seen @ rs"
    using settled_prefix(2) [of options ns "last seen" seen rs] append_take_drop_id [of "length ready" "seen @ rs"]
    by (simp only: ready_def)
  ultimately show ?thesis by simp
qed

lemma represents_start: "represents options good rows ns val [] (createDerivativeHandler options)"
  by (simp add: represents_def)

lemma represents_seen:
  assumes "length (emitted options ns seen) = i" and "seen \<noteq> []"
    and "loop_state options ns val seen i (length seen) (ns (seen ! i)) left d"
    and "buffered_batch d = Some b" and "good b" and "rows b = drop i seen"
  shows "represents options good rows ns val seen d"
  unfolding represents_def Let_def assms(1) using assms(2-) by auto

lemma loop_state_left:
  assumes "loop_state options ns val seen i q t left d"
  shows "left = (if all_buffered_times d = [] then position_time options (ns (seen ! i)) else hd (all_buffered_times d))"
    and "dh_options d = options"
  using assms by (auto simp: loop_state_def holds_def Let_def hd_map split: if_splits)

lemma loop_state_append:
  "loop_state options ns val seen i (length seen) t left d \<Longrightarrow> loop_state options ns val (seen @ rs) i (length seen) t left d"
  by (auto simp: loop_state_def nth_append Let_def)

lemma represents_resumes:
  assumes "represents options good rows ns val seen d" and "derives A options ns val (seen @ rs)" and "rs \<noteq> []"
  shows "\<exists>t left. loop_state options ns val (seen @ rs) (length (emitted options ns seen)) (length seen) t left d"
proof (cases "seen = []")
  case True
  then have "loop_state options ns val (seen @ rs) 0 0 (ns (rs ! 0)) (position_time options (ns (rs ! 0))) d"
    using assms by (auto simp: represents_def loop_state_def holds_def createDerivativeHandler_def buffers_start derives_def)
  with True show ?thesis by auto
next
  case False
  let ?i = "length (emitted options ns seen)"
  obtain left where "loop_state options ns val seen ?i (length seen) (ns (seen ! ?i)) left d"
    using assms(1) False by (auto simp: represents_def Let_def)
  then show ?thesis using loop_state_append by blast
qed

lemma represents_batch:
  assumes "derivative_laws A tn good rows key ns val names" and "represents options good rows ns val seen d"
    and "good sb" and "rows sb \<noteq> []" and "length (seen @ rows sb) < 2 ^ 64"
  defines "i \<equiv> length (emitted options ns seen)"
  shows "\<exists>xb. (case buffered_batch d of None \<Rightarrow> Inr sb | Some b \<Rightarrow> concatenateRecordBatches A [b, sb]) = Inr xb \<and>
    good xb \<and> rows xb = drop i (seen @ rows sb) \<and>
    (case buffered_batch d of None \<Rightarrow> 0 | Some b \<Rightarrow> b_num_rows b) = length seen - i"
proof (cases "seen = []")
  case True
  then show ?thesis using assms by (auto simp: represents_def createDerivativeHandler_def)
next
  case False
  have i: "i \<le> length seen" using settled_prefix(1) [of options ns "last seen" seen] by (simp add: i_def)
  obtain b where b: "buffered_batch d = Some b" "good b" "rows b = drop i seen"
    using assms(2) False by (auto simp: represents_def Let_def i_def)
  have "concat_law A good rows" using assms(1) by (simp add: derivative_laws_def)
  moreover have "length (drop i seen) + length (rows sb) < 2 ^ 64" using assms(5) by simp
  ultimately obtain xb where
    "concatenateRecordBatches A [b, sb] = Inr xb" "good xb" "rows xb = drop i seen @ rows sb"
    using concat_rows [of A good rows "[b, sb]"] assms(3,4) b by auto
  then show ?thesis using b i derivative_good(2) [OF assms(1) b(2)] by simp
qed

text \<open>What is read of the batch.\<close>

lemma derivative_reads:
  assumes "derivative_laws A tn good rows key ns val (names_of options)" and "good b" and "smap (derivative_cases options)"
  shows "\<exists>tc cols. GetColumnByName A b tn = Some tc \<and>
    rfold (value_column A b) (derivative_cases options) ([], []) =
      Inr (cols, result_builders (\<lambda>_. []) (derivative_cases options)) \<and>
    reads_batch A options ns val tc cols (rows b)"
proof -
  obtain tc where tc: "GetColumnByName A b tn = Some tc" "reads_ts A tc UNIT_NANO (map ns (rows b))"
    using derivative_good(4) [OF assms(1,2)] by blast
  obtain cols where "rfold (value_column A b) (derivative_cases options) ([], result_builders (\<lambda>_. []) []) =
      Inr (cols, result_builders (\<lambda>_. []) ([] @ derivative_cases options))" "smap cols"
    "fst ` set cols = fst ` set [] \<union> names_of options" "\<forall>(n, c) \<in> set cols. reads_values A c (map (val n) (rows b))"
    using value_columns_fold [where A = A and b = b and names = "names_of options" and cases = "derivative_cases options"
      and good_column = "\<lambda>n c. reads_values A c (map (val n) (rows b))" and cols = "[]" and front = "[]"]
      derivative_good(5) [OF assms(1,2)] assms(3) by auto
  then show ?thesis using tc by (intro exI [of _ tc] exI [of _ cols]) (simp add: reads_batch_def smap_distinct)
qed

lemma derivative_handle_result:
  assumes "getTimeColumnNameMetadata A b = Inr tn" and "sortByColumn A tn b = Inr sb"
    and "(case buffered_batch d of None \<Rightarrow> Inr sb | Some b \<Rightarrow> concatenateRecordBatches A [b, sb]) = Inr xb"
    and "GetColumnByName A xb tn = Some tc"
    and "rfold (value_column A xb) (derivative_cases (dh_options d)) ([], []) = Inr (cols, builders)"
    and "(if all_buffered_times d = [] then getScaledPositionTime A (dh_options d) 0 tc
      else Inr (hd (all_buffered_times d))) = Inr left"
    and "(case buffered_batch d of None \<Rightarrow> 0 | Some b \<Rightarrow> b_num_rows b) = q"
    and "getScaledPositionTime A (dh_options d) (int q) tc = Inr rb"
    and "derive A calc tc cols (a_length tc) 0 left q rb builders d = (d', Inr (row, builders'))"
  shows "derivative_handle A calc d b =
    (d'\<lparr>buffered_batch := Some (SliceFrom A xb (int row))\<rparr>,
     rbind (copyColumnTypes A b (copySchemaMetadata A b (Slice A xb 0 (int row))))
       (\<lambda>cb. rbind (rfold (add_result_column A) builders' cb) (\<lambda>cb. Inr [cb])))"
  unfolding derivative_handle_def by (simp only: assms rbind_simps prod.case sum.case option.case Let_def)

lemma derivative_handle_rows:
  assumes laws: "derivative_laws A tn good rows key ns val (names_of options)"
    and state: "represents options good rows ns val seen d" and b: "good b" "rows b \<noteq> []"
    and der: "derives A options ns val (seen @ sort_key key (rows b))" and small: "length (seen @ rows b) < 2 ^ 64"
  defines "seen' \<equiv> seen @ sort_key key (rows b)"
  shows "\<exists>d' cb out. derivative_handle A calc d b = (d', Inr [out]) \<and> represents options good rows ns val seen' d' \<and>
    rows cb = drop (length (emitted options ns seen)) (emitted options ns seen') \<and>
    emitted options ns seen' = emitted options ns seen @ rows cb \<and>
    with_results (\<lambda>c. map (derivative_cell calc options ns val seen' c) (rows cb)) (derivative_cases options) cb out"
proof -
  let ?R = "sort_key key (rows b)" and ?i = "length (emitted options ns seen)" and ?cases = "derivative_cases options"
  let ?t = "position_time options"
  have R: "?R \<noteq> []" "length ?R = length (rows b)" using b(2) by (simp_all add: sort_key_facts)
  have u: "unit_time_segment options \<noteq> 0" and sm: "smap ?cases" using der by (auto simp: derives_def timely_def)
  obtain sb where sb: "sortByColumn A tn b = Inr sb" "good sb" "rows sb = ?R"
    using derivative_sorts [OF laws b(1)] by blast
  obtain xb where xb: "(case buffered_batch d of None \<Rightarrow> Inr sb | Some b \<Rightarrow> concatenateRecordBatches A [b, sb]) = Inr xb"
    and good_xb: "good xb" and rows_xb: "rows xb = drop ?i seen'"
    and right: "(case buffered_batch d of None \<Rightarrow> 0 | Some b \<Rightarrow> b_num_rows b) = length seen - ?i"
    using represents_batch [OF laws state sb(2)] R small unfolding sb(3) seen'_def by auto
  obtain tc cols where tc: "GetColumnByName A xb tn = Some tc"
    and cols: "rfold (value_column A xb) ?cases ([], []) = Inr (cols, result_builders (\<lambda>_. []) ?cases)"
    and reads: "reads_batch A options ns val tc cols (drop ?i seen')"
    using derivative_reads [OF laws good_xb sm] rows_xb by auto
  obtain t left where st: "loop_state options ns val seen' ?i (length seen) t left d"
    using represents_resumes [OF state der R(1)] unfolding seen'_def by blast
  note left = loop_state_left [OF st]
  have i: "?i < length seen'" "?i \<le> length seen" "length seen < length seen'"
    using st b(2) by (simp_all add: loop_state_def seen'_def)
  have len: "a_length tc = length seen' - ?i" using reads by (simp add: reads_batch_def reads_ts_def)
  have left_time: "(if all_buffered_times d = [] then getScaledPositionTime A options 0 tc
      else Inr (hd (all_buffered_times d))) = Inr left"
    using scaled_time [OF reads _ u, of 0] i left(1) by simp
  have m: "min (length seen) (length seen' - 1) = length seen" and lt: "length seen - ?i < length (drop ?i seen')"
    using i by simp_all
  have right_time: "getScaledPositionTime A options (int (length seen - ?i)) tc =
      Inr (?t (ns (seen' ! min (length seen) (length seen' - 1))))"
    unfolding m using scaled_time [OF reads lt u] i by (simp del: of_nat_diff)
  define pending where "pending = settled options ns (last seen') (drop ?i seen')"
  obtain d' t' left' where dv: "derive A calc tc cols (length seen' - ?i) 0 left (length seen - ?i)
      (?t (ns (seen' ! min (length seen) (length seen' - 1)))) (result_builders (\<lambda>_. []) ?cases) d =
      (d', Inr (length pending, cells_of calc options ns val seen' pending))"
    and st': "loop_state options ns val seen' (?i + length pending) (length seen') (ns (seen' ! (?i + length pending))) left' d'"
    using derive_rows [OF der [folded seen'_def] reads st order_refl, of calc "[]"] unfolding pending_def by auto
  have em: "emitted options ns seen' = emitted options ns seen @ pending"
    using settled_append [OF der _ R(1)] R(1) by (cases "seen = []") (auto simp: pending_def seen'_def)
  have pend: "take (length pending) (drop ?i seen') = pending" "length pending \<le> length (drop ?i seen')"
    using settled_prefix [of options ns "last seen'" "drop ?i seen'"] unfolding pending_def by (metis append_Nil2, simp)
  have "slice_law A good rows" using laws by (simp add: derivative_laws_def)
  then have cb: "good (Slice A xb 0 (int (length pending)))" "rows (Slice A xb 0 (int (length pending))) = pending"
    "good (SliceFrom A xb (int (length pending)))" "rows (SliceFrom A xb (int (length pending))) = drop (?i + length pending) seen'"
    using good_xb rows_xb pend by (simp_all add: slice_law_def add.commute)
  obtain out where out: "rbind (copyColumnTypes A b (copySchemaMetadata A b (Slice A xb 0 (int (length pending)))))
      (\<lambda>cb. rbind (rfold (add_result_column A) (cells_of calc options ns val seen' pending) cb) (\<lambda>cb. Inr [cb])) = Inr [out]"
    and with_out: "with_results (\<lambda>c. map (derivative_cell calc options ns val seen' c) pending) ?cases
      (Slice A xb 0 (int (length pending))) out"
    using ready_batch [OF laws cb(1), of ?cases "\<lambda>c. map (derivative_cell calc options ns val seen' c) pending" b] cb(2) by auto
  let ?d = "d'\<lparr>buffered_batch := Some (SliceFrom A xb (int (length pending)))\<rparr>"
  have "derivative_handle A calc d b = (?d, Inr [out])"
    using derivative_handle_result [of A b tn sb d, unfolded left(2), OF derivative_good(1) [OF laws b(1)] sb(1) xb tc cols
        left_time right right_time dv [folded len]] out by simp
  moreover have "loop_state options ns val seen' (?i + length pending) (length seen') (ns (seen' ! (?i + length pending))) left' ?d"
    using st' by (simp add: loop_state_def holds_def Let_def)
  then have "represents options good rows ns val seen' ?d"
    by (rule represents_seen [rotated 2]) (use cb(3,4) i(1) arg_cong [OF em, of length] in auto)
  ultimately show ?thesis using em cb(2) with_out by (intro exI [of _ ?d] exI [of _ "Slice A xb 0 (int (length pending))"] exI [of _ out]) simp
qed

section \<open>The stream\<close>

lemma derives_prefix: "derives A options ns val (xs @ ys) \<Longrightarrow> derives A options ns val xs"
  by (cases xs) (auto simp: derives_def sorted_append)

lemma neighbours_settled:
  assumes "derives A options ns val (xs @ ys)" and "x \<in> set (emitted options ns xs)"
  shows "neighbours options ns (xs @ ys) (ns x) = neighbours options ns xs (ns x)"
proof -
  have xs: "xs \<noteq> []" and x: "x \<in> set xs" "\<not> reaches options (ns (last xs)) (ns x)"
    using assms(2) by (auto simp: settled_def dest: set_takeWhileD split: if_splits)
  have "\<not> reaches options (ns y) (ns x)" if y: "y \<in> set ys" for y
  proof
    assume r: "reaches options (ns y) (ns x)"
    have "reaches options (ns (last xs)) (ns x)"
      by (rule reaches_earlier [OF _ _ _ _ r])
        (use assms(1) y x(1) last_in_set [OF xs] in \<open>auto simp: derives_def sorted_append\<close>)
    with x(2) show False ..
  qed
  then show ?thesis by (auto simp: neighbours_def filter_empty_conv)
qed

text \<open>The outputs are the emitted rows, cut as the batches came, with their results.\<close>

definition derived_outputs ::
  "DerivativeCalculator \<Rightarrow> DerivativeOptions \<Rightarrow> (batch \<Rightarrow> 'r list) \<Rightarrow> ('r \<Rightarrow> int) \<Rightarrow> (string \<Rightarrow> 'r \<Rightarrow> double option)
     \<Rightarrow> 'r list \<Rightarrow> batch list \<Rightarrow> batch list \<Rightarrow> bool"
where
  "derived_outputs calc options rows ns val seen cbs res \<longleftrightarrow>
     list_all2 (\<lambda>cb. with_results (\<lambda>c. map (derivative_cell calc options ns val seen c) (rows cb)) (derivative_cases options) cb)
       cbs res"

lemma derivative_stream_from:
  assumes laws: "derivative_laws A tn good rows key ns val (names_of options)"
    and state: "represents options good rows ns val seen d" and bs: "\<forall>b \<in> set bs. good b \<and> rows b \<noteq> []"
    and der: "derives A options ns val (seen @ stream_rows rows key bs)"
    and small: "length (seen @ stream_rows rows key bs) < 2 ^ 64"
  shows "\<exists>d' res cbs. handle_vector (derivative_handle A calc) d bs = (d', Inr res) \<and>
    emitted options ns (seen @ stream_rows rows key bs) = emitted options ns seen @ concat (map rows cbs) \<and>
    derived_outputs calc options rows ns val (seen @ stream_rows rows key bs) cbs res"
  using state bs der small
proof (induction bs arbitrary: seen d)
  case Nil
  then show ?case by (intro exI [of _ d] exI [of _ "[]"]) (simp add: derived_outputs_def)
next
  case (Cons b bs)
  let ?R = "sort_key key (rows b)" and ?S = "(seen @ sort_key key (rows b)) @ stream_rows rows key bs"
  have S: "seen @ stream_rows rows key (b # bs) = ?S" by simp
  have der: "derives A options ns val ?S" using Cons.prems(3) by simp
  obtain d1 cb out where h: "derivative_handle A calc d b = (d1, Inr [out])"
    and rep: "represents options good rows ns val (seen @ ?R) d1"
    and em: "emitted options ns (seen @ ?R) = emitted options ns seen @ rows cb"
    and out: "with_results (\<lambda>c. map (derivative_cell calc options ns val (seen @ ?R) c) (rows cb)) (derivative_cases options) cb out"
    using derivative_handle_rows [OF laws Cons.prems(1) _ _ derives_prefix [OF der], of calc] Cons.prems(2,4) by fastforce
  obtain d' res cbs where hs: "handle_vector (derivative_handle A calc) d1 bs = (d', Inr res)"
    and ems: "emitted options ns ?S = emitted options ns (seen @ ?R) @ concat (map rows cbs)"
    and outs: "derived_outputs calc options rows ns val ?S cbs res"
    using Cons.IH [OF rep _ der] Cons.prems(2,4) by auto
  have "neighbours options ns ?S (ns x) = neighbours options ns (seen @ ?R) (ns x)" if "x \<in> set (rows cb)" for x
    using that em by (intro neighbours_settled [OF der]) simp
  then have "with_results (\<lambda>c. map (derivative_cell calc options ns val ?S c) (rows cb)) (derivative_cases options) cb out"
    using out by (simp add: derivative_cell_def cong: map_cong)
  with outs have "derived_outputs calc options rows ns val ?S (cb # cbs) (out # res)"
    by (simp add: derived_outputs_def)
  with h hs em ems show ?case
    unfolding S by (intro exI [of _ d'] exI [of _ "out # res"] exI [of _ "cb # cbs"]) (simp add: handle_vector_Cons)
qed


text \<open>The cells of a single result column.\<close>

lemma derived_cells:
  assumes "derived_outputs calc options rows ns val seen cbs res" and "derivative_cases options = [(k, c)]"
  shows "concat (map (\<lambda>out. a_values (last (b_columns out))) res) =
    map (derivative_cell calc options ns val seen c) (concat (map rows cbs))"
  using assms(1) unfolding derived_outputs_def
  by (induction rule: list_all2_induct) (auto simp: with_results_def assms(2))

end
