(* ===== verification/Reference_Derivative.thy ===== *)
theory Reference_Derivative
  imports Reference_Tables Derivative_Stream
begin

text \<open>
  The laws of \<open>Derivative_Stream\<close> on the concrete library of \<open>Reference_Arrow\<close>, for batches with a column of
  time stamps in seconds and a column of doubles.
\<close>

definition value_good :: "batch \<Rightarrow> bool" where
  "value_good b \<longleftrightarrow> (\<exists>rs. b = value_batch rs)"

definition value_rows :: "batch \<Rightarrow> (int \<times> double) list" where
  "value_rows b = zip (map s_int (a_values (b_columns b ! 0))) (map s_double (a_values (b_columns b ! 1)))"

definition value_of :: "string \<Rightarrow> int \<times> double \<Rightarrow> double option" where
  "value_of n r = (if n = ''value'' then Some (snd r) else None)"

lemma value_rows_batch [simp]: "value_rows (value_batch rs) = rs"
  by (simp add: value_rows_def value_batch_def ts_array_def comp_def zip_map_fst_snd)

lemma value_good_batch [simp]: "value_good (value_batch rs)"
  by (auto simp: value_good_def)

lemma slice_value_batch: "slice_batch (value_batch rs) i n = value_batch (take n (drop i rs))"
  by (simp add: slice_batch_def map_columns_def value_batch_def ts_array_def take_map drop_map min_def)

lemma value_slice_law: "slice_law ref_arrow value_good value_rows"
  by (auto simp: slice_law_def value_good_def ref_arrow_def slice_value_batch)

lemma pick_value_batch:
  assumes "\<forall>i \<in> set idx. i < length rs"
  shows "map_columns (pick idx) (length idx) (value_batch rs) = value_batch (map ((!) rs) idx)"
  using assms by (simp add: map_columns_def value_batch_def ts_array_def pick_def)

lemma value_sort_law: "sort_law ref_arrow ''time'' value_good value_rows fst"
  unfolding sort_law_def
proof (intro allI impI)
  fix b c
  assume "value_good b" and c: "GetColumnByName ref_arrow b ''time'' = Some c"
  then obtain rs where b: "b = value_batch rs" by (auto simp: value_good_def)
  with c have c: "c = ts_array (map fst rs)" by simp
  let ?c = "c\<lparr>a_type := Plain INT64\<rparr>" and ?p = "sort_key (\<lambda>i. fst (rs ! i)) [0..<length rs]"
  have "sort_permutation ?c = ?p"
    unfolding sort_permutation_def c ts_array_def by (simp, rule sort_key_cong) simp
  then have "ViewInt64 ref_arrow c = Inr ?c" "SortIndices ref_arrow ?c = Inr (index_array ?p)"
    by (simp_all add: ref_arrow_def)
  moreover have "map_columns (pick ?p) (length ?p) (value_batch rs) = value_batch (sort_key fst rs)"
    using pick_value_batch [of ?p rs] by (simp add: sort_key_nth)
  then have "Take ref_arrow b (index_array ?p) = Inr (value_batch (sort_key fst rs))"
    by (simp add: ref_arrow_def index_array_def comp_def b)
  ultimately show "\<exists>c' idx b'. ViewInt64 ref_arrow c = Inr c' \<and> SortIndices ref_arrow c' = Inr idx \<and>
      Take ref_arrow b idx = Inr b' \<and> value_good b' \<and> value_rows b' = sort_key fst (value_rows b)"
    by (simp add: b)
qed

lemma value_concat_law: "concat_law ref_arrow value_good value_rows"
  unfolding concat_law_def Let_def
proof (intro allI impI)
  fix bs
  assume good: "list_all value_good bs" and ne: "concat (map value_rows bs) \<noteq> []"
  then obtain rss where bs: "bs = map value_batch rss" by (metis ex_map_conv list_all_iff value_good_def)
  have rows: "concat (map value_rows bs) = concat rss" by (simp add: bs comp_def)
  then obtain rs rss' where rss: "rss = rs # rss'" using ne by (cases rss) auto
  let ?v = "\<lambda>rs. \<lparr>a_type = Plain DOUBLE, a_values = map (double_scalar \<circ> snd) rs\<rparr>"
  define t where "t = \<lparr>t_schema = b_schema (value_batch []), t_num_rows = length (concat rss),
    t_columns = [map (\<lambda>rs. ts_array (map fst rs)) rss, map ?v rss]\<rparr>"
  have "FromRecordBatches ref_arrow bs = Inr t"
    by (simp add: ref_arrow_def bs rss t_def value_batch_def comp_def length_concat)
  moreover have "CombineChunks ref_arrow t = Inr (t\<lparr>t_columns := [[ts_array (map fst (concat rss))], [?v (concat rss)]]\<rparr>)"
    by (simp add: ref_arrow_def t_def ts_array_def comp_def map_concat rss)
  moreover have "t_num_rows t \<noteq> 0" using ne unfolding rows t_def by simp
  moreover have "Make (t_schema t) (t_num_rows t) [ts_array (map fst (concat rss)), ?v (concat rss)] = value_batch (concat rss)"
    by (simp add: t_def value_batch_def)
  ultimately show "\<exists>t t'. FromRecordBatches ref_arrow bs = Inr t \<and> CombineChunks ref_arrow t = Inr t' \<and>
      t_num_rows t \<noteq> 0 \<and> list_all (\<lambda>chunks. chunks \<noteq> []) (t_columns t') \<and>
      value_good (Make (t_schema t') (t_num_rows t') (map hd (t_columns t'))) \<and>
      value_rows (Make (t_schema t') (t_num_rows t') (map hd (t_columns t'))) = concat (map value_rows bs)"
    unfolding rows
    by (intro exI [of _ t] exI [of _ "t\<lparr>t_columns := [[ts_array (map fst (concat rss))], [?v (concat rss)]]\<rparr>"]) simp
qed

lemma value_nanos: "reads_ts ref_arrow (ts_array xs) UNIT_NANO (map (\<lambda>x. x * 1000000000) xs)"
  by (auto simp: reads_ts_def read_ts_def castTimestampScalar_def ref_arrow_def ts_array_def int_scalar_def)

lemma value_derivative_laws:
  "derivative_laws ref_arrow ''time'' value_good value_rows fst (\<lambda>r. fst r * 1000000000) value_of {''value''}"
proof -
  have "reads_values ref_arrow \<lparr>a_type = Plain DOUBLE, a_values = map (double_scalar \<circ> snd) rs\<rparr> (map (value_of ''value'') rs)" for rs
    by (simp add: reads_values_def ref_arrow_def value_of_def) (simp add: double_scalar_def)
  moreover have "reads_ts ref_arrow (ts_array (map fst rs)) UNIT_NANO (map (\<lambda>r. fst r * 1000000000) rs)"
    for rs :: "(int \<times> double) list"
    using value_nanos [of "map fst rs"] by (simp add: comp_def)
  moreover have "wf_batch (value_batch rs)" for rs by (simp add: wf_batch_def value_batch_def)
  moreover have "type_id (a_type (ts_array xs)) = TIMESTAMP" for xs by (simp add: ts_array_def)
  ultimately show ?thesis
    by (auto simp: derivative_laws_def value_good_def value_slice_law value_sort_law value_concat_law)
qed

end
