(* ===== verification/Spec2Isabelle.thy ===== *)
theory Spec2Isabelle
  imports Rw_Utils Grouping_Utils Aggregate_Options_Parser Dynamic_Window_Options Threshold_Options
    Derivative_Options Dynamic_Window_Handler Threshold_State_Machine Reference_Arrow
    Pipeline_Handler Group_Dispatcher Simple_Handlers Group_Sort Aggregate_Handler Join_Handler
    Derivative_Handler Group_Windows Reference_Tables Window_Termination Reference_Agent Graphite_Laws
    Pub_Sub_Progress Node_Pipeline Print_Consumer Udf_Clients Points_Roundtrip
    Tick_Script Threshold_Udf Reference_Derivative
begin

text \<open>
  Verification development for stream-data-processor, a C++ library that processes streams of Arrow
  record batches, and the server of user defined functions (UDFs) for Kapacitor built on it.

  \<^bold>\<open>The program.\<close> It has two halves that share the record batch handlers.

  \<^item> The UDF server (\<open>src/src/kapacitor_udf\<close>, \<open>src/src/server\<close>). \<open>main\<close> starts a
    \<open>UnixSocketServer\<close> for each UDF; a connection gets a client, which is a \<open>UDFAgent\<close> with a
    request handler. The agent cuts the byte stream into requests (varint length prefixes), hands each
    to the request handler and writes the responses. The request handler parses the options of the UDF,
    collects points, converts them to record batches group by group, runs a record batch handler on
    them and converts the result back to points.

  \<^item> Pipelines of nodes (\<open>src/src/nodes\<close>, \<open>consumers\<close>, \<open>producers\<close>,
    \<open>node_pipeline\<close>). A producer (a TCP listener or a subscriber) hands data to the node, the data
    handler of the node (a parser, or a record batch handler between two serialisations) makes new data of
    it, which goes to every consumer (TCP, publisher, print). \<open>subscribeTo\<close> connects two pipelines by
    a publisher and a subscriber with a hand shake.

  \<^item> The record batch handlers (\<open>src/src/record_batch_handlers\<close>): windows, dynamic windows, the
    adaptive threshold, aggregates, joins, derivatives, groups, filters, maps, defaults and sorts, over
    the helpers of \<open>src/src/utils\<close> and \<open>src/src/metadata\<close>.

  \<^bold>\<open>Theories and code.\<close> Names of definitions are those of the source, with the class as a
  prefix where two classes have an operation of the same name; a class with state is a record, an
  operation a function from the state to the new state and the result.

  \<^item> \<open>Prelude\<close>: errors and sequencing. \<open>status + 'a\<close> is \<open>arrow::Result\<close>, \<open>rbind\<close> is
    \<open>ARROW_ASSIGN_OR_RAISE\<close>; \<open>UndefinedBehaviour\<close>, \<open>NoReturn\<close> (a loop that does not end) and
    \<open>ThrownOutOfRange\<close> are further values of \<open>status\<close>, so that no behaviour is left out.
    \<open>Ordered_Map\<close>: \<open>std::map\<close> and protobuf maps (locale \<open>keyed_store\<close>). \<open>Double\<close>: binary64
    with rounding to nearest even, infinities and NaN (\<open>Double_Order\<close>: rounding is monotone). \<open>Std_Numbers\<close>: \<open>strtoll\<close> and \<open>strtod\<close>, with
    \<open>errno\<close> as state.
  \<^item> \<open>Uvarint\<close>, \<open>Rw_Utils\<close>: \<open>utils/uvarint_utils.cpp\<close> (locale \<open>prefix_codec\<close>) and
    \<open>kapacitor_udf/utils/rw_utils.cpp\<close>. \<open>String_Utils\<close>, \<open>Time_Utils\<close>, \<open>Arrow_Utils\<close>,
    \<open>Compute_Utils\<close>, \<open>Group_Sort\<close>, \<open>Transport_Utils\<close>: the other files of \<open>utils\<close>.
  \<^item> \<open>Agent_Proto\<close>: the messages of \<open>udf.proto\<close>. \<open>Arrow\<close>: batches, schemas, scalars and the record
    \<open>arrow_lib\<close> of library functions. \<open>Metadata\<close>, \<open>Metadata_Laws\<close>: \<open>metadata/*.cpp\<close> (locale
    \<open>metadata_store\<close>, for fields and for schemas).
  \<^item> \<open>Record_Batch_Handler\<close> (locale \<open>stream_handler\<close>), \<open>Pipeline_Handler\<close>, \<open>Group_Dispatcher\<close>,
    \<open>Window_Handler\<close>, \<open>Window_Termination\<close>, \<open>Dynamic_Window_Handler\<close> (locale
    \<open>window_interface\<close>), \<open>Group_Windows\<close>, \<open>Threshold_State_Machine\<close>, \<open>Derivative_Handler\<close>,
    \<open>Derivative_Stream\<close>, \<open>Aggregate_Functions\<close>, \<open>Aggregate_Handler\<close>, \<open>Join_Handler\<close>, \<open>Simple_Handlers\<close>: the record
    batch handlers. \<open>Handler_Options\<close>: their option structures.
  \<^item> \<open>Aggregate_Options_Parser\<close>, \<open>Dynamic_Window_Options\<close>, \<open>Threshold_Options\<close>,
    \<open>Derivative_Options\<close>: the option parsers of \<open>kapacitor_udf/request_handlers\<close>.
    \<open>Grouping_Utils\<close>, \<open>Points_Converter\<close>, \<open>Points_Roundtrip\<close>, \<open>Points_Storage\<close>:
    \<open>kapacitor_udf/utils\<close>.
    \<open>Request_Handler\<close>, \<open>Udf_Handlers\<close>, \<open>Udf_Agent\<close>, \<open>Agent_Protocol\<close>, \<open>Udf_Clients\<close>,
    \<open>Unix_Server\<close>: the request handlers, the agent, the client factories, the server and \<open>main\<close>.
    \<open>Threshold_Udf\<close>: the adaptive threshold function from the point that comes in to its answer.
  \<^item> \<open>Graphite_Parser\<close>, \<open>Graphite_Laws\<close>, \<open>Data_Handlers\<close>, \<open>Node\<close> (locale
    \<open>queueing_consumer\<close>), \<open>Tcp_Transport\<close>, \<open>Pub_Sub\<close>, \<open>Pub_Sub_Progress\<close>, \<open>Node_Pipeline\<close>,
    \<open>Print_Consumer\<close>, \<open>Tick_Script\<close>: the pipelines, and the example program. The loop's events are the constructors of the step relations
    \<open>tcp_reach\<close>, \<open>pubsub_step\<close> and \<open>pubsub_reach\<close>.
  \<^item> \<open>Reference_Arrow\<close>, \<open>Reference_Tables\<close>, \<open>Reference_Derivative\<close>, \<open>Reference_Proto\<close>, \<open>Reference_Agent\<close>: concrete
    libraries on which the laws hold, for the witnesses.
\<close>

text \<open>
  \<^bold>\<open>What is proved.\<close> This theory has the properties, each with a witness on concrete data.

  \<^item> Windows: what is emitted depends on the rows of the stream only, not on how they are cut into
    batches, also behind the dispatcher by groups; when the loop does not return.
  \<^item> Threshold: the three state classes refine one pure machine; when a threshold is raised, when it is
    lowered, and the one way in which it leaves its limits. The function from end to end: the points of a
    stream are answered by themselves, with the thresholds of one pure machine for each group.
  \<^item> Derivatives: the rows a derivative handler emits, and that each cell is calculated on the rows within
    the neighbourhood, for every way to cut the stream.
  \<^item> Agent and request handlers: the responses to a byte stream are those of an abstract protocol; a
    batch is answered by the handler's result on its points; snapshots restore what they hold.
  \<^item> Framing: requests that are cut by chunks are put together again, with the two ways in which this
    fails; varints and TCP messages round trip; what the transport does with a message that is cut or
    has a negative size.
  \<^item> Publisher and subscriber: nothing is lost, doubled or reordered after the hand shake, and from every
    reachable state some continuation delivers all that is queued.
  \<^item> Tables: the join has the row of each time and key; grouping keeps every row and the order within a
    group; aggregates, defaults, first and last rows.
  \<^item> Options, groups, times and Graphite lines: the parsers return what their grammar says, errors
    included, and round trips.

  \<^bold>\<open>Parameters and laws.\<close> Code that is not part of the repository is an argument, with named laws
  for what is relied on: Arrow (\<open>arrow_lib\<close>; \<open>metadata_laws\<close>, \<open>schema_laws\<close>, \<open>column_law\<close>,
  \<open>builder_laws\<close>, \<open>slice_law\<close>, \<open>sort_law\<close>, \<open>concat_law\<close>, \<open>stream_laws\<close>, \<open>dynamic_laws\<close>,
  \<open>group_laws\<close>, \<open>table_laws\<close>, \<open>value_laws\<close>, \<open>threshold_laws\<close>,
  \<open>derivative_laws\<close>), IPC streams and CSV (\<open>io_lib\<close>, \<open>ipc_laws\<close>), protobuf
  (\<open>proto_lib\<close>, \<open>message_lib\<close>), Gandiva filters and projectors (functions of a handler), timers
  (\<open>timer_lib\<close>), ZeroMQ (\<open>zmq\<close>), the system calls on lock files (\<open>file_calls\<close>, \<open>file_laws\<close>) and the
  clock. \<open>std::regex\<close> is modelled by recognisers of the expressions the program uses.

  \<^bold>\<open>Bounds and loops.\<close> No definition has fuel. Recursion is structural or has a measure; the loops
  that may run for ever (windows, the search of a lower bound, sorting by columns, cutting messages) are
  partial functions whose result \<open>None\<close> becomes \<open>NoReturn\<close>, and the properties say when they return.
  Sizes and offsets are 64-bit words where they can wrap around, times are integers; row counts below
  \<open>2 ^ 64\<close> are hypotheses where a subtraction of sizes matters. An \<open>unordered_map\<close> is a map sorted by
  its keys: where the code iterates over one, the model fixes one of the orders the standard allows.

  \<^bold>\<open>Not modelled.\<close> Log messages; destructors, accessors and the declarations in headers; the
  constructors that register callbacks with libuv, except for the state they set up (the callbacks are
  the steps); the template instantiations of the agent and its TTY variant, which differ in the type of
  the stream only; the bytes of messages on the wire, which protobuf and Arrow define.
\<close>

section \<open>Windows\<close>

text \<open>C1: The windows a \<open>WindowHandler\<close> emits depend on the stream only, not on how it is cut
  into batches: for batches that are non-empty and follow each other in time, with a positive every
  option, handling them one after the other ends, succeeds and emits, as one batch each, the non-empty
  windows \<open>[n - period, n)\<close> of all rows, for \<open>n\<close> from the first emission time in steps of
  every up to the last time stamp.\<close>

theorem window_stream:
  assumes "stream_laws A tn good rows key ts" and "bs \<noteq> []" and "\<forall>b \<in> set bs. good b \<and> rows b \<noteq> []"
    and "0 < wo_every options" and "0 \<le> wo_period options"
    and "sorted (map ts (stream_rows rows key bs))" and "\<forall>b \<in> set bs. \<forall>r \<in> set (rows b). 0 < ts r"
    and "length (stream_rows rows key bs) < 2 ^ 64"
  shows "\<exists>w' res. handle_vector (window_handle A) (new_window_handler options) bs = (w', Inr res) \<and>
    map rows res = windows ts (wo_period options) (wo_every options)
      (first_emit options (ts (hd (stream_rows rows key bs)))) (ts (last (stream_rows rows key bs)))
      (stream_rows rows key bs)"
  using assms by (rule handle_stream_from_start)

theorem window_stream_witness:
  "\<exists>w' res. handle_vector (window_handle ref_arrow)
      (new_window_handler \<lparr>wo_period = 3, wo_every = 2, wo_fill_period = False\<rparr>)
      [ts_batch [1, 3, 2], ts_batch [4, 7]] = (w', Inr res) \<and>
    map ts_rows res = [[1, 2], [2, 3, 4], [4]]"
  using window_stream [OF ts_stream_laws [of "[]"],
    of "[ts_batch [1, 3, 2], ts_batch [4, 7]]" "\<lparr>wo_period = 3, wo_every = 2, wo_fill_period = False\<rparr>"]
  by (simp add: first_emit_def windows.simps window_rows_def one_window_def)

text \<open>C2: The loop of a fresh window handler with the every option zero: on its first batch the handler
  does not return just when a window is due, that is when the first emission time is not later than the
  last time stamp.\<close>

theorem zero_every_returns:
  assumes "stream_laws A tn good rows key ts" and "good b" and "rows b \<noteq> []"
    and "wo_every options = 0" and "length (rows b) < 2 ^ 64" and "sorted (map ts (sort_key key (rows b)))"
  shows "snd (window_handle A (new_window_handler options) b) = Inl NoReturn \<longleftrightarrow>
    first_emit options (ts (hd (sort_key key (rows b)))) \<le> ts (last (sort_key key (rows b)))"
  using assms by (rule window_handle_zero_every)

theorem zero_every_returns_witness:
  "snd (window_handle ref_arrow (new_window_handler \<lparr>wo_period = 3, wo_every = 0, wo_fill_period = True\<rparr>)
      (ts_batch [1, 3, 2])) \<noteq> Inl NoReturn"
  using zero_every_returns [OF ts_stream_laws [of "[]"],
    of "ts_batch [1, 3, 2]" "\<lparr>wo_period = 3, wo_every = 0, wo_fill_period = True\<rparr>"]
  by (simp add: first_emit_def)

text \<open>C3: The parser of the window function accepts an every duration below a second and truncates it to
  zero seconds; the window handler built from it does not return from the first batch.\<close>

theorem short_every_never_returns:
  assumes "stream_laws A tn good rows key ts" and "good b" and "rows b \<noteq> []"
    and "\<bar>every\<bar> < 1000000000" and "length (rows b) < 2 ^ 64" and "sorted (map ts (sort_key key (rows b)))"
  shows "\<exists>w. parseWindowOptions memory
      [duration_option STATIC_PERIOD period, duration_option STATIC_EVERY every, duration_option EMIT_TIMEOUT t] =
      Inr w \<and>
    snd (window_handle A (new_window_handler (window_handler_options w)) b) = Inl NoReturn"
  using assms by (rule short_every_hangs)

theorem short_every_never_returns_witness:
  "\<forall>memory. \<exists>w. parseWindowOptions memory
      [duration_option STATIC_PERIOD 60000000000, duration_option STATIC_EVERY 500000000,
       duration_option EMIT_TIMEOUT 5000000000] = Inr w \<and>
    snd (window_handle ref_arrow (new_window_handler (window_handler_options w)) (ts_batch [1, 3, 2])) = Inl NoReturn"
proof
  show "\<exists>w. parseWindowOptions memory
      [duration_option STATIC_PERIOD 60000000000, duration_option STATIC_EVERY 500000000,
       duration_option EMIT_TIMEOUT 5000000000] = Inr w \<and>
    snd (window_handle ref_arrow (new_window_handler (window_handler_options w)) (ts_batch [1, 3, 2])) = Inl NoReturn"
    for memory
    using short_every_never_returns [OF ts_stream_laws [of "[]"], of "ts_batch [1, 3, 2]" 500000000 memory 60000000000 5000000000]
    by simp
qed

section \<open>The adaptive threshold\<close>

text \<open>C4: \<open>ThresholdStateMachine::handle\<close> refines a pure state machine on pairs of a value and a
  time: when the watched cells and the times of the rows can be read, the new state is the one
  \<open>threshold_run\<close> reaches and the appended column holds its thresholds, whatever the library
  then answers when the column is added.\<close>

theorem threshold_refinement:
  assumes "reads_rows A record_batch (watch_column_name (tsm_options m)) rows" and "appends A"
    and "length rows = b_num_rows record_batch" and "tsm_state m = Some st"
    and "threshold_run (tsm_options m) st rows = (cs, st')"
  shows "threshold_handle A m record_batch =
    (m\<lparr>tsm_state := Some st'\<rparr>, add_threshold_column A (tsm_options m) record_batch cs)"
  using assms by (rule threshold_handle_run)

text \<open>C5: An alert that lasts raises the threshold with a delay: while the value exceeds the
  threshold for at most \<open>increaseAfter\<close> the rows get the threshold as it is, and the first row after
  that gets the threshold times the scale factor, capped by \<open>maxLevel\<close>.\<close>

theorem threshold_increase:
  assumes "reads_rows A record_batch (watch_column_name options) ((v0, t0) # rows @ [(v, t)])" and "appends A"
    and "b_num_rows record_batch = length rows + 2"
    and "dlt c v0" and "\<forall>(v, t) \<in> set rows. dlt c v \<and> t - t0 \<le> increase_after options"
    and "dlt c v" and "t0 < t" and "increase_after options < t - t0"
  shows "snd (threshold_handle A \<lparr>tsm_options = options, tsm_state = Some (StateOK c)\<rparr> record_batch) =
    add_threshold_column A options record_batch
      (replicate (Suc (length rows)) c @ [dmin (dmul c (increase_scale_factor options)) (max_threshold options)])"
  using threshold_handle_thresholds [of A record_batch "\<lparr>tsm_options = options, tsm_state = Some (StateOK c)\<rparr>"
      "(v0, t0) # rows @ [(v, t)]"] increase_after_alert [OF assms(4-)] assms(1-3)
  by simp

text \<open>The example the witnesses use: \<open>maxLevel\<close> 15, \<open>minLevel\<close> 4, five seconds of delay.\<close>

definition example_threshold :: ThresholdOptions where
  "example_threshold =
     \<lparr>watch_column_name = ''value'', threshold_column_name = ''level'', default_threshold = Fin 10,
      increase_scale_factor = Fin 2, increase_after = 5, decrease_trigger_factor = Fin (1 / 2),
      decrease_scale_factor = Fin (1 / 2), decrease_after = 5, min_threshold = Fin 4,
      max_threshold = Fin 15, threshold_column_type = FIELD\<rparr>"

lemma example_threshold_simps [simp]:
  "watch_column_name example_threshold = ''value''" "threshold_column_name example_threshold = ''level''"
  "increase_scale_factor example_threshold = Fin 2" "increase_after example_threshold = 5"
  "decrease_trigger_factor example_threshold = Fin (1 / 2)" "decrease_scale_factor example_threshold = Fin (1 / 2)"
  "decrease_after example_threshold = 5" "max_threshold example_threshold = Fin 15"
  by (simp_all add: example_threshold_def)

lemma example_column:
  assumes "length cs = length rows"
  shows "\<exists>b. add_threshold_column ref_arrow example_threshold (value_batch rows) cs = Inr [b]"
  using value_append [OF assms]
  by (simp add: append_column_def add_threshold_column_def example_threshold_def)

theorem threshold_refinement_witness:
  "\<exists>b. threshold_handle ref_arrow (createThresholdHandler example_threshold)
      (value_batch [(0, Fin 12), (7, Fin 13)]) =
    (\<lparr>tsm_options = example_threshold, tsm_state = Some (StateOK (Fin 15))\<rparr>, Inr [b])"
proof -
  let ?b = "value_batch [(0, Fin 12), (7, Fin 13)]"
  have "threshold_run example_threshold (StateOK (Fin 10)) [(Fin 12, 0), (Fin 13, 7)] = ([Fin 10, Fin 15], StateOK (Fin 15))"
    by code_simp
  moreover have "tsm_state (createThresholdHandler example_threshold) = Some (StateOK (Fin 10))"
    by (simp add: createThresholdHandler_def example_threshold_def)
  ultimately have "threshold_handle ref_arrow (createThresholdHandler example_threshold) ?b =
     (\<lparr>tsm_options = example_threshold, tsm_state = Some (StateOK (Fin 15))\<rparr>,
      add_threshold_column ref_arrow example_threshold ?b [Fin 10, Fin 15])"
    using threshold_refinement [of ref_arrow ?b "createThresholdHandler example_threshold" "[(Fin 12, 0), (Fin 13, 7)]"]
      value_reads [of "[(0, Fin 12), (7, Fin 13)]"]
    by (simp add: createThresholdHandler_def)
  then show ?thesis using example_column [of "[Fin 10, Fin 15]" "[(0, Fin 12), (7, Fin 13)]"] by auto
qed

theorem threshold_increase_witness:
  "snd (threshold_handle ref_arrow \<lparr>tsm_options = example_threshold, tsm_state = Some (StateOK (Fin 10))\<rparr>
      (value_batch [(0, Fin 12), (3, Fin 13), (7, Fin 15)])) =
    add_threshold_column ref_arrow example_threshold (value_batch [(0, Fin 12), (3, Fin 13), (7, Fin 15)])
      [Fin 10, Fin 10, Fin 15]"
proof -
  have "dlt (Fin 10) (Fin 12)" "dlt (Fin 10) (Fin 13)" "dlt (Fin 10) (Fin 15)"
    "dmin (dmul (Fin 10) (Fin 2)) (Fin 15) = Fin 15"
    by code_simp+
  then show ?thesis
    using threshold_increase [of ref_arrow "value_batch [(0, Fin 12), (3, Fin 13), (7, Fin 15)]" example_threshold
        "Fin 12" 0 "[(Fin 13, 3)]" "Fin 15" 7 "Fin 10"]
      value_reads [of "[(0, Fin 12), (3, Fin 13), (7, Fin 15)]"]
    by simp
qed



text \<open>C7: A value that recovers from the decrease range lowers the threshold at once, without waiting
  for \<open>decreaseAfter\<close> and without regard to \<open>minLevel\<close>.\<close>

theorem threshold_recovery:
  assumes "reads_rows A record_batch (watch_column_name options) [(v0, t0), (v, t)]" and "appends A"
    and "b_num_rows record_batch = 2"
    and "dlt v0 (dmul c (decrease_trigger_factor options))" and "dle v0 c"
    and "dlt (dmul c (decrease_trigger_factor options)) v" and "dle v c"
  shows "threshold_handle A \<lparr>tsm_options = options, tsm_state = Some (StateOK c)\<rparr> record_batch =
    (\<lparr>tsm_options = options, tsm_state = Some (StateOK (dmul c (decrease_scale_factor options)))\<rparr>,
     add_threshold_column A options record_batch [c, c])"
  using threshold_handle_run [of A record_batch "\<lparr>tsm_options = options, tsm_state = Some (StateOK c)\<rparr>"
      "[(v0, t0), (v, t)]" "StateOK c"] decrease_on_recovery [OF assms(4-)] assms(1-3)
  by simp

theorem threshold_recovery_witness:
  "\<exists>res. threshold_handle ref_arrow \<lparr>tsm_options = example_threshold, tsm_state = Some (StateOK (Fin 6))\<rparr>
      (value_batch [(0, Fin 1), (1, Fin 5)]) =
    (\<lparr>tsm_options = example_threshold, tsm_state = Some (StateOK (Fin 3))\<rparr>, res) \<and>
   dlt (Fin 3) (min_threshold example_threshold)"
proof -
  have "dmul (Fin 6) (Fin (1 / 2)) = Fin 3" "dlt (Fin 1) (Fin 3)" "dle (Fin 1) (Fin 6)" "dlt (Fin 3) (Fin 5)"
    "dle (Fin 5) (Fin 6)" "dlt (Fin 3) (min_threshold example_threshold)"
    by code_simp+
  then show ?thesis
    using threshold_recovery [of ref_arrow "value_batch [(0, Fin 1), (1, Fin 5)]" example_threshold "Fin 1" 0 "Fin 5" 1 "Fin 6"]
      value_reads [of "[(0, Fin 1), (1, Fin 5)]"]
    by simp
qed

section \<open>The channel to Kapacitor\<close>

text \<open>C34: The reader is stateless between complete messages: a stream of framed requests is delivered
  to the handler request by request, in order, up to the first exception of the handler.\<close>

theorem read_framed_requests:
  assumes "list_all sendable fs"
  shows "readRequests h (messages fs) new_reader s =
    (new_reader, fst (deliver h fs s), snd (deliver h fs s))"
proof (cases "deliver h fs s")
  case (Pair s' e)
  then show ?thesis
    using readRequests_messages [OF assms, of h "[]" s]
    by (cases e) (simp_all add: readRequests_def readRequests_empty)
qed

theorem read_framed_requests_witness:
  "readRequests (\<lambda>f s. (s @ [f], None)) (messages [[1, 2], [], [3]]) new_reader [] =
    (new_reader, [[1, 2], [], [3]], None)"
  using read_framed_requests [of "[[1, 2], [], [3]]" "\<lambda>f s. (s @ [f], None)" "[]"]
  by (simp add: sendable_def)

text \<open>C35: A request whose body is cut once by the end of a chunk is put together again: the two
  chunks have the effect of the whole stream.\<close>

theorem read_cut_body:
  assumes "sendable f" and "k < length f" and "list_all sendable fs"
  shows "feed h [encode (of_nat (length f)) @ take k f, drop k f @ messages fs] new_reader s =
    (new_reader, fst (deliver h (f # fs) s), snd (deliver h (f # fs) s))"
proof -
  have 1: "readRequests h (encode (of_nat (length f)) @ take k f) new_reader s =
      (\<lparr>residual_request_data = take k f, residual_request_size = length f - k\<rparr>, s, None)"
    using readRequests_cut_body [OF assms(1,2)] by (simp add: readRequests_def)
  obtain s' e where h: "h f s = (s', e)" by force
  show ?thesis
  proof (cases e)
    case (Some x)
    then show ?thesis using 1 readRequests_resume_body [OF assms(1,2), of h _ s] h by (simp add: readRequests_def)
  next
    case None
    obtain s'' e' where d: "deliver h fs s' = (s'', e')" by force
    then have "readRequests_loop h (messages fs) new_reader s' = (new_reader, s'', e')"
      using readRequests_messages [OF assms(3), of h "[]" s'] by (cases e') (simp_all add: readRequests_empty)
    then show ?thesis
      using 1 readRequests_resume_body [OF assms(1,2), of h "messages fs" s] h None d
      by (cases e') (simp_all add: readRequests_def)
  qed
qed

theorem read_cut_body_witness:
  "feed (\<lambda>f s. (s @ [f], None)) [encode 3 @ [1, 2], [3] @ messages [[4]]] new_reader [] =
    (new_reader, [[1, 2, 3], [4]], None)"
  using read_cut_body [of "[1, 2, 3]" 2 "[[4]]" "\<lambda>f s. (s @ [f], None)" "[]"]
  by (simp add: sendable_def)

text \<open>C36: A body that spans three chunks is corrupted: of what was read so far only as many bytes as
  the middle chunk has are kept, and the request the handler gets is not the one that was sent.\<close>

theorem read_three_chunks:
  assumes "sendable f" and "f = a @ b @ c" and "a \<noteq> []" and "c \<noteq> []"
  shows "feed h [encode (of_nat (length f)) @ a, b, c] new_reader s =
    (case h (take (length b) (a @ b) @ c) s of
       (s, Some e) \<Rightarrow> (new_reader, s, Some e) | (s, None) \<Rightarrow> (new_reader, s, None))"
  using assms by (rule feed_three_chunks)

theorem read_three_chunks_witness:
  "feed (\<lambda>f s. (s @ [f], None)) [encode (of_nat (length [1::byte, 2, 3, 4, 5, 6])) @ [1, 2], [3, 4], [5, 6]] new_reader [] =
    (new_reader, [[1, 2, 5, 6]], None)"
proof -
  have "sendable [1, 2, 3, 4, 5, 6]" by (simp add: sendable_def)
  from read_three_chunks [OF this, of "[1, 2]" "[3, 4]" "[5, 6]" "\<lambda>f s. (s @ [f], None)" "[]"]
  show ?thesis by simp
qed

text \<open>When a chunk ends inside the length prefix, the bytes of the prefix read so far are lost: the
  reader is left as it was, without an error.\<close>

theorem read_cut_prefix:
  assumes "encode (of_nat (length f)) = c @ c'" and "c' \<noteq> []"
  shows "readRequests h c new_reader s = (new_reader, s, None)"
  using readRequests_cut_prefix [OF assms] by (simp add: readRequests_def)

theorem read_cut_prefix_witness:
  "readRequests (\<lambda>f s. (s @ [f], None)) [200] new_reader [] = (new_reader, [], None)"
proof -
  have "encode 200 = [200] @ [1]" by (simp add: encode_eval)
  then have e: "encode (of_nat (length (replicate 200 (0 :: byte)))) = [200] @ [1]"
    by (simp only: length_replicate of_nat_numeral)
  show ?thesis by (rule read_cut_prefix [OF e]) simp
qed

text \<open>C37: A value written with \<open>encode\<close> is read back by \<open>decode\<close>, which leaves exactly the bytes
  that follow it.\<close>

theorem uvarint_roundtrip: "decode (encode w @ rest) = (Inr w, rest)"
  by (rule decode_encode)

text \<open>The encoding takes one to five bytes, all but the last with the continuation bit, and a
  truncated encoding is reported as the end of the input, never as a value.\<close>

theorem uvarint_form:
  "1 \<le> length (encode w) \<and> length (encode w) \<le> 5 \<and>
   list_all continues (butlast (encode w)) \<and> \<not> continues (last (encode w)) \<and>
   (\<forall>k < length (encode w). decode (take k (encode w)) = (Inl EOFException, []))"
proof -
  have "decode (take k (encode w)) = (Inl EOFException, [])" if "k < length (encode w)" for k
    by (rule decode_truncated [of w _ "drop k (encode w)"]) (use that in simp_all)
  then show ?thesis using encode_length [of w] encode_continues [of w] by blast
qed

theorem uvarint_form_witness: "length (encode 300) \<le> 5 \<and> decode (take 1 (encode 300)) = (Inl EOFException, [])"
proof -
  have "length (encode 300) = 2" by (simp add: encode_eval)
  then show ?thesis using uvarint_form [of 300] by simp
qed

text \<open>Five bytes with the continuation bit are refused, whatever follows: the reader cannot be
  made to read without bound.\<close>

theorem uvarint_too_long:
  assumes "length bs = 5" and "list_all continues bs"
  shows "\<exists>e rest'. decode (bs @ rest) = (Inl e, rest') \<and> (e = VarintTooLarge \<or> e = VarintTooManyBytes)"
  using assms by (rule decode_five_continues)

theorem uvarint_too_long_witness:
  "\<exists>e rest'. decode ([128, 128, 128, 128, 128] @ [1]) = (Inl e, rest') \<and> (e = VarintTooLarge \<or> e = VarintTooManyBytes)"
proof -
  have "list_all continues [128, 128, 128, 128, 128]" by (simp add: continues_def uvarint_consts)
  then show ?thesis using uvarint_too_long [of "[128, 128, 128, 128, 128]"] by simp
qed

section \<open>Time and groups\<close>

text \<open>Converting a time whose count, scaled to the finer of the two units, is below \<open>2 ^ 53\<close>
  is exact: the quotient truncated towards zero, although the code computes in \<open>double\<close>.\<close>

theorem convert_time_exact:
  assumes "\<bar>time * fst (unit_ratio from to)\<bar> < 2 ^ 53"
  shows "convertTime time from to = Inr (exact_convert time from to)"
  using assms by (rule convertTime_small)

theorem convert_time_exact_witness:
  "convertTime 90061 SECOND HOUR = Inr 25 \<and> convertTime (- 90061) SECOND HOUR = Inr (- 25)"
proof -
  have r: "unit_ratio SECOND HOUR = (1, 3600)" by code_simp
  have "exact_convert 90061 SECOND HOUR = 25" "exact_convert (- 90061) SECOND HOUR = - 25" by code_simp+
  then show ?thesis
    using convert_time_exact [of 90061 SECOND HOUR] convert_time_exact [of "- 90061" SECOND HOUR]
    unfolding r by simp
qed

text \<open>To a finer unit and back is the identity, as long as the finer count is below \<open>2 ^ 53\<close>.\<close>

theorem convert_time_roundtrip:
  assumes "snd (unit_ratio from to) = 1" and "\<bar>time * fst (unit_ratio from to)\<bar> < 2 ^ 53"
  shows "rbind (convertTime time from to) (\<lambda>t. convertTime t to from) = Inr time"
  using assms by (rule convertTime_roundtrip)

theorem convert_time_roundtrip_witness:
  "rbind (convertTime 25 HOUR MILLI) (\<lambda>t. convertTime t MILLI HOUR) = Inr 25"
proof -
  have r: "unit_ratio HOUR MILLI = (3600000, 1)" by code_simp
  show ?thesis using convert_time_roundtrip [of HOUR MILLI 25] unfolding r by simp
qed

text \<open>A product that exceeds the range of \<open>int64_t\<close> by more than the rounding is refused.\<close>

theorem convert_time_overflow:
  assumes "snd (unit_ratio from to) = 1" and "\<bar>time\<bar> \<le> 2 ^ 53"
    and "2 ^ 63 + 2 ^ 11 \<le> time * fst (unit_ratio from to)"
  shows "convertTime time from to = Inl TypeError"
  using assms by (rule convertTime_overflow)

theorem convert_time_overflow_witness: "convertTime 15251 WEEK NANO = Inl TypeError"
proof -
  have r: "unit_ratio WEEK NANO = (604800000000000, 1)" by code_simp
  show ?thesis using convert_time_overflow [of WEEK NANO 15251] unfolding r by simp
qed

text \<open>At the border of the range the check is one too generous, and above \<open>2 ^ 53\<close> the
  detour over \<open>double\<close> rounds: a count that becomes \<open>2 ^ 63\<close> passes the check and is cast out of
  range, and the last nanosecond of a second is converted to the next second.\<close>

theorem convert_time_limits:
  "convertTime 9223372036854776 MICRO NANO = Inl UndefinedBehaviour \<and>
   convertTime 1599999999999999999 NANO SECOND = Inr 1600000000 \<and>
   exact_convert 1599999999999999999 NANO SECOND = 1599999999"
  by code_simp

text \<open>C38: Group strings round-trip: a group whose columns are the measurement and tags without
  separators in them is written by \<open>encode\<close> and read back by \<open>parse\<close>.\<close>

theorem group_roundtrip:
  assumes "encodable types meas m"
  shows "\<exists>s. encode_group (constructGroupFromOrderedMap m) meas types = Inr s \<and>
             parse s meas = Inr (constructGroupFromOrderedMap m)"
  using assms by (rule parse_encoded)

theorem group_roundtrip_witness:
  "\<exists>s. encode_group (constructGroupFromOrderedMap [(''cpu'', ''0''), (''name'', ''load'')]) ''name''
         (\<lambda>k. if k = ''cpu'' then Some TAG else None) = Inr s \<and>
       parse s ''name'' = Inr (constructGroupFromOrderedMap [(''cpu'', ''0''), (''name'', ''load'')])"
  by (rule group_roundtrip) code_simp



text \<open>Splitting a string at a one-character delimiter gives pieces without the delimiter whose
  join with it is the string again; only the empty string gives no piece.\<close>

theorem split_pieces:
  "\<exists>ps. split s [c] = Inr ps \<and> list_all (\<lambda>p. c \<notin> set p) ps \<and>
        concatenateStrings ps [c] = s \<and> (ps = [] \<longleftrightarrow> s = [])"
  by (auto simp: split_char split_on_parts concat_split_on list_all_iff)

section \<open>The options of the functions\<close>

text \<open>C40: The search for the aggregate expression finds what it describes: the three groups of the
  regular expression are the unique function, column and result name of a string of the form
  \<open>function(column) as result\<close>.\<close>

theorem aggregate_regex: "regex_match s = Some (f, c, r) \<longleftrightarrow> aggregate_form s (f, c, r)"
  by (rule regex_match_iff)

text \<open>The stream aggregate options are accepted just when \<open>emitTimeout\<close> is there and neither of
  the two options occurs twice or without exactly one duration; other options are left to the other
  parser.\<close>

theorem stream_aggregate_options:
  "(\<exists>m. parseStreamAggregateOptions opts = Inr m) \<longleftrightarrow>
     list_all one_duration (sa_options opts) \<and>
     distinct (map opt_name (sa_options opts)) \<and> SA_EMIT_TIMEOUT \<in> opt_name ` set (sa_options opts)"
  unfolding list_all_iff by (rule parseStreamAggregateOptions_ok)

text \<open>The window options are accepted just when every option is well formed, none but
  \<open>fillPeriod\<close> is repeated, and of each pair of alternatives exactly one set of options is complete.\<close>

theorem window_options_acceptance:
  "(\<exists>w. parseWindowOptions memory opts = Inr w) \<longleftrightarrow>
     list_all window_option_ok opts \<and> distinct (valued_names opts) \<and> presented (opt_name ` set opts)"
  unfolding list_all_iff by (rule parseWindowOptions_ok)

text \<open>Although the members of the options start uninitialised, what the parser accepts does not
  depend on the memory they were in.\<close>

theorem window_options_memory:
  assumes "parseWindowOptions memory opts = Inr w"
  shows "parseWindowOptions memory' opts = Inr w"
  using assms by (rule parseWindowOptions_memory)

theorem window_options_memory_witness:
  "\<forall>memory. \<exists>w. parseWindowOptions memory [duration_option STATIC_PERIOD 60000000000,
      duration_option STATIC_EVERY 10000000000, duration_option EMIT_TIMEOUT 5000000000] = Inr w \<and>
    wo_period (window_handler_options w) = 60"
proof -
  let ?opts = "[duration_option STATIC_PERIOD 60000000000, duration_option STATIC_EVERY 10000000000,
    duration_option EMIT_TIMEOUT 5000000000]"
  let ?w = "\<lparr>convert_options = \<lparr>period_option = None, every_option = None\<rparr>,
    window_handler_options = \<lparr>wo_period = 60, wo_every = 10, wo_fill_period = False\<rparr>, pw_emit_timeout = 5\<rparr>"
  have "parseWindowOptions ?w ?opts = Inr ?w" by code_simp
  from window_options_memory [OF this] show ?thesis by auto
qed

text \<open>No look-up of the window option parser fails with an exception that the handler does not
  catch.\<close>

theorem window_options_exceptions: "parseWindowOptions memory opts \<noteq> Inl StdOutOfRange"
  by (rule parseWindowOptions_no_out_of_range)

text \<open>The threshold options are accepted just when every option is known, has one value of its
  type and is not repeated, and the required ones are there.\<close>

theorem threshold_options_acceptance:
  "(\<exists>t. parseThresholdOptions memory opts = Inr t) \<longleftrightarrow>
     list_all threshold_option_ok opts \<and> distinct (map opt_name opts) \<and>
     set REQUIRED_THRESHOLD_OPTIONS \<subseteq> opt_name ` set opts"
  unfolding list_all_iff by (rule parseThresholdOptions_ok)

text \<open>The options the threshold parser accepts are, member by member, the value of the option
  of that name or the default.\<close>

theorem threshold_options_meaning:
  assumes "parseThresholdOptions memory opts = Inr t"
  shows "t = threshold_spec (threshold_defaults memory) opts"
  using assms by (rule parseThresholdOptions_spec)

theorem threshold_options_meaning_witness:
  "\<exists>t. t = threshold_spec (threshold_defaults example_threshold)
        [string_option WATCH_COLUMN ''cpu'', string_option THRESHOLD_COLUMN ''level'',
         double_option DEFAULT_THRESHOLD (Fin 10), double_option INCREASE_SCALE (Fin 2),
         duration_option INCREASE_AFTER 5000000000] \<and> watch_column_name t = ''cpu'' \<and> increase_after t = 5"
proof -
  let ?opts = "[string_option WATCH_COLUMN ''cpu'', string_option THRESHOLD_COLUMN ''level'',
    double_option DEFAULT_THRESHOLD (Fin 10), double_option INCREASE_SCALE (Fin 2),
    duration_option INCREASE_AFTER 5000000000]"
  have "case parseThresholdOptions example_threshold ?opts of Inl _ \<Rightarrow> False
    | Inr t \<Rightarrow> watch_column_name t = ''cpu'' \<and> increase_after t = 5"
    by code_simp
  then obtain t where t: "parseThresholdOptions example_threshold ?opts = Inr t" "watch_column_name t = ''cpu''"
      "increase_after t = 5"
    by (auto split: sum.splits)
  from threshold_options_meaning [OF t(1)] t show ?thesis by blast
qed

text \<open>Derivative options round-trip: the option list written for a list of cases with distinct
  result names and any choice of the global options is parsed to these cases, in a map by result
  name, with the defaults for what is not given.\<close>

theorem derivative_options_roundtrip:
  assumes "cs \<noteq> []" and "distinct (map result_name cs)"
  shows "parseDerivativeOptions memory moved (global_options u n e nw @ concat (map case_options cs)) =
    Inr (\<lparr>unit_time_segment = (case u of None \<Rightarrow> 1000000000 | Some d \<Rightarrow> d),
          derivative_neighbourhood = (case n of Some d \<Rightarrow> d
            | None \<Rightarrow> (case u of None \<Rightarrow> 1000000000 | Some d \<Rightarrow> d)),
          derivative_cases = smap_puts (map case_meaning cs) [],
          no_wait_future = nw\<rparr>,
         case e of None \<Rightarrow> 10 | Some d \<Rightarrow> nanoseconds_to_seconds d)"
  using assms by (rule parseDerivativeOptions_cases)

theorem derivative_options_roundtrip_witness:
  "\<forall>memory moved. parseDerivativeOptions memory moved
     [duration_option UNIT_TIME_SEGMENT 60000000000, string_option DERIVATIVE ''cpu'', string_option RESULT ''speed'',
      string_option DERIVATIVE ''cpu'', string_option RESULT ''acceleration'', int_option ORDER 2] =
   Inr (\<lparr>unit_time_segment = 60000000000, derivative_neighbourhood = 60000000000,
         derivative_cases = [(''acceleration'', \<lparr>values_column_name = ''cpu'', der_order = 2\<rparr>),
                             (''speed'', \<lparr>values_column_name = ''cpu'', der_order = 1\<rparr>)],
         no_wait_future = False\<rparr>, 10)"
proof -
  let ?cs = "[(''speed'', ''cpu'', None), (''acceleration'', ''cpu'', Some 2)]"
  have m: "smap_puts (map case_meaning ?cs) [] =
      [(''acceleration'', \<lparr>values_column_name = ''cpu'', der_order = 2\<rparr>),
       (''speed'', \<lparr>values_column_name = ''cpu'', der_order = 1\<rparr>)]"
    by code_simp
  show ?thesis
    using derivative_options_roundtrip [of ?cs _ _ "Some 60000000000" None None False]
    unfolding m by (simp add: global_options_def case_options_def case_meaning_def)
qed

section \<open>Search in a time column\<close>

text \<open>On a non-empty column sorted by time and a predicate that stays true from some time on,
  the binary search returns the first position at which the predicate holds, or the length.\<close>

theorem lower_bound:
  assumes "reads_ts A arr u ts" and "sorted ts" and "ts \<noteq> []" and "length ts < 2 ^ 64" and "upward pred"
  shows "tsLowerBound A arr pred u = Inr (first_index pred ts)"
  using assms by (rule tsLowerBound_correct)

theorem lower_bound_witness: "tsLowerBound ref_arrow (ts_array [1, 3, 3, 8]) (\<lambda>t. 3 \<le> t) UNIT_SECOND = Inr 1"
  using lower_bound [OF reads_ts_array, of "[1, 3, 3, 8]" "\<lambda>t. 3 \<le> t"] by (simp add: first_index_def)

section \<open>Handlers composed\<close>

text \<open>A stream of two groups for the examples.\<close>

lemma example_groups:
  "window_stream_ok ref_arrow ''time'' ts_rows id id [gts_batch ''x'' [1, 3], gts_batch ''x'' [4, 5]]"
  "window_stream_ok ref_arrow ''time'' ts_rows id id [gts_batch ''y'' [2, 4]]"
  unfolding window_stream_ok_def
  by (intro conjI exI [of _ "gts_good ''x''"] exI [of _ "gts_good ''y''"]; simp add: ts_stream_laws)+

abbreviation example_stream :: "batch list" where
  "example_stream \<equiv> [gts_batch ''x'' [1, 3], gts_batch ''y'' [2, 4], gts_batch ''x'' [4, 5]]"

lemma example_group_batches:
  "group_batches ref_arrow g example_stream =
     (if g = ''x'' then [gts_batch ''x'' [1, 3], gts_batch ''x'' [4, 5]] else if g = ''y'' then [gts_batch ''y'' [2, 4]] else [])"
  by (simp add: group_batches_def)

abbreviation example_window :: WindowOptions where
  "example_window \<equiv> \<lparr>wo_period = 2, wo_every = 2, wo_fill_period = False\<rparr>"

text \<open>C29: The groups of a \<open>GroupDispatcher\<close> do not interfere: if the inner handler succeeds on the batches
  of each group alone, the dispatcher succeeds on the interleaved stream, leaves every group in the state
  its handler has after the batches of that group, and returns for them what that handler returns.\<close>

theorem dispatcher_isolation:
  assumes "\<forall>b \<in> set bs. \<exists>g. extractGroupMetadata A b = Inr g"
    and "\<forall>g. \<exists>r. handle_vector h (group_state create st g) (group_batches A g bs) = (final g, Inr r)"
  shows "\<exists>st' rss. handle_vector (dispatcher_handle A h create) st bs = (st', Inr (concat rss)) \<and>
    length rss = length bs \<and>
    (\<forall>g. group_state create st' g = final g \<and>
       handle_vector h (group_state create st g) (group_batches A g bs) =
         (final g, Inr (concat (map snd (filter (\<lambda>(b, _). extractGroupMetadata A b = Inr g) (zip bs rss))))))"
  using assms by (rule dispatcher_isolates)

theorem dispatcher_isolation_witness:
  "\<exists>st' rss. handle_vector (dispatcher_handle ref_arrow (window_handle ref_arrow) (new_window_handler example_window)) []
      example_stream = (st', Inr (concat rss)) \<and> length rss = 3"
proof -
  let ?w = "new_window_handler example_window"
  let ?run = "\<lambda>g. handle_vector (window_handle ref_arrow) ?w (group_batches ref_arrow g example_stream)"
  have "\<exists>w' r. ?run g = (w', Inr r)" for g
    unfolding example_group_batches using window_handler_windows [OF example_groups(1), of example_window]
      window_handler_windows [OF example_groups(2), of example_window] by fastforce
  then have "\<exists>r. ?run g = (fst (?run g), Inr r)" for g by (metis fst_conv)
  then show ?thesis
    using dispatcher_isolation [of example_stream ref_arrow "window_handle ref_arrow" ?w "[]" "\<lambda>g. fst (?run g)"]
    by (force simp: group_state_def)
qed






section \<open>Tables\<close>

text \<open>C31: \<open>DefaultHandler\<close> keeps the rows and every column, and fills in exactly the missing columns with
  the default of the first of int64, double, string and bool that has one for the name.\<close>

theorem default_columns:
  assumes "table_laws A" and "table b"
    and "smap (int64_default_cases options)" and "smap (double_default_cases options)"
    and "smap (string_default_cases options)" and "smap (bool_default_cases options)"
  shows "\<exists>b'. default_handle A options b = Inr [b'] \<and> b_num_rows b' = b_num_rows b \<and>
    (\<forall>n. GetColumnByName A b' n =
       (case GetColumnByName A b n of Some a \<Rightarrow> Some a | None \<Rightarrow> defaulted options (b_num_rows b) n))"
  using assms by (rule default_handle_columns)

theorem default_columns_witness:
  "\<exists>b'. default_handle ref_arrow
      \<lparr>int64_default_cases = [(''a'', \<lparr>default_value = 7, default_column_type = FIELD\<rparr>),
                              (''c'', \<lparr>default_value = 8, default_column_type = FIELD\<rparr>)],
       double_default_cases = [], string_default_cases = [], bool_default_cases = []\<rparr> (pair_batch [(1, 2), (3, 4)]) = Inr [b'] \<and>
    GetColumnByName ref_arrow b' ''a'' = Some (int_array [1, 3]) \<and>
    GetColumnByName ref_arrow b' ''c'' = Some (int_array [8, 8])"
proof -
  let ?o = "\<lparr>int64_default_cases = [(''a'', \<lparr>default_value = 7, default_column_type = FIELD\<rparr>),
                              (''c'', \<lparr>default_value = 8, default_column_type = FIELD\<rparr>)],
       double_default_cases = [], string_default_cases = [], bool_default_cases = []\<rparr> :: DefaultHandlerOptions"
  let ?b = "pair_batch [(1, 2), (3, 4)]"
  have "table ?b" by (simp add: table_def wf_batch_def pair_batch_def)
  moreover have "smap (int64_default_cases ?o)" by code_simp
  ultimately obtain b' where b': "default_handle ref_arrow ?o ?b = Inr [b']"
      "\<forall>n. GetColumnByName ref_arrow b' n = (case GetColumnByName ref_arrow ?b n of
        Some a \<Rightarrow> Some a | None \<Rightarrow> defaulted ?o (b_num_rows ?b) n)"
    using default_columns [of ref_arrow ?b ?o] by (auto simp: smap_def)
  have "b_num_rows ?b = Suc (Suc 0)" by (simp add: pair_batch_def)
  with b' show ?thesis by (intro exI [of _ b']) (simp add: pair_column pair_keys defaulted_def int_array_def)
qed

text \<open>C28: \<open>groupSortingByColumns\<close> cuts the rows of a batch into the groups that agree in the present
  columns, in the lexicographic order of their keys, the rows of a group in the order of the batch.\<close>

theorem grouping_partition:
  assumes "group_laws A good rows present key" and "good b" and "rows b \<noteq> []"
  shows "\<exists>bs. groupSortingByColumns A cs b = Inr bs \<and> list_all good bs \<and>
    map rows bs = key_groups (map key (filter (\<lambda>c. c \<in> present) cs)) (rows b)"
  using assms by (rule groupSortingByColumns_groups)

theorem grouping_partition_witness:
  "\<exists>bs. groupSortingByColumns ref_arrow [''b'', ''missing'', ''a''] (pair_batch [(1, 2), (3, 1), (1, 1), (0, 2), (1, 2)]) = Inr bs \<and>
    map pair_rows bs = [[(1, 1)], [(3, 1)], [(0, 2)], [(1, 2), (1, 2)]]"
proof -
  let ?rs = "[(1, 2), (3, 1), (1, 1), (0, 2), (1, 2)] :: (int \<times> int) list"
  have "tuple [snd, fst] ` set ?rs = set [[1, 1], [1, 3], [2, 0], [2, 1]]"
    by (auto simp: tuple_def)
  then have "sorted_list_of_set (tuple [snd, fst] ` set ?rs) = [[1, 1], [1, 3], [2, 0], [2, 1]]"
    by (simp only: sorted_list_of_set_sort_remdups) simp
  then have "key_groups [snd, fst] ?rs = [[(1, 1)], [(3, 1)], [(0, 2)], [(1, 2), (1, 2)]]"
    unfolding key_groups_def by (simp add: tuple_def)
  with grouping_partition [OF pair_group_laws, of "pair_batch ?rs" "[''b'', ''missing'', ''a'']"] show ?thesis
    by (auto simp: pair_keys)
qed

text \<open>C33: The first and last aggregates take a row of the least and of the greatest time; but of the rows
  that share this time, in a batch sorted by time, first takes the last and last takes the first.\<close>

theorem first_last_rows_times:
  assumes "getTimeColumnNameMetadata A b = Inr tn" and "GetColumnByName A b tn = Some c" and "reads_extrema A c ts" and "ts \<noteq> []"
    and "GetColumnByName A b name = Some col"
  shows "\<exists>i j. FirstAggregateFunction A b name = GetScalar A col (int i) \<and>
    LastAggregateFunction A b name = GetScalar A col (int j) \<and> i < length ts \<and> j < length ts \<and>
    ts ! i = Min (set ts) \<and> ts ! j = Max (set ts) \<and>
    (sorted ts \<and> Min (set ts) \<noteq> Max (set ts) \<longrightarrow>
      (\<forall>k < length ts. ts ! k = ts ! i \<longrightarrow> k \<le> i) \<and> (\<forall>k < length ts. ts ! k = ts ! j \<longrightarrow> j \<le> k))"
proof (rule argMinMax_extrema [OF assms(3,4)])
  fix i j
  assume "argMinMax A c = Inr (int i, int j)" and "i < length ts" and "j < length ts"
    and "ts ! i = Min (set ts)" and "ts ! j = Max (set ts)"
    and "sorted ts \<Longrightarrow> Min (set ts) \<noteq> Max (set ts) \<Longrightarrow>
      (\<forall>k < length ts. ts ! k = Min (set ts) \<longrightarrow> k \<le> i) \<and> (\<forall>k < length ts. ts ! k = Max (set ts) \<longrightarrow> j \<le> k)"
  with assms show ?thesis
    by (intro exI [of _ i] exI [of _ j])
      (simp add: FirstAggregateFunction_def LastAggregateFunction_def first_last_rows_def)
qed

theorem first_last_rows_times_witness:
  "FirstAggregateFunction ref_arrow (value_batch [(1, Fin 10), (1, Fin 20), (2, Fin 30), (2, Fin 40)]) ''value'' =
      Inr (double_scalar (Fin 20)) \<and>
   LastAggregateFunction ref_arrow (value_batch [(1, Fin 10), (1, Fin 20), (2, Fin 30), (2, Fin 40)]) ''value'' =
      Inr (double_scalar (Fin 30))"
proof -
  let ?rs = "[(1, Fin 10), (1, Fin 20), (2, Fin 30), (2, Fin 40)] :: (int \<times> double) list"
  have "reads_extrema ref_arrow (ts_array [1, 1, 2, 2]) [1, 1, 2, 2]"
    unfolding reads_extrema_def by (simp add: ref_arrow_def ts_array_def less_Suc_eq all_conj_distrib int_scalar_def)
  from first_last_rows_times [OF value_time_name value_columns(1) _ _ value_columns(2), of ?rs "[1, 1, 2, 2]"] this
  obtain i j where ij: "FirstAggregateFunction ref_arrow (value_batch ?rs) ''value'' =
      GetScalar ref_arrow \<lparr>a_type = Plain DOUBLE, a_values = map (double_scalar \<circ> snd) ?rs\<rparr> (int i)"
    "LastAggregateFunction ref_arrow (value_batch ?rs) ''value'' =
      GetScalar ref_arrow \<lparr>a_type = Plain DOUBLE, a_values = map (double_scalar \<circ> snd) ?rs\<rparr> (int j)"
    "i < 4" "j < 4" "[1, 1, 2, 2] ! i = (1 :: int)" "[1, 1, 2, 2] ! j = (2 :: int)"
    "\<forall>k < 4. [1, 1, 2, 2] ! k = (1 :: int) \<longrightarrow> k \<le> i" "\<forall>k < 4. [1, 1, 2, 2] ! k = (2 :: int) \<longrightarrow> j \<le> k"
    by auto
  have "i = 1 \<and> j = 2"
    using ij(3-6) ij(7) [rule_format, of 1] ij(8) [rule_format, of 2] by (auto simp: less_Suc_eq numeral_eq_Suc)
  with ij(1,2) show ?thesis by (simp add: ref_arrow_def)
qed



text \<open>The mean of an integer column is a double that is cast to an integer scalar: the behaviour is
  undefined.\<close>

theorem mean_of_int64:
  assumes "GetFieldByName A (b_schema b) c = Some f" and "f_type f = Plain INT64"
    and "GetColumnByName A b c = Some col" and "Mean A col = Inr (double_scalar d)"
  shows "aggregate A (b # bs) c kMean = Inl UndefinedBehaviour"
  using assms by (rule mean_of_integers)

theorem mean_of_int64_witness:
  "aggregate (ref_arrow\<lparr>Mean := \<lambda>_. Inr (double_scalar (Fin 2))\<rparr>) [pair_batch [(1, 5), (3, 5)]] ''a'' kMean =
     Inl UndefinedBehaviour"
  by (rule mean_of_int64) (auto simp: ref_arrow_def pair_batch_def field_index_def)

text \<open>C27: The join: the input rows are partitioned by their key, those of a key ordered by time and cut into
  runs no longer than the tolerance, and each run is one row of the table that is sorted by time, with the
  first value of the run in each column or null.\<close>

theorem join_table:
  assumes "join_input_ok A j tn bs key time types val" and "builder_laws A" and "bs \<noteq> []"
    and "getTimeColumnNameMetadata A (hd bs) = Inr tn"
  shows "\<exists>keys. keyed key (join_rows time bs (length bs)) keys \<and>
    join_handle_vector A j bs =
      rbind (sortByColumn A tn
               (joined_table (tolerance j) types val (sorted_list_of_set (input_names bs (length bs))) keys)) (\<lambda>b.
      rbind (setTimeColumnNameMetadata A b tn) (\<lambda>b. Inr [b]))"
  using assms by (rule join_handle_table)

theorem join_table_witness:
  "\<exists>keys. keyed (\<lambda>_. ''host=x,'') (join_rows (ref_time example_join) example_join 2) keys \<and>
    join_handle_vector ref_arrow \<lparr>join_on_columns = [''host''], tolerance = 1\<rparr> example_join =
      rbind (sortByColumn ref_arrow ''time'' (joined_table 1 example_types (ref_cell example_join)
          (sorted_list_of_set (input_names example_join 2)) keys)) (\<lambda>b.
      rbind (setTimeColumnNameMetadata ref_arrow b ''time'') (\<lambda>b. Inr [b]))"
proof -
  have l: "length example_join = 2" and ne: "example_join \<noteq> []"
    and t: "getTimeColumnNameMetadata ref_arrow (hd example_join) = Inr ''time''"
    by code_simp+
  have "join_input_ok ref_arrow \<lparr>join_on_columns = [''host''], tolerance = 1\<rparr> ''time'' example_join (\<lambda>_. ''host=x,'')
      (ref_time example_join) example_types (ref_cell example_join)"
    unfolding join_input_ok_def l by (intro allI impI conjI example_join_cells example_join_fields)
  from join_table [OF this ref_builder_laws ne t] show ?thesis by (simp add: l)
qed

text \<open>The name of the time column is read back from the metadata, its column has the type TIME, and the
  columns, the rows and the measurement entry are as they were.\<close>

theorem time_column_roundtrip:
  assumes "metadata_laws A" and "schema_laws A" and "wf_batch b" and "GetColumnByName A b c = Some col"
    and "type_id (a_type col) = TIMESTAMP"
  shows "\<exists>b' f. setTimeColumnNameMetadata A b c = Inr b' \<and> getTimeColumnNameMetadata A b' = Inr c \<and>
    GetFieldByName A (b_schema b') c = Some f \<and> getColumnType A f = Inr TIME \<and>
    b_columns b' = b_columns b \<and> b_num_rows b' = b_num_rows b \<and>
    (\<forall>m. getMeasurementColumnNameMetadata A b' = Inr m \<longleftrightarrow> getMeasurementColumnNameMetadata A b = Inr m)"
  unfolding setTimeColumnNameMetadata_def getTimeColumnNameMetadata_def getMeasurementColumnNameMetadata_def
  by (rule setColumnNameMetadata_reads [OF assms, of TIME_COLUMN_NAME_METADATA_KEY TIME])
    (use metadata_keys_distinct(1) in auto)

theorem time_column_roundtrip_witness:
  "\<exists>b'. setTimeColumnNameMetadata ref_arrow (Make \<lparr>sch_fields = [new_field ''t'' (Timestamp UNIT_SECOND)], sch_metadata = None\<rparr> 2
      [ts_array [1, 2]]) ''t'' = Inr b' \<and> getTimeColumnNameMetadata ref_arrow b' = Inr ''t''"
  using time_column_roundtrip [OF ref_metadata_laws ref_schema_laws,
    of "Make \<lparr>sch_fields = [new_field ''t'' (Timestamp UNIT_SECOND)], sch_metadata = None\<rparr> 2 [ts_array [1, 2]]" "''t''" "ts_array [1, 2]"]
  by (fastforce simp: wf_batch_def ref_arrow_def field_index_def ts_array_def)

section \<open>The agent\<close>

text \<open>C11: The agent answers its requests in order: when a handler answers the requests of a sequence of
  chunks of whole messages, the agent has written these answers, each with its length, and the peer that
  reads its output with the same reader gets exactly them.\<close>

theorem agent_answers:
  assumes "\<forall>fs \<in> set chunks. list_all sendable fs" and "opened a" and "halted a = None"
    and "kapacitor_request_reader a = new_reader" and "out a = []"
    and "answers ops (map (ParseRequest M) (concat chunks)) (request_handler a) = (h', rs, Inr u)"
    and "\<forall>r \<in> set rs. sendable (SerializeResponse M r)"
  shows "request_handler (fold (\<lambda>fs. data_event M ops (messages fs)) chunks a) = h' \<and>
    readRequests (\<lambda>data got. (got @ [data], None)) (out (fold (\<lambda>fs. data_event M ops (messages fs)) chunks a))
      new_reader [] = (new_reader, map (SerializeResponse M) rs, None)"
  using data_events_answers [OF assms(1-4,6)] peer_reads [OF assms(7)] assms(5) by simp

theorem agent_answers_witness:
  "readRequests (\<lambda>data got. (got @ [data], None))
     (out (fold (\<lambda>fs. data_event keepalive_messages (logging_methods group_proto) (messages fs)) [[[5], [6]], [], [[7]]]
       (new_agent \<lparr>logging_stream = [], is_logging = True\<rparr>\<lparr>opened := True\<rparr>))) new_reader [] =
   (new_reader, [[5], [6], [7]], None)"
  using agent_answers [of "[[[5], [6]], [], [[7]]]" "new_agent \<lparr>logging_stream = [], is_logging = True\<rparr>\<lparr>opened := True\<rparr>"
    "logging_methods group_proto" keepalive_messages "\<lparr>logging_stream = [], is_logging = True\<rparr>"
    "[KeepaliveResponse 5, KeepaliveResponse 6, KeepaliveResponse 7]" "()"]
  by (simp add: new_agent_def keepalive_messages_def handleRequest_def sendable_def)

text \<open>C12: The messages of a batch: the points between begin and end, renamed to the name of the end
  message, go through the storage once; what it writes is all that is written, begin and end messages
  bracket the points of every batch of the result, and the handler is ready for the next batch.\<close>

theorem batch_answers:
  assumes "points_storage h = Some s" and "points s = []" and "ready s"
    and "storage_handleBatch A P (s\<lparr>points := map (\<lambda>point. point\<lparr>p_name := eb_name e\<rparr>) ps\<rparr>) = (s', rs, r)"
    and "logged r = Inr ()"
  shows "answers (batch_methods A P info init) (batch_requests b ps e) h =
      (h\<lparr>points_storage := Some (s'\<lparr>points := []\<rparr>), in_batch := False\<rparr>, rs, Inr ()) \<and>
    bracketed (provides_batch s) False rs"
  using answers_batch [OF assms(1,2,4,5)] handleBatch_bracketed [OF assms(4)] assms(3) by simp

theorem batch_answers_witness:
  "fst (snd (answers (BatchAggregateRequestHandler ref_arrow group_proto) (batch_requests example_begin [example_point 5 1, example_point 6 2] example_end)
     \<lparr>points_storage = Some example_storage, in_batch = False\<rparr>)) =
   [ResponsePoint \<lparr>p_time = 6, p_name = ''m'', p_database = [], p_retentionPolicy = [], p_group = ''host=a'',
      p_dimensions = [''host''], p_tags = [(''host'', ''a'')], p_fieldsDouble = [], p_fieldsInt = [(''y'', 2)],
      p_fieldsString = [], p_fieldsBool = [], p_byName = False\<rparr>]"
proof -
  let ?ps = "map (\<lambda>point. point\<lparr>p_name := eb_name example_end\<rparr>) [example_point 5 1, example_point 6 2]"
  obtain s' rs r where hb: "storage_handleBatch ref_arrow group_proto (example_storage\<lparr>points := ?ps\<rparr>) = (s', rs, r)"
    by (metis prod_cases3)
  have "snd (storage_handleBatch ref_arrow group_proto (example_storage\<lparr>points := ?ps\<rparr>)) =
     ([ResponsePoint \<lparr>p_time = 6, p_name = ''m'', p_database = [], p_retentionPolicy = [], p_group = ''host=a'',
      p_dimensions = [''host''], p_tags = [(''host'', ''a'')], p_fieldsDouble = [], p_fieldsInt = [(''y'', 2)],
      p_fieldsString = [], p_fieldsBool = [], p_byName = False\<rparr>], Inr ())"
    by code_simp
  moreover have "ready example_storage" "points example_storage = []" by (simp_all add: example_storage_def)
  ultimately show ?thesis
    using batch_answers [of "\<lparr>points_storage = Some example_storage, in_batch = False\<rparr>" example_storage ref_arrow group_proto example_end
      "[example_point 5 1, example_point 6 2]" s' rs r] hb
    by (simp add: BatchAggregateRequestHandler_def)
qed



text \<open>C14: A snapshot taken in the middle of a batch and restored into a fresh handler of the same
  configuration: the fresh handler answers the rest of the requests as the first one would have, after
  reporting success.\<close>

theorem snapshot_resume:
  assumes "points_codec P" and "points_storage h = Some s" and "points s = []" and "points_storage h' = Some s"
    and "answers (batch_methods A P info init) (RequestBegin b # map RequestPoint ps @ [SnapshotRequest]) h =
      (h1, rs1, Inr u)"
    and "answers (batch_methods A P info init) qs h1 = (h2, rs2, r)"
  shows "\<exists>data. rs1 = [SnapshotResponse data] \<and>
    answers (batch_methods A P info init) (RestoreRequest data # qs) h' = (h2, RestoreResponse True None # rs2, r)"
proof -
  let ?ops = "batch_methods A P info init"
  let ?h = "h\<lparr>points_storage := Some (s\<lparr>points := ps\<rparr>), in_batch := True\<rparr>"
  have "answers ?ops (RequestBegin b # map RequestPoint ps) h = (?h, [], Inr ())"
    using answers_open_batch [OF assms(2), of A P info init b ps] assms(3) by simp
  moreover have "answers ?ops [SnapshotRequest] ?h = (?h, [SnapshotResponse (49 # storage_snapshot P (s\<lparr>points := ps\<rparr>))], Inr ())"
    using answers_snapshot [of ?h "s\<lparr>points := ps\<rparr>" A P info init] by simp
  moreover have "RequestBegin b # map RequestPoint ps @ [SnapshotRequest] =
      (RequestBegin b # map RequestPoint ps) @ [SnapshotRequest]" by simp
  ultimately have h1: "h1 = ?h" "rs1 = [SnapshotResponse (49 # storage_snapshot P (s\<lparr>points := ps\<rparr>))]"
    using assms(5) by (simp_all only: answers_append) auto
  have "answers ?ops (RestoreRequest (49 # storage_snapshot P (s\<lparr>points := ps\<rparr>)) # qs) h' =
      (h2, RestoreResponse True None # rs2, r)"
    using answers_restored [OF assms(1), of ?h "s\<lparr>points := ps\<rparr>" h' s A info init qs] assms(3,4,6) h1(1) by simp
  with h1(2) show ?thesis by blast
qed

theorem snapshot_resume_witness:
  "\<exists>data. answers (BatchAggregateRequestHandler ref_arrow codec_proto) [RestoreRequest data, RequestPoint (example_point 6 2)]
     \<lparr>points_storage = Some example_storage, in_batch = False\<rparr> =
   (\<lparr>points_storage = Some (example_storage\<lparr>points := [example_point 5 1, example_point 6 2]\<rparr>), in_batch = True\<rparr>,
    [RestoreResponse True None], Inr ())"
proof -
  let ?h = "\<lparr>points_storage = Some example_storage, in_batch = False\<rparr>"
  let ?h1 = "\<lparr>points_storage = Some (example_storage\<lparr>points := [example_point 5 1]\<rparr>), in_batch = True\<rparr>"
  let ?h2 = "\<lparr>points_storage = Some (example_storage\<lparr>points := [example_point 5 1, example_point 6 2]\<rparr>), in_batch = True\<rparr>"
  let ?ops = "BatchAggregateRequestHandler ref_arrow codec_proto"
  have e: "points example_storage = []" by (simp add: example_storage_def)
  have "answers ?ops (RequestBegin example_begin # map RequestPoint [example_point 5 1] @ [SnapshotRequest]) ?h =
      (?h1, [SnapshotResponse (49 # storage_snapshot codec_proto (example_storage\<lparr>points := [example_point 5 1]\<rparr>))], Inr ())"
    by (simp add: BatchAggregateRequestHandler_def handleRequest_def batch_beginBatch_def batch_point_def
      batch_snapshot_def respond_def addPoint_def e)
  moreover have "answers ?ops [RequestPoint (example_point 6 2)] ?h1 = (?h2, [], Inr ())"
    by (simp add: BatchAggregateRequestHandler_def handleRequest_def batch_point_def addPoint_def)
  ultimately show ?thesis
    using snapshot_resume [of codec_proto ?h example_storage ?h] e
    unfolding BatchAggregateRequestHandler_def by fastforce
qed

section \<open>Derivatives\<close>

text \<open>C10: What a \<open>DerivativeHandler\<close> that waits for the future makes of a stream: for batches that are
  non-empty and follow each other in time every call succeeds; a row is emitted, once and in order, as soon as
  a row beyond its neighbourhood has arrived, and the cell of a result column is what the calculator makes of
  the valid values of exactly the rows within the neighbourhood on both sides, however the stream is cut. The
  times are compared as doubles, rounding included.\<close>

theorem derivative_stream:
  assumes "derivative_laws A tn good rows key ns val (names_of options)"
    and "derives A options ns val (stream_rows rows key bs)"
    and "\<forall>b \<in> set bs. good b \<and> rows b \<noteq> []" and "length (stream_rows rows key bs) < 2 ^ 64"
  shows "\<exists>d' res cbs. handle_vector (derivative_handle A calc) (createDerivativeHandler options) bs = (d', Inr res) \<and>
    emitted options ns (stream_rows rows key bs) = concat (map rows cbs) \<and>
    derived_outputs calc options rows ns val (stream_rows rows key bs) cbs res"
  using derivative_stream_from [OF assms(1) represents_start assms(3), where calc = calc] assms(2,4)
  by (simp only: append_Nil refl if_True)

text \<open>Rows in pairs, each pair within the neighbourhood of two seconds, with the calculator of the program
  and a solver for two equations.\<close>

definition two_point_solve :: linear_solve where
  "two_point_solve s m r =
     (case dsub (m ! 1 ! 1) (m ! 1 ! 0) of Fin d \<Rightarrow> [ddiv_rat (Fin (- 1)) d, ddiv_rat (Fin 1) d] | _ \<Rightarrow> [NaN, NaN])"

definition example_derivative :: DerivativeOptions where
  "example_derivative =
     \<lparr>unit_time_segment = 1000000000, derivative_neighbourhood = 2000000000,
      derivative_cases = [(''speed'', \<lparr>values_column_name = ''value'', der_order = 1\<rparr>)], no_wait_future = False\<rparr>"

theorem derivative_stream_witness:
  "\<exists>d' res. handle_vector (derivative_handle ref_arrow (calculateDerivative two_point_solve AUTO))
      (createDerivativeHandler example_derivative)
      [value_batch [(0, Fin 1), (1, Fin 3)], value_batch [(11, Fin 8), (10, Fin 5)], value_batch [(20, Fin 0)]] = (d', Inr res) \<and>
    concat (map (\<lambda>out. a_values (last (b_columns out))) res) = map (double_scalar \<circ> Fin) [2, 2, 3, 3]"
proof -
  let ?bs = "[value_batch [(0, Fin 1), (1, Fin 3)], value_batch [(11, Fin 8), (10, Fin 5)], value_batch [(20, Fin 0)]]"
  let ?ns = "\<lambda>r :: int \<times> double. fst r * 1000000000" let ?calc = "calculateDerivative two_point_solve AUTO"
  have names: "names_of example_derivative = {''value''}" by (simp add: example_derivative_def)
  have rows: "stream_rows value_rows fst ?bs = [(0, Fin 1), (1, Fin 3), (10, Fin 5), (11, Fin 8), (20, Fin 0)]" by simp
  have der: "derives ref_arrow example_derivative ?ns value_of (stream_rows value_rows fst ?bs)"
    unfolding rows by (simp add: derives_def timely_def example_derivative_def value_of_def smap_def)
  obtain d' res cbs where h: "handle_vector (derivative_handle ref_arrow ?calc) (createDerivativeHandler example_derivative) ?bs =
      (d', Inr res)"
    and cbs: "emitted example_derivative ?ns (stream_rows value_rows fst ?bs) = concat (map value_rows cbs)"
    and out: "derived_outputs ?calc example_derivative value_rows ?ns value_of (stream_rows value_rows fst ?bs) cbs res"
    using derivative_stream [of ref_arrow "''time''" value_good value_rows fst ?ns value_of example_derivative ?bs ?calc]
      value_derivative_laws der unfolding names by auto
  have cases: "derivative_cases example_derivative = [(''speed'', \<lparr>values_column_name = ''value'', der_order = 1\<rparr>)]"
    by (simp add: example_derivative_def)
  let ?S = "[(0, Fin 1), (1, Fin 3), (10, Fin 5), (11, Fin 8), (20, Fin 0)]" let ?o = example_derivative
  have o: "unit_time_segment ?o = 1000000000" "derivative_neighbourhood ?o = 2000000000"
    by (simp_all add: example_derivative_def)
  have q: "trunc_div t (unit_time_segment ?o) = t div 1000000000" if "0 \<le> t" for t
    using that by (cases "t = 0") (simp_all add: trunc_div_def o)
  have small: "0 \<le> t div 1000000000 \<and> t div 1000000000 \<le> 100" if "0 \<le> t" "t \<le> 100000000000" for t :: int
    using that zdiv_mono1 [of t 100000000000 1000000000] by (simp add: pos_imp_zdiv_nonneg_iff)
  have near: "reaches ?o t t' \<longleftrightarrow> (t div 1000000000 - t' div 1000000000) * 1000000000 \<le> 2000000000"
    if "0 \<le> t" "t \<le> 100000000000" "0 \<le> t'" "t' \<le> 100000000000" for t t'
  proof -
    have d: "\<bar>t div 1000000000 - t' div 1000000000\<bar> \<le> 100" using small [OF that(1,2)] small [OF that(3,4)] by linarith
    then have "\<bar>(t div 1000000000 - t' div 1000000000) * 1000000000\<bar> \<le> 100000000000" by (simp only: abs_mult) simp
    with d show ?thesis
      using reaches_exact [of t ?o t', unfolded q [OF that(1)] q [OF that(3)], unfolded o] small [OF that(1,2)] small [OF that(3,4)]
      by simp
  qed
  have pos: "position_time ?o t = Fin (of_int (t div 1000000000))" if "0 \<le> t" "t \<le> 100000000000" for t
    using small [OF that] round64_of_int [of "t div 1000000000"] by (simp add: position_time_def double_of_int_def q [OF that(1)])
  have em: "emitted ?o ?ns ?S = [(0, Fin 1), (1, Fin 3), (10, Fin 5), (11, Fin 8)]"
    using near by (simp add: settled_def)
  have "map (derivative_cell ?calc ?o ?ns value_of ?S \<lparr>values_column_name = ''value'', der_order = 1\<rparr>) (emitted ?o ?ns ?S) =
      map (double_scalar \<circ> Fin) [2, 2, 3, 3]"
  proof -
    have d: "?calc [Fin 0, Fin 1] [Fin 1, Fin 3] (Fin 0) 1 = Some (Fin 2)" "?calc [Fin 0, Fin 1] [Fin 1, Fin 3] (Fin 1) 1 = Some (Fin 2)"
      "?calc [Fin 10, Fin 11] [Fin 5, Fin 8] (Fin 10) 1 = Some (Fin 3)" "?calc [Fin 10, Fin 11] [Fin 5, Fin 8] (Fin 11) 1 = Some (Fin 3)"
      by code_simp+
    show ?thesis
      unfolding em using d by (simp add: derivative_cell_def neighbours_def near window_derivative_def valued_def value_of_def pos)
  qed
  then have "concat (map (\<lambda>out. a_values (last (b_columns out))) res) = map (double_scalar \<circ> Fin) [2, 2, 3, 3]"
    unfolding derived_cells [OF out cases] cbs [symmetric] rows .
  with h show ?thesis by blast
qed

section \<open>Points and record batches\<close>

lemma ref_value_laws: "value_laws ref_arrow"
  by (simp add: value_laws_def ref_arrow_def scalar_defs)




lemma ref_threshold_laws: "threshold_laws ref_arrow (\<lambda>t. t div 1000000000)"
  by (simp add: threshold_laws_def ref_value_laws) (simp add: ref_arrow_def scalar_defs)

text \<open>A point of a stream of values, at a time in seconds.\<close>

definition value_point :: "string \<Rightarrow> int \<Rightarrow> double \<Rightarrow> Point" where
  "value_point host t v = empty_point\<lparr>p_time := t * 1000000000, p_name := ''cpu'', p_group := ''host='' @ host,
     p_dimensions := [''host''], p_tags := [(''host'', host)], p_fieldsDouble := [(''value'', v)]\<rparr>"

text \<open>C8: The adaptive threshold function from end to end: the points of a stream, handed to the function
  one after the other, each with the watched field and without the field of the thresholds, are answered each
  by itself, with the fields it had and the threshold that a pure state machine of its group gives it; the
  machine of a group sees the points of that group only.\<close>

theorem threshold_function:
  assumes "threshold_laws A seconds" and "group_codec P" and "\<forall>p \<in> set ps. threshold_input udf_options options p"
    and "threshold_column_type options = FIELD"
  shows "snd (stream_points (threshold_point A P) ps (Some (threshold_storage A P options))) =
    (map ResponsePoint (threshold_answers udf_options options seconds (\<lambda>_. StateOK (default_threshold options)) ps), Inr ())"
  using threshold_points_answers [OF assms threshold_machines_start] by (auto simp: threshold_running_start)

theorem threshold_function_witness:
  "snd (stream_points (threshold_point ref_arrow group_proto)
      [value_point ''a'' 0 (Fin 12), value_point ''b'' 1 (Fin 9), value_point ''a'' 7 (Fin 13), value_point ''b'' 8 (Fin 9)]
      (Some (threshold_storage ref_arrow group_proto example_threshold))) =
   (map ResponsePoint
      [(value_point ''a'' 0 (Fin 12))\<lparr>p_fieldsDouble := [(''level'', Fin 10), (''value'', Fin 12)]\<rparr>,
       (value_point ''b'' 1 (Fin 9))\<lparr>p_fieldsDouble := [(''level'', Fin 10), (''value'', Fin 9)]\<rparr>,
       (value_point ''a'' 7 (Fin 13))\<lparr>p_fieldsDouble := [(''level'', Fin 15), (''value'', Fin 13)]\<rparr>,
       (value_point ''b'' 8 (Fin 9))\<lparr>p_fieldsDouble := [(''level'', Fin 10), (''value'', Fin 9)]\<rparr>], Inr ())"
proof -
  let ?ps = "[value_point ''a'' 0 (Fin 12), value_point ''b'' 1 (Fin 9), value_point ''a'' 7 (Fin 13), value_point ''b'' 8 (Fin 9)]"
  have inp: "\<forall>p \<in> set ?ps. threshold_input udf_options example_threshold p" by code_simp
  have "threshold_answers udf_options example_threshold (\<lambda>t. t div 1000000000) (\<lambda>_. StateOK (default_threshold example_threshold)) ?ps =
      [(value_point ''a'' 0 (Fin 12))\<lparr>p_fieldsDouble := [(''level'', Fin 10), (''value'', Fin 12)]\<rparr>,
       (value_point ''b'' 1 (Fin 9))\<lparr>p_fieldsDouble := [(''level'', Fin 10), (''value'', Fin 9)]\<rparr>,
       (value_point ''a'' 7 (Fin 13))\<lparr>p_fieldsDouble := [(''level'', Fin 15), (''value'', Fin 13)]\<rparr>,
       (value_point ''b'' 8 (Fin 9))\<lparr>p_fieldsDouble := [(''level'', Fin 10), (''value'', Fin 9)]\<rparr>]"
    by code_simp
  then show ?thesis
    using threshold_function [OF ref_threshold_laws codec_proto_laws(3) inp] by (simp add: example_threshold_def)
qed

section \<open>Servers\<close>

text \<open>C26: The lock files keep the servers of a process and of others apart: of the servers that are started
  no two listen on one path, and one that listens holds the lock on the lock file of its path, which nobody
  held before; locks that were held are kept.\<close>

theorem one_server_per_path:
  assumes "file_laws F path_of lock_of" and "start_servers F sys servers = (sys', servers')"
    and "\<forall>s \<in> set servers. \<not> listening s" and "\<forall>p fd. lock_of sys p = Some fd \<longrightarrow> path_of sys fd = Some p"
  shows "distinct (map socket_path (filter listening servers')) \<and>
    (\<forall>s \<in> set servers'. listening s \<longrightarrow> lock_of sys (socket_path s @ SOCKET_LOCK_FILE_SUFFIX) = None \<and>
       holds_lock path_of lock_of sys' (socket_path s) (socket_lock_fd s)) \<and>
    (\<forall>path fd. holds_lock path_of lock_of sys path fd \<longrightarrow> holds_lock path_of lock_of sys' path fd)"
  using servers_exclude [OF assms] by blast

theorem one_server_per_path_witness:
  "\<exists>sys' servers'. start_servers small_calls no_files [new_server 0 ''/a'', new_server 0 ''/a'', new_server 0 ''/b''] =
      (sys', servers' :: unit UnixSocketServer list) \<and>
    map listening servers' = [True, False, True] \<and> distinct (map socket_path (filter listening servers')) \<and>
    holds_lock small_path fs_locks sys' ''/a'' (socket_lock_fd (servers' ! 0))"
proof -
  let ?servers = "[new_server 0 ''/a'', new_server 0 ''/a'', new_server 0 ''/b''] :: unit UnixSocketServer list"
  obtain sys' servers' where s: "start_servers small_calls no_files ?servers = (sys', servers')" by force
  have l: "map listening (snd (start_servers small_calls no_files ?servers)) = [True, False, True]"
    "map socket_path (snd (start_servers small_calls no_files ?servers)) = [''/a'', ''/a'', ''/b'']"
    by code_simp+
  then have len: "length servers' = 3" "listening (servers' ! 0)" "socket_path (servers' ! 0) = ''/a''"
    unfolding s snd_conv by (auto dest: map_eq_Cons_D)
  then have "servers' ! 0 \<in> set servers'" by simp
  with one_server_per_path [OF small_laws s] len l s show ?thesis
    by (auto simp: new_server_def no_files_def)
qed

section \<open>Graphite lines\<close>

text \<open>C22: What a line of the Graphite protocol means: for a template with as many parts as the description
  of the line has, whose filter accepts it, the texts of the measurement parts, of the field parts and of
  the parts of each tag are joined with the separator; the additional tags of the template count only where
  the line has no such tag; without a field part the field is called value, and without a time the time
  stamp stays unset.\<close>

theorem graphite_line_meaning:
  assumes "\<forall>d \<in> set ds. CHR ''.'' \<notin> set d \<and> CHR '' '' \<notin> set d" "concatenateStrings ds ''.'' \<noteq> []"
    and "CHR '' '' \<notin> set v" and "length ds = length (parts t)"
    and "case template_filter t of None \<Rightarrow> True | Some matches \<Rightarrow> matches (concatenateStrings ds ''.'')"
    and "smap (additional_tags t)"
  shows "\<exists>m. buildMetric t (concatenateStrings ds ''.'' @ '' '' @ v) sep = Inr (Some (m, False)) \<and>
    measurement_name m = concatenateStrings (texts_of PART_MEASUREMENT (zip (parts t) ds)) sep \<and>
    m_fields m = [(if texts_of PART_FIELD (zip (parts t) ds) = [] then DEFAULT_FIELD_NAME
                   else concatenateStrings (texts_of PART_FIELD (zip (parts t) ds)) sep, v)] \<and>
    timestamp m = - 1 \<and> smap (m_tags m) \<and>
    (\<forall>k. map_of (m_tags m) k =
      (if tag_texts k (zip (parts t) ds) \<noteq> [] then Some (concatenateStrings (tag_texts k (zip (parts t) ds)) sep)
       else map_of (additional_tags t) k))"
  using assms by (rule graphite_line)

theorem graphite_line_meaning_witness:
  "\<exists>m. buildMetric \<lparr>template_filter = None,
         parts = [\<lparr>part_type = PART_TAG, part_id = ''host''\<rparr>, \<lparr>part_type = PART_MEASUREMENT, part_id = []\<rparr>,
                  \<lparr>part_type = PART_MEASUREMENT, part_id = []\<rparr>],
         additional_tags = [(''dc'', ''x''), (''host'', ''y'')], multiple_last_part = False\<rparr>
       ''a.cpu.load 1.5'' ''_'' = Inr (Some (m, False)) \<and>
     measurement_name m = ''cpu_load'' \<and> m_fields m = [(''value'', ''1.5'')] \<and>
     map_of (m_tags m) ''host'' = Some ''a'' \<and> map_of (m_tags m) ''dc'' = Some ''x''"
proof -
  let ?ps = "[\<lparr>part_type = PART_TAG, part_id = ''host''\<rparr>, \<lparr>part_type = PART_MEASUREMENT, part_id = []\<rparr>,
      \<lparr>part_type = PART_MEASUREMENT, part_id = []\<rparr>]"
  let ?t = "\<lparr>template_filter = None, parts = ?ps, additional_tags = [(''dc'', ''x''), (''host'', ''y'')],
      multiple_last_part = False\<rparr>"
  let ?zs = "zip (parts ?t) [''a'', ''cpu'', ''load'']"
  have s: "smap (additional_tags ?t)" by code_simp
  have ts: "concatenateStrings (texts_of PART_MEASUREMENT ?zs) ''_'' = ''cpu_load''" "texts_of PART_FIELD ?zs = []"
    "tag_texts ''host'' ?zs = [''a'']" "tag_texts ''dc'' ?zs = []" "concatenateStrings [''a''] ''_'' = ''a''" by code_simp+
  obtain m where "buildMetric ?t (concatenateStrings [''a'', ''cpu'', ''load''] ''.'' @ '' '' @ ''1.5'') ''_'' = Inr (Some (m, False))"
    "measurement_name m = ''cpu_load''" "m_fields m = [(DEFAULT_FIELD_NAME, ''1.5'')]"
    "map_of (m_tags m) k =
      (if tag_texts k ?zs \<noteq> [] then Some (concatenateStrings (tag_texts k ?zs) ''_'') else map_of (additional_tags ?t) k)" for k
    using graphite_line_meaning [of "[''a'', ''cpu'', ''load'']" "''1.5''" ?t "''_''", OF _ _ _ _ _ s] unfolding ts by auto
  then show ?thesis using ts(3-5) by (intro exI [of _ m]) (simp add: DEFAULT_FIELD_NAME_def)
qed

text \<open>C23: A Graphite parser that could be built from its templates throws on no buffer: the exceptions of
  \<open>buildMetric\<close> cannot be reached, since the constructor of a template establishes what they test for; and it
  keeps its templates, so that this holds for every later buffer too.\<close>

theorem graphite_no_exception:
  assumes "new_graphite_parser regex templates tc sep mc = Inr p0" and "gp_templates p = gp_templates p0"
  shows "\<exists>p' errno' r. graphite_parseRecordBatches A clock buffer (p, errno) = ((p', errno'), Inr r) \<and>
    gp_templates p' = gp_templates p0"
  using assms by (rule graphite_returns)

theorem graphite_no_exception_witness:
  "\<exists>p p' errno' r. new_graphite_parser (\<lambda>_. None) [''host.measurement* dc=x''] ''time'' ''.'' ''name'' = Inr p \<and>
     graphite_parseRecordBatches ref_arrow (\<lambda>_. 0) ''a.b.c 1'' (p, False) = ((p', errno'), Inr r) \<and>
     gp_templates p' = gp_templates p"
proof -
  have "\<not> isl (new_graphite_parser (\<lambda>_. None) [''host.measurement* dc=x''] ''time'' ''.'' ''name'')" by code_simp
  then obtain p where p: "new_graphite_parser (\<lambda>_. None) [''host.measurement* dc=x''] ''time'' ''.'' ''name'' = Inr p"
    by (auto simp: isl_def) (metis sum.exhaust)
  from graphite_no_exception [OF p refl] p show ?thesis by blast
qed

text \<open>C24: \<open>determineFieldType\<close> tests \<open>errno\<close>, which nothing in the parser clears: once it holds
  \<open>ERANGE\<close>, every field with a value other than the text 0 becomes a column of strings, for good.\<close>

theorem graphite_stale_errno:
  assumes "determine_columns metrics True = (tags, types, errno)"
  shows "errno \<and> map_of types k =
    (let vs = concat (map (\<lambda>m. map snd (filter (\<lambda>f. fst f = k) (m_fields m))) metrics) in
     if vs = [] then None else if list_all (\<lambda>v. v = ''0'') vs then Some INT64 else Some STRING)"
  using assms by (rule determine_columns_stale)

theorem graphite_stale_errno_witness:
  "map_of (fst (snd (determine_columns
     [\<lparr>measurement_name = ''a'', m_tags = [], m_fields = [(''v'', ''1''), (''w'', ''0'')], timestamp = 5\<rparr>] True))) ''v'' =
    Some STRING"
proof -
  obtain tags types errno where d: "determine_columns
      [\<lparr>measurement_name = ''a'', m_tags = [], m_fields = [(''v'', ''1''), (''w'', ''0'')], timestamp = 5\<rparr>] True =
      (tags, types, errno)" by (metis prod_cases3)
  show ?thesis using graphite_stale_errno [OF d, of "''v''"] by (simp add: d)
qed

section \<open>Connected nodes\<close>








text \<open>C18: A TCP producer hands the messages of a chunk to its node one by one, as they were before the TCP
  consumer put their lengths in front, if the chunk ends with a message.\<close>

theorem tcp_messages:
  assumes "\<forall>m \<in> set ms. length m < 10 ^ 10" and "length (concat (map (encode_message False) ms)) < 2 ^ 64"
    and "\<forall>s m. snd (node s m) = Done"
  shows "tcp_handleData node False (concat (map (encode_message False) ms)) (s, False) = ((node_run node ms s, False), Done)"
  using assms by (rule tcp_handleData_wrapped)

theorem tcp_messages_witness:
  "tcp_handleData (\<lambda>s d. (s @ [d], Done)) False ''0000000002ab00000000000000000001c'' ([], False) =
    (([''ab'', [], ''c''], False), Done)"
proof -
  have e: "concat (map (encode_message False) [''ab'', [], ''c'']) = ''0000000002ab00000000000000000001c''" by code_simp
  show ?thesis using tcp_messages [of "[''ab'', [], ''c'']" "\<lambda>s d. (s @ [d], Done)" "[]"]
    unfolding e by (simp add: node_run_def)
qed

text \<open>C19: A chunk of the byte stream that ends within a message makes the producer read beyond its end,
  wherever in the message it ends: the producer keeps nothing from one chunk to the next.\<close>

theorem tcp_cut_message:
  assumes "\<forall>m' \<in> set (m # ms). length m' < 10 ^ 10" and "encode_message False m = c @ c'" and "c \<noteq> []" and "c' \<noteq> []"
    and "length (concat (map (encode_message False) (ms @ [m]))) < 2 ^ 64" and "\<forall>s m. snd (node s m) = Done"
  shows "snd (tcp_handleData node False (concat (map (encode_message False) ms) @ c) (s, False)) = Fault UndefinedBehaviour"
  using assms by (rule tcp_handleData_cut)

theorem tcp_cut_message_witness:
  "snd (tcp_handleData (\<lambda>s d. (s @ [d], Done)) False ''0000000001a0000000002b'' ([], False)) = Fault UndefinedBehaviour"
proof -
  have e: "concat (map (encode_message False) [''a'']) = ''0000000001a''" "encode_message False ''bc'' = ''0000000002b'' @ ''c''"
    "concat (map (encode_message False) ([''a''] @ [''bc''])) = ''0000000001a0000000002bc''" by code_simp+
  show ?thesis using tcp_cut_message [of "''bc''" "[''a'']" "''0000000002b''" "''c''" "\<lambda>s d. (s @ [d], Done)" "[]"]
    unfolding e by simp
qed

text \<open>C20: A peer can keep the producer from ever returning: the size -10 takes the offset of
  \<open>splitMessage\<close>, an unsigned number, back to where it was.\<close>

theorem tcp_negative_size:
  assumes "take 10 chunk = ''-000000010''"
  shows "tcp_handleData node False chunk (s, False) = ((s, False), Fault NoReturn)"
  by (simp add: tcp_handleData_def splitMessage_minus_ten [OF assms])

theorem tcp_negative_size_witness:
  "tcp_handleData (\<lambda>s d. (s @ [d], Done)) False ''-000000010'' ([], False) = (([], False), Fault NoReturn)"
  using tcp_negative_size [of "''-000000010''"] by simp

text \<open>C21: A handler in a node of its own, behind the serialisation, works as if it was called for one batch
  after the other: it goes through the same states, and every consumer of the node gets the serialised results
  in order, except those of the batches for which it fails.\<close>

theorem remote_handler:
  assumes "ipc_laws I valid" and "list_all valid bs" and "serializeRecordBatches I bs = Inr ss"
    and "no_fault C" and "\<forall>s b e. snd (h s [b]) = Inl e \<longrightarrow> \<not> abnormal e"
    and "\<forall>s b rs. snd (h s [b]) = Inr rs \<longrightarrow> list_all valid rs"
  shows "\<exists>out. serializeRecordBatches I (remote_results h (node_data_handler node) bs) = Inr out \<and>
    node_run (node_handleData (serialized_handle I h) C) ss node =
      \<lparr>node_data_handler = foldl (\<lambda>s b. fst (h s [b])) (node_data_handler node) bs,
       node_consumers = map (\<lambda>c. consume_all C c out) (node_consumers node)\<rparr>"
  using remote_consumers [OF assms, of node] remote_states [OF assms(1-3), of h C node] by auto

theorem remote_handler_witness:
  "node_run (node_handleData (serialized_handle
       \<lparr>write_stream = (\<lambda>_. Inr ''s''), read_stream = (\<lambda>_. Inr [ts_batch [1]]), read_csv = (\<lambda>_ _. Inl Invalid)\<rparr>
       (\<lambda>n bs. (Suc n, if n = 1 then Inl Invalid else Inr [ts_batch [1]])))
       \<lparr>consumer_start = (\<lambda>c. (c, Done)), consume = (\<lambda>c d. (c @ [d], Done)), consumer_stop = (\<lambda>c. (c, Done))\<rparr>)
     [''s'', ''s'', ''s''] \<lparr>node_data_handler = 0, node_consumers = [[]]\<rparr> =
   \<lparr>node_data_handler = 3, node_consumers = [[''s'', ''s'']]\<rparr>"
proof -
  let ?I = "\<lparr>write_stream = (\<lambda>_. Inr ''s''), read_stream = (\<lambda>_. Inr [ts_batch [1]]), read_csv = (\<lambda>_ _. Inl Invalid)\<rparr> :: io_lib"
  let ?h = "\<lambda>n bs. (Suc n, if n = 1 then Inl Invalid else Inr [ts_batch [1]])"
  let ?C = "\<lparr>consumer_start = (\<lambda>c. (c, Done)), consume = (\<lambda>c d. (c @ [d], Done)), consumer_stop = (\<lambda>c. (c, Done))\<rparr> :: string list Consumer"
  let ?bs = "[ts_batch [1], ts_batch [1], ts_batch [1]]"
  have "ipc_laws ?I (\<lambda>b. b = ts_batch [1])" by (simp add: ipc_laws_def)
  moreover have s: "serializeRecordBatches ?I xs = Inr (map (\<lambda>_. ''s'') xs)" for xs
    by (induction xs) (simp_all add: serializeRecordBatches_def)
  moreover have "no_fault ?C" by (simp add: no_fault_def)
  moreover have "remote_results ?h 0 ?bs = [ts_batch [1], ts_batch [1]]"
    by (simp add: remote_results_def upt_rec numeral_2_eq_2)
  moreover have "\<forall>s b e. snd (?h s [b]) = Inl e \<longrightarrow> \<not> abnormal e" by (auto simp: abnormal_def split: if_splits)
  moreover have "\<forall>s b rs. snd (?h s [b]) = Inr rs \<longrightarrow> list_all (\<lambda>b. b = ts_batch [1]) rs" by (auto split: if_splits)
  ultimately show ?thesis
    using remote_handler [of ?I "\<lambda>b. b = ts_batch [1]" ?bs "[''s'', ''s'', ''s'']" ?C ?h "\<lparr>node_data_handler = 0, node_consumers = [[]]\<rparr>"]
    by (simp add: consume_all_def numeral_3_eq_3)
qed

end
